(* ===== verification/Prelude.thy ===== *)
theory Prelude
  imports Complex_Main "HOL-Library.AList"
begin

text \<open>
  Types, small executable helpers and lemmas every component shares.

  \<^item> Identifiers (\<open>UUID\<close>) are only ever compared, so they are natural numbers.
  \<^item> A \<open>datetime\<close> is an integer number of microseconds since the Unix epoch, which is the
    resolution Python's \<open>datetime\<close> has; \<open>total_seconds\<close> divides by a million.
  \<^item> A Python \<open>float\<close> is an exact real number: rounding of binary floating point, NaN and
    the infinities are outside the model.  \<open>round(x, n)\<close> and the format \<open>:.nf\<close> are
    modelled on it, with ties to even.
  \<^item> A \<open>str\<close> is a list of characters, one per code point, so \<open>length\<close> is \<open>len\<close>.
  \<^item> A \<open>dict\<close> whose iteration order matters is an association list; \<open>AList.update\<close> replaces
    a value in place and appends a new key, exactly as assignment to a Python dict does.
\<close>

named_theorems model_simps \<open>unfolding rules of the small helper definitions\<close>
named_theorems frame_simps \<open>fields an operation leaves alone\<close>

type_synonym uuid = nat
type_synonym datetime = int

definition total_seconds :: "int \<Rightarrow> real" where
  "total_seconds us = of_int us / 1000000"

lemma total_seconds_nonneg [simp]: "0 \<le> total_seconds us \<longleftrightarrow> 0 \<le> us"
  by (simp add: total_seconds_def)

lemma total_seconds_add: "total_seconds (a + b) = total_seconds a + total_seconds b"
  by (simp add: total_seconds_def add_divide_distrib)

lemma total_seconds_mono: "a \<le> b \<Longrightarrow> total_seconds a \<le> total_seconds b"
  by (simp add: total_seconds_def divide_right_mono)

lemma total_seconds_0 [simp]: "total_seconds 0 = 0"
  by (simp add: total_seconds_def)

section \<open>Rounding\<close>

definition round_half_even :: "real \<Rightarrow> int" where
  "round_half_even x =
     (let f = \<lfloor>x\<rfloor>; d = x - of_int f
      in if d < 1/2 then f else if d > 1/2 then f + 1 else if even f then f else f + 1)"

definition round_to :: "nat \<Rightarrow> real \<Rightarrow> real" where
  "round_to n x = of_int (round_half_even (x * 10 ^ n)) / 10 ^ n"

lemma round_half_even_of_int [simp]: "round_half_even (of_int k) = k"
  by (simp add: round_half_even_def)

lemma round_half_even_error: "\<bar>of_int (round_half_even x) - x\<bar> \<le> 1/2"
  unfolding round_half_even_def Let_def abs_le_iff by (auto split: if_splits) linarith+

lemma round_half_even_nonneg: "0 \<le> x \<Longrightarrow> 0 \<le> round_half_even x"
  by (auto simp: round_half_even_def Let_def)

lemma round_half_even_mono: "x \<le> y \<Longrightarrow> round_half_even x \<le> round_half_even y"
proof (rule ccontr)
  assume le: "x \<le> y" and "\<not> round_half_even x \<le> round_half_even y"
  then have gt: "round_half_even y + 1 \<le> round_half_even x" by simp
  then have gt': "of_int (round_half_even y) + 1 \<le> (of_int (round_half_even x) :: real)" by linarith
  from round_half_even_error[of x] round_half_even_error[of y] le gt'
  have "y = x" by linarith
  with gt show False by simp
qed

lemma round_to_nonneg: "0 \<le> x \<Longrightarrow> 0 \<le> round_to n x"
  by (simp add: round_to_def round_half_even_nonneg)

lemma round_to_mono: "x \<le> y \<Longrightarrow> round_to n x \<le> round_to n y"
  by (simp add: round_to_def divide_right_mono round_half_even_mono mult_right_mono)

lemma round_to_grid [simp]: "round_to n (of_int k / 10 ^ n) = of_int k / 10 ^ n"
  by (simp add: round_to_def)

section \<open>Numbers as text\<close>

definition digit_char :: "nat \<Rightarrow> char" where
  "digit_char d = char_of (48 + d)"

fun show_nat :: "nat \<Rightarrow> string" where
  "show_nat n = (if n < 10 then [digit_char n] else show_nat (n div 10) @ [digit_char (n mod 10)])"

declare show_nat.simps [simp del]

definition show_int :: "int \<Rightarrow> string" where
  "show_int i = (if i < 0 then ''-'' @ show_nat (nat (- i)) else show_nat (nat i))"

text \<open>The format \<open>:.0f\<close> and \<open>:.2f\<close> of a non-negative float.\<close>

definition fmt_0f :: "real \<Rightarrow> string" where
  "fmt_0f x = show_int (round_half_even x)"

definition fmt_2f :: "real \<Rightarrow> string" where
  "fmt_2f x =
     (let n = nat (round_half_even (x * 100))
      in show_nat (n div 100) @ ''.'' @ [digit_char (n div 10 mod 10), digit_char (n mod 10)])"

lemma show_nat_nonempty [simp]: "show_nat n \<noteq> []"
  by (subst show_nat.simps) simp

lemma length_show_nat: "0 < k \<Longrightarrow> n < 10 ^ k \<Longrightarrow> length (show_nat n) \<le> k"
proof (induction k arbitrary: n)
  case 0
  then show ?case by simp
next
  case (Suc k)
  show ?case
  proof (cases "n < 10")
    case True
    then show ?thesis by (subst show_nat.simps) simp
  next
    case False
    with Suc.prems have "n div 10 < 10 ^ k" and "0 < k"
      by (auto simp: less_mult_imp_div_less mult.commute intro: ccontr)
    with Suc.IH False show ?thesis by (subst show_nat.simps) simp
  qed
qed

section \<open>Character classes and string helpers\<close>

definition is_lower :: "char \<Rightarrow> bool" where
  "is_lower c \<longleftrightarrow> 97 \<le> (of_char c :: nat) \<and> (of_char c :: nat) \<le> 122"

definition is_upper :: "char \<Rightarrow> bool" where
  "is_upper c \<longleftrightarrow> 65 \<le> (of_char c :: nat) \<and> (of_char c :: nat) \<le> 90"

definition is_digit :: "char \<Rightarrow> bool" where
  "is_digit c \<longleftrightarrow> 48 \<le> (of_char c :: nat) \<and> (of_char c :: nat) \<le> 57"

text \<open>Python's \<open>str.isspace\<close> and \<open>str.lower\<close> on the code points below 256.\<close>

definition is_space :: "char \<Rightarrow> bool" where
  "is_space c \<longleftrightarrow> (of_char c :: nat) \<in> {9, 10, 11, 12, 13, 28, 29, 30, 31, 32, 133, 160}"

definition lower_char :: "char \<Rightarrow> char" where
  "lower_char c =
     (let n = (of_char c :: nat)
      in if 65 \<le> n \<and> n \<le> 90 \<or> 192 \<le> n \<and> n \<le> 222 \<and> n \<noteq> 215 then char_of (n + 32) else c)"

definition str_lower :: "string \<Rightarrow> string" where
  "str_lower s = map lower_char s"

definition str_strip :: "string \<Rightarrow> string" where
  "str_strip s = rev (dropWhile is_space (rev (dropWhile is_space s)))"

definition starts_with :: "string \<Rightarrow> string \<Rightarrow> bool" where
  "starts_with p s \<longleftrightarrow> take (length p) s = p"

definition ends_with :: "string \<Rightarrow> string \<Rightarrow> bool" where
  "ends_with p s \<longleftrightarrow> starts_with (rev p) (rev s)"

lemma lower_char_idem [simp]: "lower_char (lower_char c) = lower_char c"
proof -
  have "(of_char c :: nat) < 256" by simp
  then show ?thesis by (auto simp: lower_char_def Let_def)
qed

lemma lower_char_space [simp]: "is_space (lower_char c) \<longleftrightarrow> is_space c"
proof -
  have "(of_char c :: nat) < 256" by simp
  then show ?thesis by (auto simp: lower_char_def is_space_def Let_def)
qed

lemma str_lower_idem [simp]: "str_lower (str_lower s) = str_lower s"
  by (simp add: str_lower_def)

lemma length_str_lower [simp]: "length (str_lower s) = length s"
  by (simp add: str_lower_def)

lemma dropWhile_idem [simp]: "dropWhile p (dropWhile p xs) = dropWhile p xs"
  by (induction xs) auto

lemma dropWhile_map_lower: "dropWhile is_space (map lower_char s) = map lower_char (dropWhile is_space s)"
  by (induction s) auto

lemma str_strip_lower: "str_strip (str_lower s) = str_lower (str_strip s)"
  by (simp add: str_strip_def str_lower_def dropWhile_map_lower rev_map)

lemma dropWhile_no_head: "xs = [] \<or> \<not> p (hd xs) \<Longrightarrow> dropWhile p xs = xs"
  by (cases xs) auto

lemma hd_rev_dropWhile_rev:
  assumes "xs = [] \<or> \<not> p (hd xs)"
  shows "rev (dropWhile p (rev xs)) = [] \<or> \<not> p (hd (rev (dropWhile p (rev xs))))"
proof (cases xs)
  case (Cons x ys)
  with assms have "\<not> p x" by simp
  then have "rev (dropWhile p (rev ys @ [x])) = x # rev (dropWhile p (rev ys)) \<or>
      rev (dropWhile p (rev ys @ [x])) = [x]"
    by (simp add: dropWhile_append)
  with Cons \<open>\<not> p x\<close> show ?thesis by auto
qed simp

lemma str_strip_idem [simp]: "str_strip (str_strip s) = str_strip s"
proof -
  let ?a = "dropWhile is_space s"
  have "?a = [] \<or> \<not> is_space (hd ?a)" using hd_dropWhile by blast
  then have "dropWhile is_space (str_strip s) = str_strip s"
    unfolding str_strip_def by (intro dropWhile_no_head hd_rev_dropWhile_rev)
  then show ?thesis by (simp add: str_strip_def)
qed

lemma str_strip_id: "\<forall>c \<in> set s. \<not> is_space c \<Longrightarrow> str_strip s = s"
proof -
  assume s: "\<forall>c \<in> set s. \<not> is_space c"
  have "dropWhile is_space xs = xs" if "set xs \<subseteq> set s" for xs using s that by (cases xs) auto
  then show ?thesis by (simp add: str_strip_def)
qed

lemma length_str_strip: "length (str_strip s) \<le> length s"
  unfolding str_strip_def by (metis length_dropWhile_le length_rev order_trans)

lemma set_str_strip: "set (str_strip s) \<subseteq> set s"
  by (auto simp: str_strip_def dest!: set_dropWhileD)

text \<open>\<open>list(dict.fromkeys(xs))\<close>: each value once, at its first position.\<close>

fun dict_fromkeys_from :: "'a list \<Rightarrow> 'a list \<Rightarrow> 'a list" where
  "dict_fromkeys_from seen [] = []"
| "dict_fromkeys_from seen (x # xs) =
     (if x \<in> set seen then dict_fromkeys_from seen xs else x # dict_fromkeys_from (x # seen) xs)"

definition dict_fromkeys :: "'a list \<Rightarrow> 'a list" where
  "dict_fromkeys xs = dict_fromkeys_from [] xs"

lemma set_dict_fromkeys_from: "set (dict_fromkeys_from seen xs) = set xs - set seen"
  by (induction seen xs rule: dict_fromkeys_from.induct) auto

lemma distinct_dict_fromkeys_from: "distinct (dict_fromkeys_from seen xs)"
  by (induction seen xs rule: dict_fromkeys_from.induct) (auto simp: set_dict_fromkeys_from)

lemma set_dict_fromkeys [simp]: "set (dict_fromkeys xs) = set xs"
  by (simp add: dict_fromkeys_def set_dict_fromkeys_from)

lemma distinct_dict_fromkeys [simp]: "distinct (dict_fromkeys xs)"
  by (simp add: dict_fromkeys_def distinct_dict_fromkeys_from)

lemma dict_fromkeys_from_distinct:
  "distinct xs \<Longrightarrow> set xs \<inter> set seen = {} \<Longrightarrow> dict_fromkeys_from seen xs = xs"
  by (induction seen xs rule: dict_fromkeys_from.induct) auto

lemma dict_fromkeys_id: "distinct xs \<Longrightarrow> dict_fromkeys xs = xs"
  by (simp add: dict_fromkeys_def dict_fromkeys_from_distinct)

fun str_join :: "string \<Rightarrow> string list \<Rightarrow> string" where
  "str_join sep [] = []"
| "str_join sep [x] = x"
| "str_join sep (x # y # xs) = x @ sep @ str_join sep (y # xs)"

lemma length_str_join:
  "length (str_join sep xs) = sum_list (map length xs) + length sep * (length xs - 1)"
  by (induction sep xs rule: str_join.induct) auto

lemma sum_list_map_bound:
  fixes f :: "'a \<Rightarrow> nat"
  shows "\<forall>x \<in> set xs. f x \<le> n \<Longrightarrow> sum_list (map f xs) \<le> length xs * n"
  by (induction xs) (auto simp: add_mono)

section \<open>Insertion-ordered dictionaries\<close>

definition set_default :: "'k \<Rightarrow> 'v \<Rightarrow> ('k \<times> 'v) list \<Rightarrow> ('k \<times> 'v) list" where
  "set_default k v m = (case map_of m k of None \<Rightarrow> m @ [(k, v)] | Some _ \<Rightarrow> m)"

lemma map_of_set_default:
  "map_of (set_default k v m) = (case map_of m k of None \<Rightarrow> (map_of m)(k \<mapsto> v) | Some _ \<Rightarrow> map_of m)"
  by (auto simp: set_default_def fun_eq_iff map_add_def split: option.splits)

lemma keys_set_default:
  "map fst (set_default k v m) = map fst m @ (if k \<in> set (map fst m) then [] else [k])"
proof (cases "map_of m k")
  case None
  then have "k \<notin> set (map fst m)" by (simp add: map_of_eq_None_iff)
  with None show ?thesis by (simp add: set_default_def)
next
  case (Some w)
  then have "k \<in> set (map fst m)" by (force dest: map_of_SomeD)
  with Some show ?thesis by (simp add: set_default_def)
qed

lemma distinct_set_default:
  "distinct (map fst m) \<Longrightarrow> distinct (map fst (set_default k v m))"
  by (simp add: keys_set_default)

end
