(* ===== verification/Enums.thy ===== *)
theory Enums
  imports Prelude
begin

text \<open>
  The closed vocabularies of \<open>app/core/enums.py\<close>: one datatype per \<open>StrEnum\<close>, its
  \<open>value\<close> and its members in declaration order.  The locale \<open>str_enum\<close> is what the rest of the
  code relies on when it writes \<open>E(text)\<close>: the lookup by value finds exactly the member whose value
  it was given and refuses every other text.  It is interpreted on each vocabulary.
\<close>

section \<open>Looking a member up by its value\<close>

definition enum_of :: "'e list \<Rightarrow> ('e \<Rightarrow> string) \<Rightarrow> string \<Rightarrow> 'e option" where
  "enum_of members val text = find (\<lambda>e. val e = text) members"

locale str_enum =
  fixes members :: "'e list"
    and val :: "'e \<Rightarrow> string"
  assumes members_all [simp]: "e \<in> set members"
    and val_distinct: "distinct (map val members)"
begin

lemma val_inj: "val a = val b \<Longrightarrow> a = b"
  using val_distinct by (auto simp: distinct_map dest: inj_onD)

lemma of_val: "enum_of members val (val e) = Some e"
proof -
  have "find (\<lambda>x. val x = val e) members \<noteq> None" by (auto simp: find_None_iff)
  then obtain d where d: "find (\<lambda>x. val x = val e) members = Some d" by auto
  then have "val d = val e" by (auto simp: find_Some_iff)
  with d show ?thesis by (simp add: enum_of_def val_inj)
qed

lemma of_val_iff: "enum_of members val text = Some e \<longleftrightarrow> val e = text"
  by (auto simp: of_val) (auto simp: enum_of_def find_Some_iff)

lemma of_val_None: "enum_of members val text = None \<longleftrightarrow> text \<notin> range val"
  by (auto simp: enum_of_def find_None_iff)

end

section \<open>The vocabularies\<close>

datatype ResearchMode =
  QUICK | DEEP | CONVERSATIONAL

fun ResearchMode_value :: "ResearchMode \<Rightarrow> string" where
  "ResearchMode_value ResearchMode.QUICK = ''quick''"
| "ResearchMode_value ResearchMode.DEEP = ''deep''"
| "ResearchMode_value ResearchMode.CONVERSATIONAL = ''conversational''"

definition ResearchMode_members :: "ResearchMode list" where
  "ResearchMode_members =
     [ResearchMode.QUICK,
      ResearchMode.DEEP,
      ResearchMode.CONVERSATIONAL]"

interpretation ResearchModeE: str_enum ResearchMode_members ResearchMode_value
proof
  show "e \<in> set ResearchMode_members" for e
    by (cases e) (simp_all add: ResearchMode_members_def)
  show "distinct (map ResearchMode_value ResearchMode_members)"
    by (simp add: ResearchMode_members_def)
qed

datatype RunStatus =
    QUEUED
  | PLANNING
  | RESEARCHING
  | VERIFYING
  | SYNTHESIZING
  | VALIDATING
  | PAUSED
  | COMPLETED
  | FAILED
  | CANCELLED

fun RunStatus_value :: "RunStatus \<Rightarrow> string" where
  "RunStatus_value RunStatus.QUEUED = ''queued''"
| "RunStatus_value RunStatus.PLANNING = ''planning''"
| "RunStatus_value RunStatus.RESEARCHING = ''researching''"
| "RunStatus_value RunStatus.VERIFYING = ''verifying''"
| "RunStatus_value RunStatus.SYNTHESIZING = ''synthesizing''"
| "RunStatus_value RunStatus.VALIDATING = ''validating''"
| "RunStatus_value RunStatus.PAUSED = ''paused''"
| "RunStatus_value RunStatus.COMPLETED = ''completed''"
| "RunStatus_value RunStatus.FAILED = ''failed''"
| "RunStatus_value RunStatus.CANCELLED = ''cancelled''"

definition RunStatus_members :: "RunStatus list" where
  "RunStatus_members =
     [RunStatus.QUEUED,
      RunStatus.PLANNING,
      RunStatus.RESEARCHING,
      RunStatus.VERIFYING,
      RunStatus.SYNTHESIZING,
      RunStatus.VALIDATING,
      RunStatus.PAUSED,
      RunStatus.COMPLETED,
      RunStatus.FAILED,
      RunStatus.CANCELLED]"

interpretation RunStatusE: str_enum RunStatus_members RunStatus_value
proof
  show "e \<in> set RunStatus_members" for e
    by (cases e) (simp_all add: RunStatus_members_def)
  show "distinct (map RunStatus_value RunStatus_members)"
    by (simp add: RunStatus_members_def)
qed

datatype ResearchEventType =
    RESEARCH_STARTED
  | PLANNER_STARTED
  | PLANNER_COMPLETED
  | SUBTASK_STARTED
  | SEARCH_STARTED
  | SOURCE_FOUND
  | SOURCE_PROCESSED
  | SOURCES_PROGRESS
  | CLAIM_EXTRACTED
  | EVIDENCE_PROGRESS
  | VERIFICATION_STARTED
  | CONTRADICTION_FOUND
  | CRITIC_STARTED
  | ADDITIONAL_RESEARCH_REQUESTED
  | ITERATION_STARTED
  | ANSWER_STARTED
  | ANSWER_DELTA
  | ANSWER_COMPLETED
  | SYNTHESIS_STARTED
  | CITATION_CHECK
  | REPORT_COMPLETED
  | RESEARCH_FAILED
  | RESEARCH_CANCELLED

fun ResearchEventType_value :: "ResearchEventType \<Rightarrow> string" where
  "ResearchEventType_value ResearchEventType.RESEARCH_STARTED = ''research_started''"
| "ResearchEventType_value ResearchEventType.PLANNER_STARTED = ''planner_started''"
| "ResearchEventType_value ResearchEventType.PLANNER_COMPLETED = ''planner_completed''"
| "ResearchEventType_value ResearchEventType.SUBTASK_STARTED = ''subtask_started''"
| "ResearchEventType_value ResearchEventType.SEARCH_STARTED = ''search_started''"
| "ResearchEventType_value ResearchEventType.SOURCE_FOUND = ''source_found''"
| "ResearchEventType_value ResearchEventType.SOURCE_PROCESSED = ''source_processed''"
| "ResearchEventType_value ResearchEventType.SOURCES_PROGRESS = ''sources_progress''"
| "ResearchEventType_value ResearchEventType.CLAIM_EXTRACTED = ''claim_extracted''"
| "ResearchEventType_value ResearchEventType.EVIDENCE_PROGRESS = ''evidence_progress''"
| "ResearchEventType_value ResearchEventType.VERIFICATION_STARTED = ''verification_started''"
| "ResearchEventType_value ResearchEventType.CONTRADICTION_FOUND = ''contradiction_found''"
| "ResearchEventType_value ResearchEventType.CRITIC_STARTED = ''critic_started''"
| "ResearchEventType_value ResearchEventType.ADDITIONAL_RESEARCH_REQUESTED = ''additional_research_requested''"
| "ResearchEventType_value ResearchEventType.ITERATION_STARTED = ''iteration_started''"
| "ResearchEventType_value ResearchEventType.ANSWER_STARTED = ''answer_started''"
| "ResearchEventType_value ResearchEventType.ANSWER_DELTA = ''answer_delta''"
| "ResearchEventType_value ResearchEventType.ANSWER_COMPLETED = ''answer_completed''"
| "ResearchEventType_value ResearchEventType.SYNTHESIS_STARTED = ''synthesis_started''"
| "ResearchEventType_value ResearchEventType.CITATION_CHECK = ''citation_check''"
| "ResearchEventType_value ResearchEventType.REPORT_COMPLETED = ''report_completed''"
| "ResearchEventType_value ResearchEventType.RESEARCH_FAILED = ''research_failed''"
| "ResearchEventType_value ResearchEventType.RESEARCH_CANCELLED = ''research_cancelled''"

definition ResearchEventType_members :: "ResearchEventType list" where
  "ResearchEventType_members =
     [ResearchEventType.RESEARCH_STARTED,
      ResearchEventType.PLANNER_STARTED,
      ResearchEventType.PLANNER_COMPLETED,
      ResearchEventType.SUBTASK_STARTED,
      ResearchEventType.SEARCH_STARTED,
      ResearchEventType.SOURCE_FOUND,
      ResearchEventType.SOURCE_PROCESSED,
      ResearchEventType.SOURCES_PROGRESS,
      ResearchEventType.CLAIM_EXTRACTED,
      ResearchEventType.EVIDENCE_PROGRESS,
      ResearchEventType.VERIFICATION_STARTED,
      ResearchEventType.CONTRADICTION_FOUND,
      ResearchEventType.CRITIC_STARTED,
      ResearchEventType.ADDITIONAL_RESEARCH_REQUESTED,
      ResearchEventType.ITERATION_STARTED,
      ResearchEventType.ANSWER_STARTED,
      ResearchEventType.ANSWER_DELTA,
      ResearchEventType.ANSWER_COMPLETED,
      ResearchEventType.SYNTHESIS_STARTED,
      ResearchEventType.CITATION_CHECK,
      ResearchEventType.REPORT_COMPLETED,
      ResearchEventType.RESEARCH_FAILED,
      ResearchEventType.RESEARCH_CANCELLED]"

interpretation ResearchEventTypeE: str_enum ResearchEventType_members ResearchEventType_value
proof
  show "e \<in> set ResearchEventType_members" for e
    by (cases e) (simp_all add: ResearchEventType_members_def)
  show "distinct (map ResearchEventType_value ResearchEventType_members)"
    by (simp add: ResearchEventType_members_def)
qed

datatype TaskStatus =
  PENDING | RESEARCHING | DONE | INSUFFICIENT

fun TaskStatus_value :: "TaskStatus \<Rightarrow> string" where
  "TaskStatus_value TaskStatus.PENDING = ''pending''"
| "TaskStatus_value TaskStatus.RESEARCHING = ''researching''"
| "TaskStatus_value TaskStatus.DONE = ''done''"
| "TaskStatus_value TaskStatus.INSUFFICIENT = ''insufficient''"

definition TaskStatus_members :: "TaskStatus list" where
  "TaskStatus_members =
     [TaskStatus.PENDING,
      TaskStatus.RESEARCHING,
      TaskStatus.DONE,
      TaskStatus.INSUFFICIENT]"

interpretation TaskStatusE: str_enum TaskStatus_members TaskStatus_value
proof
  show "e \<in> set TaskStatus_members" for e
    by (cases e) (simp_all add: TaskStatus_members_def)
  show "distinct (map TaskStatus_value TaskStatus_members)"
    by (simp add: TaskStatus_members_def)
qed

datatype TaskPriority =
  HIGH | MEDIUM | LOW

fun TaskPriority_value :: "TaskPriority \<Rightarrow> string" where
  "TaskPriority_value TaskPriority.HIGH = ''high''"
| "TaskPriority_value TaskPriority.MEDIUM = ''medium''"
| "TaskPriority_value TaskPriority.LOW = ''low''"

definition TaskPriority_members :: "TaskPriority list" where
  "TaskPriority_members =
     [TaskPriority.HIGH,
      TaskPriority.MEDIUM,
      TaskPriority.LOW]"

interpretation TaskPriorityE: str_enum TaskPriority_members TaskPriority_value
proof
  show "e \<in> set TaskPriority_members" for e
    by (cases e) (simp_all add: TaskPriority_members_def)
  show "distinct (map TaskPriority_value TaskPriority_members)"
    by (simp add: TaskPriority_members_def)
qed

datatype SourceType =
  WEB | SEC | ARXIV | GITHUB | UPLOAD

fun SourceType_value :: "SourceType \<Rightarrow> string" where
  "SourceType_value SourceType.WEB = ''web''"
| "SourceType_value SourceType.SEC = ''sec''"
| "SourceType_value SourceType.ARXIV = ''arxiv''"
| "SourceType_value SourceType.GITHUB = ''github''"
| "SourceType_value SourceType.UPLOAD = ''upload''"

definition SourceType_members :: "SourceType list" where
  "SourceType_members =
     [SourceType.WEB,
      SourceType.SEC,
      SourceType.ARXIV,
      SourceType.GITHUB,
      SourceType.UPLOAD]"

interpretation SourceTypeE: str_enum SourceType_members SourceType_value
proof
  show "e \<in> set SourceType_members" for e
    by (cases e) (simp_all add: SourceType_members_def)
  show "distinct (map SourceType_value SourceType_members)"
    by (simp add: SourceType_members_def)
qed

datatype DocumentFormat =
  PDF | HTML | MARKDOWN | TEXT

fun DocumentFormat_value :: "DocumentFormat \<Rightarrow> string" where
  "DocumentFormat_value DocumentFormat.PDF = ''pdf''"
| "DocumentFormat_value DocumentFormat.HTML = ''html''"
| "DocumentFormat_value DocumentFormat.MARKDOWN = ''markdown''"
| "DocumentFormat_value DocumentFormat.TEXT = ''text''"

definition DocumentFormat_members :: "DocumentFormat list" where
  "DocumentFormat_members =
     [DocumentFormat.PDF,
      DocumentFormat.HTML,
      DocumentFormat.MARKDOWN,
      DocumentFormat.TEXT]"

interpretation DocumentFormatE: str_enum DocumentFormat_members DocumentFormat_value
proof
  show "e \<in> set DocumentFormat_members" for e
    by (cases e) (simp_all add: DocumentFormat_members_def)
  show "distinct (map DocumentFormat_value DocumentFormat_members)"
    by (simp add: DocumentFormat_members_def)
qed

datatype ClaimType =
  QUANTITATIVE | QUALITATIVE | EVENT

fun ClaimType_value :: "ClaimType \<Rightarrow> string" where
  "ClaimType_value ClaimType.QUANTITATIVE = ''quantitative''"
| "ClaimType_value ClaimType.QUALITATIVE = ''qualitative''"
| "ClaimType_value ClaimType.EVENT = ''event''"

definition ClaimType_members :: "ClaimType list" where
  "ClaimType_members =
     [ClaimType.QUANTITATIVE,
      ClaimType.QUALITATIVE,
      ClaimType.EVENT]"

interpretation ClaimTypeE: str_enum ClaimType_members ClaimType_value
proof
  show "e \<in> set ClaimType_members" for e
    by (cases e) (simp_all add: ClaimType_members_def)
  show "distinct (map ClaimType_value ClaimType_members)"
    by (simp add: ClaimType_members_def)
qed

datatype ClaimStatus =
  CANDIDATE | VERIFIED | REFUTED | CONTESTED

fun ClaimStatus_value :: "ClaimStatus \<Rightarrow> string" where
  "ClaimStatus_value ClaimStatus.CANDIDATE = ''candidate''"
| "ClaimStatus_value ClaimStatus.VERIFIED = ''verified''"
| "ClaimStatus_value ClaimStatus.REFUTED = ''refuted''"
| "ClaimStatus_value ClaimStatus.CONTESTED = ''contested''"

definition ClaimStatus_members :: "ClaimStatus list" where
  "ClaimStatus_members =
     [ClaimStatus.CANDIDATE,
      ClaimStatus.VERIFIED,
      ClaimStatus.REFUTED,
      ClaimStatus.CONTESTED]"

interpretation ClaimStatusE: str_enum ClaimStatus_members ClaimStatus_value
proof
  show "e \<in> set ClaimStatus_members" for e
    by (cases e) (simp_all add: ClaimStatus_members_def)
  show "distinct (map ClaimStatus_value ClaimStatus_members)"
    by (simp add: ClaimStatus_members_def)
qed

datatype EvidenceStance =
  SUPPORTS | REFUTES | NEUTRAL

fun EvidenceStance_value :: "EvidenceStance \<Rightarrow> string" where
  "EvidenceStance_value EvidenceStance.SUPPORTS = ''supports''"
| "EvidenceStance_value EvidenceStance.REFUTES = ''refutes''"
| "EvidenceStance_value EvidenceStance.NEUTRAL = ''neutral''"

definition EvidenceStance_members :: "EvidenceStance list" where
  "EvidenceStance_members =
     [EvidenceStance.SUPPORTS,
      EvidenceStance.REFUTES,
      EvidenceStance.NEUTRAL]"

interpretation EvidenceStanceE: str_enum EvidenceStance_members EvidenceStance_value
proof
  show "e \<in> set EvidenceStance_members" for e
    by (cases e) (simp_all add: EvidenceStance_members_def)
  show "distinct (map EvidenceStance_value EvidenceStance_members)"
    by (simp add: EvidenceStance_members_def)
qed

datatype ContradictionResolution =
  UNRESOLVED | RESOLVED_A | RESOLVED_B | BOTH_VALID_IN_CONTEXT

fun ContradictionResolution_value :: "ContradictionResolution \<Rightarrow> string" where
  "ContradictionResolution_value ContradictionResolution.UNRESOLVED = ''unresolved''"
| "ContradictionResolution_value ContradictionResolution.RESOLVED_A = ''resolved_a''"
| "ContradictionResolution_value ContradictionResolution.RESOLVED_B = ''resolved_b''"
| "ContradictionResolution_value ContradictionResolution.BOTH_VALID_IN_CONTEXT = ''both_valid_in_context''"

definition ContradictionResolution_members :: "ContradictionResolution list" where
  "ContradictionResolution_members =
     [ContradictionResolution.UNRESOLVED,
      ContradictionResolution.RESOLVED_A,
      ContradictionResolution.RESOLVED_B,
      ContradictionResolution.BOTH_VALID_IN_CONTEXT]"

interpretation ContradictionResolutionE: str_enum ContradictionResolution_members ContradictionResolution_value
proof
  show "e \<in> set ContradictionResolution_members" for e
    by (cases e) (simp_all add: ContradictionResolution_members_def)
  show "distinct (map ContradictionResolution_value ContradictionResolution_members)"
    by (simp add: ContradictionResolution_members_def)
qed

datatype ReportStatus =
  DRAFT | VALIDATED | PUBLISHED

fun ReportStatus_value :: "ReportStatus \<Rightarrow> string" where
  "ReportStatus_value ReportStatus.DRAFT = ''draft''"
| "ReportStatus_value ReportStatus.VALIDATED = ''validated''"
| "ReportStatus_value ReportStatus.PUBLISHED = ''published''"

definition ReportStatus_members :: "ReportStatus list" where
  "ReportStatus_members =
     [ReportStatus.DRAFT,
      ReportStatus.VALIDATED,
      ReportStatus.PUBLISHED]"

interpretation ReportStatusE: str_enum ReportStatus_members ReportStatus_value
proof
  show "e \<in> set ReportStatus_members" for e
    by (cases e) (simp_all add: ReportStatus_members_def)
  show "distinct (map ReportStatus_value ReportStatus_members)"
    by (simp add: ReportStatus_members_def)
qed

datatype ReportSectionKind =
    EXECUTIVE_SUMMARY
  | KEY_FINDINGS
  | DETAILED_ANALYSIS
  | COMPETITIVE_LANDSCAPE
  | EVIDENCE
  | CONTRADICTIONS
  | CONFIDENCE_ASSESSMENT
  | RECOMMENDATIONS
  | REFERENCES

fun ReportSectionKind_value :: "ReportSectionKind \<Rightarrow> string" where
  "ReportSectionKind_value ReportSectionKind.EXECUTIVE_SUMMARY = ''executive_summary''"
| "ReportSectionKind_value ReportSectionKind.KEY_FINDINGS = ''key_findings''"
| "ReportSectionKind_value ReportSectionKind.DETAILED_ANALYSIS = ''detailed_analysis''"
| "ReportSectionKind_value ReportSectionKind.COMPETITIVE_LANDSCAPE = ''competitive_landscape''"
| "ReportSectionKind_value ReportSectionKind.EVIDENCE = ''evidence''"
| "ReportSectionKind_value ReportSectionKind.CONTRADICTIONS = ''contradictions''"
| "ReportSectionKind_value ReportSectionKind.CONFIDENCE_ASSESSMENT = ''confidence_assessment''"
| "ReportSectionKind_value ReportSectionKind.RECOMMENDATIONS = ''recommendations''"
| "ReportSectionKind_value ReportSectionKind.REFERENCES = ''references''"

definition ReportSectionKind_members :: "ReportSectionKind list" where
  "ReportSectionKind_members =
     [ReportSectionKind.EXECUTIVE_SUMMARY,
      ReportSectionKind.KEY_FINDINGS,
      ReportSectionKind.DETAILED_ANALYSIS,
      ReportSectionKind.COMPETITIVE_LANDSCAPE,
      ReportSectionKind.EVIDENCE,
      ReportSectionKind.CONTRADICTIONS,
      ReportSectionKind.CONFIDENCE_ASSESSMENT,
      ReportSectionKind.RECOMMENDATIONS,
      ReportSectionKind.REFERENCES]"

interpretation ReportSectionKindE: str_enum ReportSectionKind_members ReportSectionKind_value
proof
  show "e \<in> set ReportSectionKind_members" for e
    by (cases e) (simp_all add: ReportSectionKind_members_def)
  show "distinct (map ReportSectionKind_value ReportSectionKind_members)"
    by (simp add: ReportSectionKind_members_def)
qed

datatype AgentName =
    PLANNER
  | RESEARCHER
  | EVIDENCE_EXTRACTOR
  | CLAIM_NORMALIZER
  | VERIFIER
  | CRITIC
  | ANSWERER
  | SYNTHESIZER
  | CITATION_VALIDATOR

fun AgentName_value :: "AgentName \<Rightarrow> string" where
  "AgentName_value AgentName.PLANNER = ''planner''"
| "AgentName_value AgentName.RESEARCHER = ''researcher''"
| "AgentName_value AgentName.EVIDENCE_EXTRACTOR = ''evidence_extractor''"
| "AgentName_value AgentName.CLAIM_NORMALIZER = ''claim_normalizer''"
| "AgentName_value AgentName.VERIFIER = ''verifier''"
| "AgentName_value AgentName.CRITIC = ''critic''"
| "AgentName_value AgentName.ANSWERER = ''answerer''"
| "AgentName_value AgentName.SYNTHESIZER = ''synthesizer''"
| "AgentName_value AgentName.CITATION_VALIDATOR = ''citation_validator''"

definition AgentName_members :: "AgentName list" where
  "AgentName_members =
     [AgentName.PLANNER,
      AgentName.RESEARCHER,
      AgentName.EVIDENCE_EXTRACTOR,
      AgentName.CLAIM_NORMALIZER,
      AgentName.VERIFIER,
      AgentName.CRITIC,
      AgentName.ANSWERER,
      AgentName.SYNTHESIZER,
      AgentName.CITATION_VALIDATOR]"

interpretation AgentNameE: str_enum AgentName_members AgentName_value
proof
  show "e \<in> set AgentName_members" for e
    by (cases e) (simp_all add: AgentName_members_def)
  show "distinct (map AgentName_value AgentName_members)"
    by (simp add: AgentName_members_def)
qed

datatype AgentStatus =
  RUNNING | OK | ERROR

fun AgentStatus_value :: "AgentStatus \<Rightarrow> string" where
  "AgentStatus_value AgentStatus.RUNNING = ''running''"
| "AgentStatus_value AgentStatus.OK = ''ok''"
| "AgentStatus_value AgentStatus.ERROR = ''error''"

definition AgentStatus_members :: "AgentStatus list" where
  "AgentStatus_members =
     [AgentStatus.RUNNING,
      AgentStatus.OK,
      AgentStatus.ERROR]"

interpretation AgentStatusE: str_enum AgentStatus_members AgentStatus_value
proof
  show "e \<in> set AgentStatus_members" for e
    by (cases e) (simp_all add: AgentStatus_members_def)
  show "distinct (map AgentStatus_value AgentStatus_members)"
    by (simp add: AgentStatus_members_def)
qed

datatype ToolName =
    SEARCH
  | FETCH
  | PARSE
  | RETRIEVE
  | SEC_API
  | ARXIV_API
  | GITHUB_API

fun ToolName_value :: "ToolName \<Rightarrow> string" where
  "ToolName_value ToolName.SEARCH = ''search''"
| "ToolName_value ToolName.FETCH = ''fetch''"
| "ToolName_value ToolName.PARSE = ''parse''"
| "ToolName_value ToolName.RETRIEVE = ''retrieve''"
| "ToolName_value ToolName.SEC_API = ''sec_api''"
| "ToolName_value ToolName.ARXIV_API = ''arxiv_api''"
| "ToolName_value ToolName.GITHUB_API = ''github_api''"

definition ToolName_members :: "ToolName list" where
  "ToolName_members =
     [ToolName.SEARCH,
      ToolName.FETCH,
      ToolName.PARSE,
      ToolName.RETRIEVE,
      ToolName.SEC_API,
      ToolName.ARXIV_API,
      ToolName.GITHUB_API]"

interpretation ToolNameE: str_enum ToolName_members ToolName_value
proof
  show "e \<in> set ToolName_members" for e
    by (cases e) (simp_all add: ToolName_members_def)
  show "distinct (map ToolName_value ToolName_members)"
    by (simp add: ToolName_members_def)
qed

datatype ToolStatus =
  OK | ERROR | RATE_LIMITED | TIMEOUT

fun ToolStatus_value :: "ToolStatus \<Rightarrow> string" where
  "ToolStatus_value ToolStatus.OK = ''ok''"
| "ToolStatus_value ToolStatus.ERROR = ''error''"
| "ToolStatus_value ToolStatus.RATE_LIMITED = ''rate_limited''"
| "ToolStatus_value ToolStatus.TIMEOUT = ''timeout''"

definition ToolStatus_members :: "ToolStatus list" where
  "ToolStatus_members =
     [ToolStatus.OK,
      ToolStatus.ERROR,
      ToolStatus.RATE_LIMITED,
      ToolStatus.TIMEOUT]"

interpretation ToolStatusE: str_enum ToolStatus_members ToolStatus_value
proof
  show "e \<in> set ToolStatus_members" for e
    by (cases e) (simp_all add: ToolStatus_members_def)
  show "distinct (map ToolStatus_value ToolStatus_members)"
    by (simp add: ToolStatus_members_def)
qed

datatype LlmProvider =
  OPENAI | ANTHROPIC | GEMINI | OLLAMA

fun LlmProvider_value :: "LlmProvider \<Rightarrow> string" where
  "LlmProvider_value LlmProvider.OPENAI = ''openai''"
| "LlmProvider_value LlmProvider.ANTHROPIC = ''anthropic''"
| "LlmProvider_value LlmProvider.GEMINI = ''gemini''"
| "LlmProvider_value LlmProvider.OLLAMA = ''ollama''"

definition LlmProvider_members :: "LlmProvider list" where
  "LlmProvider_members =
     [LlmProvider.OPENAI,
      LlmProvider.ANTHROPIC,
      LlmProvider.GEMINI,
      LlmProvider.OLLAMA]"

interpretation LlmProviderE: str_enum LlmProvider_members LlmProvider_value
proof
  show "e \<in> set LlmProvider_members" for e
    by (cases e) (simp_all add: LlmProvider_members_def)
  show "distinct (map LlmProvider_value LlmProvider_members)"
    by (simp add: LlmProvider_members_def)
qed

datatype LlmCallStatus =
  OK | ERROR | FALLBACK

fun LlmCallStatus_value :: "LlmCallStatus \<Rightarrow> string" where
  "LlmCallStatus_value LlmCallStatus.OK = ''ok''"
| "LlmCallStatus_value LlmCallStatus.ERROR = ''error''"
| "LlmCallStatus_value LlmCallStatus.FALLBACK = ''fallback''"

definition LlmCallStatus_members :: "LlmCallStatus list" where
  "LlmCallStatus_members =
     [LlmCallStatus.OK,
      LlmCallStatus.ERROR,
      LlmCallStatus.FALLBACK]"

interpretation LlmCallStatusE: str_enum LlmCallStatus_members LlmCallStatus_value
proof
  show "e \<in> set LlmCallStatus_members" for e
    by (cases e) (simp_all add: LlmCallStatus_members_def)
  show "distinct (map LlmCallStatus_value LlmCallStatus_members)"
    by (simp add: LlmCallStatus_members_def)
qed

datatype EvaluationKind =
  RETRIEVAL | GENERATION | AGENT | INFRASTRUCTURE | FULL

fun EvaluationKind_value :: "EvaluationKind \<Rightarrow> string" where
  "EvaluationKind_value EvaluationKind.RETRIEVAL = ''retrieval''"
| "EvaluationKind_value EvaluationKind.GENERATION = ''generation''"
| "EvaluationKind_value EvaluationKind.AGENT = ''agent''"
| "EvaluationKind_value EvaluationKind.INFRASTRUCTURE = ''infrastructure''"
| "EvaluationKind_value EvaluationKind.FULL = ''full''"

definition EvaluationKind_members :: "EvaluationKind list" where
  "EvaluationKind_members =
     [EvaluationKind.RETRIEVAL,
      EvaluationKind.GENERATION,
      EvaluationKind.AGENT,
      EvaluationKind.INFRASTRUCTURE,
      EvaluationKind.FULL]"

interpretation EvaluationKindE: str_enum EvaluationKind_members EvaluationKind_value
proof
  show "e \<in> set EvaluationKind_members" for e
    by (cases e) (simp_all add: EvaluationKind_members_def)
  show "distinct (map EvaluationKind_value EvaluationKind_members)"
    by (simp add: EvaluationKind_members_def)
qed

datatype FeedbackCategory =
  ACCURACY | COMPLETENESS | CITATIONS | READABILITY | OTHER

fun FeedbackCategory_value :: "FeedbackCategory \<Rightarrow> string" where
  "FeedbackCategory_value FeedbackCategory.ACCURACY = ''accuracy''"
| "FeedbackCategory_value FeedbackCategory.COMPLETENESS = ''completeness''"
| "FeedbackCategory_value FeedbackCategory.CITATIONS = ''citations''"
| "FeedbackCategory_value FeedbackCategory.READABILITY = ''readability''"
| "FeedbackCategory_value FeedbackCategory.OTHER = ''other''"

definition FeedbackCategory_members :: "FeedbackCategory list" where
  "FeedbackCategory_members =
     [FeedbackCategory.ACCURACY,
      FeedbackCategory.COMPLETENESS,
      FeedbackCategory.CITATIONS,
      FeedbackCategory.READABILITY,
      FeedbackCategory.OTHER]"

interpretation FeedbackCategoryE: str_enum FeedbackCategory_members FeedbackCategory_value
proof
  show "e \<in> set FeedbackCategory_members" for e
    by (cases e) (simp_all add: FeedbackCategory_members_def)
  show "distinct (map FeedbackCategory_value FeedbackCategory_members)"
    by (simp add: FeedbackCategory_members_def)
qed

datatype AuditAction =
    LOGIN
  | LOGIN_FAILED
  | LOGOUT
  | REGISTER
  | REGISTER_PENDING
  | REGISTER_REJECTED
  | CONFIRMATION_RESENT
  | SESSION_REVOKED
  | SESSIONS_REVOKED
  | SETTINGS_UPDATED
  | RUN_CREATED
  | RUN_CANCELLED
  | RUN_FOLLOWUP
  | FILE_UPLOADED

fun AuditAction_value :: "AuditAction \<Rightarrow> string" where
  "AuditAction_value AuditAction.LOGIN = ''auth.login''"
| "AuditAction_value AuditAction.LOGIN_FAILED = ''auth.login_failed''"
| "AuditAction_value AuditAction.LOGOUT = ''auth.logout''"
| "AuditAction_value AuditAction.REGISTER = ''auth.register''"
| "AuditAction_value AuditAction.REGISTER_PENDING = ''auth.register_pending''"
| "AuditAction_value AuditAction.REGISTER_REJECTED = ''auth.register_rejected''"
| "AuditAction_value AuditAction.CONFIRMATION_RESENT = ''auth.confirmation_resent''"
| "AuditAction_value AuditAction.SESSION_REVOKED = ''auth.session_revoked''"
| "AuditAction_value AuditAction.SESSIONS_REVOKED = ''auth.sessions_revoked''"
| "AuditAction_value AuditAction.SETTINGS_UPDATED = ''account.settings_updated''"
| "AuditAction_value AuditAction.RUN_CREATED = ''research.run_created''"
| "AuditAction_value AuditAction.RUN_CANCELLED = ''research.run_cancelled''"
| "AuditAction_value AuditAction.RUN_FOLLOWUP = ''research.run_followup''"
| "AuditAction_value AuditAction.FILE_UPLOADED = ''research.file_uploaded''"

definition AuditAction_members :: "AuditAction list" where
  "AuditAction_members =
     [AuditAction.LOGIN,
      AuditAction.LOGIN_FAILED,
      AuditAction.LOGOUT,
      AuditAction.REGISTER,
      AuditAction.REGISTER_PENDING,
      AuditAction.REGISTER_REJECTED,
      AuditAction.CONFIRMATION_RESENT,
      AuditAction.SESSION_REVOKED,
      AuditAction.SESSIONS_REVOKED,
      AuditAction.SETTINGS_UPDATED,
      AuditAction.RUN_CREATED,
      AuditAction.RUN_CANCELLED,
      AuditAction.RUN_FOLLOWUP,
      AuditAction.FILE_UPLOADED]"

interpretation AuditActionE: str_enum AuditAction_members AuditAction_value
proof
  show "e \<in> set AuditAction_members" for e
    by (cases e) (simp_all add: AuditAction_members_def)
  show "distinct (map AuditAction_value AuditAction_members)"
    by (simp add: AuditAction_members_def)
qed

datatype AuditOutcome =
  SUCCESS | FAILURE

fun AuditOutcome_value :: "AuditOutcome \<Rightarrow> string" where
  "AuditOutcome_value AuditOutcome.SUCCESS = ''success''"
| "AuditOutcome_value AuditOutcome.FAILURE = ''failure''"

definition AuditOutcome_members :: "AuditOutcome list" where
  "AuditOutcome_members =
     [AuditOutcome.SUCCESS,
      AuditOutcome.FAILURE]"

interpretation AuditOutcomeE: str_enum AuditOutcome_members AuditOutcome_value
proof
  show "e \<in> set AuditOutcome_members" for e
    by (cases e) (simp_all add: AuditOutcome_members_def)
  show "distinct (map AuditOutcome_value AuditOutcome_members)"
    by (simp add: AuditOutcome_members_def)
qed

section \<open>Terminal statuses and events\<close>

definition terminal_statuses :: "RunStatus list" where
  "terminal_statuses = [RunStatus.COMPLETED, RunStatus.FAILED, RunStatus.CANCELLED]"

definition RunStatus_is_terminal :: "RunStatus \<Rightarrow> bool" where
  "RunStatus_is_terminal s \<longleftrightarrow> s \<in> set terminal_statuses"

definition RunStatus_is_cancellable :: "RunStatus \<Rightarrow> bool" where
  "RunStatus_is_cancellable s \<longleftrightarrow> \<not> RunStatus_is_terminal s"

definition terminal_events :: "ResearchEventType list" where
  "terminal_events =
     [ResearchEventType.REPORT_COMPLETED, ResearchEventType.RESEARCH_FAILED,
      ResearchEventType.RESEARCH_CANCELLED]"

definition ResearchEventType_is_terminal :: "ResearchEventType \<Rightarrow> bool" where
  "ResearchEventType_is_terminal e \<longleftrightarrow> e \<in> set terminal_events"

end
