(* ===== verification/ResearchSchemas.thy ===== *)
theory ResearchSchemas
  imports Enums
begin

text \<open>
  \<open>app/research/schemas.py\<close>: what a client may ask for (\<open>CreateResearchRequest\<close>, with its
  field validators in the order Pydantic runs them) and the ceilings frozen on a run when it is
  created (\<open>RunLimits.for_mode\<close>).  \<open>None\<close> is Pydantic's \<open>ValidationError\<close>.
\<close>

definition MIN_QUESTION_LENGTH :: nat where "MIN_QUESTION_LENGTH = 15"
definition MAX_QUESTION_LENGTH :: nat where "MAX_QUESTION_LENGTH = 2000"
definition MAX_DOMAINS :: nat where "MAX_DOMAINS = 10"
definition MAX_DOCUMENTS :: nat where "MAX_DOCUMENTS = 10"
definition MIN_DEPTH :: int where "MIN_DEPTH = 1"
definition MAX_DEPTH :: int where "MAX_DEPTH = 5"

lemmas schema_bounds [model_simps] =
  MIN_QUESTION_LENGTH_def MAX_QUESTION_LENGTH_def MAX_DOMAINS_def MAX_DOCUMENTS_def
  MIN_DEPTH_def MAX_DEPTH_def

section \<open>Requests\<close>

record CreateResearchRequest =
  cr_question :: string
  cr_mode :: ResearchMode
  cr_depth :: "int option"
  cr_domains :: "string list"
  cr_date_range_start :: "int option"
  cr_date_range_end :: "int option"
  cr_document_ids :: "uuid list"
  cr_parent_run_id :: "uuid option"

definition strip_question :: "string \<Rightarrow> string option" where
  "strip_question value =
     (let stripped = str_strip value
      in if length stripped < MIN_QUESTION_LENGTH then None else Some stripped)"

definition normalise_domain :: "string \<Rightarrow> string option" where
  "normalise_domain raw =
     (let domain = str_lower (str_strip raw)
      in if starts_with ''http://'' domain \<or> starts_with ''https://'' domain \<or> CHR ''/'' \<in> set domain
         then None
         else if domain = [] \<or> CHR ''.'' \<notin> set domain \<or> CHR '' '' \<in> set domain then None
         else Some domain)"

fun normalise_domains_from :: "string list \<Rightarrow> string list \<Rightarrow> string list option" where
  "normalise_domains_from normalised [] = Some normalised"
| "normalise_domains_from normalised (raw # raws) =
     (case normalise_domain raw of
        None \<Rightarrow> None
      | Some domain \<Rightarrow>
          normalise_domains_from
            (if domain \<in> set normalised then normalised else normalised @ [domain]) raws)"

definition normalise_domains :: "string list \<Rightarrow> string list option" where
  "normalise_domains value = normalise_domains_from [] value"

definition dedupe_documents :: "uuid list \<Rightarrow> uuid list" where
  "dedupe_documents value = dict_fromkeys value"

definition check_date_range :: "CreateResearchRequest \<Rightarrow> bool" where
  "check_date_range r =
     (case (cr_date_range_start r, cr_date_range_end r) of
        (Some s, Some e) \<Rightarrow> s \<le> e
      | _ \<Rightarrow> True)"

text \<open>Field constraints first, then the field validators, then the model validator.\<close>

definition validate_request :: "CreateResearchRequest \<Rightarrow> CreateResearchRequest option" where
  "validate_request r =
     (if length (cr_question r) < MIN_QUESTION_LENGTH \<or> MAX_QUESTION_LENGTH < length (cr_question r)
         \<or> (case cr_depth r of None \<Rightarrow> False | Some d \<Rightarrow> d < MIN_DEPTH \<or> MAX_DEPTH < d)
         \<or> MAX_DOMAINS < length (cr_domains r) \<or> MAX_DOCUMENTS < length (cr_document_ids r)
      then None
      else case (strip_question (cr_question r), normalise_domains (cr_domains r)) of
        (Some question, Some domains) \<Rightarrow>
          (let r' = r\<lparr>cr_question := question, cr_domains := domains,
                     cr_document_ids := dedupe_documents (cr_document_ids r)\<rparr>
           in if check_date_range r' then Some r' else None)
      | _ \<Rightarrow> None)"

definition resolved_depth :: "CreateResearchRequest \<Rightarrow> int" where
  "resolved_depth r =
     (if cr_mode r = ResearchMode.QUICK then 1
      else case cr_depth r of Some d \<Rightarrow> d | None \<Rightarrow> 3)"

definition strip_followup :: "string \<Rightarrow> string option" where
  "strip_followup question =
     (if length question < 10 \<or> MAX_QUESTION_LENGTH < length question then None
      else Some (str_strip question))"

lemma normalise_domain_idem:
  "normalise_domain raw = Some d \<Longrightarrow> normalise_domain d = Some d"
  by (auto simp: normalise_domain_def Let_def str_strip_lower split: if_splits)

lemma normalise_domain_bare:
  "normalise_domain raw = Some d \<Longrightarrow>
     d \<noteq> [] \<and> CHR ''/'' \<notin> set d \<and> CHR '' '' \<notin> set d \<and> CHR ''.'' \<in> set d \<and> str_lower d = d"
  by (auto simp: normalise_domain_def Let_def split: if_splits)

lemma normalise_domains_from_inv:
  assumes "normalise_domains_from acc raws = Some ds"
    and "distinct acc" and "\<forall>d \<in> set acc. normalise_domain d = Some d"
  shows "distinct ds \<and> (\<forall>d \<in> set ds. normalise_domain d = Some d)
    \<and> set acc \<subseteq> set ds \<and> length ds \<le> length acc + length raws"
  using assms
proof (induction acc raws rule: normalise_domains_from.induct)
  case (2 acc raw raws)
  from "2.prems"(1) obtain d where d: "normalise_domain raw = Some d"
    by (auto split: option.splits)
  let ?acc = "if d \<in> set acc then acc else acc @ [d]"
  have "distinct ?acc" and "\<forall>e \<in> set ?acc. normalise_domain e = Some e"
    using "2.prems" normalise_domain_idem[OF d] by auto
  moreover have "normalise_domains_from ?acc raws = Some ds"
    using "2.prems"(1) d by simp
  ultimately have "distinct ds \<and> (\<forall>d \<in> set ds. normalise_domain d = Some d)
    \<and> set ?acc \<subseteq> set ds \<and> length ds \<le> length ?acc + length raws"
    using "2.IH"[OF d] by blast
  then show ?case by (auto split: if_splits)
qed auto

lemma normalise_domains_from_id:
  "distinct (acc @ ds) \<Longrightarrow> \<forall>d \<in> set ds. normalise_domain d = Some d \<Longrightarrow>
     normalise_domains_from acc ds = Some (acc @ ds)"
  by (induction ds arbitrary: acc) auto

lemma normalise_domains_inv:
  assumes "normalise_domains raws = Some ds"
  shows "distinct ds" "\<forall>d \<in> set ds. normalise_domain d = Some d" "length ds \<le> length raws"
  using normalise_domains_from_inv[of "[]" raws ds] assms by (auto simp: normalise_domains_def)

lemma normalise_domains_fixpoint:
  "normalise_domains raws = Some ds \<Longrightarrow> normalise_domains ds = Some ds"
  using normalise_domains_inv[of raws ds] normalise_domains_from_id[of "[]" ds]
  by (simp add: normalise_domains_def)

lemma strip_question_fixpoint: "strip_question v = Some q \<Longrightarrow> strip_question q = Some q"
  by (auto simp: strip_question_def Let_def split: if_splits)

lemma strip_question_length:
  "strip_question v = Some q \<Longrightarrow> MIN_QUESTION_LENGTH \<le> length q \<and> length q \<le> length v"
  using length_str_strip[of v] by (auto simp: strip_question_def Let_def split: if_splits)

lemma dedupe_documents_length: "length (dedupe_documents ds) \<le> length ds"
proof -
  have "length (dedupe_documents ds) = card (set ds)"
    by (metis dedupe_documents_def distinct_card distinct_dict_fromkeys set_dict_fromkeys)
  then show ?thesis by (simp add: card_length)
qed

text \<open>
  What a stored request looks like, and that validation is idempotent: a request that was accepted
  is accepted again unchanged.
\<close>

definition request_ok :: "CreateResearchRequest \<Rightarrow> bool" where
  "request_ok r \<longleftrightarrow>
     15 \<le> length (cr_question r) \<and> length (cr_question r) \<le> 2000
     \<and> (\<forall>d. cr_depth r = Some d \<longrightarrow> 1 \<le> d \<and> d \<le> 5)
     \<and> length (cr_domains r) \<le> 10 \<and> distinct (cr_domains r)
     \<and> (\<forall>d \<in> set (cr_domains r). CHR ''/'' \<notin> set d \<and> CHR '' '' \<notin> set d \<and> CHR ''.'' \<in> set d)
     \<and> length (cr_document_ids r) \<le> 10 \<and> distinct (cr_document_ids r)
     \<and> (\<forall>s e. cr_date_range_start r = Some s \<longrightarrow> cr_date_range_end r = Some e \<longrightarrow> s \<le> e)"

lemma validate_request_ok:
  assumes "validate_request r = Some r'"
  shows "request_ok r'"
proof -
  from assms obtain q ds where q: "strip_question (cr_question r) = Some q"
    and ds: "normalise_domains (cr_domains r) = Some ds"
    and r': "r' = r\<lparr>cr_question := q, cr_domains := ds,
                   cr_document_ids := dedupe_documents (cr_document_ids r)\<rparr>"
    and rng: "check_date_range r'" "length (cr_question r) \<le> 2000" "length (cr_domains r) \<le> 10"
      "length (cr_document_ids r) \<le> 10"
      "\<forall>d. cr_depth r = Some d \<longrightarrow> 1 \<le> d \<and> d \<le> 5"
    by (auto simp: validate_request_def Let_def model_simps not_less
        split: if_splits option.splits)
  have "\<forall>d \<in> set ds. CHR ''/'' \<notin> set d \<and> CHR '' '' \<notin> set d \<and> CHR ''.'' \<in> set d"
    using normalise_domains_inv(2)[OF ds] normalise_domain_bare by blast
  moreover have "distinct (dedupe_documents (cr_document_ids r))"
    by (simp add: dedupe_documents_def)
  ultimately show ?thesis
    using r' rng strip_question_length[OF q] normalise_domains_inv[OF ds]
      dedupe_documents_length[of "cr_document_ids r"]
    by (auto simp: request_ok_def model_simps check_date_range_def)
qed

lemma validate_request_idem:
  assumes "validate_request r = Some r'"
  shows "validate_request r' = Some r'"
proof -
  from assms obtain q ds where q: "strip_question (cr_question r) = Some q"
    and ds: "normalise_domains (cr_domains r) = Some ds"
    and r': "r' = r\<lparr>cr_question := q, cr_domains := ds,
                   cr_document_ids := dedupe_documents (cr_document_ids r)\<rparr>"
    and chk: "check_date_range r'"
    by (auto simp: validate_request_def Let_def split: if_splits option.splits)
  have "dedupe_documents (dedupe_documents (cr_document_ids r)) = dedupe_documents (cr_document_ids r)"
    by (simp add: dedupe_documents_def dict_fromkeys_id)
  then have "r'\<lparr>cr_question := q, cr_domains := ds,
              cr_document_ids := dedupe_documents (cr_document_ids r')\<rparr> = r'"
    by (simp add: r')
  moreover have "strip_question (cr_question r') = Some q" "normalise_domains (cr_domains r') = Some ds"
    using strip_question_fixpoint[OF q] normalise_domains_fixpoint[OF ds] by (simp_all add: r')
  ultimately show ?thesis
    using validate_request_ok[OF assms] chk
    by (auto simp: validate_request_def request_ok_def model_simps Let_def not_less
        split: option.splits)
qed

section \<open>The ceilings of a run\<close>

record RunLimits =
  rl_max_iterations :: int
  rl_max_sources :: int
  rl_max_search_queries :: int
  rl_max_runtime_seconds :: int
  rl_max_cost_usd :: real

text \<open>The settings \<open>RunLimits.for_mode\<close> reads, as one record.\<close>

record LimitSettings =
  ls_max_research_iterations :: int
  ls_max_sources :: int
  ls_max_search_queries :: int
  ls_max_runtime_seconds :: int
  ls_max_estimated_cost_usd :: real

definition limits_for_mode :: "ResearchMode \<Rightarrow> LimitSettings \<Rightarrow> RunLimits" where
  "limits_for_mode mode settings =
     (if mode = ResearchMode.QUICK then
        \<lparr>rl_max_iterations = 1,
         rl_max_sources = min 12 (ls_max_sources settings),
         rl_max_search_queries = ls_max_search_queries settings,
         rl_max_runtime_seconds = min 60 (ls_max_runtime_seconds settings),
         rl_max_cost_usd = min (1/2) (ls_max_estimated_cost_usd settings)\<rparr>
      else
        \<lparr>rl_max_iterations = ls_max_research_iterations settings,
         rl_max_sources = ls_max_sources settings,
         rl_max_search_queries = ls_max_search_queries settings,
         rl_max_runtime_seconds = ls_max_runtime_seconds settings,
         rl_max_cost_usd = ls_max_estimated_cost_usd settings\<rparr>)"

lemma limits_for_mode_within_settings:
  assumes "1 \<le> ls_max_research_iterations s"
  shows "rl_max_iterations (limits_for_mode m s) \<le> ls_max_research_iterations s"
    "rl_max_sources (limits_for_mode m s) \<le> ls_max_sources s"
    "rl_max_search_queries (limits_for_mode m s) = ls_max_search_queries s"
    "rl_max_runtime_seconds (limits_for_mode m s) \<le> ls_max_runtime_seconds s"
    "rl_max_cost_usd (limits_for_mode m s) \<le> ls_max_estimated_cost_usd s"
  using assms by (simp_all add: limits_for_mode_def)

section \<open>The run as the API describes it\<close>

record RunUsage =
  ru_iterations :: int
  ru_sources :: int
  ru_elapsed_seconds :: int
  ru_total_tokens :: int
  ru_cost_usd :: real

record RunError =
  re_code :: string
  re_message :: string

record ResearchRun =
  rr_id :: uuid
  rr_user_id :: uuid
  rr_parent_run_id :: "uuid option"
  rr_title :: string
  rr_question :: string
  rr_mode :: ResearchMode
  rr_depth :: int
  rr_domains :: "string list"
  rr_date_range_start :: "int option"
  rr_date_range_end :: "int option"
  rr_status :: RunStatus
  rr_progress :: real
  rr_limits :: RunLimits
  rr_usage :: RunUsage
  rr_source_count :: int
  rr_claim_count :: int
  rr_contradiction_count :: int
  rr_coverage_caveat :: "string option"
  rr_has_report :: bool
  rr_created_at :: datetime
  rr_started_at :: "datetime option"
  rr_completed_at :: "datetime option"
  rr_error :: "RunError option"

record ResearchRunSummary =
  sm_id :: uuid
  sm_title :: string
  sm_question :: string
  sm_mode :: ResearchMode
  sm_status :: RunStatus
  sm_progress :: real
  sm_source_count :: int
  sm_claim_count :: int
  sm_contradiction_count :: int
  sm_cost_usd :: real
  sm_created_at :: datetime
  sm_completed_at :: "datetime option"

definition summary_of :: "ResearchRun \<Rightarrow> ResearchRunSummary" where
  "summary_of run =
     \<lparr>sm_id = rr_id run, sm_title = rr_title run, sm_question = rr_question run,
      sm_mode = rr_mode run, sm_status = rr_status run, sm_progress = rr_progress run,
      sm_source_count = rr_source_count run, sm_claim_count = rr_claim_count run,
      sm_contradiction_count = rr_contradiction_count run,
      sm_cost_usd = ru_cost_usd (rr_usage run), sm_created_at = rr_created_at run,
      sm_completed_at = rr_completed_at run\<rparr>"

end
