(* ===== verification/GraphSchemas.thy ===== *)
theory GraphSchemas
  imports ResearchSchemas
begin

text \<open>
  \<open>app/agents/schemas.py\<close>: the typed values the research graph carries.  Each Pydantic model is a
  record whose fields have the class's initials as prefix; its field constraints and model
  validators are one predicate \<open><class>_ok\<close>, which is what constructing (and so validating) a value
  means.  Frozen models are plain values.
\<close>

section \<open>Bounds and patterns\<close>

definition MAX_PLANNED_SUBTASKS :: nat where "MAX_PLANNED_SUBTASKS = 20"
definition MAX_SOURCES_PER_TASK :: nat where "MAX_SOURCES_PER_TASK = 100"
definition MAX_QUERIES_PER_TASK :: nat where "MAX_QUERIES_PER_TASK = 25"
definition MAX_EVIDENCE_PER_CLAIM :: nat where "MAX_EVIDENCE_PER_CLAIM = 50"
definition MAX_REPORT_SECTIONS :: nat where "MAX_REPORT_SECTIONS = 20"
definition MAX_CLAIMS_PER_SECTION :: nat where "MAX_CLAIMS_PER_SECTION = 500"
definition MAX_ANSWER_CHARS :: nat where "MAX_ANSWER_CHARS = 12000"

text \<open>\<open>^[a-z0-9][a-z0-9_-]{0,79}$\<close> and \<open>^[a-z][a-z0-9_]{0,59}$\<close>.\<close>

fun task_key_pattern :: "string \<Rightarrow> bool" where
  "task_key_pattern [] = False"
| "task_key_pattern (c # cs) =
     ((is_lower c \<or> is_digit c) \<and> length cs \<le> 79
      \<and> list_all (\<lambda>d. is_lower d \<or> is_digit d \<or> d = CHR ''_'' \<or> d = CHR ''-'') cs)"

fun error_code_pattern :: "string \<Rightarrow> bool" where
  "error_code_pattern [] = False"
| "error_code_pattern (c # cs) =
     (is_lower c \<and> length cs \<le> 59
      \<and> list_all (\<lambda>d. is_lower d \<or> is_digit d \<or> d = CHR ''_'') cs)"

definition len_between :: "nat \<Rightarrow> nat \<Rightarrow> 'a list \<Rightarrow> bool" where
  "len_between lo hi s \<longleftrightarrow> lo \<le> length s \<and> length s \<le> hi"

definition EPOCH :: datetime where "EPOCH = 0"

section \<open>The graph's vocabularies\<close>

datatype GraphNode =
    PLANNER
  | RESEARCHER
  | EVIDENCE_EXTRACTOR
  | CLAIM_NORMALIZER
  | VERIFIER
  | CONTRADICTION_CHECKER
  | CRITIC
  | ANSWERER
  | SYNTHESIZER
  | CITATION_VALIDATOR

fun GraphNode_value :: "GraphNode \<Rightarrow> string" where
  "GraphNode_value GraphNode.PLANNER = ''planner''"
| "GraphNode_value GraphNode.RESEARCHER = ''researcher''"
| "GraphNode_value GraphNode.EVIDENCE_EXTRACTOR = ''evidence_extractor''"
| "GraphNode_value GraphNode.CLAIM_NORMALIZER = ''claim_normalizer''"
| "GraphNode_value GraphNode.VERIFIER = ''verifier''"
| "GraphNode_value GraphNode.CONTRADICTION_CHECKER = ''contradiction_checker''"
| "GraphNode_value GraphNode.CRITIC = ''critic''"
| "GraphNode_value GraphNode.ANSWERER = ''answerer''"
| "GraphNode_value GraphNode.SYNTHESIZER = ''synthesizer''"
| "GraphNode_value GraphNode.CITATION_VALIDATOR = ''citation_validator''"

definition GraphNode_members :: "GraphNode list" where
  "GraphNode_members =
     [GraphNode.PLANNER, GraphNode.RESEARCHER, GraphNode.EVIDENCE_EXTRACTOR,
      GraphNode.CLAIM_NORMALIZER, GraphNode.VERIFIER, GraphNode.CONTRADICTION_CHECKER,
      GraphNode.CRITIC, GraphNode.ANSWERER, GraphNode.SYNTHESIZER, GraphNode.CITATION_VALIDATOR]"

interpretation GraphNodeE: str_enum GraphNode_members GraphNode_value
proof
  show "e \<in> set GraphNode_members" for e by (cases e) (simp_all add: GraphNode_members_def)
  show "distinct (map GraphNode_value GraphNode_members)" by (simp add: GraphNode_members_def)
qed

text \<open>\<open>GraphNode.agent\<close>: \<open>AgentName(self.value)\<close> raises for a value that is no agent name.\<close>

definition GraphNode_agent :: "GraphNode \<Rightarrow> AgentName option" where
  "GraphNode_agent n =
     (if n = GraphNode.CONTRADICTION_CHECKER then Some AgentName.VERIFIER
      else enum_of AgentName_members AgentName_value (GraphNode_value n))"

definition GraphNode_discovers :: "GraphNode \<Rightarrow> bool" where
  "GraphNode_discovers n \<longleftrightarrow> n \<in> {GraphNode.PLANNER, GraphNode.RESEARCHER}"

lemma GraphNode_agent_total: "GraphNode_agent n \<noteq> None"
  by (cases n) (simp_all add: GraphNode_agent_def enum_of_def AgentName_members_def)

datatype ResearchChannel = WEB | DOCUMENTS | DATA

datatype StopReason =
    CANCELLED
  | COST
  | COST_UNMEASURED
  | RUNTIME
  | SOURCES
  | SEARCH_QUERIES
  | ITERATIONS
  | DISCOVERY_FAILED

section \<open>The run's allowance\<close>

record RunBudget =
  rb_max_iterations :: int
  rb_max_sources :: int
  rb_max_search_queries :: int
  rb_max_runtime_seconds :: int
  rb_max_cost_usd :: real

definition RunBudget_ok :: "RunBudget \<Rightarrow> bool" where
  "RunBudget_ok b \<longleftrightarrow>
     1 \<le> rb_max_iterations b \<and> 1 \<le> rb_max_sources b \<and> 1 \<le> rb_max_search_queries b
     \<and> 1 \<le> rb_max_runtime_seconds b \<and> 0 < rb_max_cost_usd b"

definition from_limits :: "RunLimits \<Rightarrow> RunBudget option" where
  "from_limits limits =
     (let b = \<lparr>rb_max_iterations = rl_max_iterations limits,
              rb_max_sources = rl_max_sources limits,
              rb_max_search_queries = rl_max_search_queries limits,
              rb_max_runtime_seconds = rl_max_runtime_seconds limits,
              rb_max_cost_usd = rl_max_cost_usd limits\<rparr>
      in if RunBudget_ok b then Some b else None)"

record RunParameters =
  rp_mode :: ResearchMode
  rp_depth :: int
  rp_domains :: "string list"
  rp_date_range_start :: "int option"
  rp_date_range_end :: "int option"
  rp_parent_research_id :: "uuid option"
  rp_has_attached_documents :: bool

record Stop =
  sp_reason :: StopReason
  sp_caveat :: "string option"

definition Stop_ok :: "Stop \<Rightarrow> bool" where
  "Stop_ok s \<longleftrightarrow> (case sp_caveat s of None \<Rightarrow> True | Some c \<Rightarrow> length c \<le> 2000)"

record TokenCount =
  tc_prompt_tokens :: nat
  tc_completion_tokens :: nat

definition TokenCount_default :: TokenCount where
  "TokenCount_default = \<lparr>tc_prompt_tokens = 0, tc_completion_tokens = 0\<rparr>"

definition TokenCount_total :: "TokenCount \<Rightarrow> nat" where
  "TokenCount_total t = tc_prompt_tokens t + tc_completion_tokens t"

definition TokenCount_add :: "TokenCount \<Rightarrow> TokenCount \<Rightarrow> TokenCount" where
  "TokenCount_add a b =
     \<lparr>tc_prompt_tokens = tc_prompt_tokens a + tc_prompt_tokens b,
      tc_completion_tokens = tc_completion_tokens a + tc_completion_tokens b\<rparr>"

record CostEstimate =
  ce_usd :: real
  ce_uncosted_calls :: nat

definition CostEstimate_default :: CostEstimate where
  "CostEstimate_default = \<lparr>ce_usd = 0, ce_uncosted_calls = 0\<rparr>"

definition CostEstimate_ok :: "CostEstimate \<Rightarrow> bool" where
  "CostEstimate_ok c \<longleftrightarrow> 0 \<le> ce_usd c"

definition measured :: "CostEstimate \<Rightarrow> bool" where
  "measured c \<longleftrightarrow> ce_uncosted_calls c = 0"

definition CostEstimate_add :: "CostEstimate \<Rightarrow> CostEstimate \<Rightarrow> CostEstimate" where
  "CostEstimate_add a b =
     \<lparr>ce_usd = round_to 6 (ce_usd a + ce_usd b),
      ce_uncosted_calls = ce_uncosted_calls a + ce_uncosted_calls b\<rparr>"

record NodeUsage =
  nu_tokens :: TokenCount
  nu_cost :: CostEstimate
  nu_search_queries :: nat

definition NodeUsage_default :: NodeUsage where
  "NodeUsage_default =
     \<lparr>nu_tokens = TokenCount_default, nu_cost = CostEstimate_default, nu_search_queries = 0\<rparr>"

definition NodeUsage_ok :: "NodeUsage \<Rightarrow> bool" where
  "NodeUsage_ok u \<longleftrightarrow> CostEstimate_ok (nu_cost u)"

record RunClock =
  rc_elapsed_seconds :: real
  rc_as_of :: datetime

definition RunClock_default :: RunClock where
  "RunClock_default = \<lparr>rc_elapsed_seconds = 0, rc_as_of = EPOCH\<rparr>"

definition elapsed_at :: "RunClock \<Rightarrow> datetime \<Rightarrow> datetime \<Rightarrow> real" where
  "elapsed_at c now resumed_at =
     (let anchor = max (rc_as_of c) resumed_at
      in rc_elapsed_seconds c + max 0 (total_seconds (now - anchor)))"

definition advanced_to :: "RunClock \<Rightarrow> datetime \<Rightarrow> datetime \<Rightarrow> RunClock" where
  "advanced_to c now resumed_at =
     \<lparr>rc_elapsed_seconds = elapsed_at c now resumed_at, rc_as_of = now\<rparr>"

section \<open>Planning\<close>

record Subtask =
  su_key :: string
  su_question :: string
  su_priority :: TaskPriority
  su_iteration :: int
  su_rationale :: string
  su_channel :: ResearchChannel

definition Subtask_ok :: "Subtask \<Rightarrow> bool" where
  "Subtask_ok t \<longleftrightarrow>
     task_key_pattern (su_key t) \<and> len_between 1 MAX_QUESTION_LENGTH (su_question t)
     \<and> 1 \<le> su_iteration t \<and> length (su_rationale t) \<le> 2000"

record Plan =
  pl_research_goal :: string
  pl_iteration :: int
  pl_subtasks :: "Subtask list"

definition Plan_ok :: "Plan \<Rightarrow> bool" where
  "Plan_ok p \<longleftrightarrow>
     len_between 1 MAX_QUESTION_LENGTH (pl_research_goal p) \<and> 1 \<le> pl_iteration p
     \<and> length (pl_subtasks p) \<le> MAX_PLANNED_SUBTASKS \<and> list_all Subtask_ok (pl_subtasks p)
     \<and> distinct (map su_key (pl_subtasks p))
     \<and> list_all (\<lambda>t. su_iteration t = pl_iteration p) (pl_subtasks p)"

record SubtaskAssignment =
  sa_research_id :: uuid
  sa_user_id :: uuid
  sa_query :: string
  sa_mode :: ResearchMode
  sa_subtask :: Subtask
  sa_query_allowance :: int
  sa_source_allowance :: int
  sa_time_allowance_seconds :: real
  sa_domains :: "string list"
  sa_date_range_start :: "int option"
  sa_date_range_end :: "int option"

definition SubtaskAssignment_ok :: "SubtaskAssignment \<Rightarrow> bool" where
  "SubtaskAssignment_ok a \<longleftrightarrow>
     len_between 1 MAX_QUESTION_LENGTH (sa_query a)
     \<and> 1 \<le> sa_query_allowance a \<and> 1 \<le> sa_source_allowance a
     \<and> 0 < sa_time_allowance_seconds a \<and> length (sa_domains a) \<le> MAX_DOMAINS"

section \<open>Researching\<close>

record SourceRef =
  sr_source_id :: uuid
  sr_task_key :: string
  sr_title :: string
  sr_url :: string
  sr_source_type :: SourceType
  sr_publisher :: string
  sr_chunk_count :: nat

definition SourceRef_ok :: "SourceRef \<Rightarrow> bool" where
  "SourceRef_ok s \<longleftrightarrow>
     task_key_pattern (sr_task_key s) \<and> length (sr_title s) \<le> 1000
     \<and> len_between 1 4096 (sr_url s) \<and> length (sr_publisher s) \<le> 300"

record TaskOutcome =
  to_task_key :: string
  to_iteration :: int
  to_sources :: "SourceRef list"
  to_queries :: "string list"

definition TaskOutcome_ok :: "TaskOutcome \<Rightarrow> bool" where
  "TaskOutcome_ok t \<longleftrightarrow>
     task_key_pattern (to_task_key t) \<and> 1 \<le> to_iteration t
     \<and> length (to_sources t) \<le> MAX_SOURCES_PER_TASK \<and> list_all SourceRef_ok (to_sources t)
     \<and> length (to_queries t) \<le> MAX_QUERIES_PER_TASK
     \<and> list_all (\<lambda>s. sr_task_key s = to_task_key t) (to_sources t)"

record NodeError =
  ne_node :: GraphNode
  ne_iteration :: int
  ne_code :: string
  ne_message :: string
  ne_task_key :: "string option"

definition NodeError_ok :: "NodeError \<Rightarrow> bool" where
  "NodeError_ok e \<longleftrightarrow>
     0 \<le> ne_iteration e \<and> error_code_pattern (ne_code e) \<and> len_between 1 1000 (ne_message e)
     \<and> (case ne_task_key e of None \<Rightarrow> True | Some k \<Rightarrow> task_key_pattern k)"

section \<open>Evidence, claims, contradictions\<close>

record EvidenceItem =
  ev_id :: uuid
  ev_task_key :: string
  ev_iteration :: int
  ev_source_id :: uuid
  ev_document_id :: uuid
  ev_claim_text :: string
  ev_span_start :: int
  ev_span_end :: int
  ev_stance :: EvidenceStance
  ev_extractor_model :: string

definition EvidenceItem_ok :: "EvidenceItem \<Rightarrow> bool" where
  "EvidenceItem_ok e \<longleftrightarrow>
     task_key_pattern (ev_task_key e) \<and> 1 \<le> ev_iteration e \<and> len_between 1 2000 (ev_claim_text e)
     \<and> 0 \<le> ev_span_start e \<and> 1 \<le> ev_span_end e \<and> length (ev_extractor_model e) \<le> 120
     \<and> ev_span_start e < ev_span_end e
     \<and> ev_span_end e - ev_span_start e = int (length (ev_claim_text e))"

record ClaimItem =
  cl_id :: uuid
  cl_normalized_key :: string
  cl_text :: string
  cl_claim_type :: ClaimType
  cl_status :: ClaimStatus
  cl_confidence :: real
  cl_evidence_ids :: "uuid list"
  cl_object_value :: string

definition ClaimItem_ok :: "ClaimItem \<Rightarrow> bool" where
  "ClaimItem_ok c \<longleftrightarrow>
     len_between 1 300 (cl_normalized_key c) \<and> len_between 1 2000 (cl_text c)
     \<and> 0 \<le> cl_confidence c \<and> cl_confidence c \<le> 1
     \<and> len_between 1 MAX_EVIDENCE_PER_CLAIM (cl_evidence_ids c) \<and> length (cl_object_value c) \<le> 300"

record ContradictionItem =
  cn_id :: uuid
  cn_normalized_key :: string
  cn_claim_a_id :: uuid
  cn_claim_b_id :: uuid
  cn_likely_reason :: string

definition ContradictionItem_ok :: "ContradictionItem \<Rightarrow> bool" where
  "ContradictionItem_ok c \<longleftrightarrow>
     len_between 1 300 (cn_normalized_key c) \<and> len_between 1 2000 (cn_likely_reason c)
     \<and> cn_claim_a_id c \<noteq> cn_claim_b_id c"

section \<open>Judging and writing\<close>

record MissingInfo =
  mi_description :: string
  mi_task_key :: "string option"

definition MissingInfo_ok :: "MissingInfo \<Rightarrow> bool" where
  "MissingInfo_ok m \<longleftrightarrow>
     len_between 1 1000 (mi_description m)
     \<and> (case mi_task_key m of None \<Rightarrow> True | Some k \<Rightarrow> task_key_pattern k)"

record Critique =
  cq_iteration :: int
  cq_sufficient :: bool
  cq_missing :: "MissingInfo list"
  cq_rationale :: string

definition Critique_ok :: "Critique \<Rightarrow> bool" where
  "Critique_ok c \<longleftrightarrow>
     1 \<le> cq_iteration c \<and> length (cq_missing c) \<le> MAX_PLANNED_SUBTASKS
     \<and> list_all MissingInfo_ok (cq_missing c) \<and> length (cq_rationale c) \<le> 2000
     \<and> (cq_sufficient c \<or> cq_missing c \<noteq> [])"

record ReportSectionDraft =
  rs_kind :: ReportSectionKind
  rs_heading :: string
  rs_content_md :: string
  rs_claim_ids :: "uuid list"

definition ReportSectionDraft_ok :: "ReportSectionDraft \<Rightarrow> bool" where
  "ReportSectionDraft_ok s \<longleftrightarrow>
     len_between 1 300 (rs_heading s) \<and> len_between 1 100000 (rs_content_md s)
     \<and> length (rs_claim_ids s) \<le> MAX_CLAIMS_PER_SECTION"

record ReportDraft =
  rd_title :: string
  rd_model :: string
  rd_revision :: int
  rd_sections :: "ReportSectionDraft list"
  rd_coverage_caveat :: "string option"

definition ReportDraft_ok :: "ReportDraft \<Rightarrow> bool" where
  "ReportDraft_ok r \<longleftrightarrow>
     len_between 1 300 (rd_title r) \<and> length (rd_model r) \<le> 120 \<and> 0 \<le> rd_revision r
     \<and> len_between 1 MAX_REPORT_SECTIONS (rd_sections r)
     \<and> list_all ReportSectionDraft_ok (rd_sections r)
     \<and> (case rd_coverage_caveat r of None \<Rightarrow> True | Some c \<Rightarrow> length c \<le> 2000)"

record AnswerDraft =
  ad_text :: string
  ad_model :: string
  ad_claim_ids :: "uuid list"
  ad_truncated :: bool

definition AnswerDraft_ok :: "AnswerDraft \<Rightarrow> bool" where
  "AnswerDraft_ok a \<longleftrightarrow>
     len_between 1 MAX_ANSWER_CHARS (ad_text a) \<and> length (ad_model a) \<le> 120
     \<and> length (ad_claim_ids a) \<le> MAX_CLAIMS_PER_SECTION"

record RejectionCount =
  rj_reason :: string
  rj_count :: int

definition RejectionCount_ok :: "RejectionCount \<Rightarrow> bool" where
  "RejectionCount_ok r \<longleftrightarrow> error_code_pattern (rj_reason r) \<and> 1 \<le> rj_count r"

record CitationCheck =
  cc_revision :: int
  cc_checked :: int
  cc_valid :: int
  cc_rejected :: int
  cc_rejections :: "RejectionCount list"
  cc_repair_instructions :: "string option"

definition CitationCheck_ok :: "CitationCheck \<Rightarrow> bool" where
  "CitationCheck_ok c \<longleftrightarrow>
     0 \<le> cc_revision c \<and> 0 \<le> cc_checked c \<and> 0 \<le> cc_valid c \<and> 0 \<le> cc_rejected c
     \<and> length (cc_rejections c) \<le> 8 \<and> list_all RejectionCount_ok (cc_rejections c)
     \<and> (case cc_repair_instructions c of None \<Rightarrow> True | Some s \<Rightarrow> length s \<le> 4000)
     \<and> cc_checked c = cc_valid c + cc_rejected c
     \<and> (cc_rejected c \<noteq> 0 \<longrightarrow>
          (case cc_repair_instructions c of None \<Rightarrow> False | Some s \<Rightarrow> s \<noteq> []))
     \<and> (cc_rejections c \<noteq> [] \<longrightarrow> sum_list (map rj_count (cc_rejections c)) = cc_rejected c)"

definition passed :: "CitationCheck \<Rightarrow> bool" where
  "passed c \<longleftrightarrow> cc_rejected c = 0"

section \<open>Laws of the accounting values\<close>

lemma TokenCount_add_assoc: "TokenCount_add (TokenCount_add a b) c = TokenCount_add a (TokenCount_add b c)"
  by (simp add: TokenCount_add_def)

lemma TokenCount_add_commute: "TokenCount_add a b = TokenCount_add b a"
  by (simp add: TokenCount_add_def)

lemma TokenCount_add_default [simp]:
  "TokenCount_add TokenCount_default t = t" "TokenCount_add t TokenCount_default = t"
  by (simp_all add: TokenCount_add_def TokenCount_default_def)

lemma CostEstimate_add_ok: "CostEstimate_ok a \<Longrightarrow> CostEstimate_ok b \<Longrightarrow> CostEstimate_ok (CostEstimate_add a b)"
  by (simp add: CostEstimate_ok_def CostEstimate_add_def round_to_nonneg)

lemma measured_add [simp]: "measured (CostEstimate_add a b) \<longleftrightarrow> measured a \<and> measured b"
  by (simp add: measured_def CostEstimate_add_def)

lemma elapsed_at_ge: "rc_elapsed_seconds c \<le> elapsed_at c now r"
  by (simp add: elapsed_at_def Let_def)

text \<open>Time a run spends waiting to be picked up again is not counted.\<close>

lemma elapsed_at_resume: "rc_as_of c \<le> r \<Longrightarrow> elapsed_at c r r = rc_elapsed_seconds c"
  by (simp add: elapsed_at_def Let_def)

lemma advanced_to_twice:
  assumes "r \<le> t1" "rc_as_of c \<le> t1" "t1 \<le> t2"
  shows "advanced_to (advanced_to c t1 r) t2 r = advanced_to c t2 r"
proof -
  have "max (rc_as_of c) r \<le> t1" using assms by simp
  moreover have "t2 - max (rc_as_of c) r = (t1 - max (rc_as_of c) r) + (t2 - t1)" by simp
  ultimately show ?thesis
    using assms by (simp add: advanced_to_def elapsed_at_def Let_def flip: total_seconds_add)
qed

end
