(* ===== verification/GraphState.thy ===== *)
theory GraphState
  imports GraphSchemas "HOL-Library.Multiset"
begin

text \<open>
  \<open>app/agents/state.py\<close>: the research state, the reducer of every channel, the first state and
  what a run has consumed.  A node returns a partial dictionary; here it is the record
  \<open>Update\<close>, whose fields are \<open>None\<close> where the key is absent.  \<open>apply_update\<close> reads the
  \<open>Annotated\<close> reducer of each channel off \<open>ResearchState\<close>.

  The locale \<open>channel\<close> is the contract parallel writes rest on: a reducer is associative with a
  unit on its well-formed values, so the writes of one superstep may be grouped in any way;
  \<open>comm_channel\<close> adds that their order does not matter.  Each reducer of the code is interpreted.
\<close>

section \<open>Reducers\<close>

definition dict_of :: "('a \<Rightarrow> uuid) \<Rightarrow> (uuid \<times> 'a) list \<Rightarrow> 'a list \<Rightarrow> (uuid \<times> 'a) list" where
  "dict_of idf d xs = fold (\<lambda>x m. AList.update (idf x) x m) xs d"

definition merge_by_id :: "('a \<Rightarrow> uuid) \<Rightarrow> 'a list \<Rightarrow> 'a list \<Rightarrow> 'a list" where
  "merge_by_id idf left right =
     (let merged = dict_of idf [] left
      in map snd (dict_of idf merged right))"

definition merge_sources :: "SourceRef list \<Rightarrow> SourceRef list \<Rightarrow> SourceRef list" where
  "merge_sources left right =
     map snd (fold (\<lambda>x m. set_default (sr_source_id x) x m) (left @ right) [])"

definition add_tokens :: "TokenCount option \<Rightarrow> TokenCount option \<Rightarrow> TokenCount" where
  "add_tokens left right =
     TokenCount_add (case left of Some t \<Rightarrow> t | None \<Rightarrow> TokenCount_default)
                    (case right of Some t \<Rightarrow> t | None \<Rightarrow> TokenCount_default)"

definition add_cost :: "CostEstimate option \<Rightarrow> CostEstimate option \<Rightarrow> CostEstimate" where
  "add_cost left right =
     CostEstimate_add (case left of Some c \<Rightarrow> c | None \<Rightarrow> CostEstimate_default)
                      (case right of Some c \<Rightarrow> c | None \<Rightarrow> CostEstimate_default)"

fun latest_clock :: "RunClock option \<Rightarrow> RunClock option \<Rightarrow> RunClock" where
  "latest_clock None right = (case right of Some c \<Rightarrow> c | None \<Rightarrow> RunClock_default)"
| "latest_clock (Some left) None = left"
| "latest_clock (Some left) (Some right) =
     (if rc_elapsed_seconds right \<noteq> rc_elapsed_seconds left
      then (if rc_elapsed_seconds right > rc_elapsed_seconds left then right else left)
      else if rc_as_of right \<ge> rc_as_of left then right else left)"

definition keep_stop :: "Stop option \<Rightarrow> Stop option \<Rightarrow> Stop option" where
  "keep_stop left right =
     (case right of
        Some r \<Rightarrow> if sp_reason r = StopReason.CANCELLED then right
                  else (if left \<noteq> None then left else right)
      | None \<Rightarrow> if left \<noteq> None then left else right)"

section \<open>The contract of a channel\<close>

locale channel =
  fixes red :: "'v \<Rightarrow> 'v \<Rightarrow> 'v"
    and unit :: 'v
    and ok :: "'v \<Rightarrow> bool"
  assumes ok_unit [simp]: "ok unit"
    and ok_red [simp]: "ok a \<Longrightarrow> ok b \<Longrightarrow> ok (red a b)"
    and red_unit_left [simp]: "ok a \<Longrightarrow> red unit a = a"
    and red_unit_right [simp]: "ok a \<Longrightarrow> red a unit = a"
    and red_assoc: "ok a \<Longrightarrow> ok b \<Longrightarrow> ok c \<Longrightarrow> red (red a b) c = red a (red b c)"
begin

lemma ok_foldl: "ok v \<Longrightarrow> list_all ok ws \<Longrightarrow> ok (foldl red v ws)"
  by (induction ws arbitrary: v) auto

text \<open>The writes of a superstep, reduced together first and then into the channel.\<close>

lemma foldl_grouped: "ok v \<Longrightarrow> list_all ok ws \<Longrightarrow> foldl red v ws = red v (foldl red unit ws)"
proof (induction ws arbitrary: v)
  case (Cons w ws)
  from Cons.prems have ok: "ok v" "ok w" "list_all ok ws" by auto
  have "foldl red v (w # ws) = red (red v w) (foldl red unit ws)"
    using Cons.IH[of "red v w"] ok by simp
  also have "\<dots> = red v (red w (foldl red unit ws))"
    using ok ok_foldl[of unit ws] by (simp add: red_assoc)
  also have "red w (foldl red unit ws) = foldl red unit (w # ws)"
    using Cons.IH[of w] ok by simp
  finally show ?case .
qed simp

lemma foldl_split:
  "ok v \<Longrightarrow> list_all ok ws \<Longrightarrow> list_all ok us \<Longrightarrow>
     foldl red v (ws @ us) = red (foldl red v ws) (foldl red unit us)"
  using foldl_grouped[of "foldl red v ws" us] ok_foldl[of v ws] by simp

end

locale comm_channel = channel +
  assumes red_comm: "ok a \<Longrightarrow> ok b \<Longrightarrow> red a b = red b a"
begin

lemma foldl_pull:
  "ok v \<Longrightarrow> ok x \<Longrightarrow> list_all ok as \<Longrightarrow> foldl red (red v x) as = red (foldl red v as) x"
proof (induction as arbitrary: v)
  case (Cons a as)
  then have "red (red v x) a = red (red v a) x"
    by (simp add: red_assoc) (metis red_comm)
  with Cons show ?case by simp
qed simp

text \<open>Parallel writers may be applied in any order.\<close>

lemma foldl_perm:
  "mset ws = mset us \<Longrightarrow> ok v \<Longrightarrow> list_all ok ws \<Longrightarrow> foldl red v ws = foldl red v us"
proof (induction ws arbitrary: us v)
  case (Cons w ws)
  then have "w \<in> set us" by (metis list.set_intros(1) mset_eq_setD)
  then obtain as bs where us: "us = as @ w # bs" by (auto dest: split_list)
  with Cons.prems(1) have m: "mset ws = mset (as @ bs)" by simp
  have "set ws = set (as @ bs)" using m by (rule mset_eq_setD)
  then have oks: "ok v" "ok w" "list_all ok ws" "list_all ok (as @ bs)"
    using Cons.prems by (auto simp: list_all_iff)
  then have "foldl red v (w # ws) = foldl red (red v w) (as @ bs)"
    using Cons.IH[OF m] by simp
  also have "\<dots> = foldl red v us"
    using oks foldl_pull[of v w as] by (simp add: us)
  finally show ?case .
qed simp

end

interpretation tokens: comm_channel
  "\<lambda>a b. add_tokens (Some a) (Some b)" TokenCount_default "\<lambda>_. True"
  by unfold_locales
    (simp_all add: add_tokens_def TokenCount_add_assoc, simp add: TokenCount_add_commute)

interpretation counter: comm_channel "(+) :: nat \<Rightarrow> nat \<Rightarrow> nat" 0 "\<lambda>_. True"
  by unfold_locales simp_all

interpretation appended: channel "(@) :: 'a list \<Rightarrow> 'a list \<Rightarrow> 'a list" "[]" "\<lambda>_. True"
  by unfold_locales simp_all

text \<open>Cost is added with rounding to a millionth of a dollar: exact on amounts that are.\<close>

definition on_grid :: "CostEstimate \<Rightarrow> bool" where
  "on_grid c \<longleftrightarrow> round_to 6 (ce_usd c) = ce_usd c"

lemma on_grid_iff: "on_grid c \<longleftrightarrow> (\<exists>k. ce_usd c = of_int k / 10 ^ 6)"
proof
  assume "on_grid c"
  then show "\<exists>k. ce_usd c = of_int k / 10 ^ 6"
    by (auto simp: on_grid_def round_to_def intro: exI[of _ "round_half_even (ce_usd c * 10 ^ 6)"])
next
  assume "\<exists>k. ce_usd c = of_int k / 10 ^ 6"
  then obtain k where "ce_usd c = of_int k / 10 ^ 6" ..
  then show "on_grid c" by (simp only: on_grid_def round_to_grid)
qed

lemma on_grid_add [simp]: "on_grid (CostEstimate_add a b)"
  unfolding on_grid_iff CostEstimate_add_def round_to_def by auto

lemma CostEstimate_add_exact:
  assumes "on_grid a" "on_grid b"
  shows "CostEstimate_add a b =
    \<lparr>ce_usd = ce_usd a + ce_usd b, ce_uncosted_calls = ce_uncosted_calls a + ce_uncosted_calls b\<rparr>"
proof -
  from assms obtain j k where "ce_usd a = of_int j / 10 ^ 6" "ce_usd b = of_int k / 10 ^ 6"
    by (auto simp: on_grid_iff)
  then have "ce_usd a + ce_usd b = of_int (j + k) / 10 ^ 6" by (simp add: add_divide_distrib)
  then show ?thesis by (simp only: CostEstimate_add_def round_to_grid)
qed

lemma on_grid_default [simp]: "on_grid CostEstimate_default"
  by (simp add: on_grid_iff CostEstimate_default_def)

lemma CostEstimate_add_default:
  "on_grid a \<Longrightarrow> CostEstimate_add CostEstimate_default a = a"
  "on_grid a \<Longrightarrow> CostEstimate_add a CostEstimate_default = a"
  by (simp_all add: CostEstimate_add_exact) (simp_all add: CostEstimate_default_def)

lemma CostEstimate_add_commute: "CostEstimate_add a b = CostEstimate_add b a"
  by (simp add: CostEstimate_add_def add.commute)

lemma CostEstimate_add_assoc:
  assumes "on_grid a" "on_grid b" "on_grid c"
  shows "CostEstimate_add (CostEstimate_add a b) c = CostEstimate_add a (CostEstimate_add b c)"
proof -
  have "CostEstimate_add (CostEstimate_add a b) c =
      \<lparr>ce_usd = ce_usd (CostEstimate_add a b) + ce_usd c,
       ce_uncosted_calls = ce_uncosted_calls (CostEstimate_add a b) + ce_uncosted_calls c\<rparr>"
    by (rule CostEstimate_add_exact) (simp_all add: assms)
  moreover have "CostEstimate_add a (CostEstimate_add b c) =
      \<lparr>ce_usd = ce_usd a + ce_usd (CostEstimate_add b c),
       ce_uncosted_calls = ce_uncosted_calls a + ce_uncosted_calls (CostEstimate_add b c)\<rparr>"
    by (rule CostEstimate_add_exact) (simp_all add: assms)
  ultimately show ?thesis by (simp add: CostEstimate_add_exact assms)
qed

interpretation cost: comm_channel
  "\<lambda>a b. add_cost (Some a) (Some b)" CostEstimate_default on_grid
  by unfold_locales
    (simp_all add: add_cost_def CostEstimate_add_default CostEstimate_add_assoc,
     simp add: CostEstimate_add_commute)

interpretation clock: comm_channel
  "\<lambda>a b. latest_clock (Some a) (Some b)" RunClock_default
  "\<lambda>c. 0 \<le> rc_elapsed_seconds c \<and> EPOCH \<le> rc_as_of c"
  by unfold_locales (auto simp: RunClock_default_def)

interpretation stops: channel keep_stop None "\<lambda>_. True"
  by unfold_locales (auto simp: keep_stop_def split: option.splits)

section \<open>Collections merged by identity\<close>

text \<open>
  Both list reducers fold a single-item step over the right-hand list: \<open>put\<close> replaces the item
  with the same id where it stands, \<open>put_new\<close> keeps the one already there.
\<close>

fun put :: "('a \<Rightarrow> uuid) \<Rightarrow> 'a \<Rightarrow> 'a list \<Rightarrow> 'a list" where
  "put idf x [] = [x]"
| "put idf x (y # ys) = (if idf y = idf x then x # ys else y # put idf x ys)"

definition put_new :: "('a \<Rightarrow> uuid) \<Rightarrow> 'a \<Rightarrow> 'a list \<Rightarrow> 'a list" where
  "put_new idf x ys = (if idf x \<in> idf ` set ys then ys else ys @ [x])"

definition ids_distinct :: "('a \<Rightarrow> uuid) \<Rightarrow> 'a list \<Rightarrow> bool" where
  "ids_distinct idf xs \<longleftrightarrow> distinct (map idf xs)"

locale keyed_reducer =
  fixes step :: "'a \<Rightarrow> 'a list \<Rightarrow> 'a list"
    and ok :: "'a list \<Rightarrow> bool"
  assumes ok_Nil [simp]: "ok []"
    and ok_step [simp]: "ok ys \<Longrightarrow> ok (step x ys)"
    and rebuild: "ok ys \<Longrightarrow> fold step ys [] = ys"
    and replay: "ok ys \<Longrightarrow> ok zs \<Longrightarrow> fold step (step x ys) zs = step x (fold step ys zs)"
begin

lemma ok_fold [simp]: "ok zs \<Longrightarrow> ok (fold step xs zs)"
  by (induction xs arbitrary: zs) auto

lemma fold_replay: "ok ys \<Longrightarrow> ok zs \<Longrightarrow> fold step (fold step xs ys) zs = fold step xs (fold step ys zs)"
  by (induction xs arbitrary: ys) (auto simp: replay)

end

sublocale keyed_reducer \<subseteq> channel "\<lambda>a b. fold step b a" "[]" ok
  by unfold_locales (simp_all add: rebuild fold_replay)

lemma ids_put: "map idf (put idf x ys) = map idf ys @ (if idf x \<in> idf ` set ys then [] else [idf x])"
  by (induction ys) auto

lemma set_put_subset: "set (put idf x ys) \<subseteq> insert x (set ys)"
  by (induction ys) auto

lemma put_put_same: "idf x = idf y \<Longrightarrow> put idf x (put idf y ys) = put idf x ys"
  by (induction ys) auto

lemma put_put_swap:
  "idf x \<noteq> idf y \<Longrightarrow> idf x \<in> idf ` set ys \<Longrightarrow> put idf x (put idf y ys) = put idf y (put idf x ys)"
  by (induction ys) auto

lemma put_fresh: "idf x \<notin> idf ` set ys \<Longrightarrow> put idf x ys = ys @ [x]"
  by (induction ys) auto

lemma ids_fold_put: "idf ` set (fold (put idf) xs ys) = idf ` set xs \<union> idf ` set ys"
proof (induction xs arbitrary: ys)
  case (Cons x xs)
  have "idf ` set (put idf x ys) = insert (idf x) (idf ` set ys)"
    using arg_cong[OF ids_put[of idf x ys], of set] by auto
  with Cons show ?case by auto
qed simp

lemma put_fold_put:
  "idf x \<in> idf ` set zs \<Longrightarrow> idf x \<notin> idf ` set ys \<Longrightarrow>
     put idf x (fold (put idf) ys zs) = fold (put idf) ys (put idf x zs)"
proof (induction ys arbitrary: zs)
  case (Cons y ys)
  then have "idf x \<in> idf ` set (put idf y zs)"
    using ids_fold_put[of idf "[y]" zs] by auto
  with Cons have "put idf x (fold (put idf) (y # ys) zs) = fold (put idf) ys (put idf x (put idf y zs))"
    by simp
  also have "put idf x (put idf y zs) = put idf y (put idf x zs)"
    using Cons.prems by (intro put_put_swap) auto
  finally show ?case by simp
qed simp

interpretation put_reducer: keyed_reducer "put idf" "ids_distinct idf" for idf :: "'a \<Rightarrow> uuid"
proof
  show "ids_distinct idf []" by (simp add: ids_distinct_def)
next
  fix x and ys :: "'a list"
  assume "ids_distinct idf ys"
  then show "ids_distinct idf (put idf x ys)" by (simp add: ids_distinct_def ids_put)
next
  have "ids_distinct idf (zs @ ys) \<Longrightarrow> fold (put idf) ys zs = zs @ ys" for ys zs :: "'a list"
    by (induction ys arbitrary: zs) (auto simp: ids_distinct_def put_fresh)
  then show "ids_distinct idf ys \<Longrightarrow> fold (put idf) ys [] = ys" for ys :: "'a list" by simp
next
  fix x and ys zs :: "'a list"
  assume "ids_distinct idf ys" "ids_distinct idf zs"
  then show "fold (put idf) (put idf x ys) zs = put idf x (fold (put idf) ys zs)"
  proof (induction ys arbitrary: zs)
    case (Cons y ys)
    then have ys: "ids_distinct idf ys" and fresh: "idf y \<notin> idf ` set ys"
      by (auto simp: ids_distinct_def)
    have ok: "ids_distinct idf (put idf y zs)"
      using Cons.prems by (simp add: ids_distinct_def ids_put)
    show ?case
    proof (cases "idf y = idf x")
      case True
      then have "idf x \<in> idf ` set (put idf y zs)" using ids_fold_put[of idf "[y]" zs] by simp
      with True fresh show ?thesis by (simp add: put_fold_put put_put_same)
    next
      case False
      with Cons.IH[OF ys ok] show ?thesis by simp
    qed
  qed simp
qed

lemma ids_put_new: "idf ` set (put_new idf x ys) = insert (idf x) (idf ` set ys)"
  by (auto simp: put_new_def)

lemma ids_fold_put_new: "idf ` set (fold (put_new idf) xs ys) = idf ` set xs \<union> idf ` set ys"
  by (induction xs arbitrary: ys) (auto simp: ids_put_new)

interpretation put_new_reducer: keyed_reducer "put_new idf" "ids_distinct idf" for idf :: "'a \<Rightarrow> uuid"
proof
  show "ids_distinct idf []" by (simp add: ids_distinct_def)
next
  fix x and ys :: "'a list"
  assume "ids_distinct idf ys"
  then show "ids_distinct idf (put_new idf x ys)" by (simp add: ids_distinct_def put_new_def)
next
  have "ids_distinct idf (zs @ ys) \<Longrightarrow> fold (put_new idf) ys zs = zs @ ys" for ys zs :: "'a list"
    by (induction ys arbitrary: zs) (auto simp: ids_distinct_def put_new_def)
  then show "ids_distinct idf ys \<Longrightarrow> fold (put_new idf) ys [] = ys" for ys :: "'a list" by simp
next
  fix x and ys zs :: "'a list"
  have "idf x \<in> idf ` set ys \<Longrightarrow> idf x \<in> idf ` set (fold (put_new idf) ys zs)"
    by (simp add: ids_fold_put_new)
  then show "fold (put_new idf) (put_new idf x ys) zs = put_new idf x (fold (put_new idf) ys zs)"
    by (cases "idf x \<in> idf ` set ys") (simp_all add: put_new_def)
qed

text \<open>The dictionary code is these folds.\<close>

definition keyed :: "('a \<Rightarrow> uuid) \<Rightarrow> (uuid \<times> 'a) list \<Rightarrow> bool" where
  "keyed idf d \<longleftrightarrow> (\<forall>p \<in> set d. fst p = idf (snd p))"

lemma snd_update: "keyed idf d \<Longrightarrow> map snd (AList.update (idf x) x d) = put idf x (map snd d)"
  by (induction d) (auto simp: keyed_def)

lemma keyed_update: "keyed idf d \<Longrightarrow> keyed idf (AList.update (idf x) x d)"
  by (induction d) (auto simp: keyed_def)

lemma dict_of_put:
  "keyed idf d \<Longrightarrow> map snd (dict_of idf d xs) = fold (put idf) xs (map snd d) \<and> keyed idf (dict_of idf d xs)"
  unfolding dict_of_def by (induction xs arbitrary: d) (auto simp: snd_update keyed_update)

lemma merge_by_id_fold: "merge_by_id idf l r = fold (put idf) (l @ r) []"
  using dict_of_put[of idf "[]" l] dict_of_put[of idf "dict_of idf [] l" r]
  by (simp add: merge_by_id_def Let_def keyed_def)

lemma merge_by_id_put: "ids_distinct idf l \<Longrightarrow> merge_by_id idf l r = fold (put idf) r l"
  by (simp add: merge_by_id_fold put_reducer.rebuild)

lemma set_default_absent:
  "keyed sr_source_id d \<Longrightarrow>
     map_of d (sr_source_id x) = None \<longleftrightarrow> sr_source_id x \<notin> sr_source_id ` set (map snd d)"
  by (force simp: map_of_eq_None_iff keyed_def image_iff)

lemma snd_set_default:
  "keyed sr_source_id d \<Longrightarrow>
     map snd (set_default (sr_source_id x) x d) = put_new sr_source_id x (map snd d)"
  using set_default_absent[of d x]
  by (cases "map_of d (sr_source_id x)") (simp_all add: set_default_def put_new_def)

lemma keyed_set_default: "keyed sr_source_id d \<Longrightarrow> keyed sr_source_id (set_default (sr_source_id x) x d)"
  by (auto simp: set_default_def keyed_def split: option.splits)

lemma merge_sources_fold: "merge_sources l r = fold (put_new sr_source_id) (l @ r) []"
proof -
  have "keyed sr_source_id d \<Longrightarrow>
      map snd (fold (\<lambda>x m. set_default (sr_source_id x) x m) xs d) = fold (put_new sr_source_id) xs (map snd d)"
    for xs d
    by (induction xs arbitrary: d) (simp_all add: snd_set_default keyed_set_default)
  from this[of "[]" "l @ r"] show ?thesis by (simp add: merge_sources_def keyed_def)
qed

lemma merge_sources_put: "ids_distinct sr_source_id l \<Longrightarrow> merge_sources l r = fold (put_new sr_source_id) r l"
  by (simp add: merge_sources_fold put_new_reducer.rebuild)

lemma merge_by_id_distinct [simp]: "ids_distinct idf (merge_by_id idf l r)"
  by (simp add: merge_by_id_fold)

lemma merge_sources_distinct [simp]: "ids_distinct sr_source_id (merge_sources l r)"
  by (simp add: merge_sources_fold)

interpretation by_id: channel "merge_by_id idf" "[]" "ids_distinct idf" for idf :: "'a \<Rightarrow> uuid"
  by unfold_locales
    (simp_all add: merge_by_id_put put_reducer.rebuild put_reducer.red_assoc)

interpretation by_source: channel merge_sources "[]" "ids_distinct sr_source_id"
  by unfold_locales
    (simp_all add: merge_sources_put put_new_reducer.rebuild put_new_reducer.red_assoc)

lemma length_put_new: "length (put_new idf x ys) \<le> Suc (length ys)"
  by (simp add: put_new_def)

lemma length_merge_sources:
  "ids_distinct sr_source_id l \<Longrightarrow> length (merge_sources l r) \<le> length l + length r"
proof -
  have "length (fold (put_new idf) xs ys) \<le> length ys + length xs"
    for idf :: "'a \<Rightarrow> uuid" and xs ys
  proof (induction xs arbitrary: ys)
    case (Cons x xs)
    from Cons[of "put_new idf x ys"] show ?case using length_put_new[of idf x ys] by simp
  qed simp
  then show "ids_distinct sr_source_id l \<Longrightarrow> ?thesis" by (simp add: merge_sources_put)
qed

lemma ids_merge_by_id: "idf ` set (merge_by_id idf l r) = idf ` set l \<union> idf ` set r"
  by (auto simp: merge_by_id_fold ids_fold_put)

section \<open>The research state\<close>

record ResearchState =
  s_research_id :: uuid
  s_user_id :: uuid
  s_query :: string
  s_parameters :: RunParameters
  s_budget :: RunBudget
  s_iteration :: int
  s_research_plan :: "Plan option"
  s_subtasks :: "Subtask list"
  s_sources :: "SourceRef list"
  s_completed_tasks :: "TaskOutcome list"
  s_failed_tasks :: "NodeError list"
  s_evidence :: "EvidenceItem list"
  s_claims :: "ClaimItem list"
  s_contradictions :: "ContradictionItem list"
  s_critique :: "Critique option"
  s_answer :: "AnswerDraft option"
  s_report :: "ReportDraft option"
  s_citation_check :: "CitationCheck option"
  s_citation_repairs :: int
  s_token_usage :: TokenCount
  s_estimated_cost :: CostEstimate
  s_search_queries :: nat
  s_clock :: RunClock
  s_stop :: "Stop option"
  s_errors :: "NodeError list"

text \<open>
  A node's partial update: \<open>None\<close> is an absent key.  A channel that may be written \<open>None\<close>
  itself (the citation check a new draft clears) has a nested option.
\<close>

record Update =
  u_iteration :: "int option"
  u_research_plan :: "Plan option"
  u_subtasks :: "Subtask list option"
  u_sources :: "SourceRef list option"
  u_completed_tasks :: "TaskOutcome list option"
  u_failed_tasks :: "NodeError list option"
  u_evidence :: "EvidenceItem list option"
  u_claims :: "ClaimItem list option"
  u_contradictions :: "ContradictionItem list option"
  u_critique :: "Critique option"
  u_answer :: "AnswerDraft option"
  u_report :: "ReportDraft option"
  u_citation_check :: "CitationCheck option option"
  u_citation_repairs :: "int option"
  u_token_usage :: "TokenCount option"
  u_estimated_cost :: "CostEstimate option"
  u_search_queries :: "nat option"
  u_clock :: "RunClock option"
  u_stop :: "Stop option"
  u_errors :: "NodeError list option"

definition no_update :: Update where
  "no_update =
     \<lparr>u_iteration = None, u_research_plan = None, u_subtasks = None, u_sources = None,
      u_completed_tasks = None, u_failed_tasks = None, u_evidence = None, u_claims = None,
      u_contradictions = None, u_critique = None, u_answer = None, u_report = None,
      u_citation_check = None, u_citation_repairs = None, u_token_usage = None,
      u_estimated_cost = None, u_search_queries = None, u_clock = None, u_stop = None,
      u_errors = None\<rparr>"

text \<open>A channel without a reducer keeps the last value; one with a reducer combines.\<close>

definition last_value :: "'a \<Rightarrow> 'a option \<Rightarrow> 'a" where
  "last_value old w = (case w of None \<Rightarrow> old | Some v \<Rightarrow> v)"

definition reduced :: "('a \<Rightarrow> 'a \<Rightarrow> 'a) \<Rightarrow> 'a \<Rightarrow> 'a option \<Rightarrow> 'a" where
  "reduced red old w = (case w of None \<Rightarrow> old | Some v \<Rightarrow> red old v)"

definition apply_update :: "ResearchState \<Rightarrow> Update \<Rightarrow> ResearchState" where
  "apply_update s u = s\<lparr>
     s_iteration := last_value (s_iteration s) (u_iteration u),
     s_research_plan := (case u_research_plan u of None \<Rightarrow> s_research_plan s | Some p \<Rightarrow> Some p),
     s_subtasks := reduced (@) (s_subtasks s) (u_subtasks u),
     s_sources := reduced merge_sources (s_sources s) (u_sources u),
     s_completed_tasks := reduced (@) (s_completed_tasks s) (u_completed_tasks u),
     s_failed_tasks := reduced (@) (s_failed_tasks s) (u_failed_tasks u),
     s_evidence := reduced (merge_by_id ev_id) (s_evidence s) (u_evidence u),
     s_claims := reduced (merge_by_id cl_id) (s_claims s) (u_claims u),
     s_contradictions := reduced (merge_by_id cn_id) (s_contradictions s) (u_contradictions u),
     s_critique := (case u_critique u of None \<Rightarrow> s_critique s | Some c \<Rightarrow> Some c),
     s_answer := (case u_answer u of None \<Rightarrow> s_answer s | Some a \<Rightarrow> Some a),
     s_report := (case u_report u of None \<Rightarrow> s_report s | Some r \<Rightarrow> Some r),
     s_citation_check := last_value (s_citation_check s) (u_citation_check u),
     s_citation_repairs := last_value (s_citation_repairs s) (u_citation_repairs u),
     s_token_usage := reduced (\<lambda>a b. add_tokens (Some a) (Some b)) (s_token_usage s) (u_token_usage u),
     s_estimated_cost := reduced (\<lambda>a b. add_cost (Some a) (Some b)) (s_estimated_cost s) (u_estimated_cost u),
     s_search_queries := reduced (+) (s_search_queries s) (u_search_queries u),
     s_clock := reduced (\<lambda>a b. latest_clock (Some a) (Some b)) (s_clock s) (u_clock u),
     s_stop := keep_stop (s_stop s) (u_stop u),
     s_errors := reduced (@) (s_errors s) (u_errors u)\<rparr>"

record RunBrief =
  bf_research_id :: uuid
  bf_user_id :: uuid
  bf_query :: string
  bf_mode :: ResearchMode
  bf_depth :: int
  bf_domains :: "string list"
  bf_date_range_start :: "int option"
  bf_date_range_end :: "int option"
  bf_parent_research_id :: "uuid option"
  bf_has_attached_documents :: bool
  bf_budget :: RunBudget

definition RunBrief_ok :: "RunBrief \<Rightarrow> bool" where
  "RunBrief_ok b \<longleftrightarrow>
     len_between 1 MAX_QUESTION_LENGTH (bf_query b)
     \<and> MIN_DEPTH \<le> bf_depth b \<and> bf_depth b \<le> MAX_DEPTH
     \<and> length (bf_domains b) \<le> MAX_DOMAINS \<and> RunBudget_ok (bf_budget b)"

definition brief_from_run :: "ResearchRun \<Rightarrow> bool \<Rightarrow> RunBrief option" where
  "brief_from_run run has_attached_documents =
     (case from_limits (rr_limits run) of
        None \<Rightarrow> None
      | Some budget \<Rightarrow>
          (let b = \<lparr>bf_research_id = rr_id run, bf_user_id = rr_user_id run,
                   bf_query = rr_question run, bf_mode = rr_mode run, bf_depth = rr_depth run,
                   bf_domains = rr_domains run,
                   bf_date_range_start = rr_date_range_start run,
                   bf_date_range_end = rr_date_range_end run,
                   bf_parent_research_id = rr_parent_run_id run,
                   bf_has_attached_documents = has_attached_documents,
                   bf_budget = budget\<rparr>
           in if RunBrief_ok b then Some b else None))"

definition brief_parameters :: "RunBrief \<Rightarrow> RunParameters" where
  "brief_parameters b =
     \<lparr>rp_mode = bf_mode b, rp_depth = bf_depth b, rp_domains = bf_domains b,
      rp_date_range_start = bf_date_range_start b, rp_date_range_end = bf_date_range_end b,
      rp_parent_research_id = bf_parent_research_id b,
      rp_has_attached_documents = bf_has_attached_documents b\<rparr>"

definition initial_state :: "RunBrief \<Rightarrow> datetime \<Rightarrow> ResearchState" where
  "initial_state brief now =
     \<lparr>s_research_id = bf_research_id brief, s_user_id = bf_user_id brief, s_query = bf_query brief,
      s_parameters = brief_parameters brief, s_budget = bf_budget brief,
      s_iteration = 0, s_research_plan = None, s_subtasks = [], s_sources = [],
      s_completed_tasks = [], s_failed_tasks = [], s_evidence = [], s_claims = [],
      s_contradictions = [], s_critique = None, s_answer = None, s_report = None,
      s_citation_check = None, s_citation_repairs = 0,
      s_token_usage = TokenCount_default, s_estimated_cost = CostEstimate_default,
      s_search_queries = 0, s_clock = \<lparr>rc_elapsed_seconds = 0, rc_as_of = now\<rparr>,
      s_stop = None, s_errors = []\<rparr>"

definition stop_reason :: "ResearchState \<Rightarrow> StopReason option" where
  "stop_reason s = map_option sp_reason (s_stop s)"

text \<open>What a run has used so far (\<open>Consumption\<close>, \<open>app/agents/budget.py\<close>).\<close>

record Consumption =
  co_iterations :: int
  co_sources :: int
  co_search_queries :: int
  co_runtime_seconds :: real
  co_cost :: CostEstimate

definition consumption :: "ResearchState \<Rightarrow> datetime option \<Rightarrow> datetime option \<Rightarrow> Consumption" where
  "consumption s now resumed_at =
     \<lparr>co_iterations = s_iteration s,
      co_sources = int (length (s_sources s)),
      co_search_queries = int (s_search_queries s),
      co_runtime_seconds =
        (case (now, resumed_at) of
           (Some n, Some r) \<Rightarrow> elapsed_at (s_clock s) n r
         | _ \<Rightarrow> rc_elapsed_seconds (s_clock s)),
      co_cost = s_estimated_cost s\<rparr>"

section \<open>What an update leaves alone\<close>

lemma reduced_simps [simp]:
  "reduced red old None = old" "reduced red old (Some v) = red old v"
  "last_value old' None = old'" "last_value old' (Some w) = w"
  by (simp_all add: reduced_def last_value_def)

lemma apply_update_frame [simp, frame_simps]:
  "s_research_id (apply_update s u) = s_research_id s"
  "s_user_id (apply_update s u) = s_user_id s"
  "s_query (apply_update s u) = s_query s"
  "s_parameters (apply_update s u) = s_parameters s"
  "s_budget (apply_update s u) = s_budget s"
  by (simp_all add: apply_update_def)

lemma apply_update_fields:
  "s_iteration (apply_update s u) = last_value (s_iteration s) (u_iteration u)"
  "s_research_plan (apply_update s u) = (case u_research_plan u of None \<Rightarrow> s_research_plan s | Some p \<Rightarrow> Some p)"
  "s_sources (apply_update s u) = reduced merge_sources (s_sources s) (u_sources u)"
  "s_claims (apply_update s u) = reduced (merge_by_id cl_id) (s_claims s) (u_claims u)"
  "s_evidence (apply_update s u) = reduced (merge_by_id ev_id) (s_evidence s) (u_evidence u)"
  "s_contradictions (apply_update s u) = reduced (merge_by_id cn_id) (s_contradictions s) (u_contradictions u)"
  "s_critique (apply_update s u) = (case u_critique u of None \<Rightarrow> s_critique s | Some c \<Rightarrow> Some c)"
  "s_answer (apply_update s u) = (case u_answer u of None \<Rightarrow> s_answer s | Some a \<Rightarrow> Some a)"
  "s_report (apply_update s u) = (case u_report u of None \<Rightarrow> s_report s | Some r \<Rightarrow> Some r)"
  "s_citation_check (apply_update s u) = last_value (s_citation_check s) (u_citation_check u)"
  "s_citation_repairs (apply_update s u) = last_value (s_citation_repairs s) (u_citation_repairs u)"
  "s_stop (apply_update s u) = keep_stop (s_stop s) (u_stop u)"
  "s_clock (apply_update s u) = reduced (\<lambda>a b. latest_clock (Some a) (Some b)) (s_clock s) (u_clock u)"
  "s_search_queries (apply_update s u) = reduced (+) (s_search_queries s) (u_search_queries u)"
  "s_estimated_cost (apply_update s u) = reduced (\<lambda>a b. add_cost (Some a) (Some b)) (s_estimated_cost s) (u_estimated_cost u)"
  "s_failed_tasks (apply_update s u) = reduced (@) (s_failed_tasks s) (u_failed_tasks u)"
  "s_errors (apply_update s u) = reduced (@) (s_errors s) (u_errors u)"
  by (simp_all add: apply_update_def)

lemma no_update_fields [simp]:
  "u_iteration no_update = None" "u_research_plan no_update = None" "u_subtasks no_update = None"
  "u_sources no_update = None" "u_completed_tasks no_update = None" "u_failed_tasks no_update = None"
  "u_evidence no_update = None" "u_claims no_update = None" "u_contradictions no_update = None"
  "u_critique no_update = None" "u_answer no_update = None" "u_report no_update = None"
  "u_citation_check no_update = None" "u_citation_repairs no_update = None"
  "u_token_usage no_update = None" "u_estimated_cost no_update = None"
  "u_search_queries no_update = None" "u_clock no_update = None" "u_stop no_update = None"
  "u_errors no_update = None"
  by (simp_all add: no_update_def)

lemma keep_stop_simps [simp]:
  "keep_stop left None = left"
  "keep_stop None right = right"
  by (auto simp: keep_stop_def split: option.splits)

lemma keep_stop_Some:
  "keep_stop (Some l) (Some r) = (if sp_reason r = StopReason.CANCELLED then Some r else Some l)"
  by (simp add: keep_stop_def)

lemma keep_stop_cancelled:
  "sp_reason c = StopReason.CANCELLED \<Longrightarrow>
     \<exists>c'. keep_stop (Some c) r = Some c' \<and> sp_reason c' = StopReason.CANCELLED"
  by (cases r) (auto simp: keep_stop_Some)

end
