(* ===== verification/Governor.thy ===== *)
theory Governor
  imports GraphState "HOL-Library.Product_Lexorder"
begin

text \<open>
  \<open>app/agents/budget.py\<close>: loop control.  \<open>limit_reached\<close> is the ceiling that ends discovery,
  \<open>allocate\<close> deals a round out to researchers, \<open>recursion_limit\<close> is the superstep backstop and
  \<open>coverage_caveat\<close> the sentence a limited report carries.
\<close>

definition MAX_CITATION_REPAIRS :: int where "MAX_CITATION_REPAIRS = 1"

fun PRIORITY_RANK :: "TaskPriority \<Rightarrow> nat" where
  "PRIORITY_RANK TaskPriority.HIGH = 0"
| "PRIORITY_RANK TaskPriority.MEDIUM = 1"
| "PRIORITY_RANK TaskPriority.LOW = 2"

fun ROUND_STEPS :: "ResearchMode \<Rightarrow> int" where
  "ROUND_STEPS ResearchMode.DEEP = 7"
| "ROUND_STEPS ResearchMode.CONVERSATIONAL = 7"
| "ROUND_STEPS ResearchMode.QUICK = 4"

definition TAIL_STEPS :: int where "TAIL_STEPS = 1 + 2 * (1 + MAX_CITATION_REPAIRS)"
definition RECURSION_MARGIN :: int where "RECURSION_MARGIN = 3"
definition CAVEAT_MISSING_ITEMS :: nat where "CAVEAT_MISSING_ITEMS = 3"

text \<open>\<open>TaskPriority\<close> is ordered by its rank: highest priority first.\<close>

instantiation TaskPriority :: linorder
begin

definition less_eq_TaskPriority :: "TaskPriority \<Rightarrow> TaskPriority \<Rightarrow> bool" where
  "less_eq_TaskPriority a b \<longleftrightarrow> PRIORITY_RANK a \<le> PRIORITY_RANK b"

definition less_TaskPriority :: "TaskPriority \<Rightarrow> TaskPriority \<Rightarrow> bool" where
  "less_TaskPriority a b \<longleftrightarrow> PRIORITY_RANK a < PRIORITY_RANK b"

instance
proof
  fix x y :: TaskPriority
  assume "x \<le> y" "y \<le> x"
  then show "x = y" by (cases x; cases y) (simp_all add: less_eq_TaskPriority_def)
qed (auto simp: less_eq_TaskPriority_def less_TaskPriority_def)

end

definition limit_reached :: "RunBudget \<Rightarrow> Consumption \<Rightarrow> bool \<Rightarrow> StopReason option" where
  "limit_reached budget used at_round_boundary =
     (if ce_usd (co_cost used) \<ge> rb_max_cost_usd budget then Some StopReason.COST
      else if at_round_boundary \<and> \<not> measured (co_cost used) then Some StopReason.COST_UNMEASURED
      else if co_runtime_seconds used \<ge> of_int (rb_max_runtime_seconds budget) then Some StopReason.RUNTIME
      else if co_sources used \<ge> rb_max_sources budget then Some StopReason.SOURCES
      else if co_search_queries used \<ge> rb_max_search_queries budget then Some StopReason.SEARCH_QUERIES
      else None)"

definition may_plan_again :: "RunBudget \<Rightarrow> Consumption \<Rightarrow> bool" where
  "may_plan_again budget used \<longleftrightarrow> co_iterations used < rb_max_iterations budget"

record Dispatch =
  dp_subtask :: Subtask
  dp_query_allowance :: int
  dp_source_allowance :: int

text \<open>
  \<open>None\<close> is the \<open>ValueError\<close> of a width below one.  \<open>sorted\<close> on (rank, position) of the enumerated
  subtasks is the stable sort by rank, which is the library's \<open>sort_key\<close>.
\<close>

definition by_priority :: "Subtask list \<Rightarrow> Subtask list" where
  "by_priority subtasks =
     map snd (sort_key (\<lambda>(i, t). (PRIORITY_RANK (su_priority t), i)) (enumerate 0 subtasks))"

definition allocate :: "RunBudget \<Rightarrow> Consumption \<Rightarrow> Subtask list \<Rightarrow> int \<Rightarrow> Dispatch list option" where
  "allocate budget used subtasks width =
     (if width < 1 then None
      else
        (let queries_left = rb_max_search_queries budget - co_search_queries used;
             sources_left = rb_max_sources budget - co_sources used
         in if subtasks = [] \<or> queries_left < 1 \<or> sources_left < 1 then Some []
            else
              (let ordered = by_priority subtasks;
                   count = min (min (int (length ordered)) width) (min queries_left sources_left)
               in Some (map (\<lambda>t. \<lparr>dp_subtask = t,
                                  dp_query_allowance = queries_left div count,
                                  dp_source_allowance = sources_left div count\<rparr>)
                            (take (nat count) ordered)))))"

definition recursion_limit :: "ResearchMode \<Rightarrow> int \<Rightarrow> int option" where
  "recursion_limit mode max_iterations =
     (if max_iterations < 1 then None
      else Some (ROUND_STEPS mode * max_iterations + TAIL_STEPS + RECURSION_MARGIN))"

definition covers :: string where
  "covers = ''The report covers what had been gathered by then.''"

definition iterations_missing :: "Critique option \<Rightarrow> string" where
  "iterations_missing critique =
     (case critique of
        None \<Rightarrow> []
      | Some c \<Rightarrow>
          if cq_missing c = [] then []
          else
            (let named = map mi_description (take CAVEAT_MISSING_ITEMS (cq_missing c));
                 extra = length (cq_missing c) - length named
             in '' Still missing: '' @ str_join ''; '' named
                @ (if extra \<noteq> 0 then ''; and '' @ show_nat extra @ '' more.'' else ''.'')))"

fun coverage_caveat :: "StopReason \<Rightarrow> RunBudget \<Rightarrow> Consumption \<Rightarrow> Critique option \<Rightarrow> string option" where
  "coverage_caveat StopReason.CANCELLED budget used critique = None"
| "coverage_caveat StopReason.COST budget used critique =
     Some (''Research stopped when its estimated cost reached $'' @ fmt_2f (ce_usd (co_cost used))
       @ '' of the $'' @ fmt_2f (rb_max_cost_usd budget) @ '' this run was allowed. '' @ covers)"
| "coverage_caveat StopReason.COST_UNMEASURED budget used critique =
     Some (''Research stopped after round '' @ show_int (co_iterations used)
       @ '' because a model call could not be costed, so this run''
       @ [CHR 0x27] @ ''s spending limit could not be enforced. '' @ covers)"
| "coverage_caveat StopReason.RUNTIME budget used critique =
     Some (''Research stopped after '' @ fmt_0f (co_runtime_seconds used)
       @ '' seconds of work, the most this run was allowed ('' @ show_int (rb_max_runtime_seconds budget)
       @ ''). '' @ covers)"
| "coverage_caveat StopReason.SOURCES budget used critique =
     Some (''Research stopped after collecting '' @ show_int (co_sources used)
       @ '' sources, the most this run was allowed. '' @ covers)"
| "coverage_caveat StopReason.SEARCH_QUERIES budget used critique =
     Some (''Research stopped after '' @ show_int (co_search_queries used)
       @ '' searches, the most this run was allowed. '' @ covers)"
| "coverage_caveat StopReason.DISCOVERY_FAILED budget used critique =
     Some (''Research stopped early because a step that plans or judges further research failed. ''
       @ covers)"
| "coverage_caveat StopReason.ITERATIONS budget used critique =
     Some (''Coverage was still judged incomplete after '' @ show_int (co_iterations used)
       @ '' research rounds, the most this run was allowed.'' @ iterations_missing critique @ '' '' @ covers)"

section \<open>The order of a round\<close>

lemma length_by_priority [simp]: "length (by_priority ts) = length ts"
  by (simp add: by_priority_def)

text \<open>Sorting on (rank, position) is the stable sort by rank.\<close>

lemma sorted_wrt_enumerate: "sorted_wrt (\<lambda>p q. fst p < fst q) (enumerate n ts)"
  by (simp add: sorted_wrt_iff_nth_less nth_enumerate_eq)

lemma sort_key_enumerate:
  fixes f :: "'a \<Rightarrow> nat"
  shows "map snd (sort_key (\<lambda>(i, t). (f t, i)) (enumerate n ts)) = sort_key f ts"
proof (rule properties_for_sort_key[symmetric])
  let ?g = "\<lambda>(i :: nat, t). (f t, i)" and ?en = "enumerate n ts"
  have "mset (map snd (sort_key ?g ?en)) = image_mset snd (mset ?en)" by simp
  also have "\<dots> = mset (map snd ?en)" by (rule mset_map[symmetric])
  finally show "mset (map snd (sort_key ?g ?en)) = mset ts" by simp
  have "sorted_wrt (\<lambda>p q. ?g p \<le> ?g q) (sort_key ?g ?en)"
    using sorted_sort_key[of ?g ?en] by (simp add: sorted_map)
  then have "sorted_wrt (\<lambda>p q. f (snd p) \<le> f (snd q)) (sort_key ?g ?en)"
    by (rule sorted_wrt_mono_rel[rotated]) auto
  then show "sorted (map f (map snd (sort_key ?g ?en)))" by (simp add: sorted_map sorted_wrt_map)
  fix k
  let ?P = "\<lambda>p. f k = f (snd p)"
  have "sorted_wrt (\<lambda>p q. fst p < fst q) (filter ?P ?en)"
    by (rule sorted_wrt_filter[OF sorted_wrt_enumerate])
  then have "sorted_wrt (\<lambda>p q. ?g p \<le> ?g q) (filter ?P ?en)"
    by (rule sorted_wrt_mono_rel[rotated]) auto
  then have "sort_key ?g (filter ?P ?en) = filter ?P ?en"
    by (simp add: sort_key_id_if_sorted sorted_map)
  then have "map snd (filter ?P (sort_key ?g ?en)) = map snd (filter ?P ?en)"
    by (simp only: filter_sort)
  moreover have "filter (\<lambda>x. f k = f x) (map snd ps) = map snd (filter ?P ps)" for ps :: "(nat \<times> 'a) list"
    by (simp add: filter_map comp_def)
  ultimately show "filter (\<lambda>x. f k = f x) (map snd (sort_key ?g ?en)) = filter (\<lambda>x. f k = f x) ts"
    by (metis map_snd_enumerate)
qed

lemma by_priority_sort: "by_priority ts = sort_key (PRIORITY_RANK \<circ> su_priority) ts"
  unfolding by_priority_def comp_def by (rule sort_key_enumerate)

lemma mset_by_priority: "mset (by_priority ts) = mset ts"
  by (simp add: by_priority_sort)

lemma set_by_priority [simp]: "set (by_priority ts) = set ts"
  by (simp add: by_priority_sort)

lemma sorted_by_priority: "sorted (map su_priority (by_priority ts))"
  using sorted_sort_key[of "PRIORITY_RANK \<circ> su_priority" ts]
  by (auto simp: by_priority_sort sorted_map less_eq_TaskPriority_def intro: sorted_wrt_mono_rel[rotated])

section \<open>Allocation\<close>

lemma allocate_cases:
  assumes "allocate b u ts w = Some ds"
  obtains (none) "ds = []"
  | (some) count where "1 \<le> count" "count \<le> int (length ts)" "count \<le> w"
      "count \<le> rb_max_search_queries b - co_search_queries u"
      "count \<le> rb_max_sources b - co_sources u"
      "ds = map (\<lambda>t. \<lparr>dp_subtask = t,
              dp_query_allowance = (rb_max_search_queries b - co_search_queries u) div count,
              dp_source_allowance = (rb_max_sources b - co_sources u) div count\<rparr>)
            (take (nat count) (by_priority ts))"
proof (cases "ts = [] \<or> rb_max_search_queries b - co_search_queries u < 1
    \<or> rb_max_sources b - co_sources u < 1")
  case True
  with assms none show ?thesis by (auto simp: allocate_def Let_def split: if_splits)
next
  case False
  define c where "c = min (min (int (length (by_priority ts))) w)
    (min (rb_max_search_queries b - co_search_queries u) (rb_max_sources b - co_sources u))"
  have w: "1 \<le> w" using assms by (simp add: allocate_def not_less split: if_splits)
  have le: "c \<le> int (length ts)" "c \<le> w" "c \<le> rb_max_search_queries b - co_search_queries u"
      "c \<le> rb_max_sources b - co_sources u"
    unfolding c_def by simp_all
  have "1 \<le> int (length ts)" using False by (cases ts) auto
  with w False have ge: "1 \<le> c" unfolding c_def length_by_priority min.bounded_iff by simp
  have "ds = map (\<lambda>t. \<lparr>dp_subtask = t,
          dp_query_allowance = (rb_max_search_queries b - co_search_queries u) div c,
          dp_source_allowance = (rb_max_sources b - co_sources u) div c\<rparr>)
        (take (nat c) (by_priority ts))"
    using assms w False unfolding allocate_def Let_def c_def[symmetric]
    by (simp only: if_False if_True linorder_not_less[symmetric] option.inject) 
  with ge le show ?thesis by (rule some)
qed

lemma allocate_allowances:
  assumes "allocate b u ts w = Some ds" "d \<in> set ds"
  shows "1 \<le> dp_query_allowance d" "1 \<le> dp_source_allowance d" "dp_subtask d \<in> set ts"
proof -
  have "1 \<le> dp_query_allowance d \<and> 1 \<le> dp_source_allowance d \<and> dp_subtask d \<in> set ts"
    using assms(1)
  proof (cases rule: allocate_cases)
    case (some count)
    then have share: "1 \<le> x div count" if "count \<le> x" for x
      using that zdiv_mono1[of count x count] by simp
    from some assms(2) obtain t where t: "t \<in> set (take (nat count) (by_priority ts))"
      and d: "d = \<lparr>dp_subtask = t,
          dp_query_allowance = (rb_max_search_queries b - co_search_queries u) div count,
          dp_source_allowance = (rb_max_sources b - co_sources u) div count\<rparr>"
      by auto
    from t have "t \<in> set ts" by (metis in_set_takeD set_by_priority)
    with d some share show ?thesis by simp
  qed (use assms in auto)
  then show "1 \<le> dp_query_allowance d" "1 \<le> dp_source_allowance d" "dp_subtask d \<in> set ts"
    by simp_all
qed

lemma allocate_order:
  assumes "allocate b u ts w = Some ds"
  shows "map dp_subtask ds = take (length ds) (by_priority ts)" "int (length ds) \<le> w"
  using assms
proof -
  from assms have "1 \<le> w" by (auto simp: allocate_def split: if_splits)
  from assms show "map dp_subtask ds = take (length ds) (by_priority ts)"
    by (cases rule: allocate_cases) (auto simp: comp_def min_def)
  from assms \<open>1 \<le> w\<close> show "int (length ds) \<le> w"
    by (cases rule: allocate_cases) auto
qed

lemma count_times_share: "1 \<le> c \<Longrightarrow> c * (x div c) \<le> (x :: int)" for c :: int
  using mult_div_mod_eq[of c x] pos_mod_sign[of c x] by linarith

lemma allocate_within_left:
  assumes "allocate b u ts w = Some ds"
  shows "sum_list (map dp_query_allowance ds) \<le> max 0 (rb_max_search_queries b - co_search_queries u)"
    "sum_list (map dp_source_allowance ds) \<le> max 0 (rb_max_sources b - co_sources u)"
  using assms
proof -
  note share = count_times_share
  show "sum_list (map dp_query_allowance ds) \<le> max 0 (rb_max_search_queries b - co_search_queries u)"
    using assms
  proof (cases rule: allocate_cases)
    case (some count)
    then have "sum_list (map dp_query_allowance ds)
        = count * ((rb_max_search_queries b - co_search_queries u) div count)"
      by (simp add: comp_def sum_list_triv min.absorb2)
    then show ?thesis using share[OF some(1), of "rb_max_search_queries b - co_search_queries u"] by simp
  qed simp
  show "sum_list (map dp_source_allowance ds) \<le> max 0 (rb_max_sources b - co_sources u)"
    using assms
  proof (cases rule: allocate_cases)
    case (some count)
    then have "sum_list (map dp_source_allowance ds)
        = count * ((rb_max_sources b - co_sources u) div count)"
      by (simp add: comp_def sum_list_triv min.absorb2)
    then show ?thesis using share[OF some(1), of "rb_max_sources b - co_sources u"] by simp
  qed simp
qed

section \<open>The caveat\<close>

lemma coverage_caveat_None: "coverage_caveat r b u c = None \<longleftrightarrow> r = StopReason.CANCELLED"
  by (cases r) simp_all

lemma length_show_int: "0 \<le> i \<Longrightarrow> i < 10 ^ k \<Longrightarrow> 0 < k \<Longrightarrow> length (show_int i) \<le> k"
  using length_show_nat[of k "nat i"] by (simp add: show_int_def nat_less_iff)

lemma length_fmt_2f:
  assumes "0 \<le> x" "x < 10 ^ 9"
  shows "length (fmt_2f x) \<le> 13"
proof -
  have "of_int (round_half_even (x * 100)) \<le> x * 100 + 1/2"
    using round_half_even_error[of "x * 100"] by linarith
  with assms have "of_int (round_half_even (x * 100)) < (of_int (10 ^ 11 + 1) :: real)" by simp
  then have "round_half_even (x * 100) < 10 ^ 11 + 1" by (simp only: of_int_less_iff)
  then have "nat (round_half_even (x * 100)) div 100 < 10 ^ 10" by simp
  then show ?thesis using length_show_nat[of 10 "nat (round_half_even (x * 100)) div 100"]
    by (simp add: fmt_2f_def Let_def)
qed

lemma length_fmt_0f:
  assumes "0 \<le> x" "x < 10 ^ 9"
  shows "length (fmt_0f x) \<le> 10"
proof -
  have "of_int (round_half_even x) \<le> x + 1/2" using round_half_even_error[of x] by linarith
  with assms have "of_int (round_half_even x) < (of_int (10 ^ 10) :: real)" by simp
  then have "round_half_even x < 10 ^ 10" by (simp only: of_int_less_iff)
  then show ?thesis using round_half_even_nonneg[OF assms(1)]
    by (simp add: fmt_0f_def length_show_int)
qed

text \<open>
  The numbers a caveat prints are small, and each gap it names is at most \<open>n\<close> characters.
\<close>

definition caveat_numbers_small :: "RunBudget \<Rightarrow> Consumption \<Rightarrow> bool" where
  "caveat_numbers_small b u \<longleftrightarrow>
     0 \<le> ce_usd (co_cost u) \<and> ce_usd (co_cost u) < 10 ^ 9
     \<and> 0 \<le> rb_max_cost_usd b \<and> rb_max_cost_usd b < 10 ^ 9
     \<and> 0 \<le> co_iterations u \<and> co_iterations u < 10 ^ 9
     \<and> 0 \<le> co_sources u \<and> co_sources u < 10 ^ 9
     \<and> 0 \<le> co_search_queries u \<and> co_search_queries u < 10 ^ 9
     \<and> 0 \<le> rb_max_runtime_seconds b \<and> rb_max_runtime_seconds b < 10 ^ 9
     \<and> 0 \<le> co_runtime_seconds u \<and> co_runtime_seconds u < 10 ^ 9"

definition gaps_within :: "nat \<Rightarrow> Critique option \<Rightarrow> bool" where
  "gaps_within n c \<longleftrightarrow>
     (case c of None \<Rightarrow> True
      | Some q \<Rightarrow> length (cq_missing q) \<le> MAX_PLANNED_SUBTASKS
          \<and> list_all (\<lambda>m. length (mi_description m) \<le> n) (cq_missing q))"

lemma length_iterations_missing:
  assumes "gaps_within n c"
  shows "length (iterations_missing c) \<le> 3 * n + 40"
proof (cases "\<exists>q. c = Some q \<and> cq_missing q \<noteq> []")
  case True
  then obtain q where c: "c = Some q" and ne: "cq_missing q \<noteq> []" by blast
  let ?named = "map mi_description (take 3 (cq_missing q))"
  have small: "length (cq_missing q) \<le> 20" and "\<forall>m \<in> set (cq_missing q). length (mi_description m) \<le> n"
    using assms c by (auto simp: gaps_within_def MAX_PLANNED_SUBTASKS_def list_all_iff)
  then have "\<forall>m \<in> set (take 3 (cq_missing q)). length (mi_description m) \<le> n"
    by (meson in_set_takeD)
  then have "sum_list (map length ?named) \<le> length ?named * n"
    by (intro sum_list_map_bound) auto
  also have "\<dots> \<le> 3 * n" by (simp add: min_def)
  finally have sum: "sum_list (map length ?named) \<le> 3 * n" .
  have "length ?named \<le> 3" by simp
  then have "2 * (length ?named - 1) \<le> 4" by arith
  with sum have "length (str_join ''; '' ?named) \<le> 3 * n + 4"
    unfolding length_str_join by simp
  moreover have "length (show_nat (length (cq_missing q) - length ?named)) \<le> 2"
    using small by (intro length_show_nat) auto
  ultimately show ?thesis
    using ne by (simp add: c iterations_missing_def Let_def CAVEAT_MISSING_ITEMS_def
        del: length_map length_take take_all_iff)
next
  case False
  then have "iterations_missing c = []" by (auto simp: iterations_missing_def split: option.splits)
  then show ?thesis by simp
qed

lemma coverage_caveat_length:
  assumes num: "caveat_numbers_small b u" and gaps: "gaps_within n c"
    and r: "coverage_caveat r b u c = Some text"
  shows "length text \<le> 3 * n + 300"
proof -
  have i: "length (show_int i) \<le> 9" if "0 \<le> i" "i < 10 ^ 9" for i
    using that by (intro length_show_int) auto
  note [simp] = covers_def
  show ?thesis
    using num gaps r
    using i[of "co_iterations u"] i[of "co_sources u"] i[of "co_search_queries u"]
      i[of "rb_max_runtime_seconds b"] length_fmt_2f[of "ce_usd (co_cost u)"]
      length_fmt_2f[of "rb_max_cost_usd b"] length_fmt_0f[of "co_runtime_seconds u"]
      length_iterations_missing[OF gaps]
    by (cases r) (auto simp: caveat_numbers_small_def)
qed

end
