(* ===== verification/ResearchGraph.thy ===== *)
theory ResearchGraph
  imports Governor
begin

text \<open>
  \<open>app/agents/graph.py\<close>: every node wrapped in the run's rules, the routing between nodes, and
  the graph as a step relation.

  An agent is a parameter: what its call does is a duration and an outcome (a value with its usage,
  a value of the wrong type, something that is no \<open>NodeResult\<close>, or an exception).  The clock
  readings, the moment the process picked the run up and the answer of the cancellation probe are
  the environment of a node.  An exception that leaves a node is a \<open>graph_error\<close>.
\<close>

section \<open>Calls and failures\<close>

datatype exn =
    GraphBubbleUp
  | NodeContractViolation
  | BudgetExhausted string
  | ModelNotPriced string
  | TimeoutError
  | AppErr string string string
  | OtherException string

datatype 'v outcome =
    Returned 'v NodeUsage
  | WrongType
  | NotANodeResult
  | Raised exn

type_synonym 'v work = "real \<times> 'v outcome"

datatype graph_error =
    PlanningFailed
  | SynthesisFailed
  | CitationValidationFailed
  | NodeContractViolated
  | BubbledUp
  | ValidationError
  | WidthValueError

definition propagates :: "exn \<Rightarrow> graph_error option" where
  "propagates e =
     (case e of
        GraphBubbleUp \<Rightarrow> Some BubbledUp
      | NodeContractViolation \<Rightarrow> Some NodeContractViolated
      | _ \<Rightarrow> None)"

definition budget_refused :: "exn \<Rightarrow> bool" where
  "budget_refused e \<longleftrightarrow> (case e of BudgetExhausted _ \<Rightarrow> True | ModelNotPriced _ \<Rightarrow> True | _ \<Rightarrow> False)"

text \<open>
  \<open>_call\<close> with the \<open>_expect\<close> that follows it: the work is cut off at \<open>limit\<close> seconds, and
  anything but a \<open>NodeResult\<close> holding a value of the expected type is a broken contract.
\<close>

definition call :: "real \<Rightarrow> 'v work \<Rightarrow> exn + 'v \<times> NodeUsage" where
  "call limit w =
     (if fst w > limit then Inl TimeoutError
      else case snd w of
        Returned v u \<Rightarrow> Inr (v, u)
      | WrongType \<Rightarrow> Inl NodeContractViolation
      | NotANodeResult \<Rightarrow> Inl NodeContractViolation
      | Raised e \<Rightarrow> Inl e)"

definition node_error :: "GraphNode \<Rightarrow> int \<Rightarrow> exn \<Rightarrow> string option \<Rightarrow> NodeError" where
  "node_error node iteration e task_key =
     (let raised = (\<lambda>name. (''node_failed'', ''The step raised '' @ name @ ''.''));
          app = (\<lambda>cls code msg. if error_code_pattern code then (code, take 1000 msg) else raised cls);
          (code, message) =
            (case e of
               TimeoutError \<Rightarrow> (''node_timeout'', ''The step did not finish within its time limit.'')
             | AppErr cls code msg \<Rightarrow> app cls code msg
             | BudgetExhausted msg \<Rightarrow> app ''BudgetExhausted'' ''budget_exhausted'' msg
             | ModelNotPriced msg \<Rightarrow> app ''ModelNotPriced'' ''model_not_priced'' msg
             | NodeContractViolation \<Rightarrow>
                 (''node_contract_violated'', ''An internal error stopped the research workflow.'')
             | GraphBubbleUp \<Rightarrow> raised ''GraphBubbleUp''
             | OtherException name \<Rightarrow> raised name)
      in \<lparr>ne_node = node, ne_iteration = max 0 iteration, ne_code = code, ne_message = message,
          ne_task_key = task_key\<rparr>)"

section \<open>Agents, bounds and the environment of a node\<close>

record agents =
  ag_plan :: "ResearchState \<Rightarrow> Plan work"
  ag_research :: "SubtaskAssignment \<Rightarrow> TaskOutcome work"
  ag_extract :: "ResearchState \<Rightarrow> EvidenceItem list work"
  ag_normalize :: "ResearchState \<Rightarrow> ClaimItem list work"
  ag_verify :: "ResearchState \<Rightarrow> ClaimItem list work"
  ag_find_contradictions :: "ResearchState \<Rightarrow> ContradictionItem list work"
  ag_critique :: "ResearchState \<Rightarrow> Critique work"
  ag_answer :: "ResearchState \<Rightarrow> AnswerDraft option work"
  ag_synthesize :: "ResearchState \<Rightarrow> ReportDraft work"
  ag_validate :: "ResearchState \<Rightarrow> CitationCheck work"

record GraphBounds =
  gb_max_subtasks_per_iteration :: int
  gb_max_concurrency :: int
  gb_node_timeout_seconds :: real

record env =
  e_entry :: datetime
  e_exit :: datetime
  e_resumed_at :: datetime
  e_cancelled :: bool

section \<open>Boundaries\<close>

definition cancelled :: "env \<Rightarrow> ResearchState \<Rightarrow> bool" where
  "cancelled e s \<longleftrightarrow> stop_reason s = Some StopReason.CANCELLED \<or> e_cancelled e"

definition accounted :: "env \<Rightarrow> ResearchState \<Rightarrow> datetime \<Rightarrow> NodeUsage option \<Rightarrow> Update" where
  "accounted e s now usage =
     (let spent = (case usage of Some u \<Rightarrow> u | None \<Rightarrow> NodeUsage_default);
          clock = advanced_to (s_clock s) now (e_resumed_at e)
      in no_update\<lparr>u_clock := Some clock, u_token_usage := Some (nu_tokens spent),
                   u_estimated_cost := Some (nu_cost spent),
                   u_search_queries := Some (nu_search_queries spent)\<rparr>)"

definition cancel :: "env \<Rightarrow> ResearchState \<Rightarrow> datetime \<Rightarrow> Update" where
  "cancel e s now =
     (accounted e s now None)\<lparr>u_stop := Some \<lparr>sp_reason = StopReason.CANCELLED, sp_caveat = None\<rparr>\<rparr>"

definition used_by :: "env \<Rightarrow> ResearchState \<Rightarrow> datetime \<Rightarrow> NodeUsage option \<Rightarrow> Consumption" where
  "used_by e s now usage =
     (let used = consumption s (Some now) (Some (e_resumed_at e))
      in case usage of
           None \<Rightarrow> used
         | Some u \<Rightarrow> used\<lparr>co_cost := CostEstimate_add (co_cost used) (nu_cost u),
                         co_search_queries := co_search_queries used + int (nu_search_queries u)\<rparr>)"

definition stop_for ::
  "ResearchState \<Rightarrow> StopReason \<Rightarrow> Consumption \<Rightarrow> Critique option \<Rightarrow> graph_error + Stop" where
  "stop_for s reason used critique =
     (let caveat = (if s_stop s = None then coverage_caveat reason (s_budget s) used critique else None);
          stop = \<lparr>sp_reason = reason, sp_caveat = caveat\<rparr>
      in if Stop_ok stop then Inr stop else Inl ValidationError)"

definition with_stop :: "Update \<Rightarrow> graph_error + Stop \<Rightarrow> graph_error + Update" where
  "with_stop u st = (case st of Inl e \<Rightarrow> Inl e | Inr v \<Rightarrow> Inr (u\<lparr>u_stop := Some v\<rparr>))"

text \<open>The update of a node whose call failed and ends discovery for \<open>reason\<close>.\<close>

definition stopped_by ::
  "env \<Rightarrow> ResearchState \<Rightarrow> StopReason \<Rightarrow> GraphNode \<Rightarrow> int \<Rightarrow> exn \<Rightarrow> graph_error + Update" where
  "stopped_by e s reason node iteration ex =
     (let now = e_exit e
      in with_stop ((accounted e s now None)\<lparr>u_errors := Some [node_error node iteration ex None]\<rparr>)
           (stop_for s reason (used_by e s now None) None))"

section \<open>Discovery\<close>

definition planner :: "GraphBounds \<Rightarrow> env \<Rightarrow> agents \<Rightarrow> ResearchState \<Rightarrow> graph_error + Update" where
  "planner b e ag s =
     (let now = e_entry e; budget = s_budget s; used = used_by e s now None;
          reason = (case limit_reached budget used True of
                      Some r \<Rightarrow> Some r
                    | None \<Rightarrow> if may_plan_again budget used then None else Some StopReason.ITERATIONS);
          iteration = s_iteration s + 1
      in if cancelled e s then Inr (cancel e s now)
         else if s_stop s \<noteq> None then Inr (accounted e s now None)
         else case reason of
           Some r \<Rightarrow> with_stop (accounted e s now None) (stop_for s r used (s_critique s))
         | None \<Rightarrow>
             (case call (gb_node_timeout_seconds b) (ag_plan ag s) of
                Inl ex \<Rightarrow>
                  (case propagates ex of
                     Some ge \<Rightarrow> Inl ge
                   | None \<Rightarrow>
                       if budget_refused ex then stopped_by e s StopReason.COST GraphNode.PLANNER iteration ex
                       else if iteration = 1 then Inl PlanningFailed
                       else stopped_by e s StopReason.DISCOVERY_FAILED GraphNode.PLANNER iteration ex)
              | Inr (plan, usage) \<Rightarrow>
                  if pl_iteration plan \<noteq> iteration then Inl NodeContractViolated
                  else
                    (let now = e_exit e;
                         update = (accounted e s now (Some usage))
                           \<lparr>u_iteration := Some iteration, u_research_plan := Some plan,
                            u_subtasks := Some (pl_subtasks plan)\<rparr>;
                         used = used_by e s now (Some usage)
                     in case limit_reached budget used False of
                          Some r \<Rightarrow> with_stop update (stop_for s r used None)
                        | None \<Rightarrow> Inr update)))"

text \<open>
  A researcher runs on its assignment, not on the state, and the clock is not advanced: only the
  probe's answer and the timeout come from outside.
\<close>

definition allowance_exceeded :: "int \<Rightarrow> string \<Rightarrow> string \<Rightarrow> NodeError" where
  "allowance_exceeded iteration key message =
     \<lparr>ne_node = GraphNode.RESEARCHER, ne_iteration = iteration, ne_code = ''allowance_exceeded'',
      ne_message = message, ne_task_key = Some key\<rparr>"

text \<open>What the graph keeps of an outcome: the sources within the allowance, and every search.\<close>

definition held_to_allowance :: "SubtaskAssignment \<Rightarrow> TaskOutcome \<Rightarrow> NodeUsage \<Rightarrow> Update" where
  "held_to_allowance work outcome usage =
     (let subtask = sa_subtask work;
          n = int (length (to_sources outcome));
          over = n > sa_source_allowance work;
          source_errors =
            (if over then [allowance_exceeded (su_iteration subtask) (su_key subtask)
               (''Reported '' @ show_int n @ '' sources against an allowance of ''
                @ show_int (sa_source_allowance work) @ ''; only the first ''
                @ show_int (sa_source_allowance work) @ '' count.'')]
             else []);
          outcome' = (if over
            then outcome\<lparr>to_sources := take (nat (sa_source_allowance work)) (to_sources outcome)\<rparr>
            else outcome);
          query_errors =
            (if int (nu_search_queries usage) > sa_query_allowance work
             then [allowance_exceeded (su_iteration subtask) (su_key subtask)
               (''Used '' @ show_nat (nu_search_queries usage)
                @ '' searches against an allowance of '' @ show_int (sa_query_allowance work) @ ''.'')]
             else []);
          errors = source_errors @ query_errors
      in no_update\<lparr>u_completed_tasks := Some [outcome'],
                   u_sources := Some (to_sources outcome'),
                   u_token_usage := Some (nu_tokens usage),
                   u_estimated_cost := Some (nu_cost usage),
                   u_search_queries := Some (nu_search_queries usage),
                   u_errors := (if errors = [] then None else Some errors)\<rparr>)"

definition researcher ::
  "GraphBounds \<Rightarrow> bool \<Rightarrow> agents \<Rightarrow> SubtaskAssignment \<Rightarrow> graph_error + Update" where
  "researcher b is_cancelled ag work =
     (let subtask = sa_subtask work;
          timeout = min (gb_node_timeout_seconds b) (sa_time_allowance_seconds work)
      in if is_cancelled then
           Inr (no_update\<lparr>u_stop := Some \<lparr>sp_reason = StopReason.CANCELLED, sp_caveat = None\<rparr>\<rparr>)
         else case call timeout (ag_research ag work) of
           Inl ex \<Rightarrow>
             (case propagates ex of
                Some ge \<Rightarrow> Inl ge
              | None \<Rightarrow>
                  Inr (no_update\<lparr>u_failed_tasks :=
                    Some [node_error GraphNode.RESEARCHER (su_iteration subtask) ex (Some (su_key subtask))]\<rparr>))
         | Inr (outcome, usage) \<Rightarrow>
             if to_task_key outcome \<noteq> su_key subtask \<or> to_iteration outcome \<noteq> su_iteration subtask
             then Inl NodeContractViolated
             else Inr (held_to_allowance work outcome usage))"

section \<open>Processing\<close>

text \<open>\<open>_process\<close>: \<open>field\<close> writes the items into the node's channel.\<close>

definition process ::
  "GraphBounds \<Rightarrow> env \<Rightarrow> ResearchState \<Rightarrow> GraphNode \<Rightarrow> ('v list \<Rightarrow> Update \<Rightarrow> Update)
     \<Rightarrow> 'v list work \<Rightarrow> graph_error + Update" where
  "process b e s node field w =
     (let now = e_entry e
      in if cancelled e s then Inr (cancel e s now)
         else case call (gb_node_timeout_seconds b) w of
           Inl ex \<Rightarrow>
             (case propagates ex of
                Some ge \<Rightarrow> Inl ge
              | None \<Rightarrow>
                  if budget_refused ex then stopped_by e s StopReason.COST node (s_iteration s) ex
                  else Inr ((accounted e s (e_exit e) None)
                         \<lparr>u_errors := Some [node_error node (s_iteration s) ex None]\<rparr>))
         | Inr (items, usage) \<Rightarrow> Inr (field items (accounted e s (e_exit e) (Some usage))))"

definition evidence_extractor :: "GraphBounds \<Rightarrow> env \<Rightarrow> agents \<Rightarrow> ResearchState \<Rightarrow> graph_error + Update" where
  "evidence_extractor b e ag s =
     process b e s GraphNode.EVIDENCE_EXTRACTOR (\<lambda>items u. u\<lparr>u_evidence := Some items\<rparr>) (ag_extract ag s)"

definition claim_normalizer :: "GraphBounds \<Rightarrow> env \<Rightarrow> agents \<Rightarrow> ResearchState \<Rightarrow> graph_error + Update" where
  "claim_normalizer b e ag s =
     process b e s GraphNode.CLAIM_NORMALIZER (\<lambda>items u. u\<lparr>u_claims := Some items\<rparr>) (ag_normalize ag s)"

definition verifier :: "GraphBounds \<Rightarrow> env \<Rightarrow> agents \<Rightarrow> ResearchState \<Rightarrow> graph_error + Update" where
  "verifier b e ag s =
     process b e s GraphNode.VERIFIER (\<lambda>items u. u\<lparr>u_claims := Some items\<rparr>) (ag_verify ag s)"

definition contradiction_checker :: "GraphBounds \<Rightarrow> env \<Rightarrow> agents \<Rightarrow> ResearchState \<Rightarrow> graph_error + Update" where
  "contradiction_checker b e ag s =
     process b e s GraphNode.CONTRADICTION_CHECKER (\<lambda>items u. u\<lparr>u_contradictions := Some items\<rparr>)
       (ag_find_contradictions ag s)"

definition critic :: "GraphBounds \<Rightarrow> env \<Rightarrow> agents \<Rightarrow> ResearchState \<Rightarrow> graph_error + Update" where
  "critic b e ag s =
     (let now = e_entry e; iteration = s_iteration s
      in if cancelled e s then Inr (cancel e s now)
         else if s_stop s \<noteq> None then Inr (accounted e s now None)
         else case call (gb_node_timeout_seconds b) (ag_critique ag s) of
           Inl ex \<Rightarrow>
             (case propagates ex of
                Some ge \<Rightarrow> Inl ge
              | None \<Rightarrow>
                  stopped_by e s (if budget_refused ex then StopReason.COST else StopReason.DISCOVERY_FAILED)
                    GraphNode.CRITIC iteration ex)
         | Inr (critique, usage) \<Rightarrow>
             if cq_iteration critique \<noteq> iteration then Inl NodeContractViolated
             else
               (let now = e_exit e;
                    update = (accounted e s now (Some usage))\<lparr>u_critique := Some critique\<rparr>;
                    budget = s_budget s; used = used_by e s now (Some usage);
                    reason = (case limit_reached budget used True of
                                Some r \<Rightarrow> Some r
                              | None \<Rightarrow> if may_plan_again budget used then None
                                        else Some StopReason.ITERATIONS)
                in if cq_sufficient critique then Inr update
                   else case reason of
                     Some r \<Rightarrow> with_stop update (stop_for s r used (Some critique))
                   | None \<Rightarrow> Inr update))"

section \<open>Writing\<close>

definition answerer :: "GraphBounds \<Rightarrow> env \<Rightarrow> agents \<Rightarrow> ResearchState \<Rightarrow> graph_error + Update" where
  "answerer b e ag s =
     (let now = e_entry e
      in if cancelled e s then Inr (cancel e s now)
         else if s_answer s \<noteq> None then Inr (accounted e s now None)
         else case call (gb_node_timeout_seconds b) (ag_answer ag s) of
           Inl ex \<Rightarrow>
             (case propagates ex of
                Some ge \<Rightarrow> Inl ge
              | None \<Rightarrow>
                  if budget_refused ex
                  then stopped_by e s StopReason.COST GraphNode.ANSWERER (s_iteration s) ex
                  else Inr ((accounted e s (e_exit e) None)
                         \<lparr>u_errors := Some [node_error GraphNode.ANSWERER (s_iteration s) ex None]\<rparr>))
         | Inr (draft, usage) \<Rightarrow>
             Inr ((accounted e s (e_exit e) (Some usage))\<lparr>u_answer := draft\<rparr>))"

definition synthesizer :: "GraphBounds \<Rightarrow> env \<Rightarrow> agents \<Rightarrow> ResearchState \<Rightarrow> graph_error + Update" where
  "synthesizer b e ag s =
     (let now = e_entry e
      in if cancelled e s then Inr (cancel e s now)
         else case call (gb_node_timeout_seconds b) (ag_synthesize ag s) of
           Inl ex \<Rightarrow> Inl (case propagates ex of Some ge \<Rightarrow> ge | None \<Rightarrow> SynthesisFailed)
         | Inr (draft, usage) \<Rightarrow>
             (let report = draft\<lparr>rd_revision := s_citation_repairs s,
                                 rd_coverage_caveat := (case s_stop s of None \<Rightarrow> None | Some st \<Rightarrow> sp_caveat st)\<rparr>
              in Inr ((accounted e s (e_exit e) (Some usage))
                   \<lparr>u_report := Some report, u_citation_check := Some None\<rparr>)))"

definition citation_validator :: "GraphBounds \<Rightarrow> env \<Rightarrow> agents \<Rightarrow> ResearchState \<Rightarrow> graph_error + Update" where
  "citation_validator b e ag s =
     (let now = e_entry e
      in if cancelled e s then Inr (cancel e s now)
         else case s_report s of
           None \<Rightarrow> Inl NodeContractViolated
         | Some report \<Rightarrow>
             (case call (gb_node_timeout_seconds b) (ag_validate ag s) of
                Inl ex \<Rightarrow> Inl (case propagates ex of Some ge \<Rightarrow> ge | None \<Rightarrow> CitationValidationFailed)
              | Inr (check, usage) \<Rightarrow>
                  if cc_revision check \<noteq> rd_revision report then Inl NodeContractViolated
                  else
                    (let update = (accounted e s (e_exit e) (Some usage))\<lparr>u_citation_check := Some (Some check)\<rparr>;
                         repairs = s_citation_repairs s
                     in Inr (if \<not> passed check \<and> repairs < MAX_CITATION_REPAIRS
                             then update\<lparr>u_citation_repairs := Some (repairs + 1)\<rparr>
                             else update))))"

section \<open>Routing\<close>

datatype position =
    At GraphNode
  | Fanout "SubtaskAssignment list"
  | Finished
  | Failed graph_error

definition assignment :: "ResearchState \<Rightarrow> real \<Rightarrow> Dispatch \<Rightarrow> SubtaskAssignment" where
  "assignment s time_left dispatch =
     \<lparr>sa_research_id = s_research_id s, sa_user_id = s_user_id s, sa_query = s_query s,
      sa_mode = rp_mode (s_parameters s), sa_subtask = dp_subtask dispatch,
      sa_query_allowance = dp_query_allowance dispatch,
      sa_source_allowance = dp_source_allowance dispatch,
      sa_time_allowance_seconds = time_left,
      sa_domains = rp_domains (s_parameters s),
      sa_date_range_start = rp_date_range_start (s_parameters s),
      sa_date_range_end = rp_date_range_end (s_parameters s)\<rparr>"

definition after_planner :: "GraphBounds \<Rightarrow> ResearchState \<Rightarrow> position" where
  "after_planner b s =
     (let stop = stop_reason s
      in if stop = Some StopReason.CANCELLED then Finished
         else case s_research_plan s of
           None \<Rightarrow> At GraphNode.ANSWERER
         | Some plan \<Rightarrow>
             if stop \<noteq> None \<or> pl_subtasks plan = [] then At GraphNode.ANSWERER
             else
               (let budget = s_budget s; used = consumption s None None
                in case allocate budget used (pl_subtasks plan) (gb_max_subtasks_per_iteration b) of
                     None \<Rightarrow> Failed WidthValueError
                   | Some dispatches \<Rightarrow>
                       (let time_left = of_int (rb_max_runtime_seconds budget) - co_runtime_seconds used
                        in if dispatches = [] \<or> time_left \<le> 0 then At GraphNode.ANSWERER
                           else
                             (let sends = map (assignment s time_left) dispatches
                              in if list_all SubtaskAssignment_ok sends then Fanout sends
                                 else Failed ValidationError))))"

definition after_critic :: "ResearchState \<Rightarrow> position" where
  "after_critic s =
     (let stop = stop_reason s
      in if stop = Some StopReason.CANCELLED then Finished
         else case s_critique s of
           None \<Rightarrow> At GraphNode.ANSWERER
         | Some critique \<Rightarrow>
             if stop \<noteq> None \<or> cq_sufficient critique then At GraphNode.ANSWERER
             else At GraphNode.PLANNER)"

definition after_validation :: "ResearchState \<Rightarrow> position" where
  "after_validation s =
     (if stop_reason s = Some StopReason.CANCELLED then Finished
      else case s_citation_check s of
        None \<Rightarrow> Finished
      | Some check \<Rightarrow>
          if passed check then Finished
          else if s_citation_repairs s > cc_revision check then At GraphNode.SYNTHESIZER
          else Finished)"

text \<open>
  \<open>build_research_graph\<close>: the node functions under their names, and where each one's edge leads.
  The researchers are not here: their fan-out is a rule of the step relation.
\<close>

fun run_node ::
  "GraphBounds \<Rightarrow> env \<Rightarrow> agents \<Rightarrow> GraphNode \<Rightarrow> ResearchState \<Rightarrow> graph_error + Update" where
  "run_node b e ag GraphNode.PLANNER s = planner b e ag s"
| "run_node b e ag GraphNode.RESEARCHER s = Inl NodeContractViolated"
| "run_node b e ag GraphNode.EVIDENCE_EXTRACTOR s = evidence_extractor b e ag s"
| "run_node b e ag GraphNode.CLAIM_NORMALIZER s = claim_normalizer b e ag s"
| "run_node b e ag GraphNode.VERIFIER s = verifier b e ag s"
| "run_node b e ag GraphNode.CONTRADICTION_CHECKER s = contradiction_checker b e ag s"
| "run_node b e ag GraphNode.CRITIC s = critic b e ag s"
| "run_node b e ag GraphNode.ANSWERER s = answerer b e ag s"
| "run_node b e ag GraphNode.SYNTHESIZER s = synthesizer b e ag s"
| "run_node b e ag GraphNode.CITATION_VALIDATOR s = citation_validator b e ag s"

fun next_position :: "ResearchMode \<Rightarrow> GraphBounds \<Rightarrow> GraphNode \<Rightarrow> ResearchState \<Rightarrow> position" where
  "next_position mode b GraphNode.PLANNER s = after_planner b s"
| "next_position mode b GraphNode.RESEARCHER s = At GraphNode.EVIDENCE_EXTRACTOR"
| "next_position mode b GraphNode.EVIDENCE_EXTRACTOR s = At GraphNode.CLAIM_NORMALIZER"
| "next_position mode b GraphNode.CLAIM_NORMALIZER s =
     At (if mode = ResearchMode.QUICK then GraphNode.ANSWERER else GraphNode.VERIFIER)"
| "next_position mode b GraphNode.VERIFIER s = At GraphNode.CONTRADICTION_CHECKER"
| "next_position mode b GraphNode.CONTRADICTION_CHECKER s = At GraphNode.CRITIC"
| "next_position mode b GraphNode.CRITIC s = after_critic s"
| "next_position mode b GraphNode.ANSWERER s = At GraphNode.SYNTHESIZER"
| "next_position mode b GraphNode.SYNTHESIZER s = At GraphNode.CITATION_VALIDATOR"
| "next_position mode b GraphNode.CITATION_VALIDATOR s = after_validation s"

text \<open>
  What an agent can return: Pydantic validated every value it built.  Nothing else is assumed of an
  agent, which may behave differently at every call.
\<close>

definition work_ok :: "('v \<Rightarrow> bool) \<Rightarrow> 'v work \<Rightarrow> bool" where
  "work_ok ok w \<longleftrightarrow> (case snd w of Returned v u \<Rightarrow> ok v \<and> NodeUsage_ok u | _ \<Rightarrow> True)"

definition agents_ok :: "agents \<Rightarrow> bool" where
  "agents_ok ag \<longleftrightarrow>
     (\<forall>s. work_ok Plan_ok (ag_plan ag s)) \<and> (\<forall>a. work_ok TaskOutcome_ok (ag_research ag a))
     \<and> (\<forall>s. work_ok (list_all EvidenceItem_ok) (ag_extract ag s))
     \<and> (\<forall>s. work_ok (list_all ClaimItem_ok) (ag_normalize ag s))
     \<and> (\<forall>s. work_ok (list_all ClaimItem_ok) (ag_verify ag s))
     \<and> (\<forall>s. work_ok (list_all ContradictionItem_ok) (ag_find_contradictions ag s))
     \<and> (\<forall>s. work_ok Critique_ok (ag_critique ag s))
     \<and> (\<forall>s. work_ok (\<lambda>a. case a of None \<Rightarrow> True | Some d \<Rightarrow> AnswerDraft_ok d) (ag_answer ag s))
     \<and> (\<forall>s. work_ok ReportDraft_ok (ag_synthesize ag s))
     \<and> (\<forall>s. work_ok CitationCheck_ok (ag_validate ag s))"

section \<open>Supersteps\<close>

text \<open>
  One superstep: a node runs alone, its update is reduced into the state and its edge is followed;
  or the researchers of a fan-out run in parallel, each on its own assignment, and their updates
  are reduced in any order.  A node that raises ends the run where it stands.
\<close>

type_synonym config = "position \<times> ResearchState"

inductive superstep :: "ResearchMode \<Rightarrow> GraphBounds \<Rightarrow> config \<Rightarrow> config \<Rightarrow> bool"
  for mode b where
  node: "agents_ok ag \<Longrightarrow> run_node b e ag n s = Inr u \<Longrightarrow> s' = apply_update s u \<Longrightarrow>
     superstep mode b (At n, s) (next_position mode b n s', s')"
| node_raises: "agents_ok ag \<Longrightarrow> run_node b e ag n s = Inl err \<Longrightarrow>
     superstep mode b (At n, s) (Failed err, s)"
| fanout: "list_all2 (\<lambda>a u. \<exists>ag probed. agents_ok ag \<and> researcher b probed ag a = Inr u) sends us \<Longrightarrow>
     mset us' = mset us \<Longrightarrow> s' = foldl apply_update s us' \<Longrightarrow>
     superstep mode b (Fanout sends, s) (next_position mode b GraphNode.RESEARCHER s', s')"
| fanout_raises: "a \<in> set sends \<Longrightarrow> agents_ok ag \<Longrightarrow> researcher b probed ag a = Inl err \<Longrightarrow>
     superstep mode b (Fanout sends, s) (Failed err, s)"

inductive_cases superstep_At: "superstep mode b (At n, s) c"
inductive_cases superstep_Fanout: "superstep mode b (Fanout sends, s) c"
inductive_simps superstep_Finished [simp]: "superstep mode b (Finished, s) c"
inductive_simps superstep_Failed [simp]: "superstep mode b (Failed err, s) c"

text \<open>A run: the configurations reached from a start in a number of supersteps.\<close>

inductive run_to :: "ResearchMode \<Rightarrow> GraphBounds \<Rightarrow> config \<Rightarrow> nat \<Rightarrow> config \<Rightarrow> bool"
  for mode b c0 where
  start: "run_to mode b c0 0 c0"
| more: "run_to mode b c0 n c \<Longrightarrow> superstep mode b c c' \<Longrightarrow> run_to mode b c0 (Suc n) c'"

definition start_of :: "RunBrief \<Rightarrow> datetime \<Rightarrow> config" where
  "start_of brief now = (At GraphNode.PLANNER, initial_state brief now)"

end
