(* ===== verification/GraphInvariants.thy ===== *)
theory GraphInvariants
  imports ResearchGraph
begin

text \<open>
  What every reachable configuration of the research graph satisfies, and a rank every superstep
  decreases.  The node functions are first summarised by what their updates may contain
  (\<open>quiet\<close>, and one lemma per node), then the invariant and the rank go through one superstep.
\<close>

section \<open>What an update may contain\<close>

definition stop_wf :: "Stop option \<Rightarrow> bool" where
  "stop_wf st \<longleftrightarrow>
     (case st of None \<Rightarrow> True | Some v \<Rightarrow> (sp_caveat v = None \<longleftrightarrow> sp_reason v = StopReason.CANCELLED))"

definition stop_write_ok :: "ResearchState \<Rightarrow> Stop option \<Rightarrow> bool" where
  "stop_write_ok s w \<longleftrightarrow>
     stop_wf w \<or> (s_stop s \<noteq> None \<and> (\<forall>v. w = Some v \<longrightarrow> sp_reason v \<noteq> StopReason.CANCELLED))"

definition accounting_ok :: "Update \<Rightarrow> bool" where
  "accounting_ok u \<longleftrightarrow>
     (case u_estimated_cost u of None \<Rightarrow> True | Some c \<Rightarrow> CostEstimate_ok c)
     \<and> (case u_clock u of None \<Rightarrow> True | Some c \<Rightarrow> 0 \<le> rc_elapsed_seconds c)"

definition quiet :: "ResearchState \<Rightarrow> Update \<Rightarrow> bool" where
  "quiet s u \<longleftrightarrow>
     u_iteration u = None \<and> u_sources u = None \<and> u_citation_repairs u = None
     \<and> u_citation_check u = None \<and> u_report u = None
     \<and> stop_write_ok s (u_stop u) \<and> accounting_ok u"

lemma accounted_fields [simp]:
  "u_iteration (accounted e s t w) = None" "u_research_plan (accounted e s t w) = None"
  "u_subtasks (accounted e s t w) = None" "u_sources (accounted e s t w) = None"
  "u_completed_tasks (accounted e s t w) = None" "u_failed_tasks (accounted e s t w) = None"
  "u_evidence (accounted e s t w) = None" "u_claims (accounted e s t w) = None"
  "u_contradictions (accounted e s t w) = None" "u_critique (accounted e s t w) = None"
  "u_answer (accounted e s t w) = None" "u_report (accounted e s t w) = None"
  "u_citation_check (accounted e s t w) = None" "u_citation_repairs (accounted e s t w) = None"
  "u_stop (accounted e s t w) = None" "u_errors (accounted e s t w) = None"
  by (simp_all add: accounted_def Let_def)

lemma accounted_spend [simp]:
  "u_estimated_cost (accounted e s t w) = Some (case w of None \<Rightarrow> CostEstimate_default | Some v \<Rightarrow> nu_cost v)"
  "u_search_queries (accounted e s t w) = Some (case w of None \<Rightarrow> 0 | Some v \<Rightarrow> nu_search_queries v)"
  "u_token_usage (accounted e s t w) = Some (case w of None \<Rightarrow> TokenCount_default | Some v \<Rightarrow> nu_tokens v)"
  "u_clock (accounted e s t w) = Some (advanced_to (s_clock s) t (e_resumed_at e))"
  by (simp_all add: accounted_def Let_def NodeUsage_default_def split: option.splits)

lemma CostEstimate_default_ok [simp]: "CostEstimate_ok CostEstimate_default"
  by (simp add: CostEstimate_ok_def CostEstimate_default_def)

lemma advanced_to_nonneg: "0 \<le> rc_elapsed_seconds c \<Longrightarrow> 0 \<le> rc_elapsed_seconds (advanced_to c t r)"
  using elapsed_at_ge[of c t r] by (simp add: advanced_to_def)

lemma accounting_accounted:
  "0 \<le> rc_elapsed_seconds (s_clock s) \<Longrightarrow> (\<forall>v. w = Some v \<longrightarrow> NodeUsage_ok v) \<Longrightarrow>
     accounting_ok (accounted e s t w)"
  by (auto simp: accounting_ok_def NodeUsage_ok_def advanced_to_nonneg split: option.splits)

lemma accounting_ok_cong:
  "u_estimated_cost u = u_estimated_cost v \<Longrightarrow> u_clock u = u_clock v \<Longrightarrow> accounting_ok u = accounting_ok v"
  by (simp add: accounting_ok_def)

lemma stop_wf_cancelled [simp]: "stop_wf (Some \<lparr>sp_reason = StopReason.CANCELLED, sp_caveat = None\<rparr>)"
  by (simp add: stop_wf_def)

lemma stop_wf_None [simp]: "stop_wf None"
  by (simp add: stop_wf_def)

lemma stop_write_None [simp]: "stop_write_ok s None"
  by (simp add: stop_write_ok_def)

lemma cancel_quiet:
  "0 \<le> rc_elapsed_seconds (s_clock s) \<Longrightarrow> quiet s (cancel e s t)"
  using accounting_accounted[of s None e t]
  by (simp add: quiet_def cancel_def stop_write_ok_def accounting_ok_def)

lemma stop_for_write:
  "stop_for s r used c = Inr st \<Longrightarrow> r \<noteq> StopReason.CANCELLED \<Longrightarrow>
     stop_write_ok s (Some st) \<and> sp_reason st = r"
  by (auto simp: stop_for_def Let_def stop_write_ok_def stop_wf_def coverage_caveat_None
      split: if_splits)

lemma with_stop_Inr:
  "with_stop u st = Inr u' \<longleftrightarrow> (\<exists>v. st = Inr v \<and> u' = u\<lparr>u_stop := Some v\<rparr>)"
  by (auto simp: with_stop_def split: sum.splits)

lemma limit_reached_reason: "limit_reached b u f = Some r \<Longrightarrow> r \<noteq> StopReason.CANCELLED"
  by (auto simp: limit_reached_def split: if_splits)

lemma stopped_by_quiet:
  assumes "stopped_by e s r node i ex = Inr u" "r \<noteq> StopReason.CANCELLED"
    and "0 \<le> rc_elapsed_seconds (s_clock s)"
  shows "quiet s u \<and> u_critique u = None \<and> u_research_plan u = None
     \<and> (\<exists>st. u_stop u = Some st \<and> sp_reason st = r)"
proof -
  from assms(1) obtain st where st: "stop_for s r (used_by e s (e_exit e) None) None = Inr st"
    and u: "u = (accounted e s (e_exit e) None)
        \<lparr>u_errors := Some [node_error node i ex None], u_stop := Some st\<rparr>"
    by (auto simp: stopped_by_def Let_def with_stop_Inr)
  show ?thesis
    using stop_for_write[OF st assms(2)] accounting_accounted[OF assms(3), of None e "e_exit e"]
    by (simp add: u quiet_def accounting_ok_def)
qed

lemma call_ok: "call l w = Inr (v, u) \<Longrightarrow> work_ok ok w \<Longrightarrow> ok v \<and> NodeUsage_ok u"
  by (auto simp: call_def work_ok_def split: if_splits outcome.splits)

lemma process_quiet:
  assumes u: "process b e s node field w = Inr u" and w: "work_ok ok w"
    and clock: "0 \<le> rc_elapsed_seconds (s_clock s)"
    and field: "\<And>items v. quiet s v \<Longrightarrow> u_critique v = None \<Longrightarrow> u_research_plan v = None \<Longrightarrow>
      quiet s (field items v) \<and> u_critique (field items v) = None \<and> u_research_plan (field items v) = None"
  shows "quiet s u \<and> u_critique u = None \<and> u_research_plan u = None"
proof -
  have acc: "accounting_ok (accounted e s t None)" for t
    by (rule accounting_accounted[OF clock]) simp
  show ?thesis
  proof (cases "call (gb_node_timeout_seconds b) w")
    case (Inl ex)
    with u acc show ?thesis
      by (auto simp: process_def Let_def quiet_def accounting_ok_def
          dest: stopped_by_quiet[OF _ _ clock] split: if_splits option.splits)
        (auto simp: cancel_def stop_write_ok_def)
  next
    case (Inr p)
    obtain v us where p: "p = (v, us)" by fastforce
    with Inr call_ok[of _ w v us, OF _ w] have "NodeUsage_ok us" by blast
    then have "quiet s (accounted e s t (Some us))" for t
      using accounting_accounted[OF clock, of "Some us"] by (simp add: quiet_def)
    with u Inr p field[of "accounted e s (e_exit e) (Some us)" v] cancel_quiet[OF clock, of e "e_entry e"]
    show ?thesis by (auto simp: process_def Let_def cancel_def split: if_splits)
  qed
qed

section \<open>Each node's update\<close>

lemma run_node_processing:
  assumes "run_node b e ag n s = Inr u" "agents_ok ag" "0 \<le> rc_elapsed_seconds (s_clock s)"
    and "n \<in> {GraphNode.EVIDENCE_EXTRACTOR, GraphNode.CLAIM_NORMALIZER, GraphNode.VERIFIER,
             GraphNode.CONTRADICTION_CHECKER}"
  shows "quiet s u \<and> u_critique u = None \<and> u_research_plan u = None"
proof -
  have "work_ok (list_all EvidenceItem_ok) (ag_extract ag s)"
    "work_ok (list_all ClaimItem_ok) (ag_normalize ag s)"
    "work_ok (list_all ClaimItem_ok) (ag_verify ag s)"
    "work_ok (list_all ContradictionItem_ok) (ag_find_contradictions ag s)"
    using assms(2) by (simp_all add: agents_ok_def)
  note ok = this
  have upd: "quiet s (v\<lparr>u_evidence := Some items\<rparr>) = quiet s v"
    "quiet s (v\<lparr>u_claims := Some claims\<rparr>) = quiet s v"
    "quiet s (v\<lparr>u_contradictions := Some cons\<rparr>) = quiet s v" for v items claims cons
    by (simp_all add: quiet_def accounting_ok_def)
  note run = assms(1) and clock = assms(3)
  from assms(4) consider "n = GraphNode.EVIDENCE_EXTRACTOR" | "n = GraphNode.CLAIM_NORMALIZER"
    | "n = GraphNode.VERIFIER" | "n = GraphNode.CONTRADICTION_CHECKER" by blast
  then show ?thesis
  proof cases
    case 1
    with run have "process b e s GraphNode.EVIDENCE_EXTRACTOR (\<lambda>items u. u\<lparr>u_evidence := Some items\<rparr>)
        (ag_extract ag s) = Inr u"
      by (simp add: evidence_extractor_def)
    from process_quiet[OF this ok(1) clock] show ?thesis by (simp add: upd)
  next
    case 2
    with run have "process b e s GraphNode.CLAIM_NORMALIZER (\<lambda>items u. u\<lparr>u_claims := Some items\<rparr>)
        (ag_normalize ag s) = Inr u"
      by (simp add: claim_normalizer_def)
    from process_quiet[OF this ok(2) clock] show ?thesis by (simp add: upd)
  next
    case 3
    with run have "process b e s GraphNode.VERIFIER (\<lambda>items u. u\<lparr>u_claims := Some items\<rparr>)
        (ag_verify ag s) = Inr u"
      by (simp add: verifier_def)
    from process_quiet[OF this ok(3) clock] show ?thesis by (simp add: upd)
  next
    case 4
    with run have "process b e s GraphNode.CONTRADICTION_CHECKER (\<lambda>items u. u\<lparr>u_contradictions := Some items\<rparr>)
        (ag_find_contradictions ag s) = Inr u"
      by (simp add: contradiction_checker_def)
    from process_quiet[OF this ok(4) clock] show ?thesis by (simp add: upd)
  qed
qed

lemma planner_update:
  assumes u: "planner b e ag s = Inr u" and ag: "agents_ok ag"
    and clock: "0 \<le> rc_elapsed_seconds (s_clock s)"
  shows "(quiet s u \<and> u_research_plan u = None \<and> (s_stop s \<noteq> None \<or> u_stop u \<noteq> None))
     \<or> (quiet s (u\<lparr>u_iteration := None\<rparr>) \<and> u_iteration u = Some (s_iteration s + 1)
         \<and> (\<exists>p. u_research_plan u = Some p \<and> Plan_ok p) \<and> s_iteration s < rb_max_iterations (s_budget s)
         \<and> s_stop s = None)"
proof -
  let ?used = "used_by e s (e_entry e) None"
  have acc: "accounting_ok (accounted e s t None)" for t
    by (rule accounting_accounted[OF clock]) simp
  consider (cancel) "cancelled e s" | (stopped) "\<not> cancelled e s" "s_stop s \<noteq> None"
    | (limit) r where "\<not> cancelled e s" "s_stop s = None" "r \<noteq> StopReason.CANCELLED"
        "with_stop (accounted e s (e_entry e) None) (stop_for s r ?used (s_critique s)) = Inr u"
    | (raised) ex where "\<not> cancelled e s" "s_stop s = None"
        "\<exists>r i. r \<noteq> StopReason.CANCELLED \<and> stopped_by e s r GraphNode.PLANNER i ex = Inr u"
    | (planned) plan usage where "\<not> cancelled e s" "s_stop s = None"
        "limit_reached (s_budget s) ?used True = None" "may_plan_again (s_budget s) ?used"
        "call (gb_node_timeout_seconds b) (ag_plan ag s) = Inr (plan, usage)"
        "pl_iteration plan = s_iteration s + 1"
  proof (cases "cancelled e s \<or> s_stop s \<noteq> None")
    case True
    then show thesis using that(1,2) by blast
  next
    case False
    show thesis
    proof (cases "case limit_reached (s_budget s) ?used True of Some r \<Rightarrow> Some r
        | None \<Rightarrow> if may_plan_again (s_budget s) ?used then None else Some StopReason.ITERATIONS")
      case (Some r)
      then have "r \<noteq> StopReason.CANCELLED"
        by (auto dest: limit_reached_reason split: option.splits if_splits)
      with Some False u show thesis by (intro that(3)[of r]) (auto simp: planner_def Let_def)
    next
      case None
      then have go: "limit_reached (s_budget s) ?used True = None" "may_plan_again (s_budget s) ?used"
        by (auto split: option.splits if_splits)
      show thesis
      proof (cases "call (gb_node_timeout_seconds b) (ag_plan ag s)")
        case (Inl ex)
        with go False u show thesis
          by (intro that(4)[of ex]) (auto simp: planner_def Let_def split: option.splits if_splits)
      next
        case (Inr p)
        with go False u that(5) show thesis
          by (cases p) (auto simp: planner_def Let_def split: if_splits)
      qed
    qed
  qed
  then show ?thesis
  proof cases
    case cancel
    with u have "u = cancel e s (e_entry e)" by (simp add: planner_def)
    then show ?thesis using cancel_quiet[OF clock] by (simp add: cancel_def)
  next
    case stopped
    with u acc show ?thesis by (auto simp: planner_def Let_def quiet_def)
  next
    case limit
    then show ?thesis
      using stop_for_write acc by (fastforce simp: with_stop_Inr quiet_def accounting_ok_def)
  next
    case raised
    then show ?thesis using stopped_by_quiet[OF _ _ clock] by blast
  next
    case planned
    have ok: "Plan_ok plan \<and> NodeUsage_ok usage"
      using planned(5) ag by (intro call_ok) (auto simp: agents_ok_def)
    have lt: "s_iteration s < rb_max_iterations (s_budget s)"
      using planned(4) by (simp add: may_plan_again_def used_by_def consumption_def)
    let ?u = "(accounted e s (e_exit e) (Some usage))
        \<lparr>u_iteration := Some (s_iteration s + 1), u_research_plan := Some plan,
         u_subtasks := Some (pl_subtasks plan)\<rparr>"
    have q: "quiet s (?u\<lparr>u_iteration := None\<rparr>)"
      using accounting_accounted[OF clock, of "Some usage"] ok by (simp add: quiet_def accounting_ok_def)
    let ?used' = "used_by e s (e_exit e) (Some usage)"
    have "planner b e ag s =
        (case limit_reached (s_budget s) ?used' False of
           Some r \<Rightarrow> with_stop ?u (stop_for s r ?used' None)
         | None \<Rightarrow> Inr ?u)"
      using planned by (simp add: planner_def Let_def)
    with u have "u = ?u \<or> (\<exists>st. stop_write_ok s (Some st) \<and> u = ?u\<lparr>u_stop := Some st\<rparr>)"
      by (auto simp: with_stop_Inr dest: limit_reached_reason stop_for_write split: option.splits)
    then show ?thesis
    proof
      assume "u = ?u"
      then show ?thesis using q ok lt planned(2) by simp
    next
      assume "\<exists>st. stop_write_ok s (Some st) \<and> u = ?u\<lparr>u_stop := Some st\<rparr>"
      then obtain st where st: "stop_write_ok s (Some st)" and u: "u = ?u\<lparr>u_stop := Some st\<rparr>" by blast
      then have "quiet s (u\<lparr>u_iteration := None\<rparr>)" using q by (simp add: quiet_def accounting_ok_def)
      then show ?thesis using ok lt planned(2) u by simp
    qed
  qed
qed

lemma critic_update:
  assumes u: "critic b e ag s = Inr u" and ag: "agents_ok ag"
    and clock: "0 \<le> rc_elapsed_seconds (s_clock s)"
  shows "quiet s u \<and> u_research_plan u = None
    \<and> (s_stop s = None \<longrightarrow> u_stop u = None \<longrightarrow>
        (\<exists>c. u_critique u = Some c \<and> (cq_sufficient c \<or> s_iteration s < rb_max_iterations (s_budget s))))"
proof (cases "cancelled e s \<or> s_stop s \<noteq> None")
  case True
  have acc: "accounting_ok (accounted e s t None)" for t
    by (rule accounting_accounted[OF clock]) simp
  from True u have "u = cancel e s (e_entry e) \<or> (s_stop s \<noteq> None \<and> u = accounted e s (e_entry e) None)"
    by (auto simp: critic_def Let_def split: if_splits)
  then show ?thesis using cancel_quiet[OF clock, of e] acc by (auto simp: quiet_def cancel_def)
next
  case False
  show ?thesis
  proof (cases "call (gb_node_timeout_seconds b) (ag_critique ag s)")
    case (Inl ex)
    let ?r = "if budget_refused ex then StopReason.COST else StopReason.DISCOVERY_FAILED"
    from Inl False u have "stopped_by e s ?r GraphNode.CRITIC (s_iteration s) ex = Inr u"
      by (auto simp: critic_def Let_def split: option.splits)
    moreover have "?r \<noteq> StopReason.CANCELLED" by simp
    ultimately show ?thesis using stopped_by_quiet[OF _ _ clock] by fastforce
  next
    case (Inr p)
    obtain q usage where p: "p = (q, usage)" by fastforce
    have ok: "Critique_ok q \<and> NodeUsage_ok usage"
      using Inr p ag by (intro call_ok) (auto simp: agents_ok_def)
    let ?u = "(accounted e s (e_exit e) (Some usage))\<lparr>u_critique := Some q\<rparr>"
    let ?used = "used_by e s (e_exit e) (Some usage)"
    define reason where "reason = (case limit_reached (s_budget s) ?used True of Some r \<Rightarrow> Some r
      | None \<Rightarrow> if may_plan_again (s_budget s) ?used then None else Some StopReason.ITERATIONS)"
    have quiet: "quiet s ?u"
      using accounting_accounted[OF clock, of "Some usage"] ok by (simp add: quiet_def accounting_ok_def)
    have it: "cq_iteration q = s_iteration s" using u Inr p False by (auto simp: critic_def Let_def split: if_splits)
    have eq: "critic b e ag s = (if cq_sufficient q then Inr ?u else
        case reason of Some r \<Rightarrow> with_stop ?u (stop_for s r ?used (Some q)) | None \<Rightarrow> Inr ?u)"
      using Inr p False it by (simp add: critic_def Let_def reason_def)
    show ?thesis
    proof (cases "cq_sufficient q \<or> reason = None")
      case True
      then have "u = ?u" using u unfolding eq by (cases "cq_sufficient q") simp_all
      moreover have "cq_sufficient q \<or> may_plan_again (s_budget s) ?used"
        using True by (auto simp: reason_def split: option.splits if_splits)
      ultimately show ?thesis using quiet
        by (auto simp: may_plan_again_def used_by_def consumption_def)
    next
      case False
      then obtain r where r: "reason = Some r" by (cases reason) auto
      then have "r \<noteq> StopReason.CANCELLED"
        by (auto simp: reason_def dest: limit_reached_reason split: option.splits if_splits)
      moreover from u[unfolded eq] False r obtain st where "stop_for s r ?used (Some q) = Inr st"
        and u': "u = ?u\<lparr>u_stop := Some st\<rparr>"
        by (auto simp: with_stop_Inr)
      ultimately have "stop_write_ok s (Some st)" using stop_for_write by blast
      then show ?thesis using quiet by (simp add: u' quiet_def accounting_ok_def)
    qed
  qed
qed

lemma answerer_update:
  assumes u: "answerer b e ag s = Inr u" and ag: "agents_ok ag"
    and clock: "0 \<le> rc_elapsed_seconds (s_clock s)"
  shows "quiet s u"
proof (cases "cancelled e s \<or> s_answer s \<noteq> None")
  case True
  have acc: "accounting_ok (accounted e s t None)" for t
    by (rule accounting_accounted[OF clock]) simp
  from True u have "u = cancel e s (e_entry e) \<or> u = accounted e s (e_entry e) None"
    by (auto simp: answerer_def Let_def split: if_splits)
  then show ?thesis using cancel_quiet[OF clock, of e] acc by (auto simp: quiet_def)
next
  case False
  have acc: "accounting_ok (accounted e s t None)" for t
    by (rule accounting_accounted[OF clock]) simp
  show ?thesis
  proof (cases "call (gb_node_timeout_seconds b) (ag_answer ag s)")
    case (Inl ex)
    with False have "answerer b e ag s = (case propagates ex of Some ge \<Rightarrow> Inl ge | None \<Rightarrow>
        if budget_refused ex then stopped_by e s StopReason.COST GraphNode.ANSWERER (s_iteration s) ex
        else Inr ((accounted e s (e_exit e) None)
            \<lparr>u_errors := Some [node_error GraphNode.ANSWERER (s_iteration s) ex None]\<rparr>))"
      by (simp add: answerer_def)
    with u consider "stopped_by e s StopReason.COST GraphNode.ANSWERER (s_iteration s) ex = Inr u"
      | "u = (accounted e s (e_exit e) None)
            \<lparr>u_errors := Some [node_error GraphNode.ANSWERER (s_iteration s) ex None]\<rparr>"
      by (cases "propagates ex"; cases "budget_refused ex") simp_all
    then show ?thesis
    proof cases
      case 1
      from stopped_by_quiet[OF this _ clock] show ?thesis by simp
    next
      case 2
      with acc show ?thesis by (simp add: quiet_def accounting_ok_def)
    qed
  next
    case (Inr p)
    obtain d usage where p: "p = (d, usage)" by fastforce
    have w: "work_ok (\<lambda>a. case a of None \<Rightarrow> True | Some d \<Rightarrow> AnswerDraft_ok d) (ag_answer ag s)"
      using ag by (simp add: agents_ok_def)
    from call_ok[OF Inr[unfolded p] w] have "NodeUsage_ok usage" by simp
    moreover have "u = (accounted e s (e_exit e) (Some usage))\<lparr>u_answer := d\<rparr>"
      using False u Inr p by (simp add: answerer_def)
    ultimately show ?thesis
      using accounting_accounted[OF clock, of "Some usage"]
      by (simp add: quiet_def accounting_ok_def)
  qed
qed

text \<open>The two writing nodes, when the run is not cancelled.\<close>

definition caveat_of :: "ResearchState \<Rightarrow> string option" where
  "caveat_of s = (case s_stop s of None \<Rightarrow> None | Some st \<Rightarrow> sp_caveat st)"

lemma synthesizer_update:
  assumes u: "synthesizer b e ag s = Inr u" and ag: "agents_ok ag"
    and clock: "0 \<le> rc_elapsed_seconds (s_clock s)"
  shows "quiet s (u\<lparr>u_report := None, u_citation_check := None\<rparr>) \<and>
    (if cancelled e s then u = cancel e s (e_entry e)
     else u_stop u = None \<and> u_citation_check u = Some None
       \<and> (\<exists>r. u_report u = Some r \<and> rd_revision r = s_citation_repairs s
              \<and> rd_coverage_caveat r = caveat_of s))"
proof (cases "cancelled e s")
  case True
  with u have "u = cancel e s (e_entry e)" by (simp add: synthesizer_def)
  with True cancel_quiet[OF clock, of e "e_entry e"] show ?thesis
    by (simp add: quiet_def accounting_ok_def)
next
  case False
  with u obtain d usage where c: "call (gb_node_timeout_seconds b) (ag_synthesize ag s) = Inr (d, usage)"
    by (auto simp: synthesizer_def split: sum.splits)
  then have "NodeUsage_ok usage" using ag call_ok[of _ _ d usage ReportDraft_ok] by (auto simp: agents_ok_def)
  then show ?thesis
    using False u c accounting_accounted[OF clock, of "Some usage"]
    by (auto simp: synthesizer_def Let_def quiet_def accounting_ok_def caveat_of_def)
qed

lemma validator_update:
  assumes u: "citation_validator b e ag s = Inr u" and ag: "agents_ok ag"
    and clock: "0 \<le> rc_elapsed_seconds (s_clock s)"
  shows "quiet s (u\<lparr>u_citation_repairs := None, u_citation_check := None\<rparr>) \<and>
    (if cancelled e s then u = cancel e s (e_entry e)
     else u_stop u = None \<and>
       (\<exists>r c. s_report s = Some r \<and> u_citation_check u = Some (Some c) \<and> cc_revision c = rd_revision r
          \<and> u_citation_repairs u =
              (if \<not> passed c \<and> s_citation_repairs s < MAX_CITATION_REPAIRS
               then Some (s_citation_repairs s + 1) else None)))"
proof (cases "cancelled e s")
  case True
  with u have "u = cancel e s (e_entry e)" by (simp add: citation_validator_def)
  with True cancel_quiet[OF clock, of e "e_entry e"] show ?thesis
    by (simp add: quiet_def accounting_ok_def)
next
  case False
  with u obtain r where r: "s_report s = Some r" by (auto simp: citation_validator_def split: option.splits)
  with False u obtain c usage where c: "call (gb_node_timeout_seconds b) (ag_validate ag s) = Inr (c, usage)"
    by (auto simp: citation_validator_def split: sum.splits)
  then have "NodeUsage_ok usage" using ag call_ok[of _ _ c usage CitationCheck_ok] by (auto simp: agents_ok_def)
  then show ?thesis
    using False u c r accounting_accounted[OF clock, of "Some usage"]
    by (auto simp: citation_validator_def Let_def quiet_def accounting_ok_def split: if_splits)
qed

text \<open>A researcher writes its sources, never more than its allowance, and at most a cancellation.\<close>

definition researcher_write :: "SubtaskAssignment \<Rightarrow> Update \<Rightarrow> bool" where
  "researcher_write a u \<longleftrightarrow>
     u_iteration u = None \<and> u_citation_repairs u = None \<and> u_citation_check u = None
     \<and> u_report u = None \<and> u_evidence u = None \<and> u_claims u = None \<and> u_contradictions u = None
     \<and> (u_stop u = None \<or> u_stop u = Some \<lparr>sp_reason = StopReason.CANCELLED, sp_caveat = None\<rparr>)
     \<and> accounting_ok u
     \<and> (case u_sources u of None \<Rightarrow> True | Some ss \<Rightarrow> int (length ss) \<le> sa_source_allowance a)"

lemma held_to_allowance_fields:
  "u_sources (held_to_allowance a out usage) =
     Some (take (if int (length (to_sources out)) > sa_source_allowance a
                 then nat (sa_source_allowance a) else length (to_sources out)) (to_sources out))"
  "u_estimated_cost (held_to_allowance a out usage) = Some (nu_cost usage)"
  "u_search_queries (held_to_allowance a out usage) = Some (nu_search_queries usage)"
  "u_clock (held_to_allowance a out usage) = None" "u_stop (held_to_allowance a out usage) = None"
  "u_iteration (held_to_allowance a out usage) = None"
  "u_citation_repairs (held_to_allowance a out usage) = None"
  "u_citation_check (held_to_allowance a out usage) = None"
  "u_report (held_to_allowance a out usage) = None"
  "u_evidence (held_to_allowance a out usage) = None"
  "u_claims (held_to_allowance a out usage) = None"
  "u_contradictions (held_to_allowance a out usage) = None"
  by (simp_all add: held_to_allowance_def Let_def)

lemma researcher_update:
  assumes u: "researcher b probed ag a = Inr u" and ag: "agents_ok ag"
    and allow: "0 \<le> sa_source_allowance a"
  shows "researcher_write a u"
proof (cases probed)
  case True
  with u show ?thesis by (auto simp: researcher_def Let_def researcher_write_def accounting_ok_def)
next
  case False
  let ?t = "min (gb_node_timeout_seconds b) (sa_time_allowance_seconds a)"
  show ?thesis
  proof (cases "call ?t (ag_research ag a)")
    case (Inl ex)
    with False u show ?thesis
      by (auto simp: researcher_def Let_def researcher_write_def accounting_ok_def split: option.splits)
  next
    case (Inr p)
    obtain out usage where p: "p = (out, usage)" by fastforce
    have ok: "NodeUsage_ok usage"
      using Inr p ag call_ok[of _ _ out usage TaskOutcome_ok] by (auto simp: agents_ok_def)
    from False u Inr p have "u = held_to_allowance a out usage"
      by (auto simp: researcher_def Let_def split: if_splits)
    then show ?thesis using ok held_to_allowance_fields[of a out usage] allow
      by (auto simp: researcher_write_def accounting_ok_def NodeUsage_ok_def)
  qed
qed

end
