(* ===== verification/GraphRuns.thy ===== *)
theory GraphRuns
  imports GraphInvariants
begin

text \<open>
  The invariant of the graph's configurations, the rank every superstep decreases, and what they
  give for whole runs: a run ends within the superstep ceiling, a finished run that was not
  cancelled has a checked report carrying its caveat, and no run holds more sources than its budget.
\<close>

section \<open>The invariant\<close>

definition core_inv :: "ResearchState \<Rightarrow> bool" where
  "core_inv s \<longleftrightarrow>
     RunBudget_ok (s_budget s) \<and> len_between 1 MAX_QUESTION_LENGTH (s_query s)
     \<and> length (rp_domains (s_parameters s)) \<le> MAX_DOMAINS
     \<and> 0 \<le> s_iteration s \<and> s_iteration s \<le> rb_max_iterations (s_budget s)
     \<and> ids_distinct sr_source_id (s_sources s)
     \<and> int (length (s_sources s)) \<le> rb_max_sources (s_budget s)
     \<and> ids_distinct cl_id (s_claims s) \<and> ids_distinct ev_id (s_evidence s)
     \<and> ids_distinct cn_id (s_contradictions s)
     \<and> stop_wf (s_stop s) \<and> s_citation_repairs s \<in> {0, 1}
     \<and> CostEstimate_ok (s_estimated_cost s) \<and> 0 \<le> rc_elapsed_seconds (s_clock s)"

definition is_cancelled :: "ResearchState \<Rightarrow> bool" where
  "is_cancelled s \<longleftrightarrow> stop_reason s = Some StopReason.CANCELLED"

text \<open>A draft as the graph finished it: its revision counts the repairs, its caveat is the stop's.\<close>

definition drafted :: "ResearchState \<Rightarrow> ReportDraft \<Rightarrow> bool" where
  "drafted s r \<longleftrightarrow> s_report s = Some r \<and> rd_coverage_caveat r = caveat_of s"

fun position_inv :: "ResearchMode \<Rightarrow> config \<Rightarrow> bool" where
  "position_inv mode (At GraphNode.PLANNER, s) \<longleftrightarrow>
     s_stop s = None \<and> s_iteration s < rb_max_iterations (s_budget s) \<and> s_citation_repairs s = 0"
| "position_inv mode (At GraphNode.RESEARCHER, s) \<longleftrightarrow> False"
| "position_inv mode (At GraphNode.EVIDENCE_EXTRACTOR, s) \<longleftrightarrow> s_citation_repairs s = 0"
| "position_inv mode (At GraphNode.CLAIM_NORMALIZER, s) \<longleftrightarrow> s_citation_repairs s = 0"
| "position_inv mode (At GraphNode.VERIFIER, s) \<longleftrightarrow> mode \<noteq> ResearchMode.QUICK \<and> s_citation_repairs s = 0"
| "position_inv mode (At GraphNode.CONTRADICTION_CHECKER, s) \<longleftrightarrow>
     mode \<noteq> ResearchMode.QUICK \<and> s_citation_repairs s = 0"
| "position_inv mode (At GraphNode.CRITIC, s) \<longleftrightarrow> mode \<noteq> ResearchMode.QUICK \<and> s_citation_repairs s = 0"
| "position_inv mode (At GraphNode.ANSWERER, s) \<longleftrightarrow> s_citation_repairs s = 0"
| "position_inv mode (At GraphNode.SYNTHESIZER, s) \<longleftrightarrow> True"
| "position_inv mode (At GraphNode.CITATION_VALIDATOR, s) \<longleftrightarrow>
     (\<not> is_cancelled s \<longrightarrow>
        (\<exists>r. drafted s r \<and> rd_revision r = s_citation_repairs s \<and> s_citation_check s = None))"
| "position_inv mode (Fanout sends, s) \<longleftrightarrow>
     s_citation_repairs s = 0 \<and> list_all (\<lambda>a. 1 \<le> sa_source_allowance a) sends
     \<and> int (length (s_sources s)) + sum_list (map sa_source_allowance sends) \<le> rb_max_sources (s_budget s)"
| "position_inv mode (Finished, s) \<longleftrightarrow>
     (\<not> is_cancelled s \<longrightarrow>
        (\<exists>r c. drafted s r \<and> s_citation_check s = Some c \<and> cc_revision c = rd_revision r
           \<and> (passed c \<or> rd_revision r = 1)))"
| "position_inv mode (Failed err, s) \<longleftrightarrow> True"

definition config_inv :: "ResearchMode \<Rightarrow> config \<Rightarrow> bool" where
  "config_inv mode c \<longleftrightarrow> core_inv (snd c) \<and> position_inv mode c"

section \<open>The rank\<close>

text \<open>How many supersteps can still follow: the rounds not yet started, then the tail.\<close>

fun rank :: "ResearchMode \<Rightarrow> config \<Rightarrow> int" where
  "rank mode (At n, s) =
     (let rounds = ROUND_STEPS mode * (rb_max_iterations (s_budget s) - s_iteration s);
          R = ROUND_STEPS mode; writing = 2 * (1 - s_citation_repairs s)
      in case n of
           GraphNode.PLANNER \<Rightarrow> rounds + TAIL_STEPS
         | GraphNode.RESEARCHER \<Rightarrow> 0
         | GraphNode.EVIDENCE_EXTRACTOR \<Rightarrow> rounds + TAIL_STEPS + (R - 2)
         | GraphNode.CLAIM_NORMALIZER \<Rightarrow> rounds + TAIL_STEPS + (R - 3)
         | GraphNode.VERIFIER \<Rightarrow> rounds + TAIL_STEPS + 3
         | GraphNode.CONTRADICTION_CHECKER \<Rightarrow> rounds + TAIL_STEPS + 2
         | GraphNode.CRITIC \<Rightarrow> rounds + TAIL_STEPS + 1
         | GraphNode.ANSWERER \<Rightarrow> TAIL_STEPS
         | GraphNode.SYNTHESIZER \<Rightarrow> 2 + writing
         | GraphNode.CITATION_VALIDATOR \<Rightarrow> 1 + writing)"
| "rank mode (Fanout sends, s) =
     ROUND_STEPS mode * (rb_max_iterations (s_budget s) - s_iteration s) + TAIL_STEPS + (ROUND_STEPS mode - 1)"
| "rank mode (Finished, s) = 0"
| "rank mode (Failed err, s) = 0"

lemma ROUND_STEPS_cases: "ROUND_STEPS mode = (if mode = ResearchMode.QUICK then 4 else 7)"
  by (cases mode) simp_all

lemma TAIL_STEPS_5 [simp]: "TAIL_STEPS = 5"
  by (simp add: TAIL_STEPS_def MAX_CITATION_REPAIRS_def)

lemma rank_nonneg:
  assumes "core_inv s"
  shows "0 \<le> rank mode (p, s)"
proof -
  have "0 \<le> ROUND_STEPS mode * (rb_max_iterations (s_budget s) - s_iteration s)"
    using assms by (simp add: core_inv_def ROUND_STEPS_cases)
  then show ?thesis using assms
    by (cases p) (auto simp: core_inv_def Let_def ROUND_STEPS_cases split: GraphNode.split)
qed

section \<open>Updates keep the core invariant\<close>

lemma stop_write_keep: "stop_wf (s_stop s) \<Longrightarrow> stop_write_ok s w \<Longrightarrow> stop_wf (keep_stop (s_stop s) w)"
  by (cases "s_stop s"; cases w) (auto simp: stop_write_ok_def stop_wf_def keep_stop_Some)

lemma latest_clock_nonneg:
  "0 \<le> rc_elapsed_seconds a \<Longrightarrow> 0 \<le> rc_elapsed_seconds b \<Longrightarrow>
     0 \<le> rc_elapsed_seconds (latest_clock (Some a) (Some b))"
  by simp

text \<open>The part every update keeps, whatever it does to iteration, sources and repairs.\<close>

lemma core_inv_apply:
  assumes inv: "core_inv s" and st: "stop_write_ok s (u_stop u)" and acc: "accounting_ok u"
    and it: "0 \<le> s_iteration s'" "s_iteration s' \<le> rb_max_iterations (s_budget s)"
    and src: "int (length (s_sources s')) \<le> rb_max_sources (s_budget s)"
    and rep: "s_citation_repairs s' \<in> {0, 1}"
    and s': "s' = apply_update s u"
  shows "core_inv s'"
proof -
  have "CostEstimate_ok (reduced (\<lambda>a b. add_cost (Some a) (Some b)) (s_estimated_cost s) (u_estimated_cost u))"
    using inv acc by (cases "u_estimated_cost u")
      (auto simp: core_inv_def accounting_ok_def add_cost_def intro: CostEstimate_add_ok)
  moreover have "0 \<le> rc_elapsed_seconds (reduced (\<lambda>a b. latest_clock (Some a) (Some b)) (s_clock s) (u_clock u))"
    using inv acc by (cases "u_clock u") (auto simp: core_inv_def accounting_ok_def)
  moreover have "ids_distinct sr_source_id (reduced merge_sources (s_sources s) (u_sources u))"
    "ids_distinct cl_id (reduced (merge_by_id cl_id) (s_claims s) (u_claims u))"
    "ids_distinct ev_id (reduced (merge_by_id ev_id) (s_evidence s) (u_evidence u))"
    "ids_distinct cn_id (reduced (merge_by_id cn_id) (s_contradictions s) (u_contradictions u))"
    using inv by (auto simp: core_inv_def reduced_def split: option.splits)
  moreover have "stop_wf (keep_stop (s_stop s) (u_stop u))"
    using inv st by (auto simp: core_inv_def intro: stop_write_keep)
  ultimately show ?thesis
    using inv it src rep unfolding s' core_inv_def by (simp add: apply_update_fields)
qed

lemma core_inv_quiet: "core_inv s \<Longrightarrow> quiet s u \<Longrightarrow> core_inv (apply_update s u)"
  by (rule core_inv_apply[OF _ _ _ _ _ _ _ refl]) (auto simp: quiet_def core_inv_def apply_update_fields)

lemma quiet_frame [simp]:
  assumes "quiet s u"
  shows "s_iteration (apply_update s u) = s_iteration s"
    "s_citation_repairs (apply_update s u) = s_citation_repairs s"
    "s_sources (apply_update s u) = s_sources s"
  using assms by (simp_all add: quiet_def apply_update_fields)

lemma core_inv_clock: "core_inv s \<Longrightarrow> 0 \<le> rc_elapsed_seconds (s_clock s)"
  by (simp add: core_inv_def)

text \<open>The updates of a round of researchers, in any order.\<close>

lemma researcher_writes_fold:
  assumes "core_inv s" "list_all2 researcher_write as us"
    and "int (length (s_sources s)) + sum_list (map sa_source_allowance as) \<le> rb_max_sources (s_budget s)"
    and "\<forall>a \<in> set as. 0 \<le> sa_source_allowance a"
  shows "core_inv (foldl apply_update s us)
    \<and> s_iteration (foldl apply_update s us) = s_iteration s
    \<and> s_citation_repairs (foldl apply_update s us) = s_citation_repairs s
    \<and> s_budget (foldl apply_update s us) = s_budget s"
  using assms(2,1,3,4)
proof (induction as us arbitrary: s rule: list_all2_induct)
  case (Cons a as u us)
  have w: "researcher_write a u" by (rule Cons.hyps)
  let ?n = "int (length (s_sources (apply_update s u)))"
  have len: "?n \<le> int (length (s_sources s)) + sa_source_allowance a"
  proof (cases "u_sources u")
    case None
    then show ?thesis using Cons.prems(3) by (simp add: apply_update_fields)
  next
    case (Some ss)
    then show ?thesis
      using w Cons.prems(1) length_merge_sources[of "s_sources s" ss]
      by (simp add: apply_update_fields researcher_write_def core_inv_def)
  qed
  have "0 \<le> sum_list (map sa_source_allowance as)"
    using Cons.prems(3) by (intro sum_list_nonneg) auto
  with len Cons.prems(2) have "?n \<le> rb_max_sources (s_budget s)" by simp
  then have "core_inv (apply_update s u)"
    using w Cons.prems(1)
    by (intro core_inv_apply[OF _ _ _ _ _ _ _ refl])
      (auto simp: researcher_write_def core_inv_def stop_write_ok_def apply_update_fields)
  moreover have "s_iteration (apply_update s u) = s_iteration s"
    "s_citation_repairs (apply_update s u) = s_citation_repairs s"
    using w by (simp_all add: researcher_write_def apply_update_fields)
  ultimately show ?case
    using Cons.IH[of "apply_update s u"] Cons.prems len by simp
qed simp

section \<open>One superstep\<close>

lemma cancel_cancels: "is_cancelled (apply_update s (cancel e s t))"
  by (auto simp: is_cancelled_def stop_reason_def apply_update_fields cancel_def keep_stop_def)

lemma quiet_position:
  assumes "quiet s u" "core_inv s"
  shows "core_inv (apply_update s u)" "s_budget (apply_update s u) = s_budget s"
    "s_iteration (apply_update s u) = s_iteration s"
    "s_citation_repairs (apply_update s u) = s_citation_repairs s"
  using assms core_inv_quiet by simp_all

lemma assignments_ok:
  assumes "core_inv s" "allocate (s_budget s) u ts w = Some ds" "0 < time_left"
  shows "list_all SubtaskAssignment_ok (map (assignment s time_left) ds)"
  using assms allocate_allowances[OF assms(2)]
  by (auto simp: list_all_iff assignment_def SubtaskAssignment_ok_def core_inv_def)

lemma after_planner_cases:
  assumes inv: "core_inv s" and rep: "s_citation_repairs s = 0"
  shows "position_inv mode (after_planner b s, s)
    \<and> (after_planner b s = At GraphNode.ANSWERER \<or> after_planner b s = Finished
       \<or> after_planner b s = Failed WidthValueError
       \<or> (s_stop s = None \<and> (\<exists>sends. after_planner b s = Fanout sends)))"
proof (cases "s_stop s = None \<and> (\<exists>p. s_research_plan s = Some p \<and> pl_subtasks p \<noteq> [])")
  case False
  then have "after_planner b s \<in> {At GraphNode.ANSWERER, Finished}
      \<and> (after_planner b s = Finished \<longrightarrow> is_cancelled s)"
    by (auto simp: after_planner_def Let_def is_cancelled_def stop_reason_def split: option.splits)
  then show ?thesis using rep by auto
next
  case True
  then obtain p where stop: "s_stop s = None" and p: "s_research_plan s = Some p" "pl_subtasks p \<noteq> []" by blast
  let ?used = "consumption s None None" and ?w = "gb_max_subtasks_per_iteration b"
  define left where "left = of_int (rb_max_runtime_seconds (s_budget s)) - co_runtime_seconds ?used"
  show ?thesis
  proof (cases "allocate (s_budget s) ?used (pl_subtasks p) ?w")
    case None
    with stop p show ?thesis by (simp add: after_planner_def Let_def stop_reason_def)
  next
    case (Some ds)
    show ?thesis
    proof (cases "ds = [] \<or> left \<le> 0")
      case True
      with stop p Some rep show ?thesis
        by (auto simp: after_planner_def Let_def stop_reason_def left_def)
    next
      case False
      let ?sends = "map (assignment s left) ds"
      have "after_planner b s = Fanout ?sends"
        using stop p Some False assignments_ok[OF inv Some, of left]
        by (auto simp: after_planner_def Let_def stop_reason_def left_def[symmetric])
      moreover have "sum_list (map sa_source_allowance ?sends) = sum_list (map dp_source_allowance ds)"
        by (simp add: comp_def assignment_def)
      moreover have "list_all (\<lambda>a. 1 \<le> sa_source_allowance a) ?sends"
        using allocate_allowances(2)[OF Some] by (auto simp: list_all_iff assignment_def)
      moreover have "sum_list (map dp_source_allowance ds)
          \<le> rb_max_sources (s_budget s) - int (length (s_sources s))"
        using allocate_within_left(2)[OF Some] inv by (simp add: consumption_def core_inv_def)
      ultimately show ?thesis using rep stop by auto
    qed
  qed
qed

lemma superstep_planner:
  assumes inv: "config_inv mode (At GraphNode.PLANNER, s)" and ag: "agents_ok ag"
    and u: "planner b e ag s = Inr u"
  defines "s' \<equiv> apply_update s u"
  shows "config_inv mode (after_planner b s', s') \<and> rank mode (after_planner b s', s') < rank mode (At GraphNode.PLANNER, s)"
proof -
  from inv have core: "core_inv s" and stop: "s_stop s = None"
    and lt: "s_iteration s < rb_max_iterations (s_budget s)" and rep: "s_citation_repairs s = 0"
    by (simp_all add: config_inv_def)
  have R: "4 \<le> ROUND_STEPS mode" by (simp add: ROUND_STEPS_cases)
  have gap: "1 \<le> rb_max_iterations (s_budget s) - s_iteration s" using lt by simp
  have "ROUND_STEPS mode * 1 \<le> ROUND_STEPS mode * (rb_max_iterations (s_budget s) - s_iteration s)"
    using R gap by (intro mult_left_mono) auto
  with R have rounds: "4 \<le> ROUND_STEPS mode * (rb_max_iterations (s_budget s) - s_iteration s)" by linarith
  from planner_update[OF u ag core_inv_clock[OF core]] consider
      (stopped) "quiet s u" "u_stop u \<noteq> None"
    | (planned) "quiet s (u\<lparr>u_iteration := None\<rparr>)" "u_iteration u = Some (s_iteration s + 1)"
    using stop by blast
  then show ?thesis
  proof cases
    case stopped
    have s': "core_inv s'" "s_citation_repairs s' = 0" "s_stop s' \<noteq> None"
      using quiet_position[OF stopped(1) core] rep stopped(2) stop by (auto simp: s'_def apply_update_fields)
    from after_planner_cases[OF s'(1,2), of mode b] s' rounds show ?thesis
      by (auto simp: config_inv_def)
  next
    case planned
    have fields: "s_iteration s' = s_iteration s + 1" "s_citation_repairs s' = 0" "s_sources s' = s_sources s"
      using planned rep by (simp_all add: s'_def quiet_def apply_update_fields)
    have "core_inv s'"
      using planned core lt fields unfolding s'_def
      by (intro core_inv_apply[OF _ _ _ _ _ _ _ refl]) (auto simp: quiet_def core_inv_def accounting_ok_def)
    moreover have "s_budget s' = s_budget s" by (simp add: s'_def)
    moreover have "ROUND_STEPS mode * (rb_max_iterations (s_budget s) - (s_iteration s + 1)) + ROUND_STEPS mode
        = ROUND_STEPS mode * (rb_max_iterations (s_budget s) - s_iteration s)"
      by (simp add: algebra_simps)
    ultimately show ?thesis
      using after_planner_cases[of s' mode b] fields rounds by (auto simp: config_inv_def)
  qed
qed

lemma superstep_critic:
  assumes inv: "config_inv mode (At GraphNode.CRITIC, s)" and ag: "agents_ok ag"
    and u: "critic b e ag s = Inr u"
  defines "s' \<equiv> apply_update s u"
  shows "config_inv mode (after_critic s', s') \<and> rank mode (after_critic s', s') < rank mode (At GraphNode.CRITIC, s)"
proof -
  from inv have core: "core_inv s" and rep: "s_citation_repairs s = 0" by (simp_all add: config_inv_def)
  from critic_update[OF u ag core_inv_clock[OF core]] have q: "quiet s u"
    and c: "s_stop s = None \<Longrightarrow> u_stop u = None \<Longrightarrow>
      \<exists>c. u_critique u = Some c \<and> (cq_sufficient c \<or> s_iteration s < rb_max_iterations (s_budget s))"
    by auto
  note s' = quiet_position[OF q core, folded s'_def]
  have rounds: "0 \<le> ROUND_STEPS mode * (rb_max_iterations (s_budget s) - s_iteration s)"
    using core by (simp add: core_inv_def ROUND_STEPS_cases)
  show ?thesis
  proof (cases "after_critic s' = At GraphNode.PLANNER")
    case True
    then have stop: "s_stop s' = None" and crit: "\<exists>c. s_critique s' = Some c \<and> \<not> cq_sufficient c"
      by (auto simp: after_critic_def Let_def stop_reason_def split: option.splits if_splits)
    from stop have "s_stop s = None \<and> u_stop u = None"
      by (cases "s_stop s"; cases "u_stop u") (auto simp: s'_def apply_update_fields keep_stop_Some split: if_splits)
    with c crit have "s_iteration s < rb_max_iterations (s_budget s)"
      by (auto simp: s'_def apply_update_fields)
    with True s' rep stop show ?thesis by (simp add: config_inv_def)
  next
    case False
    then have "after_critic s' = At GraphNode.ANSWERER \<or> (after_critic s' = Finished \<and> is_cancelled s')"
      by (auto simp: after_critic_def Let_def is_cancelled_def split: option.splits if_splits)
    with s' rep rounds show ?thesis by (auto simp: config_inv_def)
  qed
qed

lemma superstep_synthesizer:
  assumes inv: "config_inv mode (At GraphNode.SYNTHESIZER, s)" and ag: "agents_ok ag"
    and u: "synthesizer b e ag s = Inr u"
  defines "s' \<equiv> apply_update s u"
  shows "config_inv mode (At GraphNode.CITATION_VALIDATOR, s')
    \<and> rank mode (At GraphNode.CITATION_VALIDATOR, s') < rank mode (At GraphNode.SYNTHESIZER, s)"
proof -
  from inv have core: "core_inv s" by (simp add: config_inv_def)
  note up = synthesizer_update[OF u ag core_inv_clock[OF core]]
  have fields: "s_iteration s' = s_iteration s" "s_citation_repairs s' = s_citation_repairs s"
      "s_sources s' = s_sources s"
    using up by (simp_all add: s'_def quiet_def apply_update_fields)
  have core': "core_inv s'"
    using up core fields unfolding s'_def
    by (intro core_inv_apply[OF _ _ _ _ _ _ _ refl]) (auto simp: quiet_def core_inv_def accounting_ok_def)
  show ?thesis
  proof (cases "cancelled e s")
    case True
    with up have "is_cancelled s'" by (simp add: s'_def cancel_cancels)
    with core' fields show ?thesis by (simp add: config_inv_def)
  next
    case False
    with up have "s_stop s' = s_stop s" "s_citation_check s' = None"
        "\<exists>r. s_report s' = Some r \<and> rd_revision r = s_citation_repairs s \<and> rd_coverage_caveat r = caveat_of s"
      by (auto simp: s'_def apply_update_fields)
    with core' fields show ?thesis by (auto simp: config_inv_def drafted_def caveat_of_def)
  qed
qed

lemma superstep_validator:
  assumes inv: "config_inv mode (At GraphNode.CITATION_VALIDATOR, s)" and ag: "agents_ok ag"
    and u: "citation_validator b e ag s = Inr u"
  defines "s' \<equiv> apply_update s u"
  shows "config_inv mode (after_validation s', s')
    \<and> rank mode (after_validation s', s') < rank mode (At GraphNode.CITATION_VALIDATOR, s)"
proof -
  from inv have core: "core_inv s" and rep: "s_citation_repairs s \<in> {0, 1}"
    by (simp_all add: config_inv_def core_inv_def)
  note up = validator_update[OF u ag core_inv_clock[OF core]]
  have fields: "s_iteration s' = s_iteration s" "s_sources s' = s_sources s" "s_report s' = s_report s"
    using up by (simp_all add: s'_def quiet_def apply_update_fields)
  have "u_citation_repairs u = None
      \<or> (s_citation_repairs s < 1 \<and> u_citation_repairs u = Some (s_citation_repairs s + 1))"
    using up by (cases "cancelled e s") (auto simp: cancel_def MAX_CITATION_REPAIRS_def split: if_splits)
  then have rep': "s_citation_repairs s' \<in> {0, 1}"
    using rep by (auto simp: s'_def apply_update_fields)
  have core': "core_inv s'"
    using up core fields rep' unfolding s'_def
    by (intro core_inv_apply[OF _ _ _ _ _ _ _ refl]) (auto simp: quiet_def core_inv_def accounting_ok_def)
  show ?thesis
  proof (cases "cancelled e s")
    case True
    with up have "is_cancelled s'" by (simp add: s'_def cancel_cancels)
    then have "after_validation s' = Finished" by (simp add: after_validation_def is_cancelled_def)
    with core' rep \<open>is_cancelled s'\<close> show ?thesis by (auto simp: config_inv_def)
  next
    case False
    then have nc: "\<not> is_cancelled s" by (simp add: cancelled_def is_cancelled_def)
    with inv obtain r where r: "drafted s r" "rd_revision r = s_citation_repairs s" by (auto simp: config_inv_def)
    from up False r(1) obtain c where stop: "s_stop s' = s_stop s" and check: "s_citation_check s' = Some c"
      and rev: "cc_revision c = rd_revision r"
      and grant: "s_citation_repairs s' =
        (if \<not> passed c \<and> s_citation_repairs s < 1 then s_citation_repairs s + 1 else s_citation_repairs s)"
      by (auto simp: s'_def apply_update_fields drafted_def MAX_CITATION_REPAIRS_def)
    have r': "drafted s' r" using r stop fields by (simp add: drafted_def caveat_of_def)
    have nc': "\<not> is_cancelled s'" using nc stop by (simp add: is_cancelled_def stop_reason_def)
    show ?thesis
    proof (cases "\<not> passed c \<and> s_citation_repairs s = 0")
      case True
      then have "after_validation s' = At GraphNode.SYNTHESIZER"
        using check grant rev r(2) nc' by (simp add: after_validation_def is_cancelled_def)
      with True core' grant show ?thesis by (simp add: config_inv_def)
    next
      case False
      then have "after_validation s' = Finished"
        using check grant rev r(2) nc' rep by (auto simp: after_validation_def is_cancelled_def)
      moreover have "passed c \<or> rd_revision r = 1" using False rep r(2) by auto
      ultimately show ?thesis using core' r' check rev rep by (auto simp: config_inv_def)
    qed
  qed
qed

text \<open>A processing node leaves every field of the rank alone.\<close>

lemma superstep_processing:
  assumes inv: "config_inv mode (At n, s)" and ag: "agents_ok ag" and u: "run_node b e ag n s = Inr u"
    and n: "n \<in> {GraphNode.EVIDENCE_EXTRACTOR, GraphNode.CLAIM_NORMALIZER, GraphNode.VERIFIER,
             GraphNode.CONTRADICTION_CHECKER, GraphNode.ANSWERER}"
  defines "s' \<equiv> apply_update s u"
  shows "config_inv mode (next_position mode b n s', s') \<and> rank mode (next_position mode b n s', s') < rank mode (At n, s)"
proof -
  from inv have core: "core_inv s" by (simp add: config_inv_def)
  have "quiet s u"
    using n u run_node_processing[OF u ag core_inv_clock[OF core]]
      answerer_update[of b e ag s u, OF _ ag core_inv_clock[OF core]]
    by auto
  note s' = quiet_position[OF this core, folded s'_def]
  have rounds: "0 \<le> ROUND_STEPS mode * (rb_max_iterations (s_budget s) - s_iteration s)"
    using core by (simp add: core_inv_def ROUND_STEPS_cases)
  show ?thesis using n inv s' rounds
    by (auto simp: config_inv_def ROUND_STEPS_cases split: if_splits)
qed

lemma fanout_writes:
  assumes "list_all2 (\<lambda>a u. \<exists>ag probed. agents_ok ag \<and> researcher b probed ag a = Inr u) sends us"
    and "list_all (\<lambda>a. 1 \<le> sa_source_allowance a) sends" "mset us' = mset us"
  shows "\<exists>sends'. mset sends' = mset sends \<and> list_all2 researcher_write sends' us'"
proof -
  have "list_all2 researcher_write sends us"
    using assms(1,2) by (induction rule: list_all2_induct) (auto intro: researcher_update)
  then have "list_all2 (\<lambda>u a. researcher_write a u) us sends" by (simp add: list_all2_conv_all_nth)
  from list_all2_reorder_left_invariance[OF this, of us'] assms(3)
  obtain sends' where "list_all2 (\<lambda>u a. researcher_write a u) us' sends'" "mset sends' = mset sends"
    by auto
  then show ?thesis by (auto simp: list_all2_conv_all_nth)
qed

lemma superstep_fanout:
  assumes inv: "config_inv mode (Fanout sends, s)"
    and us: "list_all2 (\<lambda>a u. \<exists>ag probed. agents_ok ag \<and> researcher b probed ag a = Inr u) sends us"
      "mset us' = mset us"
  defines "s' \<equiv> foldl apply_update s us'"
  shows "config_inv mode (At GraphNode.EVIDENCE_EXTRACTOR, s')
    \<and> rank mode (At GraphNode.EVIDENCE_EXTRACTOR, s') < rank mode (Fanout sends, s)"
proof -
  from inv have core: "core_inv s" and rep: "s_citation_repairs s = 0"
    and allow: "list_all (\<lambda>a. 1 \<le> sa_source_allowance a) sends"
    and sum: "int (length (s_sources s)) + sum_list (map sa_source_allowance sends) \<le> rb_max_sources (s_budget s)"
    by (simp_all add: config_inv_def)
  from fanout_writes[OF us(1) allow us(2)] obtain sends' where perm: "mset sends' = mset sends"
    and w: "list_all2 researcher_write sends' us'" by blast
  have "sum_list (map sa_source_allowance sends') = sum_list (map sa_source_allowance sends)"
    by (metis perm mset_map sum_mset_sum_list)
  moreover have "\<forall>a \<in> set sends'. 0 \<le> sa_source_allowance a"
    using allow perm by (fastforce simp: list_all_iff dest!: mset_eq_setD)
  ultimately have "core_inv s' \<and> s_iteration s' = s_iteration s \<and> s_citation_repairs s' = s_citation_repairs s
      \<and> s_budget s' = s_budget s"
    using researcher_writes_fold[OF core w] sum by (simp add: s'_def)
  then show ?thesis using rep by (simp add: config_inv_def)
qed

lemma rank_pos:
  assumes "core_inv s"
  shows "n \<noteq> GraphNode.RESEARCHER \<Longrightarrow> 0 < rank mode (At n, s)" "0 < rank mode (Fanout sends, s)"
proof -
  have R: "4 \<le> ROUND_STEPS mode" by (simp add: ROUND_STEPS_cases)
  have rep: "0 \<le> 2 * (1 - s_citation_repairs s)" using assms by (auto simp: core_inv_def)
  have rounds: "0 \<le> ROUND_STEPS mode * (rb_max_iterations (s_budget s) - s_iteration s)"
    using assms R by (simp add: core_inv_def)
  show "n \<noteq> GraphNode.RESEARCHER \<Longrightarrow> 0 < rank mode (At n, s)"
    unfolding rank.simps Let_def TAIL_STEPS_5
    by (cases n; insert R rep rounds; simp only: GraphNode.case; (linarith | blast))
  from R rounds show "0 < rank mode (Fanout sends, s)"
    unfolding rank.simps TAIL_STEPS_5 by linarith
qed

theorem superstep_inv:
  assumes inv: "config_inv mode c" and step: "superstep mode b c c'"
  shows "config_inv mode c' \<and> rank mode c' < rank mode c"
  using step inv
proof cases
  case (node ag e n s u s')
  with inv superstep_processing[of mode n s ag b e u] superstep_planner[of mode s ag b e u]
    superstep_critic[of mode s ag b e u] superstep_synthesizer[of mode s ag b e u]
    superstep_validator[of mode s ag b e u]
  show ?thesis by (cases n) simp_all
next
  case (node_raises ag e n s err)
  with inv rank_pos(1)[of s n mode] show ?thesis by (cases n) (auto simp: config_inv_def)
next
  case (fanout sends us us' s' s)
  with inv superstep_fanout[of mode sends s b us us'] show ?thesis by simp
next
  case (fanout_raises a sends ag probed err s)
  with inv rank_pos(2)[of s mode sends] show ?thesis by (auto simp: config_inv_def)
qed

section \<open>Runs\<close>

lemma start_inv:
  assumes "RunBrief_ok brief"
  shows "config_inv mode (start_of brief now)"
    "rank mode (start_of brief now) = ROUND_STEPS mode * rb_max_iterations (bf_budget brief) + TAIL_STEPS"
  using assms
  by (auto simp: start_of_def initial_state_def config_inv_def core_inv_def RunBrief_ok_def RunBudget_ok_def
      brief_parameters_def ids_distinct_def Let_def)

theorem run_inv:
  assumes "run_to mode b c0 n c" "config_inv mode c0"
  shows "config_inv mode c \<and> int n + rank mode c \<le> rank mode c0"
  using assms
proof (induction rule: run_to.induct)
  case (more n c c')
  then show ?case using superstep_inv[of mode c b c'] by auto
qed simp

lemma config_inv_core: "config_inv mode c \<Longrightarrow> core_inv (snd c)"
  by (simp add: config_inv_def)

lemma run_from_start:
  assumes "run_to mode b (start_of brief now) n c" "RunBrief_ok brief"
  shows "config_inv mode c"
    "int n + rank mode c \<le> ROUND_STEPS mode * rb_max_iterations (bf_budget brief) + TAIL_STEPS"
  using run_inv[OF assms(1) start_inv(1)[OF assms(2)]] start_inv(2)[OF assms(2), of mode now]
  by simp_all

lemma superstep_budget: "superstep mode b c c' \<Longrightarrow> s_budget (snd c') = s_budget (snd c)"
proof -
  have fold: "s_budget (foldl apply_update s us) = s_budget s" for s us
    by (induction us arbitrary: s) simp_all
  show "superstep mode b c c' \<Longrightarrow> ?thesis" by (auto elim!: superstep.cases simp: fold)
qed

lemma run_budget: "run_to mode b c0 n c \<Longrightarrow> s_budget (snd c) = s_budget (snd c0)"
  by (induction rule: run_to.induct) (simp_all add: superstep_budget)

end
