(* ===== verification/GraphDriver.thy ===== *)
theory GraphDriver
  imports GraphRuns
begin

text \<open>
  The research graph run by a deterministic driver: at every superstep a \<open>world\<close> supplies the
  agents, the environment and the probe's answer, and the driver takes the one superstep they
  determine.  Every run of the driver is a run of the step relation, and it ends.  The sample
  world at the end is the concrete input the properties are applied at.
\<close>

record world =
  w_agents :: agents
  w_env :: env
  w_probe :: bool

definition world_ok :: "world \<Rightarrow> bool" where
  "world_ok w \<longleftrightarrow> agents_ok (w_agents w)"

text \<open>The updates of a round in plan order, or the first exception.\<close>

fun research_all ::
  "GraphBounds \<Rightarrow> world \<Rightarrow> SubtaskAssignment list \<Rightarrow> graph_error + Update list" where
  "research_all b w [] = Inr []"
| "research_all b w (a # as) =
     (case researcher b (w_probe w) (w_agents w) a of
        Inl err \<Rightarrow> Inl err
      | Inr u \<Rightarrow> (case research_all b w as of Inl err \<Rightarrow> Inl err | Inr us \<Rightarrow> Inr (u # us)))"

fun drive_step :: "ResearchMode \<Rightarrow> GraphBounds \<Rightarrow> world \<Rightarrow> config \<Rightarrow> config" where
  "drive_step mode b w (At n, s) =
     (case run_node b (w_env w) (w_agents w) n s of
        Inl err \<Rightarrow> (Failed err, s)
      | Inr u \<Rightarrow> (let s' = apply_update s u in (next_position mode b n s', s')))"
| "drive_step mode b w (Fanout sends, s) =
     (case research_all b w sends of
        Inl err \<Rightarrow> (Failed err, s)
      | Inr us \<Rightarrow>
          (let s' = foldl apply_update s us in (next_position mode b GraphNode.RESEARCHER s', s')))"
| "drive_step mode b w (Finished, s) = (Finished, s)"
| "drive_step mode b w (Failed err, s) = (Failed err, s)"

fun drive :: "ResearchMode \<Rightarrow> GraphBounds \<Rightarrow> (nat \<Rightarrow> world) \<Rightarrow> nat \<Rightarrow> config \<Rightarrow> config" where
  "drive mode b ws 0 c = c"
| "drive mode b ws (Suc k) c = drive_step mode b (ws k) (drive mode b ws k c)"

fun ended :: "config \<Rightarrow> bool" where
  "ended (Finished, s) \<longleftrightarrow> True"
| "ended (Failed err, s) \<longleftrightarrow> True"
| "ended _ \<longleftrightarrow> False"

lemma research_all_Inr:
  "research_all b w as = Inr us \<Longrightarrow> world_ok w \<Longrightarrow>
     list_all2 (\<lambda>a u. \<exists>ag probed. agents_ok ag \<and> researcher b probed ag a = Inr u) as us"
proof (induction as arbitrary: us)
  case (Cons a as)
  then show ?case by (auto simp: world_ok_def split: sum.splits)
qed simp

lemma research_all_Inl:
  "research_all b w as = Inl err \<Longrightarrow>
     \<exists>a \<in> set as. researcher b (w_probe w) (w_agents w) a = Inl err"
  by (induction as) (auto split: sum.splits)

lemma drive_step_superstep:
  assumes "world_ok w" "\<not> ended c"
  shows "superstep mode b c (drive_step mode b w c)"
proof -
  obtain p s where c: "c = (p, s)" by fastforce
  show ?thesis
  proof (cases p)
    case (At n)
    then show ?thesis
      using assms c superstep.node[of "w_agents w" b "w_env w" n s]
        superstep.node_raises[of "w_agents w" b "w_env w" n s]
      by (auto simp: world_ok_def Let_def split: sum.splits)
  next
    case (Fanout sends)
    show ?thesis
    proof (cases "research_all b w sends")
      case (Inl err)
      with research_all_Inl[OF this] assms(1) superstep.fanout_raises c Fanout show ?thesis
        by (fastforce simp: world_ok_def)
    next
      case (Inr us)
      with research_all_Inr[OF this assms(1)] superstep.fanout[of b sends us us _ s mode] c Fanout
      show ?thesis by (simp add: Let_def)
    qed
  qed (use assms c in auto)
qed

lemma drive_step_ended: "ended c \<Longrightarrow> drive_step mode b w c = c"
  by (cases c rule: ended.cases) auto

lemma ended_mono:
  assumes "ended (drive mode b ws i c)" "i \<le> k"
  shows "ended (drive mode b ws k c)"
  using assms(2,1) by (induction rule: dec_induct) (simp_all add: drive_step_ended)

text \<open>The driver is a run of the graph, and an ended configuration is where it stays.\<close>

lemma drive_run:
  assumes "\<And>i. i < k \<Longrightarrow> world_ok (ws i)"
  shows "\<exists>n \<le> k. run_to mode b c n (drive mode b ws k c) \<and> (ended (drive mode b ws k c) \<or> n = k)"
  using assms
proof (induction k)
  case (Suc k)
  then obtain n where n: "n \<le> k" "run_to mode b c n (drive mode b ws k c)"
    "ended (drive mode b ws k c) \<or> n = k" by fastforce
  show ?case
  proof (cases "ended (drive mode b ws k c)")
    case True
    then show ?thesis using n drive_step_ended[OF True] by (auto intro: exI[of _ n])
  next
    case False
    then have "superstep mode b (drive mode b ws k c) (drive mode b ws (Suc k) c)"
      using Suc.prems drive_step_superstep by simp
    then show ?thesis using n False run_to.more by (intro exI[of _ "Suc n"]) auto
  qed
qed (auto intro: run_to.start)

lemma drive_exact:
  assumes "\<And>i. i < k \<Longrightarrow> world_ok (ws i)" "\<And>i. i < k \<Longrightarrow> \<not> ended (drive mode b ws i c)"
  shows "run_to mode b c k (drive mode b ws k c)"
  using assms
proof (induction k)
  case (Suc k)
  then have "superstep mode b (drive mode b ws k c) (drive mode b ws (Suc k) c)"
    using drive_step_superstep by simp
  with Suc show ?case by (auto intro: run_to.more)
qed (auto intro: run_to.start)

section \<open>A sample world\<close>

definition sample_budget :: RunBudget where
  "sample_budget =
     \<lparr>rb_max_iterations = 1, rb_max_sources = 3, rb_max_search_queries = 4,
      rb_max_runtime_seconds = 600, rb_max_cost_usd = 2\<rparr>"

definition sample_brief :: RunBrief where
  "sample_brief =
     \<lparr>bf_research_id = 1, bf_user_id = 2, bf_query = ''What limits solar cell output?'',
      bf_mode = ResearchMode.QUICK, bf_depth = 1, bf_domains = [],
      bf_date_range_start = None, bf_date_range_end = None, bf_parent_research_id = None,
      bf_has_attached_documents = False, bf_budget = sample_budget\<rparr>"

definition sample_bounds :: GraphBounds where
  "sample_bounds =
     \<lparr>gb_max_subtasks_per_iteration = 4, gb_max_concurrency = 4, gb_node_timeout_seconds = 60\<rparr>"

definition sample_usage :: NodeUsage where
  "sample_usage =
     \<lparr>nu_tokens = \<lparr>tc_prompt_tokens = 10, tc_completion_tokens = 5\<rparr>,
      nu_cost = CostEstimate_default, nu_search_queries = 1\<rparr>"

definition sample_subtask :: "string \<Rightarrow> int \<Rightarrow> Subtask" where
  "sample_subtask key i =
     \<lparr>su_key = key, su_question = ''Which losses matter?'', su_priority = TaskPriority.HIGH,
      su_iteration = i, su_rationale = [], su_channel = ResearchChannel.WEB\<rparr>"

definition sample_plan :: "int \<Rightarrow> Plan" where
  "sample_plan i =
     \<lparr>pl_research_goal = ''Losses'', pl_iteration = i,
      pl_subtasks = [sample_subtask ''losses'' i, sample_subtask ''caps'' i]\<rparr>"

definition sample_source :: "string \<Rightarrow> uuid \<Rightarrow> SourceRef" where
  "sample_source key i =
     \<lparr>sr_source_id = i, sr_task_key = key, sr_title = [], sr_url = ''https://a.example/'',
      sr_source_type = SourceType.WEB, sr_publisher = [], sr_chunk_count = 1\<rparr>"

text \<open>A researcher that reports two sources whatever its allowance.\<close>

definition sample_outcome :: "SubtaskAssignment \<Rightarrow> TaskOutcome" where
  "sample_outcome a =
     (let key = su_key (sa_subtask a); n = length key
      in \<lparr>to_task_key = key, to_iteration = su_iteration (sa_subtask a),
          to_sources = [sample_source key (10 * n + 1), sample_source key (10 * n + 2)],
          to_queries = [''solar losses'']\<rparr>)"

definition sample_report :: ReportDraft where
  "sample_report =
     \<lparr>rd_title = ''Solar losses'', rd_model = [], rd_revision = 0,
      rd_sections = [\<lparr>rs_kind = ReportSectionKind.EXECUTIVE_SUMMARY, rs_heading = ''Summary'',
                      rs_content_md = ''Text'', rs_claim_ids = []\<rparr>],
      rd_coverage_caveat = None\<rparr>"

text \<open>A validator that rejects the first draft and accepts the second.\<close>

definition sample_check :: "ResearchState \<Rightarrow> CitationCheck" where
  "sample_check s =
     (if s_citation_repairs s = 0
      then \<lparr>cc_revision = 0, cc_checked = 1, cc_valid = 0, cc_rejected = 1, cc_rejections = [],
            cc_repair_instructions = Some ''Cite the passage.''\<rparr>
      else \<lparr>cc_revision = 1, cc_checked = 1, cc_valid = 1, cc_rejected = 0, cc_rejections = [],
            cc_repair_instructions = None\<rparr>)"

definition sample_agents :: agents where
  "sample_agents =
     \<lparr>ag_plan = (\<lambda>s. (0, if 0 \<le> s_iteration s then Returned (sample_plan (s_iteration s + 1)) sample_usage
                        else WrongType)),
      ag_research = (\<lambda>a. (0, if su_key (sa_subtask a) = ''losses'' \<or> su_key (sa_subtask a) = ''caps'' then
                              if 1 \<le> su_iteration (sa_subtask a) then Returned (sample_outcome a) sample_usage
                              else WrongType
                            else WrongType)),
      ag_extract = (\<lambda>s. (0, Returned [] sample_usage)),
      ag_normalize = (\<lambda>s. (0, Raised (OtherException ''RuntimeError''))),
      ag_verify = (\<lambda>s. (0, Returned [] sample_usage)),
      ag_find_contradictions = (\<lambda>s. (0, Returned [] sample_usage)),
      ag_critique = (\<lambda>s. (0, WrongType)),
      ag_answer = (\<lambda>s. (0, Returned None sample_usage)),
      ag_synthesize = (\<lambda>s. (0, Returned sample_report sample_usage)),
      ag_validate = (\<lambda>s. (0, Returned (sample_check s) sample_usage))\<rparr>"

definition sample_world :: world where
  "sample_world =
     \<lparr>w_agents = sample_agents,
      w_env = \<lparr>e_entry = 0, e_exit = 1000000, e_resumed_at = 0, e_cancelled = False\<rparr>,
      w_probe = False\<rparr>"

lemma sample_brief_ok: "RunBrief_ok sample_brief"
  by code_simp

lemma sample_values_ok:
  "0 \<le> i \<Longrightarrow> Plan_ok (sample_plan (i + 1))" "NodeUsage_ok sample_usage" "ReportDraft_ok sample_report"
  "CitationCheck_ok (sample_check s)"
  "su_key (sa_subtask a) = ''losses'' \<or> su_key (sa_subtask a) = ''caps'' \<Longrightarrow>
     1 \<le> su_iteration (sa_subtask a) \<Longrightarrow> TaskOutcome_ok (sample_outcome a)"
  by (auto simp: sample_plan_def sample_subtask_def sample_usage_def sample_report_def sample_check_def
      sample_outcome_def sample_source_def Plan_ok_def Subtask_ok_def NodeUsage_ok_def ReportDraft_ok_def
      ReportSectionDraft_ok_def CitationCheck_ok_def TaskOutcome_ok_def SourceRef_ok_def len_between_def
      MAX_QUESTION_LENGTH_def MAX_PLANNED_SUBTASKS_def MAX_REPORT_SECTIONS_def MAX_CLAIMS_PER_SECTION_def
      MAX_SOURCES_PER_TASK_def MAX_QUERIES_PER_TASK_def is_lower_def is_digit_def Let_def)

lemma sample_agents_ok: "agents_ok sample_agents"
  by (auto simp: agents_ok_def sample_agents_def work_ok_def sample_values_ok)

lemma sample_world_ok [simp]: "world_ok sample_world"
  by (simp add: world_ok_def sample_world_def sample_agents_ok)

text \<open>
  The sample run: nine supersteps, with the one repair, ending with two sources of the three the
  budget allows because each researcher was held to its allowance of one.
\<close>

definition sample_end :: "nat \<Rightarrow> config" where
  "sample_end k = drive ResearchMode.QUICK sample_bounds (\<lambda>_. sample_world) k (start_of sample_brief 0)"

lemma sample_end_8: "fst (sample_end 8) = At GraphNode.CITATION_VALIDATOR"
  by code_simp

lemma sample_end_9: "fst (sample_end 9) = Finished \<and> \<not> is_cancelled (snd (sample_end 9))
    \<and> length (s_sources (snd (sample_end 9))) = 2"
  by code_simp

lemma sample_run: "k \<le> 9 \<Longrightarrow> run_to ResearchMode.QUICK sample_bounds (start_of sample_brief 0) k (sample_end k)"
  unfolding sample_end_def
proof (rule drive_exact)
  fix i assume "k \<le> 9" "i < k"
  then have i: "i \<le> 8" by simp
  have "\<not> ended (sample_end 8)" using sample_end_8 by (cases "sample_end 8") simp
  with ended_mono[OF _ i] show "\<not> ended (drive ResearchMode.QUICK sample_bounds (\<lambda>_. sample_world) i (start_of sample_brief 0))"
    unfolding sample_end_def by blast
qed simp

end
