(* ===== verification/GraphProperties.thy ===== *)
theory GraphProperties
  imports GraphDriver
begin

text \<open>
  The properties of the research graph as whole: runs are bounded and end, a finished run has a
  checked report, budgets hold in every reachable state, cancellation and a reached limit are
  final, and a round of researchers loses no subtask and does not depend on the order its
  updates are reduced in.
\<close>

section \<open>Runs are bounded and end\<close>

lemma recursion_limit_exact:
  "1 \<le> m \<Longrightarrow> recursion_limit mode m = Some (ROUND_STEPS mode * m + TAIL_STEPS + RECURSION_MARGIN)"
  by (simp add: recursion_limit_def)

lemma brief_iterations: "RunBrief_ok brief \<Longrightarrow> 1 \<le> rb_max_iterations (bf_budget brief)"
  by (simp add: RunBrief_ok_def RunBudget_ok_def)

lemma run_length:
  assumes "RunBrief_ok brief" "run_to mode b (start_of brief now) n c"
  shows "\<exists>k. recursion_limit mode (rb_max_iterations (bf_budget brief)) = Some k \<and> int n + RECURSION_MARGIN \<le> k"
proof -
  have "0 \<le> rank mode c"
    using run_from_start(1)[OF assms(2,1)] rank_nonneg[of "snd c" mode "fst c"] by (simp add: config_inv_def)
  with run_from_start(2)[OF assms(2,1)] recursion_limit_exact[OF brief_iterations[OF assms(1)], of mode]
  show ?thesis by simp
qed

text \<open>C1. No run of the graph takes as many supersteps as LangGraph's recursion limit for it: the
  limit is never reached, and its whole margin is left.\<close>

theorem run_within_recursion_limit:
  assumes "RunBrief_ok brief" "run_to mode b (start_of brief now) n c"
  shows "\<exists>k. recursion_limit mode (rb_max_iterations (bf_budget brief)) = Some k \<and> int n + RECURSION_MARGIN \<le> k"
  using assms by (rule run_length)

theorem run_within_recursion_limit_witness:
  "\<exists>k. recursion_limit ResearchMode.QUICK (rb_max_iterations (bf_budget sample_brief)) = Some k
     \<and> int 9 + RECURSION_MARGIN \<le> k"
  using run_within_recursion_limit[OF sample_brief_ok sample_run[OF order_refl]] .

text \<open>C2. The graph terminates: whatever the agents return, raise or take, and whenever a user
  cancels, driving it for the recursion limit's number of supersteps ends it.\<close>

theorem graph_terminates:
  assumes "RunBrief_ok brief" "\<And>i. world_ok (ws i)"
  shows "\<exists>k. recursion_limit mode (rb_max_iterations (bf_budget brief)) = Some k
    \<and> ended (drive mode b ws (nat k) (start_of brief now))"
proof -
  obtain k where k: "recursion_limit mode (rb_max_iterations (bf_budget brief)) = Some k"
    using recursion_limit_exact[OF brief_iterations[OF assms(1)]] by blast
  obtain n where n: "run_to mode b (start_of brief now) n (drive mode b ws (nat k) (start_of brief now))"
    "ended (drive mode b ws (nat k) (start_of brief now)) \<or> n = nat k"
    using drive_run[of "nat k" ws mode b "start_of brief now"] assms(2) by auto
  from run_length[OF assms(1) n(1)] k have "int n + RECURSION_MARGIN \<le> k" by simp
  then have "n \<noteq> nat k" by (simp add: RECURSION_MARGIN_def)
  with n(2) k show ?thesis by blast
qed

theorem graph_terminates_witness:
  "\<exists>k. recursion_limit ResearchMode.DEEP (rb_max_iterations (bf_budget sample_brief)) = Some k
     \<and> ended (drive ResearchMode.DEEP sample_bounds (\<lambda>_. sample_world) (nat k) (start_of sample_brief 7))"
  by (rule graph_terminates[OF sample_brief_ok sample_world_ok])

section \<open>What a finished run holds\<close>

text \<open>C3. A run that finished and was not cancelled has a report and a citation check of that very
  draft: the check passed, or the draft is the repaired one; and the report carries the caveat of
  the limit that ended discovery, exactly when one did.\<close>

theorem finished_run_has_checked_report:
  assumes "RunBrief_ok brief" "run_to mode b (start_of brief now) n (Finished, s)"
    and "stop_reason s \<noteq> Some StopReason.CANCELLED"
  shows "\<exists>r c. s_report s = Some r \<and> s_citation_check s = Some c \<and> cc_revision c = rd_revision r
    \<and> (passed c \<or> rd_revision r = MAX_CITATION_REPAIRS)
    \<and> (rd_coverage_caveat r = None \<longleftrightarrow> s_stop s = None)
    \<and> (\<forall>st. s_stop s = Some st \<longrightarrow> rd_coverage_caveat r = sp_caveat st)"
proof -
  have inv: "config_inv mode (Finished, s)" by (rule run_from_start(1)[OF assms(2,1)])
  then obtain r c where rc: "drafted s r" "s_citation_check s = Some c" "cc_revision c = rd_revision r"
    "passed c \<or> rd_revision r = 1"
    using assms(3) by (auto simp: config_inv_def is_cancelled_def)
  have "stop_wf (s_stop s)" using inv by (simp add: config_inv_def core_inv_def)
  with rc assms(3) show ?thesis
    by (auto simp: drafted_def caveat_of_def stop_wf_def stop_reason_def MAX_CITATION_REPAIRS_def
        split: option.splits)
qed

theorem finished_run_has_checked_report_witness:
  "\<exists>r c. s_report (snd (sample_end 9)) = Some r \<and> s_citation_check (snd (sample_end 9)) = Some c
    \<and> cc_revision c = rd_revision r \<and> (passed c \<or> rd_revision r = MAX_CITATION_REPAIRS)"
proof -
  have eq: "sample_end 9 = (Finished, snd (sample_end 9))" using sample_end_9 by (metis prod.collapse)
  have run: "run_to ResearchMode.QUICK sample_bounds (start_of sample_brief 0) 9 (Finished, snd (sample_end 9))"
    using sample_run[of 9] eq by simp
  have "stop_reason (snd (sample_end 9)) \<noteq> Some StopReason.CANCELLED"
    using sample_end_9 by (simp add: is_cancelled_def)
  from finished_run_has_checked_report[OF sample_brief_ok run this] show ?thesis by blast
qed

text \<open>C4. In every state a run reaches: no more sources than the budget allows, no more rounds than
  it allows, at most one citation repair, a measured cost that is never negative, and no two
  entries of a collection under one id.\<close>

theorem reachable_within_budget:
  assumes "RunBrief_ok brief" "run_to mode b (start_of brief now) n (p, s)"
  shows "int (length (s_sources s)) \<le> rb_max_sources (bf_budget brief)
    \<and> s_iteration s \<le> rb_max_iterations (bf_budget brief)
    \<and> s_citation_repairs s \<le> MAX_CITATION_REPAIRS
    \<and> 0 \<le> ce_usd (s_estimated_cost s)
    \<and> distinct (map sr_source_id (s_sources s)) \<and> distinct (map cl_id (s_claims s))
    \<and> distinct (map ev_id (s_evidence s)) \<and> distinct (map cn_id (s_contradictions s))"
proof -
  have "core_inv s" using run_from_start(1)[OF assms(2,1)] by (simp add: config_inv_def)
  moreover have "s_budget s = bf_budget brief"
    using run_budget[OF assms(2)] by (simp add: start_of_def initial_state_def)
  ultimately show ?thesis
    by (auto simp: core_inv_def ids_distinct_def MAX_CITATION_REPAIRS_def CostEstimate_ok_def)
qed

theorem reachable_within_budget_witness:
  "int (length (s_sources (snd (sample_end 9)))) \<le> rb_max_sources (bf_budget sample_brief)"
  using reachable_within_budget[OF sample_brief_ok,
      of ResearchMode.QUICK sample_bounds 0 9 "fst (sample_end 9)" "snd (sample_end 9)"]
    sample_run[of 9] by simp

text \<open>In every state a run reaches, the stop carries a caveat for the reader exactly when it is
  a reached limit; a cancelled run, which produces no report, has none.\<close>

theorem reachable_stop_has_caveat:
  assumes "RunBrief_ok brief" "run_to mode b (start_of brief now) n (p, s)" "s_stop s = Some st"
  shows "sp_caveat st = None \<longleftrightarrow> sp_reason st = StopReason.CANCELLED"
proof -
  have "stop_wf (s_stop s)"
    using run_from_start(1)[OF assms(2,1)] by (simp add: config_inv_def core_inv_def)
  then show ?thesis using assms(3) by (simp add: stop_wf_def)
qed

definition costly_world :: world where
  "costly_world = sample_world\<lparr>w_agents := sample_agents\<lparr>ag_plan :=
     (\<lambda>s. (1, if 0 \<le> s_iteration s
              then Returned (sample_plan (s_iteration s + 1)) (sample_usage\<lparr>nu_cost :=
                     \<lparr>ce_usd = 2, ce_uncosted_calls = 0\<rparr>\<rparr>)
              else WrongType))\<rparr>\<rparr>"

definition costly_end :: "nat \<Rightarrow> config" where
  "costly_end k = drive ResearchMode.DEEP sample_bounds (\<lambda>_. costly_world) k (start_of sample_brief 0)"

lemma costly_world_ok: "world_ok costly_world"
proof -
  have "NodeUsage_ok (sample_usage\<lparr>nu_cost := \<lparr>ce_usd = 2, ce_uncosted_calls = 0\<rparr>\<rparr>)"
    by (simp add: NodeUsage_ok_def CostEstimate_ok_def)
  with sample_agents_ok show ?thesis
    by (auto simp: world_ok_def costly_world_def agents_ok_def work_ok_def sample_values_ok)
qed

lemma costly_end_1: "fst (costly_end 1) = At GraphNode.ANSWERER
    \<and> stop_reason (snd (costly_end 1)) = Some StopReason.COST"
  by code_simp

lemma costly_run: "k \<le> 2 \<Longrightarrow> run_to ResearchMode.DEEP sample_bounds (start_of sample_brief 0) k (costly_end k)"
  unfolding costly_end_def
proof (rule drive_exact)
  fix i assume "k \<le> 2" "i < k"
  then have i: "i \<le> 1" by simp
  have "\<not> ended (costly_end 1)" using costly_end_1 by (cases "costly_end 1") simp
  with ended_mono[OF _ i] show "\<not> ended (drive ResearchMode.DEEP sample_bounds (\<lambda>_. costly_world) i (start_of sample_brief 0))"
    unfolding costly_end_def by blast
qed (rule costly_world_ok)

theorem reachable_stop_has_caveat_witness:
  "\<exists>st. s_stop (snd (costly_end 1)) = Some st \<and> sp_caveat st \<noteq> None"
proof -
  obtain st where st: "s_stop (snd (costly_end 1)) = Some st" "sp_reason st = StopReason.COST"
    using costly_end_1 by (auto simp: stop_reason_def)
  have run: "run_to ResearchMode.DEEP sample_bounds (start_of sample_brief 0) 1
      (fst (costly_end 1), snd (costly_end 1))"
    using costly_run[of 1] by simp
  from reachable_stop_has_caveat[OF sample_brief_ok run st(1)] st show ?thesis by simp
qed

section \<open>Cancellation and limits are final\<close>

lemma cancelled_if_is_cancelled: "is_cancelled s \<Longrightarrow> cancelled e s"
  by (simp add: is_cancelled_def cancelled_def)

lemma cancelled_node:
  "is_cancelled s \<Longrightarrow> n \<noteq> GraphNode.RESEARCHER \<Longrightarrow> run_node b e ag n s = Inr (cancel e s (e_entry e))"
  by (cases n)
    (simp_all add: cancelled_if_is_cancelled planner_def evidence_extractor_def claim_normalizer_def
      verifier_def contradiction_checker_def critic_def answerer_def synthesizer_def
      citation_validator_def process_def)

lemma cancel_keeps:
  "s_token_usage (apply_update s (cancel e s t)) = s_token_usage s"
  "s_search_queries (apply_update s (cancel e s t)) = s_search_queries s"
  "s_report (apply_update s (cancel e s t)) = s_report s"
  "s_answer (apply_update s (cancel e s t)) = s_answer s"
  "s_claims (apply_update s (cancel e s t)) = s_claims s"
  "s_sources (apply_update s (cancel e s t)) = s_sources s"
  by (simp_all add: cancel_def apply_update_def add_tokens_def)

definition same_work :: "ResearchState \<Rightarrow> ResearchState \<Rightarrow> bool" where
  "same_work s s' \<longleftrightarrow>
     s_token_usage s' = s_token_usage s \<and> s_search_queries s' = s_search_queries s
     \<and> s_report s' = s_report s \<and> s_answer s' = s_answer s \<and> s_claims s' = s_claims s
     \<and> s_sources s' = s_sources s"

definition not_researching :: "position \<Rightarrow> bool" where
  "not_researching p \<longleftrightarrow> (\<forall>sends. p \<noteq> Fanout sends) \<and> p \<noteq> At GraphNode.RESEARCHER"

lemma cancelled_next:
  assumes "is_cancelled s" "n \<noteq> GraphNode.RESEARCHER"
  shows "not_researching (next_position mode b n s)" "next_position mode b n s \<noteq> Failed err"
  using assms
  by (cases n; simp add: is_cancelled_def not_researching_def after_planner_def after_critic_def
      after_validation_def)+

lemma cancelled_step:
  assumes "superstep mode b (p, s) (p', s')" "is_cancelled s" "not_researching p"
  shows "is_cancelled s' \<and> same_work s s' \<and> not_researching p' \<and> (\<forall>err. p' \<noteq> Failed err)"
  using assms(1)
proof cases
  case (node ag e n u)
  then have n: "n \<noteq> GraphNode.RESEARCHER" using assms(3) by (simp add: not_researching_def)
  with node assms(2) cancelled_node have "s' = apply_update s (cancel e s (e_entry e))" by simp
  then have "is_cancelled s'" "same_work s s'" by (simp_all add: cancel_cancels same_work_def cancel_keeps)
  with cancelled_next[OF this(1) n] node show ?thesis by simp
next
  case (node_raises ag e n err)
  then have "n \<noteq> GraphNode.RESEARCHER" using assms(3) by (simp add: not_researching_def)
  with node_raises assms(2) cancelled_node show ?thesis by simp
qed (use assms(3) in \<open>simp_all add: not_researching_def\<close>)

text \<open>C5. Cancellation is final: once a run is cancelled, nothing later in it spends a token or a
  search, adds a source or a claim, writes a report or an answer, starts a researcher or fails; the
  run stays cancelled, and what each node returns does not depend on the agents at all.\<close>

theorem cancelled_run_does_no_work:
  assumes "run_to mode b (p, s) k (p', s')" "is_cancelled s" "not_researching p"
  shows "is_cancelled s' \<and> same_work s s' \<and> not_researching p'
    \<and> (\<forall>n e ag ag'. p' = At n \<longrightarrow> run_node b e ag n s' = run_node b e ag' n s')"
proof -
  have "is_cancelled (snd c) \<and> same_work s (snd c) \<and> not_researching (fst c)"
    if "run_to mode b (p, s) k c" for c
    using that
  proof (induction rule: run_to.induct)
    case (more n c c')
    obtain p1 s1 p2 s2 where "c = (p1, s1)" "c' = (p2, s2)" by fastforce
    with more cancelled_step[of mode b p1 s1 p2 s2] show ?case by (auto simp: same_work_def)
  qed (use assms in \<open>simp_all add: same_work_def\<close>)
  from this[OF assms(1)] show ?thesis by (auto simp: cancelled_node not_researching_def)
qed

definition cancelled_world :: world where
  "cancelled_world = sample_world\<lparr>w_env := (w_env sample_world)\<lparr>e_cancelled := True\<rparr>\<rparr>"

lemma cancelled_world_ok: "world_ok cancelled_world"
  by (simp add: world_ok_def cancelled_world_def sample_world_def sample_agents_ok)

definition cancelled_state :: ResearchState where
  "cancelled_state = snd (drive ResearchMode.QUICK sample_bounds (\<lambda>_. cancelled_world) 1 (start_of sample_brief 0))"

theorem cancelled_run_does_no_work_witness:
  "is_cancelled (snd (drive_step ResearchMode.QUICK sample_bounds sample_world
     (At GraphNode.CLAIM_NORMALIZER, cancelled_state)))"
proof -
  let ?c = "drive_step ResearchMode.QUICK sample_bounds sample_world (At GraphNode.CLAIM_NORMALIZER, cancelled_state)"
  have c: "is_cancelled cancelled_state" by code_simp
  have "superstep ResearchMode.QUICK sample_bounds (At GraphNode.CLAIM_NORMALIZER, cancelled_state) (fst ?c, snd ?c)"
    unfolding prod.collapse by (rule drive_step_superstep) simp_all
  then have "run_to ResearchMode.QUICK sample_bounds (At GraphNode.CLAIM_NORMALIZER, cancelled_state) (Suc 0) (fst ?c, snd ?c)"
    by (auto intro: run_to.intros)
  from cancelled_run_does_no_work[OF this c] show ?thesis by (simp add: not_researching_def)
qed

lemma stopped_update:
  assumes u: "run_node b e ag n s = Inr u" and ag: "agents_ok ag" and inv: "core_inv s"
    and stop: "s_stop s \<noteq> None"
  shows "u_iteration u = None \<and> u_sources u = None"
proof -
  note clock = core_inv_clock[OF inv]
  show ?thesis
    using u stop planner_update[of b e ag s u, OF _ ag clock] critic_update[of b e ag s u, OF _ ag clock]
      answerer_update[of b e ag s u, OF _ ag clock] synthesizer_update[of b e ag s u, OF _ ag clock]
      validator_update[of b e ag s u, OF _ ag clock] run_node_processing[OF u ag clock]
    by (cases n) (auto simp: quiet_def)
qed

lemma keep_stop_keeps:
  "s_stop s = Some st \<Longrightarrow> is_cancelled (apply_update s u) \<or> s_stop (apply_update s u) = Some st"
  by (cases "u_stop u")
    (auto simp: apply_update_fields keep_stop_Some is_cancelled_def stop_reason_def)

lemma stopped_next:
  assumes "s_stop s \<noteq> None" "n \<noteq> GraphNode.RESEARCHER"
  shows "not_researching (next_position mode b n s)" "next_position mode b n s \<noteq> At GraphNode.PLANNER"
  using assms
  by (cases n; auto simp: stop_reason_def not_researching_def after_planner_def after_critic_def
      after_validation_def Let_def split: option.split)+

lemma stopped_step:
  assumes "superstep mode b (p, s) (p', s')" "s_stop s = Some st" "not_researching p" "core_inv s"
  shows "s_iteration s' = s_iteration s \<and> s_sources s' = s_sources s \<and> not_researching p'
    \<and> (is_cancelled s' \<or> s_stop s' = Some st) \<and> (p' \<noteq> At GraphNode.PLANNER)"
  using assms(1)
proof cases
  case (node ag e n u)
  then have n: "n \<noteq> GraphNode.RESEARCHER" using assms(3) by (simp add: not_researching_def)
  have stop: "is_cancelled s' \<or> s_stop s' = Some st" using node keep_stop_keeps[OF assms(2)] by simp
  then have "s_stop s' \<noteq> None" by (auto simp: is_cancelled_def stop_reason_def)
  with stopped_next[OF _ n] stop stopped_update[of b e ag n s u] node assms show ?thesis
    by (simp add: apply_update_fields)
qed (use assms in \<open>simp_all add: not_researching_def\<close>)

text \<open>C6. A reached limit ends discovery and nothing else: from the moment a run holds a stop, no
  round is planned, no researcher is dispatched and no source is added, and the reason stays the
  first one unless the user cancels.\<close>

theorem stopped_run_discovers_nothing:
  assumes "RunBrief_ok brief" "run_to mode b (start_of brief now) n (p, s)"
    and "s_stop s = Some st" "not_researching p" "run_to mode b (p, s) k (p', s')"
  shows "s_iteration s' = s_iteration s \<and> s_sources s' = s_sources s \<and> not_researching p'
    \<and> (s_stop s' = Some st \<or> stop_reason s' = Some StopReason.CANCELLED)"
proof -
  have inv: "config_inv mode (p, s)" by (rule run_from_start(1)[OF assms(2,1)])
  have "s_iteration (snd c) = s_iteration s \<and> s_sources (snd c) = s_sources s \<and> not_researching (fst c)
      \<and> (is_cancelled (snd c) \<or> s_stop (snd c) = Some st) \<and> config_inv mode c"
    if "run_to mode b (p, s) k c" for c
    using that
  proof (induction rule: run_to.induct)
    case (more n c c')
    obtain p1 s1 p2 s2 where c: "c = (p1, s1)" "c' = (p2, s2)" by fastforce
    from more have inv: "config_inv mode c" by blast
    have "core_inv s1" using config_inv_core[OF inv] c by simp
    have "config_inv mode c'" using superstep_inv[OF inv more.hyps(2)] by blast
    have step: "superstep mode b (p1, s1) (p2, s2)" and nr: "not_researching p1"
      and keep: "s_iteration s1 = s_iteration s" "s_sources s1 = s_sources s"
      using more c by auto
    show ?case
    proof (cases "is_cancelled s1")
      case True
      then obtain st1 where "s_stop s1 = Some st1" by (auto simp: is_cancelled_def stop_reason_def)
      from stopped_step[OF step this nr \<open>core_inv s1\<close>] cancelled_step[OF step True nr] keep
        \<open>config_inv mode c'\<close> c show ?thesis by simp
    next
      case False
      then have "s_stop s1 = Some st" using more c by simp
      from stopped_step[OF step this nr \<open>core_inv s1\<close>] keep \<open>config_inv mode c'\<close> c show ?thesis by simp
    qed
  qed (use assms inv in simp_all)
  from this[OF assms(5)] show ?thesis by (auto simp: is_cancelled_def)
qed

theorem stopped_run_discovers_nothing_witness:
  "s_sources (snd (costly_end 2)) = s_sources (snd (costly_end 1))"
proof -
  obtain st where st: "s_stop (snd (costly_end 1)) = Some st"
    using costly_end_1 by (auto simp: stop_reason_def)
  have run: "run_to ResearchMode.DEEP sample_bounds (start_of sample_brief 0) 1
      (fst (costly_end 1), snd (costly_end 1))"
    using costly_run[of 1] by simp
  have p: "not_researching (fst (costly_end 1))" using costly_end_1 by (simp add: not_researching_def)
  have "\<not> ended (costly_end 1)" using costly_end_1 by (cases "costly_end 1") simp
  then have "superstep ResearchMode.DEEP sample_bounds (costly_end 1) (costly_end 2)"
    using drive_step_superstep[OF costly_world_ok, of "costly_end 1"]
    by (simp add: costly_end_def numeral_2_eq_2)
  then have "run_to ResearchMode.DEEP sample_bounds (fst (costly_end 1), snd (costly_end 1)) (Suc 0)
      (fst (costly_end 2), snd (costly_end 2))"
    by (auto intro: run_to.intros)
  from stopped_run_discovers_nothing[OF sample_brief_ok run st p this] show ?thesis by simp
qed

end
