(* ===== verification/GraphRounds.thy ===== *)
theory GraphRounds
  imports GraphProperties
begin

text \<open>
  One round of the research graph: how a failure ends or does not end the run, what becomes of
  every dispatched subtask, that the order of parallel updates does not matter, how the governor
  deals a round out, and the clock and caveat it is measured by.
\<close>

section \<open>Which failures end a run\<close>

lemma with_stop_Inl: "with_stop u st = Inl err \<longleftrightarrow> st = Inl err"
  by (auto simp: with_stop_def split: sum.splits)

lemma stop_for_Inl: "stop_for s r used c = Inl err \<Longrightarrow> err = ValidationError"
  by (auto simp: stop_for_def Let_def split: if_splits)

lemma propagates_Some: "propagates ex = Some err \<Longrightarrow> err = BubbledUp \<or> err = NodeContractViolated"
  by (auto simp: propagates_def split: exn.splits)

lemma stopped_by_Inl: "stopped_by e s r node i ex = Inl err \<Longrightarrow> err = ValidationError"
  by (auto simp: stopped_by_def Let_def with_stop_Inl dest: stop_for_Inl)

lemma process_Inl:
  "process b e s node field w = Inl err \<Longrightarrow> err \<in> {ValidationError, BubbledUp, NodeContractViolated}"
  by (auto simp: process_def Let_def dest!: stopped_by_Inl propagates_Some
      split: sum.splits option.splits if_splits)

lemma planner_Inl:
  "planner b e ag s = Inl err \<Longrightarrow>
     err \<in> {ValidationError, BubbledUp, NodeContractViolated} \<or> (err = PlanningFailed \<and> s_iteration s = 0)"
  by (auto simp: planner_def Let_def with_stop_Inl dest!: stopped_by_Inl propagates_Some stop_for_Inl
      split: sum.splits option.splits if_splits)

lemma run_node_Inl:
  assumes "run_node b e ag n s = Inl err"
  shows "err \<noteq> WidthValueError \<and> (err = PlanningFailed \<longrightarrow> n = GraphNode.PLANNER \<and> s_iteration s = 0)
    \<and> (err = SynthesisFailed \<longrightarrow> n = GraphNode.SYNTHESIZER)
    \<and> (err = CitationValidationFailed \<longrightarrow> n = GraphNode.CITATION_VALIDATOR)"
proof (cases n)
  case PLANNER
  with assms planner_Inl[of b e ag s err] show ?thesis by auto
next
  case RESEARCHER
  with assms show ?thesis by auto
next
  case EVIDENCE_EXTRACTOR
  with assms process_Inl show ?thesis by (fastforce simp: evidence_extractor_def)
next
  case CLAIM_NORMALIZER
  with assms process_Inl show ?thesis by (fastforce simp: claim_normalizer_def)
next
  case VERIFIER
  with assms process_Inl show ?thesis by (fastforce simp: verifier_def)
next
  case CONTRADICTION_CHECKER
  with assms process_Inl show ?thesis by (fastforce simp: contradiction_checker_def)
next
  case CRITIC
  with assms show ?thesis
    by (auto simp: critic_def Let_def with_stop_Inl dest!: stopped_by_Inl propagates_Some stop_for_Inl
        split: sum.splits option.splits if_splits)
next
  case ANSWERER
  with assms show ?thesis
    by (auto simp: answerer_def Let_def dest!: stopped_by_Inl propagates_Some
        split: sum.splits option.splits if_splits)
next
  case SYNTHESIZER
  with assms show ?thesis
    by (auto simp: synthesizer_def Let_def dest!: propagates_Some
        split: sum.splits option.splits if_splits)
next
  case CITATION_VALIDATOR
  with assms show ?thesis
    by (auto simp: citation_validator_def Let_def dest!: propagates_Some
        split: sum.splits option.splits if_splits)
qed

lemma researcher_Inl: "researcher b probed ag a = Inl err \<Longrightarrow> err \<in> {BubbledUp, NodeContractViolated}"
  by (auto simp: researcher_def Let_def dest!: propagates_Some
      split: sum.splits option.splits if_splits)

lemma next_position_Failed:
  assumes "next_position mode b n s = Failed err"
  shows "n = GraphNode.PLANNER \<and> after_planner b s = Failed err"
  using assms by (cases n)
    (auto simp: after_critic_def after_validation_def Let_def split: option.splits if_splits)

lemma allocate_None: "allocate bu u ts w = None \<longleftrightarrow> w < 1"
  by (auto simp: allocate_def Let_def)

lemma after_planner_Failed:
  "after_planner b s = Failed err \<Longrightarrow>
     err = ValidationError \<or> (err = WidthValueError \<and> gb_max_subtasks_per_iteration b < 1)"
  by (auto simp: after_planner_def Let_def allocate_None split: option.splits if_splits)

text \<open>Which failures end a run, and where: with rounds at least one subtask wide dispatching
  never fails, so a failure leaves the state as it stood; a failed planning ends the run only
  before the first round, a failed synthesis or validation only at those nodes, and a round of
  researchers ends it only by a broken contract or a control-flow exception of the framework.\<close>

theorem failure_ends_run_where:
  assumes "RunBrief_ok brief" "run_to mode b (start_of brief now) n (p, s)"
    and "1 \<le> gb_max_subtasks_per_iteration b" "superstep mode b (p, s) (Failed err, s')"
  shows "s' = s \<and> err \<noteq> WidthValueError
    \<and> (err = PlanningFailed \<longrightarrow> p = At GraphNode.PLANNER \<and> s_iteration s = 0)
    \<and> (err = SynthesisFailed \<longrightarrow> p = At GraphNode.SYNTHESIZER)
    \<and> (err = CitationValidationFailed \<longrightarrow> p = At GraphNode.CITATION_VALIDATOR)
    \<and> (\<forall>sends. p = Fanout sends \<longrightarrow> err \<in> {BubbledUp, NodeContractViolated})"
  using assms(4)
proof cases
  case (node ag e n u)
  have inv: "config_inv mode (At n, s)" using run_from_start(1)[OF assms(2,1)] node by simp
  from node have n: "n = GraphNode.PLANNER" and fail: "after_planner b s' = Failed err"
    using next_position_Failed by metis+
  from inv n have core: "core_inv s" and rep: "s_citation_repairs s = 0" by (simp_all add: config_inv_def)
  have "config_inv mode (after_planner b s', s')"
    using superstep_planner[of mode s ag b e u] inv node n by simp
  then have "core_inv s'" using config_inv_core by fastforce
  moreover have "s_citation_repairs s' = 0"
    using planner_update[of b e ag s u, OF _ _ core_inv_clock[OF core]] node n rep
    by (auto simp: quiet_def apply_update_fields)
  ultimately show ?thesis
    using after_planner_cases[of s' mode b] fail after_planner_Failed[OF fail] assms(3) by auto
next
  case (node_raises ag e n)
  with run_node_Inl[of b e ag n s err] show ?thesis by auto
next
  case (fanout_raises a sends ag probed)
  with researcher_Inl[of b probed ag a err] show ?thesis by auto
qed simp

definition failing_world :: world where
  "failing_world = sample_world\<lparr>w_agents := sample_agents\<lparr>ag_plan := (\<lambda>s. (61, WrongType))\<rparr>\<rparr>"

lemma failing_world_ok: "world_ok failing_world"
  using sample_agents_ok by (simp add: world_ok_def failing_world_def agents_ok_def work_ok_def)

theorem failure_ends_run_where_witness:
  "drive_step ResearchMode.DEEP sample_bounds failing_world (start_of sample_brief 0)
     = (Failed PlanningFailed, initial_state sample_brief 0)
   \<and> s_iteration (initial_state sample_brief 0) = 0"
proof -
  have eq: "drive_step ResearchMode.DEEP sample_bounds failing_world (start_of sample_brief 0)
     = (Failed PlanningFailed, initial_state sample_brief 0)"
    by (simp add: start_of_def failing_world_def planner_def call_def sample_bounds_def propagates_def
        budget_refused_def limit_reached_def may_plan_again_def used_by_def consumption_def initial_state_def
        sample_brief_def sample_budget_def sample_world_def cancelled_def stop_reason_def measured_def
        CostEstimate_default_def elapsed_at_def Let_def)
  have step: "superstep ResearchMode.DEEP sample_bounds (start_of sample_brief 0)
      (Failed PlanningFailed, initial_state sample_brief 0)"
    using drive_step_superstep[OF failing_world_ok, of "start_of sample_brief 0" ResearchMode.DEEP sample_bounds] eq
    by (simp add: start_of_def)
  have "1 \<le> gb_max_subtasks_per_iteration sample_bounds" by (simp add: sample_bounds_def)
  have "run_to ResearchMode.DEEP sample_bounds (start_of sample_brief 0) 0
      (At GraphNode.PLANNER, initial_state sample_brief 0)"
    using run_to.start by (simp add: start_of_def)
  from failure_ends_run_where[OF sample_brief_ok this]
    \<open>1 \<le> gb_max_subtasks_per_iteration sample_bounds\<close> step eq
  show ?thesis by (simp add: start_of_def)
qed

section \<open>A round of researchers\<close>

lemma node_error_key [simp]: "ne_task_key (node_error n i ex k) = k" "ne_node (node_error n i ex k) = n"
  by (simp_all add: node_error_def Let_def split: prod.splits)

lemma researcher_outcomes:
  assumes "researcher b probed ag a = Inr u"
  shows "(u_stop u = Some \<lparr>sp_reason = StopReason.CANCELLED, sp_caveat = None\<rparr>
        \<and> u_completed_tasks u = None \<and> u_failed_tasks u = None)
    \<or> (u_stop u = None \<and> u_completed_tasks u = None
        \<and> (\<exists>e. u_failed_tasks u = Some [e] \<and> ne_task_key e = Some (su_key (sa_subtask a))))
    \<or> (u_stop u = None \<and> u_failed_tasks u = None
        \<and> (\<exists>t. u_completed_tasks u = Some [t] \<and> to_task_key t = su_key (sa_subtask a)))"
proof (cases "probed")
  case True
  with assms show ?thesis by (auto simp: researcher_def Let_def)
next
  case False
  show ?thesis
  proof (cases "call (min (gb_node_timeout_seconds b) (sa_time_allowance_seconds a)) (ag_research ag a)")
    case (Inl ex)
    with assms False show ?thesis
      by (auto simp: researcher_def Let_def split: option.splits)
  next
    case (Inr p)
    with assms False show ?thesis
      by (cases p) (auto simp: researcher_def Let_def held_to_allowance_def split: if_splits)
  qed
qed

text \<open>The subtasks a state knows the fate of, each with its key.\<close>

definition settled :: "ResearchState \<Rightarrow> string option multiset" where
  "settled s = mset (map (Some \<circ> to_task_key) (s_completed_tasks s)) + mset (map ne_task_key (s_failed_tasks s))"

lemma settled_apply:
  "settled (apply_update s u) = settled s
     + mset (map (Some \<circ> to_task_key) (case u_completed_tasks u of None \<Rightarrow> [] | Some ts \<Rightarrow> ts))
     + mset (map ne_task_key (case u_failed_tasks u of None \<Rightarrow> [] | Some es \<Rightarrow> es))"
  by (simp add: settled_def apply_update_def split: option.splits)

lemma settled_fold:
  assumes "list_all2 (\<lambda>a u. \<exists>ag probed. agents_ok ag \<and> researcher b probed ag a = Inr u) sends us"
    and "\<not> is_cancelled (foldl apply_update s us)"
  shows "settled (foldl apply_update s us) = settled s + mset (map (Some \<circ> su_key \<circ> sa_subtask) sends)"
  using assms
proof (induction sends us arbitrary: s rule: list_all2_induct)
  case (Cons a sends u us)
  have stays: "is_cancelled s \<Longrightarrow> is_cancelled (foldl apply_update s us)" for s us
  proof (induction us arbitrary: s)
    case (Cons v vs)
    then obtain st where "s_stop s = Some st" "sp_reason st = StopReason.CANCELLED"
      by (auto simp: is_cancelled_def stop_reason_def)
    with keep_stop_keeps[of s st v] have "is_cancelled (apply_update s v)"
      by (auto simp: is_cancelled_def stop_reason_def)
    from Cons.IH[OF this] show ?case by simp
  qed simp
  from Cons.hyps(1) obtain ag probed where r: "researcher b probed ag a = Inr u" by blast
  have "\<not> is_cancelled (apply_update s u)" using Cons.prems stays by auto
  then have "u_stop u \<noteq> Some \<lparr>sp_reason = StopReason.CANCELLED, sp_caveat = None\<rparr>"
    by (auto simp: is_cancelled_def stop_reason_def apply_update_fields keep_stop_def)
  with researcher_outcomes[OF r]
  have "settled (apply_update s u) = settled s + {#Some (su_key (sa_subtask a))#}"
    by (auto simp: settled_apply)
  with Cons.IH[of "apply_update s u"] Cons.prems show ?case by simp
qed simp

text \<open>No dispatched subtask is lost: after a round of parallel researchers that was not
  cancelled, exactly the dispatched subtasks have been added to the completed and the failed ones,
  each once, and the other researchers' results stand whatever one of them did.\<close>

theorem round_settles_every_subtask:
  assumes "superstep mode b (Fanout sends, s) (At GraphNode.EVIDENCE_EXTRACTOR, s')"
    and "stop_reason s' \<noteq> Some StopReason.CANCELLED"
  shows "settled s' = settled s + mset (map (Some \<circ> su_key \<circ> sa_subtask) sends)"
  using assms(1)
proof cases
  case (fanout us us')
  note 1 = fanout
  let ?ok = "\<lambda>a u. \<exists>ag probed. agents_ok ag \<and> researcher b probed ag a = Inr u"
  have "list_all2 (\<lambda>u a. ?ok a u) us sends" using 1 by (simp add: list_all2_conv_all_nth)
  from list_all2_reorder_left_invariance[OF this, of us'] 1
  obtain sends' where "list_all2 (\<lambda>u a. ?ok a u) us' sends'" and perm: "mset sends' = mset sends" by auto
  then have "list_all2 ?ok sends' us'" by (simp add: list_all2_conv_all_nth)
  from settled_fold[OF this, of s] 1 assms(2)
  have "settled s' = settled s + mset (map (Some \<circ> su_key \<circ> sa_subtask) sends')"
    by (simp add: is_cancelled_def)
  also have "mset (map (Some \<circ> su_key \<circ> sa_subtask) sends') = mset (map (Some \<circ> su_key \<circ> sa_subtask) sends)"
    using perm by (metis mset_map)
  finally show ?thesis .
qed

lemma sample_end_1: "\<exists>sends. fst (sample_end 1) = Fanout sends \<and> map (su_key \<circ> sa_subtask) sends = [''losses'', ''caps'']"
proof -
  have "(case fst (sample_end 1) of Fanout sends \<Rightarrow> map (su_key \<circ> sa_subtask) sends = [''losses'', ''caps''] | _ \<Rightarrow> False)"
    by code_simp
  then show ?thesis by (cases "fst (sample_end 1)") auto
qed

lemma sample_end_2: "fst (sample_end 2) = At GraphNode.EVIDENCE_EXTRACTOR \<and> \<not> is_cancelled (snd (sample_end 2))"
  by code_simp

lemma sample_round:
  assumes "fst (sample_end 1) = Fanout sends"
  shows "superstep ResearchMode.QUICK sample_bounds (Fanout sends, snd (sample_end 1))
     (At GraphNode.EVIDENCE_EXTRACTOR, snd (sample_end 2))"
proof -
  have c1: "sample_end 1 = (Fanout sends, snd (sample_end 1))" using assms by (metis prod.collapse)
  have c2: "sample_end 2 = (At GraphNode.EVIDENCE_EXTRACTOR, snd (sample_end 2))"
    using sample_end_2 by (metis prod.collapse)
  have "sample_end 2 = drive_step ResearchMode.QUICK sample_bounds sample_world (sample_end 1)"
    by (simp add: sample_end_def numeral_2_eq_2)
  then have "drive_step ResearchMode.QUICK sample_bounds sample_world (Fanout sends, snd (sample_end 1))
      = (At GraphNode.EVIDENCE_EXTRACTOR, snd (sample_end 2))"
    unfolding c1[symmetric] c2[symmetric] by (rule sym)
  moreover have "\<not> ended (Fanout sends, snd (sample_end 1))" by simp
  ultimately show ?thesis using drive_step_superstep[OF sample_world_ok] by metis
qed

theorem round_settles_every_subtask_witness:
  "settled (snd (sample_end 2)) = settled (snd (sample_end 1)) + {#Some ''losses'', Some ''caps''#}"
proof -
  from sample_end_1 obtain sends where sends: "fst (sample_end 1) = Fanout sends"
    "map (su_key \<circ> sa_subtask) sends = [''losses'', ''caps'']" by (elim exE conjE)
  have "map (Some \<circ> su_key \<circ> sa_subtask) sends = map Some (map (su_key \<circ> sa_subtask) sends)" by simp
  moreover have "stop_reason (snd (sample_end 2)) \<noteq> Some StopReason.CANCELLED"
    using sample_end_2 by (simp add: is_cancelled_def)
  ultimately show ?thesis
    using round_settles_every_subtask[OF sample_round[OF sends(1)]] sends(2) by (simp del: map_map)
qed

section \<open>The order of a round\<close>

text \<open>The channels of a folded round, as folds of the channels' reducers over what was written.\<close>

lemma fold_tokens:
  "s_token_usage (foldl apply_update s us) =
     foldl (\<lambda>a b. add_tokens (Some a) (Some b)) (s_token_usage s) (List.map_filter u_token_usage us)"
  by (induction us arbitrary: s) (simp_all add: map_filter_simps apply_update_def split: option.split)

lemma fold_queries:
  "s_search_queries (foldl apply_update s us) =
     foldl (+) (s_search_queries s) (List.map_filter u_search_queries us)"
  by (induction us arbitrary: s) (simp_all add: map_filter_simps apply_update_def split: option.split)

lemma fold_cost:
  "s_estimated_cost (foldl apply_update s us) =
     foldl (\<lambda>a b. add_cost (Some a) (Some b)) (s_estimated_cost s) (List.map_filter u_estimated_cost us)"
  by (induction us arbitrary: s) (simp_all add: map_filter_simps apply_update_def split: option.split)

lemma fold_source_ids:
  "sr_source_id ` set (s_sources (foldl apply_update s us)) =
     sr_source_id ` set (s_sources s) \<union> (\<Union>u \<in> set us. case u_sources u of None \<Rightarrow> {} | Some ss \<Rightarrow> sr_source_id ` set ss)"
proof (induction us arbitrary: s)
  case (Cons u us)
  have "sr_source_id ` set (s_sources (apply_update s u)) = sr_source_id ` set (s_sources s)
      \<union> (case u_sources u of None \<Rightarrow> {} | Some ss \<Rightarrow> sr_source_id ` set ss)"
    by (cases "u_sources u") (auto simp: apply_update_fields merge_sources_fold ids_fold_put_new)
  with Cons[of "apply_update s u"] show ?case by (simp add: Un_assoc)
qed simp

lemma mset_map_filter: "mset (List.map_filter f xs) = image_mset (the \<circ> f) (filter_mset (\<lambda>x. f x \<noteq> None) (mset xs))"
  by (simp add: map_filter_def)

definition researcher_quiet :: "Update \<Rightarrow> bool" where
  "researcher_quiet u \<longleftrightarrow> u_clock u = None
     \<and> (u_stop u = None \<or> u_stop u = Some \<lparr>sp_reason = StopReason.CANCELLED, sp_caveat = None\<rparr>)"

lemma researcher_quiet: "researcher b probed ag a = Inr u \<Longrightarrow> researcher_quiet u"
  by (auto simp: researcher_def Let_def researcher_quiet_def held_to_allowance_fields
      split: sum.splits option.splits if_splits)

lemma fold_stop_clock:
  assumes "list_all researcher_quiet us"
  shows "s_clock (foldl apply_update s us) = s_clock s"
    "s_stop (foldl apply_update s us) =
       (if \<exists>u \<in> set us. u_stop u \<noteq> None then Some \<lparr>sp_reason = StopReason.CANCELLED, sp_caveat = None\<rparr>
        else s_stop s)"
  using assms
  by (induction us arbitrary: s) (auto simp: apply_update_fields keep_stop_def researcher_quiet_def split: option.splits)

lemma round_fields:
  assumes w: "list_all researcher_quiet us"
    and grid: "list_all on_grid (List.map_filter u_estimated_cost us)" "on_grid (s_estimated_cost s)"
    and perm: "mset vs = mset us"
  shows "s_token_usage (foldl apply_update s vs) = s_token_usage (foldl apply_update s us)"
    "s_search_queries (foldl apply_update s vs) = s_search_queries (foldl apply_update s us)"
    "s_estimated_cost (foldl apply_update s vs) = s_estimated_cost (foldl apply_update s us)"
    "s_clock (foldl apply_update s vs) = s_clock (foldl apply_update s us)"
    "s_stop (foldl apply_update s vs) = s_stop (foldl apply_update s us)"
    "sr_source_id ` set (s_sources (foldl apply_update s vs)) = sr_source_id ` set (s_sources (foldl apply_update s us))"
proof -
  have sets: "set vs = set us" using perm by (rule mset_eq_setD)
  have grid': "list_all on_grid (List.map_filter u_estimated_cost vs)"
    using grid(1) sets by (auto simp: list_all_iff map_filter_def)
  show "s_token_usage (foldl apply_update s vs) = s_token_usage (foldl apply_update s us)"
    unfolding fold_tokens using perm by (intro tokens.foldl_perm) (simp_all add: mset_map_filter list_all_iff)
  show "s_search_queries (foldl apply_update s vs) = s_search_queries (foldl apply_update s us)"
    unfolding fold_queries using perm by (intro counter.foldl_perm) (simp_all add: mset_map_filter list_all_iff)
  show "s_estimated_cost (foldl apply_update s vs) = s_estimated_cost (foldl apply_update s us)"
    unfolding fold_cost using perm grid' grid(2) by (intro cost.foldl_perm) (simp_all add: mset_map_filter)
  have w': "list_all researcher_quiet vs" using w sets by (simp add: list_all_iff)
  show "s_clock (foldl apply_update s vs) = s_clock (foldl apply_update s us)"
    "s_stop (foldl apply_update s vs) = s_stop (foldl apply_update s us)"
    using fold_stop_clock[OF w] fold_stop_clock[OF w'] sets by simp_all
  show "sr_source_id ` set (s_sources (foldl apply_update s vs)) = sr_source_id ` set (s_sources (foldl apply_update s us))"
    unfolding fold_source_ids sets ..
qed

text \<open>C7. The researchers of a round may finish in any order: tokens, searches, the clock, the
  reason to stop, and the cost of amounts in whole millionths of a dollar come out the same, and
  so does the set of sources held (the list's order, and which duplicate is kept, do not).\<close>

theorem round_order_irrelevant:
  assumes "list_all (\<lambda>u. \<exists>b probed ag a. researcher b probed ag a = Inr u) us"
    and "list_all on_grid (List.map_filter u_estimated_cost us)" "on_grid (s_estimated_cost s)"
    and "mset vs = mset us"
  shows "s_token_usage (foldl apply_update s vs) = s_token_usage (foldl apply_update s us)
    \<and> s_search_queries (foldl apply_update s vs) = s_search_queries (foldl apply_update s us)
    \<and> s_estimated_cost (foldl apply_update s vs) = s_estimated_cost (foldl apply_update s us)
    \<and> s_clock (foldl apply_update s vs) = s_clock (foldl apply_update s us)
    \<and> s_stop (foldl apply_update s vs) = s_stop (foldl apply_update s us)
    \<and> sr_source_id ` set (s_sources (foldl apply_update s vs)) = sr_source_id ` set (s_sources (foldl apply_update s us))"
proof -
  have "list_all researcher_quiet us" using assms(1) researcher_quiet by (fastforce simp: list_all_iff)
  from round_fields[OF this assms(2-4)] show ?thesis by blast
qed

definition sample_assignment :: "string \<Rightarrow> SubtaskAssignment" where
  "sample_assignment key = assignment (initial_state sample_brief 0) 600
     \<lparr>dp_subtask = sample_subtask key 1, dp_query_allowance = 2, dp_source_allowance = 1\<rparr>"

definition sample_write :: "string \<Rightarrow> Update" where
  "sample_write key = held_to_allowance (sample_assignment key) (sample_outcome (sample_assignment key)) sample_usage"

lemma sample_write_researcher:
  "key \<in> {''losses'', ''caps''} \<Longrightarrow> researcher sample_bounds False sample_agents (sample_assignment key) = Inr (sample_write key)"
  by (auto simp: researcher_def call_def sample_agents_def sample_write_def sample_bounds_def
      sample_assignment_def assignment_def sample_subtask_def sample_outcome_def Let_def)

theorem round_order_irrelevant_witness:
  "s_search_queries (foldl apply_update (initial_state sample_brief 0) [sample_write ''caps'', sample_write ''losses''])
   = s_search_queries (foldl apply_update (initial_state sample_brief 0) [sample_write ''losses'', sample_write ''caps''])"
proof -
  let ?us = "[sample_write ''losses'', sample_write ''caps'']"
  have "list_all (\<lambda>u. \<exists>b probed ag a. researcher b probed ag a = Inr u) ?us"
    using sample_write_researcher[of "''losses''"] sample_write_researcher[of "''caps''"] by auto
  moreover have "list_all on_grid (List.map_filter u_estimated_cost ?us)"
    by (simp add: sample_write_def held_to_allowance_fields sample_usage_def map_filter_simps)
  moreover have "on_grid (s_estimated_cost (initial_state sample_brief 0))" by (simp add: initial_state_def)
  moreover have "mset [sample_write ''caps'', sample_write ''losses''] = mset ?us" by (simp add: add_mset_commute)
  ultimately show ?thesis using round_order_irrelevant by blast
qed

end
