(* ===== verification/GovernorProperties.thy ===== *)
theory GovernorProperties
  imports GraphDriver
begin

text \<open>
  What the graph measures and deals out: how a round's allowances divide what is left of the
  budget, that a reached limit can always be written into the state, how the clock counts, that a
  replayed write changes nothing, and what a validated request and its ceilings look like.
\<close>

section \<open>Dealing a round out\<close>

text \<open>C8. A round that is dealt out goes to the most urgent subtasks in plan order, at most the width of them; each
  researcher may make at least one search and keep at least one source, and together they may use
  no more than what is left of the budget, so no overspend is possible by running in parallel.\<close>

theorem allocate_divides_what_is_left:
  assumes "allocate b u ts w = Some ds" "ds \<noteq> []"
  shows "map dp_subtask ds = take (length ds) (sort_key (PRIORITY_RANK \<circ> su_priority) ts)
    \<and> int (length ds) \<le> w
    \<and> (\<forall>d \<in> set ds. 1 \<le> dp_query_allowance d \<and> 1 \<le> dp_source_allowance d)
    \<and> co_search_queries u + sum_list (map dp_query_allowance ds) \<le> rb_max_search_queries b
    \<and> co_sources u + sum_list (map dp_source_allowance ds) \<le> rb_max_sources b"
proof -
  from assms obtain c where c: "1 \<le> c" "c \<le> rb_max_search_queries b - co_search_queries u"
      "c \<le> rb_max_sources b - co_sources u"
    by (auto elim: allocate_cases)
  then have left: "max 0 (rb_max_search_queries b - co_search_queries u) = rb_max_search_queries b - co_search_queries u"
    "max 0 (rb_max_sources b - co_sources u) = rb_max_sources b - co_sources u" by simp_all
  show ?thesis
    using allocate_order[OF assms(1)] allocate_allowances[OF assms(1)]
      allocate_within_left[OF assms(1), unfolded left]
    by (auto simp: by_priority_sort)
qed

theorem allocate_divides_what_is_left_witness:
  "\<exists>ds. allocate sample_budget (consumption (initial_state sample_brief 0) None None)
      (pl_subtasks (sample_plan 1)) 4 = Some ds
    \<and> 0 + sum_list (map dp_query_allowance ds) \<le> 4"
proof -
  let ?u = "consumption (initial_state sample_brief 0) None None"
  have "\<exists>ds. allocate sample_budget ?u (pl_subtasks (sample_plan 1)) 4 = Some ds \<and> ds \<noteq> []"
    by (simp add: allocate_def consumption_def initial_state_def sample_budget_def sample_plan_def
        by_priority_sort sample_subtask_def Let_def)
  then obtain ds where ds: "allocate sample_budget ?u (pl_subtasks (sample_plan 1)) 4 = Some ds" "ds \<noteq> []" by blast
  have "co_search_queries ?u = 0" "rb_max_search_queries sample_budget = 4"
    by (simp_all add: consumption_def initial_state_def sample_budget_def)
  with allocate_divides_what_is_left[OF ds] ds(1) show ?thesis by auto
qed

section \<open>The caveat of a limit\<close>

text \<open>Ending discovery at a limit cannot itself fail the run: when the critic describes each
  gap in at most 500 characters, the caveat fits the field it is written to and the stop is
  recorded, whatever the reason.\<close>

theorem stop_is_recorded:
  assumes "caveat_numbers_small (s_budget s) u" "gaps_within 500 c"
  shows "\<exists>st. stop_for s r u c = Inr st \<and> sp_reason st = r"
proof -
  have "Stop_ok \<lparr>sp_reason = r, sp_caveat = coverage_caveat r (s_budget s) u c\<rparr>"
    using coverage_caveat_length[OF assms, of r] by (auto simp: Stop_ok_def split: option.split)
  moreover have "Stop_ok \<lparr>sp_reason = r, sp_caveat = None\<rparr>" by (simp add: Stop_ok_def)
  ultimately show ?thesis by (simp add: stop_for_def Let_def)
qed

theorem stop_is_recorded_witness:
  "\<exists>st. stop_for (initial_state sample_brief 0) StopReason.ITERATIONS
      (consumption (initial_state sample_brief 0) None None)
      (Some \<lparr>cq_iteration = 1, cq_sufficient = False,
             cq_missing = [\<lparr>mi_description = replicate 500 CHR ''x'', mi_task_key = None\<rparr>],
             cq_rationale = []\<rparr>) = Inr st \<and> sp_reason st = StopReason.ITERATIONS"
  by (rule stop_is_recorded)
    (simp_all add: caveat_numbers_small_def gaps_within_def MAX_PLANNED_SUBTASKS_def consumption_def
      initial_state_def sample_brief_def sample_budget_def CostEstimate_default_def)

definition long_critique :: Critique where
  "long_critique =
     \<lparr>cq_iteration = 1, cq_sufficient = False,
      cq_missing = replicate 3 \<lparr>mi_description = replicate 1000 CHR ''x'', mi_task_key = None\<rparr>,
      cq_rationale = []\<rparr>"

definition long_agents :: agents where
  "long_agents = sample_agents\<lparr>ag_critique := (\<lambda>s. (0, Returned long_critique sample_usage))\<rparr>"

definition last_round_state :: ResearchState where
  "last_round_state = (initial_state sample_brief 0)\<lparr>s_iteration := 1\<rparr>"

lemma long_critique_ok: "Critique_ok long_critique"
  by (simp add: Critique_ok_def long_critique_def MissingInfo_ok_def len_between_def MAX_PLANNED_SUBTASKS_def
      list_all_iff)

lemma long_iterations_missing: "2000 < length (iterations_missing (Some long_critique))"
  by (simp add: iterations_missing_def long_critique_def CAVEAT_MISSING_ITEMS_def Let_def
      take_replicate length_str_join numeral_3_eq_3)

text \<open>The bound of 500 is needed and the schema does not give it: a critique that its schema
  accepts, naming three gaps of 1000 characters at the last round, makes the critic's own node
  raise a validation error instead of ending discovery.\<close>

theorem long_critique_breaks_the_stop:
  "agents_ok long_agents
   \<and> critic sample_bounds (w_env sample_world) long_agents last_round_state = Inl ValidationError"
proof
  show "agents_ok long_agents"
    using sample_agents_ok long_critique_ok sample_values_ok(2)
    by (simp add: agents_ok_def long_agents_def work_ok_def)
  let ?used = "used_by (w_env sample_world) last_round_state (e_exit (w_env sample_world)) (Some sample_usage)"
  have fields: "s_iteration last_round_state = 1" "s_stop last_round_state = None"
    "s_budget last_round_state = sample_budget" "e_cancelled (w_env sample_world) = False"
    by (simp_all add: last_round_state_def initial_state_def sample_brief_def sample_world_def)
  have used: "limit_reached sample_budget ?used True = None" "\<not> may_plan_again sample_budget ?used"
    by (simp_all add: limit_reached_def may_plan_again_def used_by_def consumption_def last_round_state_def
        initial_state_def sample_brief_def sample_budget_def sample_world_def elapsed_at_def total_seconds_def
        sample_usage_def CostEstimate_default_def CostEstimate_add_def measured_def round_to_def
        round_half_even_def Let_def)
  have call: "call (gb_node_timeout_seconds sample_bounds) (ag_critique long_agents last_round_state)
      = Inr (long_critique, sample_usage)"
    by (simp add: call_def long_agents_def sample_bounds_def)
  have "2000 < length (the (coverage_caveat StopReason.ITERATIONS sample_budget ?used (Some long_critique)))"
    using long_iterations_missing by simp
  then have stop: "stop_for last_round_state StopReason.ITERATIONS ?used (Some long_critique) = Inl ValidationError"
    using fields by (simp add: stop_for_def Stop_ok_def)
  have "cq_iteration long_critique = 1" "\<not> cq_sufficient long_critique" by (simp_all add: long_critique_def)
  with fields used call stop show "critic sample_bounds (w_env sample_world) long_agents last_round_state = Inl ValidationError"
    by (simp add: critic_def cancelled_def stop_reason_def Let_def with_stop_def)
qed

section \<open>The clock\<close>

text \<open>A run's clock counts the time a process works on it and nothing else: reading it in
  between changes nothing, the time between the last write and the next pick-up is free, and it
  never runs backwards whatever the two machines' clocks say.\<close>

theorem clock_counts_working_time:
  assumes "r \<le> t1" "rc_as_of c \<le> t1" "t1 \<le> t2"
  shows "advanced_to (advanced_to c t1 r) t2 r = advanced_to c t2 r
    \<and> (rc_as_of c \<le> r \<longrightarrow>
         rc_elapsed_seconds (advanced_to c t2 r) = rc_elapsed_seconds c + total_seconds (t2 - r))
    \<and> rc_elapsed_seconds c \<le> rc_elapsed_seconds (advanced_to c t' r')"
  using assms elapsed_at_ge[of c t' r'] advanced_to_twice[OF assms]
  by (simp add: advanced_to_def elapsed_at_def Let_def max_def)

theorem clock_counts_working_time_witness:
  "rc_elapsed_seconds (advanced_to \<lparr>rc_elapsed_seconds = 3, rc_as_of = 10\<rparr> 2000050 50) = 3 + total_seconds 2000000"
  using clock_counts_working_time[of 50 100 "\<lparr>rc_elapsed_seconds = 3, rc_as_of = 10\<rparr>" 2000050]
  by simp

section \<open>Replayed writes\<close>

lemma put_member: "ids_distinct idf zs \<Longrightarrow> x \<in> set zs \<Longrightarrow> put idf x zs = zs"
  by (induction zs) (auto simp: ids_distinct_def)

lemma fold_put_member: "ids_distinct idf zs \<Longrightarrow> set xs \<subseteq> set zs \<Longrightarrow> fold (put idf) xs zs = zs"
  by (induction xs) (auto simp: put_member)

lemma put_keeps: "idf y \<noteq> idf x \<Longrightarrow> y \<in> set zs \<Longrightarrow> y \<in> set (put idf x zs)"
  by (induction zs) auto

lemma put_in: "x \<in> set (put idf x zs)"
  by (induction zs) auto

lemma fold_put_set: "ids_distinct idf xs \<Longrightarrow> set xs \<subseteq> set (fold (put idf) xs zs)"
proof (induction xs arbitrary: zs)
  case (Cons x xs)
  have keep: "x \<in> set ys \<Longrightarrow> idf x \<notin> idf ` set xs \<Longrightarrow> x \<in> set (fold (put idf) xs ys)" for ys
  proof (induction xs arbitrary: ys)
    case (Cons y xs)
    then show ?case using put_keeps[of idf x y ys] by auto
  qed simp
  from Cons show ?case
    using keep[OF put_in[of x idf zs]] by (auto simp: ids_distinct_def)
qed simp

lemma put_new_member: "idf x \<in> idf ` set zs \<Longrightarrow> put_new idf x zs = zs"
  by (simp add: put_new_def)

lemma fold_put_new_member: "idf ` set xs \<subseteq> idf ` set zs \<Longrightarrow> fold (put_new idf) xs zs = zs"
  by (induction xs) (auto simp: put_new_member)

text \<open>A write that is replayed after a crash changes nothing the second time: evidence, claims,
  contradictions and sources are merged by identity, so a batch already merged is merged again to
  the same list, in the same order.\<close>

theorem replayed_write_is_idle:
  assumes "ids_distinct idf right"
  shows "merge_by_id idf (merge_by_id idf left right) right = merge_by_id idf left right
    \<and> merge_sources (merge_sources sources found) found = merge_sources sources found"
proof -
  have "set right \<subseteq> set (merge_by_id idf left right)"
    using fold_put_set[OF assms] by (simp add: merge_by_id_fold)
  then have "merge_by_id idf (merge_by_id idf left right) right = merge_by_id idf left right"
    by (simp add: merge_by_id_put fold_put_member)
  moreover have "sr_source_id ` set found \<subseteq> sr_source_id ` set (merge_sources sources found)"
    by (simp add: merge_sources_fold ids_fold_put_new)
  then have "merge_sources (merge_sources sources found) found = merge_sources sources found"
    by (simp add: merge_sources_put fold_put_new_member)
  ultimately show ?thesis ..
qed

theorem replayed_write_is_idle_witness:
  "merge_by_id fst (merge_by_id fst [(1, CHR ''a''), (2, CHR ''b'')] [(2, CHR ''c'')]) [(2, CHR ''c'')]
     = [(1, CHR ''a''), (2, CHR ''c'')]"
proof -
  have "ids_distinct fst [(2 :: uuid, CHR ''c'')]" by (simp add: ids_distinct_def)
  from replayed_write_is_idle[OF this, of "[(1, CHR ''a''), (2, CHR ''b'')]"]
  show ?thesis by (simp add: merge_by_id_fold)
qed

section \<open>Requests and ceilings\<close>

text \<open>A request that passes validation is well-formed (the trimmed question is long enough,
  every domain is a bare lower-case host name, domains and documents are unique, the date range is
  ordered) and is accepted unchanged when it is validated again.\<close>

theorem validated_request_wellformed:
  assumes "validate_request r = Some r'"
  shows "request_ok r' \<and> validate_request r' = Some r'"
  using validate_request_ok[OF assms] validate_request_idem[OF assms] by blast

definition sample_request :: CreateResearchRequest where
  "sample_request =
     \<lparr>cr_question = ''  Which solar cells last?  '', cr_mode = ResearchMode.DEEP, cr_depth = Some 2,
      cr_domains = ['' Example.ORG'', ''example.org''], cr_date_range_start = Some 1,
      cr_date_range_end = Some 2, cr_document_ids = [4, 4], cr_parent_run_id = None\<rparr>"

theorem validated_request_wellformed_witness:
  "request_ok (sample_request\<lparr>cr_question := ''Which solar cells last?'', cr_domains := [''example.org''],
     cr_document_ids := [4]\<rparr>)"
proof -
  have "validate_request sample_request = Some (sample_request\<lparr>cr_question := ''Which solar cells last?'',
     cr_domains := [''example.org''], cr_document_ids := [4]\<rparr>)"
    by code_simp
  from validated_request_wellformed[OF this] show ?thesis by blast
qed

text \<open>The ceilings a mode gives a run never exceed the deployment's settings, are accepted as a
  budget whenever the settings are positive, and a quick run is one round of at most a minute.\<close>

theorem limits_within_settings:
  assumes "1 \<le> ls_max_research_iterations t" "1 \<le> ls_max_sources t" "1 \<le> ls_max_search_queries t"
    "1 \<le> ls_max_runtime_seconds t" "0 < ls_max_estimated_cost_usd t"
  shows "\<exists>b. from_limits (limits_for_mode m t) = Some b \<and> RunBudget_ok b
    \<and> rb_max_iterations b \<le> ls_max_research_iterations t \<and> rb_max_sources b \<le> ls_max_sources t
    \<and> rb_max_search_queries b \<le> ls_max_search_queries t
    \<and> rb_max_runtime_seconds b \<le> ls_max_runtime_seconds t
    \<and> rb_max_cost_usd b \<le> ls_max_estimated_cost_usd t
    \<and> (m = ResearchMode.QUICK \<longrightarrow> rb_max_iterations b = 1 \<and> rb_max_runtime_seconds b \<le> 60)"
  using assms limits_for_mode_within_settings[OF assms(1), of m]
  by (simp add: from_limits_def RunBudget_ok_def Let_def) (simp add: limits_for_mode_def)

theorem limits_within_settings_witness:
  "\<exists>b. from_limits (limits_for_mode ResearchMode.QUICK
      \<lparr>ls_max_research_iterations = 4, ls_max_sources = 40, ls_max_search_queries = 30,
       ls_max_runtime_seconds = 900, ls_max_estimated_cost_usd = 2\<rparr>) = Some b
    \<and> rb_max_runtime_seconds b \<le> 60"
  using limits_within_settings[of "\<lparr>ls_max_research_iterations = 4, ls_max_sources = 40,
      ls_max_search_queries = 30, ls_max_runtime_seconds = 900, ls_max_estimated_cost_usd = 2\<rparr>"
      ResearchMode.QUICK]
  by auto

end
