(* ===== verification/ModelRegistry.thy ===== *)
theory ModelRegistry
  imports Enums
begin

text \<open>
  \<open>app/models/base.py\<close> (the values a call carries) and \<open>app/models/registry.py\<close>: the declared
  models, what each costs, and the lookups the router and the accounting ask.  A registry is the
  dictionary of its specs in declaration order, as an association list from key to spec.
\<close>

section \<open>Tiers\<close>

datatype ModelTier = SMALL | MEDIUM | STRONG | STRONGEST

definition TIER_ORDER :: "ModelTier list" where
  "TIER_ORDER = [ModelTier.SMALL, ModelTier.MEDIUM, ModelTier.STRONG, ModelTier.STRONGEST]"

fun index_of :: "'a list \<Rightarrow> 'a \<Rightarrow> nat" where
  "index_of [] x = 0"
| "index_of (y # ys) x = (if x = y then 0 else Suc (index_of ys x))"

definition tier_rank :: "ModelTier \<Rightarrow> nat" where
  "tier_rank t = index_of TIER_ORDER t"

definition step_down :: "ModelTier \<Rightarrow> ModelTier" where
  "step_down t = TIER_ORDER ! nat (max 0 (int (tier_rank t) - 1))"

lemma tier_rank_simps [simp]:
  "tier_rank ModelTier.SMALL = 0" "tier_rank ModelTier.MEDIUM = 1"
  "tier_rank ModelTier.STRONG = 2" "tier_rank ModelTier.STRONGEST = 3"
  by (simp_all add: tier_rank_def TIER_ORDER_def)

lemma step_down_simps [simp]:
  "step_down ModelTier.SMALL = ModelTier.SMALL" "step_down ModelTier.MEDIUM = ModelTier.SMALL"
  "step_down ModelTier.STRONG = ModelTier.MEDIUM" "step_down ModelTier.STRONGEST = ModelTier.STRONG"
  by (simp_all add: step_down_def TIER_ORDER_def)

text \<open>Tiers are ordered by declaration: \<open>SMALL < MEDIUM < STRONG < STRONGEST\<close>.\<close>

instantiation ModelTier :: linorder
begin

definition less_eq_ModelTier :: "ModelTier \<Rightarrow> ModelTier \<Rightarrow> bool" where
  "less_eq_ModelTier a b \<longleftrightarrow> tier_rank a \<le> tier_rank b"

definition less_ModelTier :: "ModelTier \<Rightarrow> ModelTier \<Rightarrow> bool" where
  "less_ModelTier a b \<longleftrightarrow> tier_rank a < tier_rank b"

instance
proof
  fix x y :: ModelTier
  assume "x \<le> y" "y \<le> x"
  then show "x = y" by (cases x; cases y) (simp_all add: less_eq_ModelTier_def)
qed (auto simp: less_eq_ModelTier_def less_ModelTier_def)

end

lemma step_down_le: "step_down t \<le> t"
  by (cases t) (simp_all add: less_eq_ModelTier_def)

lemma step_down_below: "u < t \<Longrightarrow> u \<le> step_down t"
  by (cases t; cases u) (simp_all add: less_eq_ModelTier_def less_ModelTier_def)

lemma step_down_rank: "tier_rank t > 0 \<Longrightarrow> tier_rank (step_down t) < tier_rank t"
  by (cases t) simp_all

section \<open>The values of a call\<close>

record TokenUsage =
  tu_prompt_tokens :: nat
  tu_completion_tokens :: nat

definition total_tokens :: "TokenUsage \<Rightarrow> nat" where
  "total_tokens u = tu_prompt_tokens u + tu_completion_tokens u"

record Completion =
  cp_text :: string
  cp_provider :: LlmProvider
  cp_model :: string
  cp_usage :: TokenUsage
  cp_finish_reason :: string

record CompletionChunk =
  ch_delta :: string
  ch_usage :: "TokenUsage option"
  ch_finish_reason :: "string option"

definition chunk_is_final :: "CompletionChunk \<Rightarrow> bool" where
  "chunk_is_final c \<longleftrightarrow> ch_usage c \<noteq> None \<or> ch_finish_reason c \<noteq> None"

datatype EmbeddingPurpose = DOCUMENT | QUERY

record CompletionRequest =
  rq_model :: string
  rq_max_output_tokens :: int
  rq_temperature :: "real option"
  rq_stop :: "string list"
  rq_effort :: "string option"
  rq_timeout_seconds :: "real option"

section \<open>Declared models\<close>

record Pricing =
  pr_input_usd_per_mtok :: real
  pr_output_usd_per_mtok :: real
  pr_as_of :: int
  pr_source :: string

record ModelSpec =
  ms_key :: string
  ms_provider :: LlmProvider
  ms_model_id :: string
  ms_tier :: ModelTier
  ms_context_window :: int
  ms_max_output_tokens :: int
  ms_pricing :: "Pricing option"
  ms_supports_chat :: bool
  ms_supports_streaming :: bool
  ms_supports_structured_output :: bool
  ms_supports_temperature :: bool
  ms_supports_token_counting :: bool
  ms_supports_embeddings :: bool
  ms_embedding_dimensions :: "int option"
  ms_embedding_document_prefix :: string
  ms_embedding_query_prefix :: string

definition embedding_prefix :: "ModelSpec \<Rightarrow> EmbeddingPurpose \<Rightarrow> string" where
  "embedding_prefix spec purpose =
     (if purpose = EmbeddingPurpose.DOCUMENT then ms_embedding_document_prefix spec
      else ms_embedding_query_prefix spec)"

definition is_priced :: "ModelSpec \<Rightarrow> bool" where
  "is_priced spec \<longleftrightarrow> ms_pricing spec \<noteq> None"

definition cost_usd :: "ModelSpec \<Rightarrow> TokenUsage \<Rightarrow> real option" where
  "cost_usd spec usage =
     (case ms_pricing spec of
        None \<Rightarrow> None
      | Some p \<Rightarrow>
          Some (round_to 6 (of_nat (tu_prompt_tokens usage) / 1000000 * pr_input_usd_per_mtok p
                          + of_nat (tu_completion_tokens usage) / 1000000 * pr_output_usd_per_mtok p)))"

section \<open>The registry\<close>

type_synonym ModelRegistry = "(string \<times> ModelSpec) list"

definition specs :: "ModelRegistry \<Rightarrow> ModelSpec list" where
  "specs reg = map snd reg"

definition registry_get :: "ModelRegistry \<Rightarrow> string \<Rightarrow> ModelSpec option" where
  "registry_get reg key = map_of reg key"

definition by_tier ::
  "ModelRegistry \<Rightarrow> ModelTier \<Rightarrow> LlmProvider list option \<Rightarrow> bool \<Rightarrow> ModelSpec list" where
  "by_tier reg tier providers chat_only =
     filter (\<lambda>spec. ms_tier spec = tier
                \<and> (case providers of None \<Rightarrow> True | Some ps \<Rightarrow> ms_provider spec \<in> set ps)
                \<and> (\<not> chat_only \<or> ms_supports_chat spec))
       (specs reg)"

text \<open>\<open>_SNAPSHOT_SUFFIX.fullmatch\<close>: a dash and a date, with or without dashes inside it.\<close>

definition snapshot_suffix :: "string \<Rightarrow> bool" where
  "snapshot_suffix s \<longleftrightarrow>
     (case s of
        [] \<Rightarrow> False
      | c # d \<Rightarrow>
          c = CHR ''-''
          \<and> ((length d = 8 \<and> list_all is_digit d)
              \<or> (length d = 10 \<and> d ! 4 = CHR ''-'' \<and> d ! 7 = CHR ''-''
                   \<and> list_all is_digit (take 4 d) \<and> list_all is_digit (take 2 (drop 5 d))
                   \<and> list_all is_digit (drop 8 d))))"

text \<open>\<open>max(..., key=..., default=None)\<close> keeps the first of equals.\<close>

fun first_max :: "('a \<Rightarrow> nat) \<Rightarrow> 'a list \<Rightarrow> 'a option" where
  "first_max f [] = None"
| "first_max f (x # xs) =
     (case first_max f xs of None \<Rightarrow> Some x | Some y \<Rightarrow> if f x \<ge> f y then Some x else Some y)"

definition snapshots_of :: "ModelRegistry \<Rightarrow> LlmProvider \<Rightarrow> string \<Rightarrow> ModelSpec list" where
  "snapshots_of reg provider model_id =
     filter (\<lambda>spec. ms_provider spec = provider \<and> starts_with (ms_model_id spec) model_id
                \<and> snapshot_suffix (drop (length (ms_model_id spec)) model_id))
       (specs reg)"

definition registry_find :: "ModelRegistry \<Rightarrow> LlmProvider \<Rightarrow> string \<Rightarrow> ModelSpec option" where
  "registry_find reg provider model_id =
     (case find (\<lambda>spec. ms_provider spec = provider \<and> ms_model_id spec = model_id) (specs reg) of
        Some exact \<Rightarrow> Some exact
      | None \<Rightarrow> first_max (length \<circ> ms_model_id) (snapshots_of reg provider model_id))"

definition embedding_models :: "ModelRegistry \<Rightarrow> ModelSpec list" where
  "embedding_models reg = filter ms_supports_embeddings (specs reg)"

definition registry_providers :: "ModelRegistry \<Rightarrow> LlmProvider set" where
  "registry_providers reg = ms_provider ` set (specs reg)"

definition unpriced :: "ModelRegistry \<Rightarrow> ModelSpec list" where
  "unpriced reg = filter (\<lambda>spec. \<not> is_priced spec) (specs reg)"

text \<open>\<open>load_registry\<close> on the parsed entries: \<open>None\<close> is its \<open>ValueError\<close> for a duplicate key.\<close>

fun load_specs :: "ModelRegistry \<Rightarrow> ModelSpec list \<Rightarrow> ModelRegistry option" where
  "load_specs reg [] = Some reg"
| "load_specs reg (spec # rest) =
     (if map_of reg (ms_key spec) \<noteq> None then None
      else load_specs (reg @ [(ms_key spec, spec)]) rest)"

definition load_registry :: "ModelSpec list \<Rightarrow> ModelRegistry option" where
  "load_registry entries = load_specs [] entries"

section \<open>A loaded registry\<close>

definition registry_ok :: "ModelRegistry \<Rightarrow> bool" where
  "registry_ok reg \<longleftrightarrow> distinct (map fst reg) \<and> list_all (\<lambda>(k, spec). ms_key spec = k) reg"

lemma load_specs_ok:
  "load_specs reg entries = Some reg' \<Longrightarrow> registry_ok reg \<Longrightarrow>
     registry_ok reg' \<and> specs reg' = specs reg @ entries"
proof (induction reg entries rule: load_specs.induct)
  case (2 reg spec rest)
  then have new: "map_of reg (ms_key spec) = None" by (auto split: if_splits)
  then have "ms_key spec \<notin> fst ` set reg" by (simp add: map_of_eq_None_iff)
  with 2(3) have "registry_ok (reg @ [(ms_key spec, spec)])" by (auto simp: registry_ok_def)
  with 2 new show ?case by (simp add: specs_def)
qed simp

lemma load_registry_ok: "load_registry entries = Some reg \<Longrightarrow> registry_ok reg \<and> specs reg = entries"
  using load_specs_ok[of "[]" entries reg] by (simp add: load_registry_def registry_ok_def specs_def)

lemma specs_keys: "registry_ok reg \<Longrightarrow> map ms_key (specs reg) = map fst reg"
  by (induction reg) (auto simp: registry_ok_def specs_def)

lemma specs_keys_distinct: "registry_ok reg \<Longrightarrow> distinct (map ms_key (specs reg))"
  by (simp add: specs_keys) (simp add: registry_ok_def)

lemma registry_get_spec:
  assumes "registry_ok reg" "spec \<in> set (specs reg)"
  shows "registry_get reg (ms_key spec) = Some spec"
proof -
  from assms(2) obtain k where k: "(k, spec) \<in> set reg" by (auto simp: specs_def)
  then have "ms_key spec = k" using assms(1) by (auto simp: registry_ok_def list_all_iff)
  with k assms(1) show ?thesis by (simp add: registry_get_def registry_ok_def)
qed

lemma cost_usd_None: "cost_usd spec u = None \<longleftrightarrow> \<not> is_priced spec"
  by (simp add: cost_usd_def is_priced_def split: option.splits)

lemma by_tier_set:
  "spec \<in> set (by_tier reg t None True) \<longleftrightarrow>
     spec \<in> set (specs reg) \<and> ms_tier spec = t \<and> ms_supports_chat spec"
  by (auto simp: by_tier_def)

section \<open>Pricing a finished call\<close>

lemma first_max_None: "first_max f xs = None \<longleftrightarrow> xs = []"
  by (cases xs) (simp_all split: option.split)

lemma first_max_Some: "first_max f xs = Some x \<Longrightarrow> x \<in> set xs \<and> (\<forall>y \<in> set xs. f y \<le> f x)"
  by (induction xs arbitrary: x) (fastforce simp: first_max_None split: option.splits if_splits)+

lemma starts_with_iff: "starts_with p s \<longleftrightarrow> (\<exists>r. s = p @ r)"
  by (auto simp: starts_with_def) (metis append_take_drop_id)

lemma registry_find_cases:
  assumes "registry_find reg p m = Some spec"
  shows "spec \<in> set (specs reg) \<and> ms_provider spec = p
    \<and> (ms_model_id spec = m
       \<or> (\<exists>d. m = ms_model_id spec @ d \<and> snapshot_suffix d)
          \<and> (\<forall>other \<in> set (specs reg). ms_provider other = p \<longrightarrow> ms_model_id other \<noteq> m)
          \<and> (\<forall>other \<in> set (specs reg). \<forall>d. ms_provider other = p \<longrightarrow> m = ms_model_id other @ d \<longrightarrow>
               snapshot_suffix d \<longrightarrow> length (ms_model_id other) \<le> length (ms_model_id spec)))"
proof (cases "find (\<lambda>spec. ms_provider spec = p \<and> ms_model_id spec = m) (specs reg)")
  case (Some e)
  with assms show ?thesis by (auto simp: registry_find_def find_Some_iff)
next
  case None
  with assms have max: "first_max (length \<circ> ms_model_id) (snapshots_of reg p m) = Some spec"
    by (simp add: registry_find_def)
  have "spec \<in> set (snapshots_of reg p m)"
    "\<forall>y \<in> set (snapshots_of reg p m). length (ms_model_id y) \<le> length (ms_model_id spec)"
    using first_max_Some[OF max] by simp_all
  with None show ?thesis
    by (auto simp: snapshots_of_def starts_with_iff find_None_iff)
qed

end
