(* ===== verification/ModelRouting.thy ===== *)
theory ModelRouting
  imports ModelRegistry
begin

text \<open>
  \<open>app/models/routing.py\<close>: role and mode to a tier, a tier to a chain of models, and the one
  embedding model.  \<open>None\<close> (or \<open>Inl\<close>) is \<open>ModelNotConfigured\<close>.
\<close>

fun DEFAULT_ROLE_TIERS :: "AgentName \<Rightarrow> ModelTier option" where
  "DEFAULT_ROLE_TIERS AgentName.PLANNER = Some ModelTier.SMALL"
| "DEFAULT_ROLE_TIERS AgentName.CLAIM_NORMALIZER = Some ModelTier.SMALL"
| "DEFAULT_ROLE_TIERS AgentName.RESEARCHER = Some ModelTier.MEDIUM"
| "DEFAULT_ROLE_TIERS AgentName.EVIDENCE_EXTRACTOR = Some ModelTier.MEDIUM"
| "DEFAULT_ROLE_TIERS AgentName.CITATION_VALIDATOR = Some ModelTier.MEDIUM"
| "DEFAULT_ROLE_TIERS AgentName.VERIFIER = Some ModelTier.STRONG"
| "DEFAULT_ROLE_TIERS AgentName.CRITIC = Some ModelTier.STRONG"
| "DEFAULT_ROLE_TIERS AgentName.ANSWERER = Some ModelTier.STRONG"
| "DEFAULT_ROLE_TIERS AgentName.SYNTHESIZER = Some ModelTier.STRONGEST"

fun MODE_TIER_SHIFT :: "ResearchMode \<Rightarrow> int option" where
  "MODE_TIER_SHIFT ResearchMode.DEEP = Some 0"
| "MODE_TIER_SHIFT ResearchMode.QUICK = Some (-1)"
| "MODE_TIER_SHIFT ResearchMode.CONVERSATIONAL = Some (-1)"

fun ROLE_TIER_FLOORS :: "AgentName \<Rightarrow> ModelTier option" where
  "ROLE_TIER_FLOORS AgentName.SYNTHESIZER = Some ModelTier.STRONG"
| "ROLE_TIER_FLOORS role = None"

definition MAX_FALLBACKS :: nat where "MAX_FALLBACKS = 3"

record RoutingDecision =
  rt_role :: AgentName
  rt_mode :: ResearchMode
  rt_tier :: ModelTier
  rt_primary :: ModelSpec
  rt_fallbacks :: "ModelSpec list"

definition chain_of :: "RoutingDecision \<Rightarrow> ModelSpec list" where
  "chain_of d = rt_primary d # rt_fallbacks d"

record ModelRouter =
  mr_registry :: ModelRegistry
  mr_role_tiers :: "AgentName \<Rightarrow> ModelTier option"
  mr_mode_shift :: "ResearchMode \<Rightarrow> int option"
  mr_max_fallbacks :: nat
  mr_embedding_model_key :: "string option"

definition default_router :: "ModelRegistry \<Rightarrow> string option \<Rightarrow> ModelRouter" where
  "default_router reg key =
     \<lparr>mr_registry = reg, mr_role_tiers = DEFAULT_ROLE_TIERS, mr_mode_shift = MODE_TIER_SHIFT,
      mr_max_fallbacks = MAX_FALLBACKS, mr_embedding_model_key = key\<rparr>"

definition tier_for :: "ModelRouter \<Rightarrow> AgentName \<Rightarrow> ResearchMode \<Rightarrow> ModelTier" where
  "tier_for r role mode =
     (let base = (case mr_role_tiers r role of None \<Rightarrow> ModelTier.MEDIUM | Some t \<Rightarrow> t);
          shift = (case mr_mode_shift r mode of None \<Rightarrow> 0 | Some k \<Rightarrow> k);
          tier = (step_down ^^ nat \<bar>shift\<bar>) base
      in case ROLE_TIER_FLOORS role of
           Some lowest \<Rightarrow> if tier_rank tier < tier_rank lowest then lowest else tier
         | None \<Rightarrow> tier)"

definition chat_tier :: "ModelRouter \<Rightarrow> ModelTier \<Rightarrow> ModelSpec list" where
  "chat_tier r t = by_tier (mr_registry r) t None True"

text \<open>Sorted by rank, highest first; the name is the code's, the search is downwards.\<close>

definition strongest_declared_at_or_above :: "ModelRouter \<Rightarrow> ModelTier \<Rightarrow> ModelTier option" where
  "strongest_declared_at_or_above r tier =
     find (\<lambda>c. tier_rank c \<le> tier_rank tier \<and> chat_tier r c \<noteq> []) (rev TIER_ORDER)"

definition append_unseen :: "ModelSpec list \<Rightarrow> ModelSpec list \<Rightarrow> ModelSpec list" where
  "append_unseen candidates found =
     foldl (\<lambda>cs spec. if ms_key spec \<in> ms_key ` set cs then cs else cs @ [spec]) candidates found"

function extend_down :: "ModelRouter \<Rightarrow> ModelTier \<Rightarrow> ModelSpec list \<Rightarrow> ModelSpec list" where
  "extend_down r current candidates =
     (if tier_rank current > 0 \<and> length candidates \<le> mr_max_fallbacks r
      then extend_down r (step_down current) (append_unseen candidates (chat_tier r (step_down current)))
      else candidates)"
  by auto
termination
  by (relation "measure (\<lambda>(r, current, cs). tier_rank current)") (auto intro: step_down_rank)

declare extend_down.simps [simp del]

definition candidates_for :: "ModelRouter \<Rightarrow> ModelTier \<Rightarrow> ModelSpec list" where
  "candidates_for r tier =
     (let exact = chat_tier r tier;
          exact' = (if exact = [] then
                      (case strongest_declared_at_or_above r tier of
                         Some upward \<Rightarrow> chat_tier r upward
                       | None \<Rightarrow> exact)
                    else exact);
          current = (case exact' of [] \<Rightarrow> tier | c # _ \<Rightarrow> ms_tier c)
      in extend_down r current exact')"

definition resolve :: "ModelRouter \<Rightarrow> AgentName \<Rightarrow> ResearchMode \<Rightarrow> RoutingDecision option" where
  "resolve r role mode =
     (let tier = tier_for r role mode
      in case candidates_for r tier of
           [] \<Rightarrow> None
         | primary # rest \<Rightarrow>
             Some \<lparr>rt_role = role, rt_mode = mode, rt_tier = tier, rt_primary = primary,
                   rt_fallbacks = take (mr_max_fallbacks r) rest\<rparr>)"

datatype embedding_error =
    NoEmbeddingModel
  | SeveralEmbeddingModels
  | NotAnEmbeddingModel
  | EmbeddingModelNotDeclared

definition embedding_model :: "ModelRouter \<Rightarrow> embedding_error + ModelSpec" where
  "embedding_model r =
     (let models = embedding_models (mr_registry r)
      in if models = [] then Inl NoEmbeddingModel
         else case mr_embedding_model_key r of
           None \<Rightarrow> if length models > 1 then Inl SeveralEmbeddingModels else Inr (models ! 0)
         | Some key \<Rightarrow>
             (case find (\<lambda>spec. ms_key spec = key) models of
                Some spec \<Rightarrow> Inr spec
              | None \<Rightarrow> if map_of (mr_registry r) key \<noteq> None then Inl NotAnEmbeddingModel
                        else Inl EmbeddingModelNotDeclared))"

section \<open>The chain\<close>

text \<open>A chain under construction: distinct chat models, tiers never rising, all above what is left.\<close>

definition chain_inv :: "ModelRouter \<Rightarrow> ModelTier \<Rightarrow> ModelSpec list \<Rightarrow> bool" where
  "chain_inv r current cs \<longleftrightarrow>
     distinct (map ms_key cs) \<and> sorted_wrt (\<lambda>a b. ms_tier b \<le> ms_tier a) cs
     \<and> (\<forall>c \<in> set cs. c \<in> set (specs (mr_registry r)) \<and> ms_supports_chat c \<and> current \<le> ms_tier c)"

lemma chat_tier_set:
  "c \<in> set (chat_tier r t) \<longleftrightarrow> c \<in> set (specs (mr_registry r)) \<and> ms_tier c = t \<and> ms_supports_chat c"
  by (simp add: chat_tier_def by_tier_set)

lemma chat_tier_distinct:
  "registry_ok (mr_registry r) \<Longrightarrow> distinct (map ms_key (chat_tier r t))"
  unfolding chat_tier_def by_tier_def using specs_keys_distinct by (simp add: distinct_map_filter)

lemma append_unseen_prefix: "\<exists>zs. append_unseen cs found = cs @ zs"
  unfolding append_unseen_def
proof (induction found arbitrary: cs)
  case (Cons x found)
  obtain zs where "foldl (\<lambda>cs spec. if ms_key spec \<in> ms_key ` set cs then cs else cs @ [spec])
      (if ms_key x \<in> ms_key ` set cs then cs else cs @ [x]) found
      = (if ms_key x \<in> ms_key ` set cs then cs else cs @ [x]) @ zs"
    using Cons by blast
  then show ?case by (cases "ms_key x \<in> ms_key ` set cs") simp_all
qed simp

lemma chain_inv_snoc:
  "chain_inv r u cs \<Longrightarrow> c \<in> set (specs (mr_registry r)) \<Longrightarrow> ms_supports_chat c \<Longrightarrow> ms_tier c = u \<Longrightarrow>
     ms_key c \<notin> ms_key ` set cs \<Longrightarrow> chain_inv r u (cs @ [c])"
  by (simp add: chain_inv_def sorted_wrt_append)

lemma append_unseen_inv:
  assumes "chain_inv r t cs" "u < t"
    and "\<forall>c \<in> set found. c \<in> set (specs (mr_registry r)) \<and> ms_supports_chat c \<and> ms_tier c = u"
  shows "chain_inv r u (append_unseen cs found)"
proof -
  have "u \<le> t" using assms(2) by simp
  then have "chain_inv r u cs" using assms(1) order_trans unfolding chain_inv_def by blast
  then show ?thesis using assms(3) unfolding append_unseen_def
  proof (induction found arbitrary: cs)
    case (Cons x found)
    then have "chain_inv r u (if ms_key x \<in> ms_key ` set cs then cs else cs @ [x])"
      using chain_inv_snoc[of r u cs x] by simp
    with Cons show ?case by simp
  qed simp
qed

lemma extend_down_inv:
  "chain_inv r t cs \<Longrightarrow> \<exists>u zs. chain_inv r u (extend_down r t cs) \<and> extend_down r t cs = cs @ zs"
proof (induction r t cs rule: extend_down.induct)
  case (1 r t cs)
  show ?case
  proof (cases "tier_rank t > 0 \<and> length cs \<le> mr_max_fallbacks r")
    case True
    let ?cs = "append_unseen cs (chat_tier r (step_down t))"
    have eq: "extend_down r t cs = extend_down r (step_down t) ?cs"
      using True extend_down.simps[of r t cs] by simp
    have "step_down t < t" using True by (simp add: less_ModelTier_def step_down_rank)
    then have "chain_inv r (step_down t) ?cs"
      using append_unseen_inv[OF "1.prems"] by (simp add: chat_tier_set)
    from "1.IH"[OF True this] obtain u zs where u: "chain_inv r u (extend_down r t cs)"
      "extend_down r t cs = ?cs @ zs" unfolding eq by blast
    obtain ys where "?cs = cs @ ys" using append_unseen_prefix by blast
    with u show ?thesis by auto
  next
    case False
    then have "extend_down r t cs = cs" using extend_down.simps[of r t cs] by auto
    with "1.prems" show ?thesis by (intro exI[of _ t] exI[of _ "[]"]) simp
  qed
qed

lemma strongest_declared:
  "strongest_declared_at_or_above r tier = Some t \<Longrightarrow>
     t \<le> tier \<and> chat_tier r t \<noteq> [] \<and> (\<forall>u. u \<le> tier \<longrightarrow> chat_tier r u \<noteq> [] \<longrightarrow> u \<le> t)"
proof -
  assume *: "strongest_declared_at_or_above r tier = Some t"
  have **: "find P (rev TIER_ORDER) = Some t \<Longrightarrow> P t \<and> (\<forall>u. P u \<longrightarrow> u \<le> t)" for P
  proof -
    assume a: "find P (rev TIER_ORDER) = Some t"
    have "P u \<Longrightarrow> u \<le> t" for u
      using a by (cases u) (auto simp: TIER_ORDER_def less_eq_ModelTier_def split: if_splits)
    with a show ?thesis by (auto simp: find_Some_iff)
  qed
  from **[OF *[unfolded strongest_declared_at_or_above_def]] show ?thesis
    by (auto simp: less_eq_ModelTier_def)
qed

lemma strongest_declared_None:
  "strongest_declared_at_or_above r tier = None \<longleftrightarrow> (\<forall>u \<le> tier. chat_tier r u = [])"
proof -
  have "u \<in> set (rev TIER_ORDER)" for u by (cases u) (simp_all add: TIER_ORDER_def)
  then show ?thesis
    unfolding strongest_declared_at_or_above_def find_None_iff by (auto simp: less_eq_ModelTier_def)
qed

lemma extend_down_Nil:
  "\<forall>u \<le> t. chat_tier r u = [] \<Longrightarrow> extend_down r t [] = []"
proof (induction r t "[] :: ModelSpec list" rule: extend_down.induct)
  case (1 r t)
  have "chat_tier r (step_down t) = []" "\<forall>u \<le> step_down t. chat_tier r u = []"
    using "1.prems" step_down_le order_trans by blast+
  with 1 show ?case by (subst extend_down.simps) (simp add: append_unseen_def)
qed

lemma candidates_for_spec:
  assumes ok: "registry_ok (mr_registry r)"
  shows "if \<forall>u \<le> tier. chat_tier r u = [] then candidates_for r tier = []
    else \<exists>t u rest. candidates_for r tier \<noteq> [] \<and> candidates_for r tier = chat_tier r t @ rest
       \<and> t \<le> tier \<and> chat_tier r t \<noteq> [] \<and> (\<forall>v \<le> tier. chat_tier r v \<noteq> [] \<longrightarrow> v \<le> t)
       \<and> chain_inv r u (candidates_for r tier)"
proof (cases "\<forall>u \<le> tier. chat_tier r u = []")
  case True
  then have "chat_tier r tier = []" by simp
  with True show ?thesis
    by (simp add: candidates_for_def Let_def extend_down_Nil iffD2[OF strongest_declared_None])
next
  case False
  then obtain t where t: "strongest_declared_at_or_above r tier = Some t"
    using strongest_declared_None by blast
  note st = strongest_declared[OF t]
  have "t = tier" if "chat_tier r tier \<noteq> []" using st that by (intro antisym) auto
  then have exact: "(if chat_tier r tier = [] then
      (case strongest_declared_at_or_above r tier of Some upward \<Rightarrow> chat_tier r upward | None \<Rightarrow> chat_tier r tier)
      else chat_tier r tier) = chat_tier r t"
    using t by auto
  obtain c cs where c: "chat_tier r t = c # cs" using st by (cases "chat_tier r t") auto
  then have "ms_tier c = t" using chat_tier_set[of c r t] by simp
  then have eq: "candidates_for r tier = extend_down r t (chat_tier r t)"
    unfolding candidates_for_def Let_def exact by (simp add: c)
  have "sorted_wrt (\<lambda>a b. ms_tier b \<le> ms_tier a) (chat_tier r t)"
    by (rule sorted_wrt_mono_rel[of _ "\<lambda>_ _. True"]) (auto simp: chat_tier_set)
  then have "chain_inv r t (chat_tier r t)"
    using chat_tier_distinct[OF ok] by (auto simp: chain_inv_def chat_tier_set)
  from extend_down_inv[OF this] obtain u zs where "chain_inv r u (candidates_for r tier)"
    "candidates_for r tier = chat_tier r t @ zs" by (auto simp: eq)
  with False st show ?thesis by auto
qed

section \<open>The chain, when the role's tier has a model\<close>

text \<open>The chat models of a tier, and all those of the tiers below it, strongest first.\<close>

definition models_at :: "ModelRouter \<Rightarrow> ModelTier \<Rightarrow> ModelSpec list" where
  "models_at r t = filter (\<lambda>c. ms_tier c = t \<and> ms_supports_chat c) (specs (mr_registry r))"

definition tiers_from :: "ModelTier \<Rightarrow> ModelTier list" where
  "tiers_from t = filter (\<lambda>u. u \<le> t) (rev TIER_ORDER)"

lemma chat_tier_models: "chat_tier r t = models_at r t"
  by (simp add: chat_tier_def by_tier_def models_at_def conj_ac)

lemma tiers_from_step: "tiers_from t = t # (if tier_rank t > 0 then tiers_from (step_down t) else [])"
  by (cases t) (simp_all add: tiers_from_def TIER_ORDER_def less_eq_ModelTier_def)

lemma append_unseen_fresh:
  assumes "distinct (map ms_key (cs @ found))"
  shows "append_unseen cs found = cs @ found"
  using assms unfolding append_unseen_def by (induction found arbitrary: cs) auto

lemma chain_then_tier_distinct:
  assumes ok: "registry_ok (mr_registry r)" and inv: "chain_inv r t cs" and "u < t"
  shows "distinct (map ms_key (cs @ chat_tier r u))"
proof -
  have "inj_on ms_key (set (specs (mr_registry r)))"
    using specs_keys_distinct[OF ok] by (simp add: distinct_map)
  moreover have "set cs \<inter> set (chat_tier r u) = {}" "set cs \<union> set (chat_tier r u) \<subseteq> set (specs (mr_registry r))"
    using inv assms(3) by (auto simp: chain_inv_def chat_tier_set)
  ultimately have "ms_key ` set cs \<inter> ms_key ` set (chat_tier r u) = {}"
    by (auto simp: inj_on_def) (metis disjoint_iff subsetD UnI1 UnI2)
  then show ?thesis using inv chat_tier_distinct[OF ok] by (auto simp: chain_inv_def)
qed

lemma extend_down_chain:
  assumes "registry_ok (mr_registry r)" "chain_inv r t cs"
  shows "take (Suc (mr_max_fallbacks r)) (extend_down r t cs)
    = take (Suc (mr_max_fallbacks r)) (cs @ concat (map (models_at r) (tl (tiers_from t))))"
  using assms
proof (induction r t cs rule: extend_down.induct)
  case (1 r t cs)
  let ?u = "step_down t"
  show ?case
  proof (cases "tier_rank t > 0 \<and> length cs \<le> mr_max_fallbacks r")
    case True
    then have lt: "?u < t" using step_down_rank by (simp add: less_ModelTier_def)
    have app: "append_unseen cs (chat_tier r ?u) = cs @ chat_tier r ?u"
      by (rule append_unseen_fresh[OF chain_then_tier_distinct[OF "1.prems" lt]])
    have "chain_inv r ?u (cs @ chat_tier r ?u)"
      using append_unseen_inv[OF "1.prems"(2) lt, of "chat_tier r ?u"] by (simp add: app chat_tier_set)
    from "1.IH"[OF True "1.prems"(1)] this app
    have "take (Suc (mr_max_fallbacks r)) (extend_down r ?u (cs @ chat_tier r ?u))
      = take (Suc (mr_max_fallbacks r)) (cs @ models_at r ?u @ concat (map (models_at r) (tl (tiers_from ?u))))"
      by (simp add: chat_tier_models)
    moreover have "tl (tiers_from t) = ?u # tl (tiers_from ?u)"
      using True tiers_from_step[of t] tiers_from_step[of ?u] by simp
    ultimately show ?thesis using True app by (subst extend_down.simps) simp
  next
    case False
    have "concat (map (models_at r) (tl (tiers_from t))) = [] \<or> Suc (mr_max_fallbacks r) \<le> length cs"
      using False tiers_from_step[of t] by auto
    then show ?thesis using False by (subst extend_down.simps) auto
  qed
qed

lemma resolved_chain:
  assumes ok: "registry_ok (mr_registry r)" and pop: "models_at r (tier_for r role mode) \<noteq> []"
  shows "map_option chain_of (resolve r role mode)
    = Some (take (Suc (mr_max_fallbacks r)) (concat (map (models_at r) (tiers_from (tier_for r role mode)))))"
proof -
  let ?t = "tier_for r role mode"
  obtain c cs where c: "chat_tier r ?t = c # cs" using pop by (cases "chat_tier r ?t") (auto simp: chat_tier_models)
  then have "ms_tier c = ?t" using chat_tier_set[of c r ?t] by simp
  then have eq: "candidates_for r ?t = extend_down r ?t (chat_tier r ?t)"
    by (simp add: candidates_for_def Let_def c)
  have "sorted_wrt (\<lambda>a b. ms_tier b \<le> ms_tier a) (chat_tier r ?t)"
    by (rule sorted_wrt_mono_rel[of _ "\<lambda>_ _. True"]) (auto simp: chat_tier_set)
  then have inv: "chain_inv r ?t (chat_tier r ?t)"
    using chat_tier_distinct[OF ok] by (auto simp: chain_inv_def chat_tier_set)
  have tk: "take (Suc (mr_max_fallbacks r)) (candidates_for r ?t)
    = take (Suc (mr_max_fallbacks r)) (concat (map (models_at r) (tiers_from ?t)))"
    using extend_down_chain[OF ok inv] tiers_from_step[of ?t] by (simp add: eq chat_tier_models)
  obtain zs where "candidates_for r ?t = chat_tier r ?t @ zs" using extend_down_inv[OF inv] eq by auto
  then have "candidates_for r ?t = c # cs @ zs" by (simp add: c)
  then show ?thesis using tk by (simp add: resolve_def Let_def chain_of_def)
qed

end
