(* ===== verification/ModelBudget.thy ===== *)
theory ModelBudget
  imports ModelRegistry
begin

text \<open>
  \<open>app/models/errors.py\<close> (what can go wrong in a call and what helps), \<open>app/models/recording.py\<close>
  (the record of one attempt) and \<open>app/models/budget.py\<close> (the guard that refuses a call before the
  money is spent).  The wrapped recorder is the ledger: the list of the records it received.

  The locale \<open>budget_guard\<close> is what the gateway relies on; it is interpreted on both guards.
\<close>

section \<open>Failures of a call\<close>

datatype ModelError =
    ProviderRateLimited "real option"
  | ProviderTimeout
  | ProviderUnavailable
  | ContextWindowExceeded
  | CapabilityNotSupported
  | ModelNotConfigured
  | ProviderRejectedRequest
  | ProviderRefused
  | StructuredOutputInvalid
  | BudgetExhausted
  | ModelNotPriced

fun retryable :: "ModelError \<Rightarrow> bool" where
  "retryable (ModelError.ProviderRateLimited w) = True"
| "retryable ModelError.ProviderTimeout = True"
| "retryable ModelError.ProviderUnavailable = True"
| "retryable ModelError.ContextWindowExceeded = False"
| "retryable ModelError.CapabilityNotSupported = False"
| "retryable ModelError.ModelNotConfigured = False"
| "retryable ModelError.ProviderRejectedRequest = False"
| "retryable ModelError.ProviderRefused = False"
| "retryable ModelError.StructuredOutputInvalid = True"
| "retryable ModelError.BudgetExhausted = False"
| "retryable ModelError.ModelNotPriced = False"

fun failover :: "ModelError \<Rightarrow> bool" where
  "failover (ModelError.ProviderRateLimited w) = True"
| "failover ModelError.ProviderTimeout = True"
| "failover ModelError.ProviderUnavailable = True"
| "failover ModelError.ContextWindowExceeded = True"
| "failover ModelError.CapabilityNotSupported = True"
| "failover ModelError.ModelNotConfigured = False"
| "failover ModelError.ProviderRejectedRequest = False"
| "failover ModelError.ProviderRefused = False"
| "failover ModelError.StructuredOutputInvalid = False"
| "failover ModelError.BudgetExhausted = False"
| "failover ModelError.ModelNotPriced = True"

fun error_code :: "ModelError \<Rightarrow> string" where
  "error_code (ModelError.ProviderRateLimited w) = ''provider_rate_limited''"
| "error_code ModelError.ProviderTimeout = ''provider_timeout''"
| "error_code ModelError.ProviderUnavailable = ''provider_unavailable''"
| "error_code ModelError.ContextWindowExceeded = ''context_window_exceeded''"
| "error_code ModelError.CapabilityNotSupported = ''capability_not_supported''"
| "error_code ModelError.ModelNotConfigured = ''model_not_configured''"
| "error_code ModelError.ProviderRejectedRequest = ''provider_rejected_request''"
| "error_code ModelError.ProviderRefused = ''provider_refused''"
| "error_code ModelError.StructuredOutputInvalid = ''structured_output_invalid''"
| "error_code ModelError.BudgetExhausted = ''budget_exhausted''"
| "error_code ModelError.ModelNotPriced = ''model_not_priced''"

fun status_code :: "ModelError \<Rightarrow> nat" where
  "status_code (ModelError.ProviderRateLimited w) = 429"
| "status_code ModelError.ProviderTimeout = 504"
| "status_code ModelError.ProviderUnavailable = 503"
| "status_code ModelError.ContextWindowExceeded = 413"
| "status_code ModelError.CapabilityNotSupported = 501"
| "status_code ModelError.ModelNotConfigured = 500"
| "status_code ModelError.ProviderRejectedRequest = 502"
| "status_code ModelError.ProviderRefused = 422"
| "status_code ModelError.StructuredOutputInvalid = 502"
| "status_code ModelError.BudgetExhausted = 402"
| "status_code ModelError.ModelNotPriced = 402"

definition retry_after_seconds :: "ModelError \<Rightarrow> real option" where
  "retry_after_seconds e = (case e of ModelError.ProviderRateLimited w \<Rightarrow> w | _ \<Rightarrow> None)"

text \<open>The code names the class: two errors with one code agree on what to do.\<close>

lemma error_code_class:
  "error_code a = error_code b \<Longrightarrow> retryable a = retryable b \<and> failover a = failover b"
  by (cases a; cases b) simp_all

section \<open>The record of an attempt\<close>

record LlmCallRecord =
  lc_role :: AgentName
  lc_mode :: ResearchMode
  lc_provider :: LlmProvider
  lc_model :: string
  lc_operation :: string
  lc_status :: LlmCallStatus
  lc_prompt_tokens :: nat
  lc_completion_tokens :: nat
  lc_cost_usd :: "real option"
  lc_latency_ms :: nat
  lc_prompt_version :: string
  lc_attempt :: nat
  lc_fell_back_from :: "string option"
  lc_cache_hit :: bool
  lc_error_code :: "string option"
  lc_run_id :: "uuid option"
  lc_request_id :: "string option"

definition record_total_tokens :: "LlmCallRecord \<Rightarrow> nat" where
  "record_total_tokens c = lc_prompt_tokens c + lc_completion_tokens c"

text \<open>\<open>CollectingCallRecorder\<close>: the calls, their tokens, and a total that is never partial.\<close>

definition collected_total_tokens :: "LlmCallRecord list \<Rightarrow> nat" where
  "collected_total_tokens calls = sum_list (map record_total_tokens calls)"

definition collected_total_cost_usd :: "LlmCallRecord list \<Rightarrow> real option" where
  "collected_total_cost_usd calls =
     (if \<exists>c \<in> set calls. lc_cost_usd c = None then None
      else Some (round_to 6 (sum_list (map (\<lambda>c. case lc_cost_usd c of None \<Rightarrow> 0 | Some v \<Rightarrow> v) calls))))"

section \<open>The guard\<close>

definition FINISHING_ROLES :: "AgentName set" where
  "FINISHING_ROLES = {AgentName.ANSWERER, AgentName.SYNTHESIZER}"

record RunSpend =
  sd_limit_usd :: real
  sd_spent_usd :: real
  sd_calls :: nat
  sd_uncosted_calls :: nat

definition exhausted :: "RunSpend \<Rightarrow> bool" where
  "exhausted s \<longleftrightarrow> sd_spent_usd s \<ge> sd_limit_usd s"

definition remaining_usd :: "RunSpend \<Rightarrow> real" where
  "remaining_usd s = max 0 (sd_limit_usd s - sd_spent_usd s)"

record RunBudgetGuard =
  bg_require_priced :: bool
  bg_runs :: "uuid \<rightharpoonup> RunSpend"
  bg_ledger :: "LlmCallRecord list"

definition enrol :: "RunBudgetGuard \<Rightarrow> uuid \<Rightarrow> real \<Rightarrow> real \<Rightarrow> RunBudgetGuard" where
  "enrol g run_id limit_usd spent_usd =
     g\<lparr>bg_runs := (bg_runs g)(run_id \<mapsto>
         \<lparr>sd_limit_usd = limit_usd, sd_spent_usd = spent_usd, sd_calls = 0, sd_uncosted_calls = 0\<rparr>)\<rparr>"

definition release_run :: "RunBudgetGuard \<Rightarrow> uuid \<Rightarrow> RunBudgetGuard" where
  "release_run g run_id = g\<lparr>bg_runs := (bg_runs g)(run_id := None)\<rparr>"

definition spend_of :: "RunBudgetGuard \<Rightarrow> uuid \<Rightarrow> RunSpend option" where
  "spend_of g run_id = bg_runs g run_id"

definition authorise ::
  "RunBudgetGuard \<Rightarrow> uuid option \<Rightarrow> ModelSpec \<Rightarrow> AgentName option \<Rightarrow> ModelError option" where
  "authorise g run_id spec role =
     (case run_id of
        None \<Rightarrow> None
      | Some run \<Rightarrow>
          if role \<in> Some ` FINISHING_ROLES then None
          else case bg_runs g run of
            None \<Rightarrow> None
          | Some spend \<Rightarrow>
              if exhausted spend then Some ModelError.BudgetExhausted
              else if bg_require_priced g \<and> \<not> is_priced spec then Some ModelError.ModelNotPriced
              else None)"

definition charge :: "LlmCallRecord \<Rightarrow> RunSpend \<Rightarrow> RunSpend" where
  "charge c spend =
     \<lparr>sd_limit_usd = sd_limit_usd spend,
      sd_spent_usd = sd_spent_usd spend + (case lc_cost_usd c of None \<Rightarrow> 0 | Some v \<Rightarrow> v),
      sd_calls = sd_calls spend + 1,
      sd_uncosted_calls = sd_uncosted_calls spend + (if lc_cost_usd c = None then 1 else 0)\<rparr>"

definition record_call :: "RunBudgetGuard \<Rightarrow> LlmCallRecord \<Rightarrow> RunBudgetGuard" where
  "record_call g c =
     (let counted = (case lc_run_id c of
             None \<Rightarrow> g
           | Some run \<Rightarrow>
               (case bg_runs g run of
                  None \<Rightarrow> g
                | Some spend \<Rightarrow> g\<lparr>bg_runs := (bg_runs g)(run \<mapsto> charge c spend)\<rparr>))
      in counted\<lparr>bg_ledger := bg_ledger counted @ [c]\<rparr>)"

text \<open>The guard of a process without budgets, over the same recorder.\<close>

definition null_authorise ::
  "RunBudgetGuard \<Rightarrow> uuid option \<Rightarrow> ModelSpec \<Rightarrow> AgentName option \<Rightarrow> ModelError option" where
  "null_authorise g run_id spec role = None"

section \<open>What the gateway relies on\<close>

definition billable :: "LlmCallRecord \<Rightarrow> bool" where
  "billable c \<longleftrightarrow> (\<forall>v. lc_cost_usd c = Some v \<longrightarrow> 0 \<le> v)"

locale budget_guard =
  fixes allow :: "RunBudgetGuard \<Rightarrow> uuid option \<Rightarrow> ModelSpec \<Rightarrow> AgentName option \<Rightarrow> ModelError option"
    and note_call :: "RunBudgetGuard \<Rightarrow> LlmCallRecord \<Rightarrow> RunBudgetGuard"
  assumes finishing: "who \<in> FINISHING_ROLES \<Longrightarrow> allow g run spec (Some who) = None"
    and outside_runs: "allow g None spec role = None"
    and refusals: "allow g run spec role = Some e \<Longrightarrow>
      e = ModelError.BudgetExhausted \<or> (e = ModelError.ModelNotPriced \<and> \<not> is_priced spec)"
    and stays_refused: "allow g run spec role = Some ModelError.BudgetExhausted \<Longrightarrow> billable c \<Longrightarrow>
      allow (note_call g c) run spec' role = Some ModelError.BudgetExhausted"
    and exhausted_any: "allow g run spec role = Some ModelError.BudgetExhausted \<Longrightarrow>
      allow g run spec' role = Some ModelError.BudgetExhausted"
    and ledger_note: "bg_ledger (note_call g c) = bg_ledger g @ [c]"
begin

lemma stays_refused_fold:
  "allow g run spec role = Some ModelError.BudgetExhausted \<Longrightarrow> list_all billable cs \<Longrightarrow>
     allow (foldl note_call g cs) run spec' role = Some ModelError.BudgetExhausted"
proof (induction cs arbitrary: g spec spec')
  case Nil
  then show ?case using exhausted_any by simp
next
  case (Cons c cs)
  then show ?case using stays_refused[of g run spec role c spec] by simp
qed

lemma ledger_fold: "bg_ledger (foldl note_call g cs) = bg_ledger g @ cs"
  by (induction cs arbitrary: g) (simp_all add: ledger_note)

lemma refused_role: "allow g run spec (Some who) = Some e \<Longrightarrow> who \<notin> FINISHING_ROLES"
  using finishing by fastforce

end

lemma record_call_ledger [simp]: "bg_ledger (record_call g c) = bg_ledger g @ [c]"
  by (simp add: record_call_def Let_def split: option.split)

lemma record_call_require [simp]: "bg_require_priced (record_call g c) = bg_require_priced g"
  by (simp add: record_call_def Let_def split: option.split)

lemma record_call_runs:
  "bg_runs (record_call g c) run =
     (if lc_run_id c = Some run then map_option (charge c) (bg_runs g run) else bg_runs g run)"
  by (auto simp: record_call_def Let_def split: option.split)

lemma authorise_exhausted:
  "authorise g (Some run) spec role = Some ModelError.BudgetExhausted \<longleftrightarrow>
     role \<notin> Some ` FINISHING_ROLES \<and> (\<exists>s. bg_runs g run = Some s \<and> exhausted s)"
  by (auto simp: authorise_def split: option.splits)

lemma charge_exhausted: "exhausted s \<Longrightarrow> billable c \<Longrightarrow> exhausted (charge c s)"
  by (auto simp: exhausted_def charge_def billable_def split: option.splits)

interpretation run_guard: budget_guard authorise record_call
proof
  show "authorise (record_call g c) run spec' role = Some ModelError.BudgetExhausted"
    if "authorise g run spec role = Some ModelError.BudgetExhausted" "billable c" for g run spec role c spec'
  proof (cases run)
    case None
    with that show ?thesis by (simp add: authorise_def)
  next
    case (Some r)
    with that(1) have "authorise g (Some r) spec role = Some ModelError.BudgetExhausted" by simp
    then obtain s where "role \<notin> Some ` FINISHING_ROLES" "bg_runs g r = Some s" "exhausted s"
      unfolding authorise_exhausted by blast
    with that(2) Some show ?thesis
      using charge_exhausted by (auto simp: authorise_exhausted record_call_runs)
  qed
qed (auto simp: authorise_def split: option.splits if_splits)

interpretation null_guard: budget_guard null_authorise record_call
  by unfold_locales (simp_all add: null_authorise_def)

section \<open>The total is the ledger's\<close>

definition cost_of_records :: "uuid \<Rightarrow> LlmCallRecord list \<Rightarrow> real" where
  "cost_of_records run cs =
     sum_list (map (\<lambda>c. case lc_cost_usd c of None \<Rightarrow> 0 | Some v \<Rightarrow> v) (filter (\<lambda>c. lc_run_id c = Some run) cs))"

lemma spend_of_records:
  assumes "bg_runs g run = Some s"
  shows "bg_runs (foldl record_call g cs) run =
    Some \<lparr>sd_limit_usd = sd_limit_usd s,
          sd_spent_usd = sd_spent_usd s + cost_of_records run cs,
          sd_calls = sd_calls s + length (filter (\<lambda>c. lc_run_id c = Some run) cs),
          sd_uncosted_calls = sd_uncosted_calls s
            + length (filter (\<lambda>c. lc_run_id c = Some run \<and> lc_cost_usd c = None) cs)\<rparr>"
  using assms
proof (induction cs arbitrary: g s)
  case (Cons c cs)
  let ?s = "if lc_run_id c = Some run then charge c s else s"
  have "bg_runs (record_call g c) run = Some ?s" using Cons.prems by (simp add: record_call_runs)
  from Cons.IH[OF this] show ?case by (simp add: charge_def cost_of_records_def)
qed (simp add: cost_of_records_def)

end
