(* ===== verification/ModelGateway.thy ===== *)
theory ModelGateway
  imports ModelRouting ModelBudget
begin

text \<open>
  \<open>app/models/gateway.py\<close>: the one door for model calls.  What a provider does with a call, the
  jitter of a pause and what other calls of the process record meanwhile are the \<open>gateway_world\<close>,
  indexed by how many provider calls this one operation has made.  The state is the guard with its
  ledger, the records this operation wrote, the provider calls it made and the pauses it took.
\<close>

section \<open>Requests and pauses\<close>

record Gateway =
  gw_router :: ModelRouter
  gw_providers :: "LlmProvider list"
  gw_max_attempts :: nat
  gw_request_timeout :: real
  gw_base_delay :: real
  gw_max_delay :: real

text \<open>\<open>max_output_tokens or ceiling\<close>: zero counts as unset.\<close>

definition build_request ::
  "Gateway \<Rightarrow> ModelSpec \<Rightarrow> int option \<Rightarrow> real option \<Rightarrow> string list \<Rightarrow> string option \<Rightarrow> CompletionRequest" where
  "build_request gw spec max_output_tokens temperature stop effort =
     (let ceiling = ms_max_output_tokens spec;
          asked = (case max_output_tokens of None \<Rightarrow> ceiling | Some n \<Rightarrow> if n = 0 then ceiling else n)
      in \<lparr>rq_model = ms_model_id spec,
          rq_max_output_tokens = min asked ceiling,
          rq_temperature =
            (if temperature \<noteq> None \<and> \<not> ms_supports_temperature spec then None else temperature),
          rq_stop = stop, rq_effort = effort, rq_timeout_seconds = Some (gw_request_timeout gw)\<rparr>)"

definition provider_configured :: "Gateway \<Rightarrow> ModelSpec \<Rightarrow> bool" where
  "provider_configured gw spec \<longleftrightarrow> ms_provider spec \<in> set (gw_providers gw)"

definition backoff :: "Gateway \<Rightarrow> nat \<Rightarrow> ModelError \<Rightarrow> real \<Rightarrow> real" where
  "backoff gw attempt err jitter =
     (case retry_after_seconds err of
        Some advised \<Rightarrow> min advised (gw_max_delay gw)
      | None \<Rightarrow> min (gw_base_delay gw * 2 ^ (attempt - 1) + jitter) (gw_max_delay gw))"

definition cost_of :: "ModelRegistry \<Rightarrow> Completion \<Rightarrow> real option" where
  "cost_of reg completion =
     (case registry_find reg (cp_provider completion) (cp_model completion) of
        None \<Rightarrow> None
      | Some spec \<Rightarrow> cost_usd spec (cp_usage completion))"

section \<open>One operation's surroundings\<close>

datatype invocation =
    Completed Completion nat "string option"
  | Errored ModelError
  | TimedOut

record gateway_world =
  wd_invoke :: "nat \<Rightarrow> ModelSpec \<Rightarrow> CompletionRequest \<Rightarrow> invocation"
  wd_elapsed_ms :: "nat \<Rightarrow> nat"
  wd_jitter :: "nat \<Rightarrow> real"
  wd_others :: "nat \<Rightarrow> LlmCallRecord list"

record gateway_call =
  gc_role :: AgentName
  gc_mode :: ResearchMode
  gc_operation :: string
  gc_prompt_version :: string
  gc_run_id :: "uuid option"
  gc_max_output_tokens :: "int option"
  gc_temperature :: "real option"
  gc_stop :: "string list"
  gc_effort :: "string option"
  gc_require_structured :: bool

record gateway_state =
  gs_guard :: RunBudgetGuard
  gs_records :: "LlmCallRecord list"
  gs_calls :: "ModelSpec list"
  gs_pauses :: "real list"

section \<open>The ledger\<close>

definition attempt_record ::
  "gateway_call \<Rightarrow> ModelSpec \<Rightarrow> LlmCallStatus \<Rightarrow> TokenUsage \<Rightarrow> nat \<Rightarrow> nat \<Rightarrow> string option \<Rightarrow> string option
     \<Rightarrow> string option \<Rightarrow> LlmCallRecord" where
  "attempt_record q spec status usage latency_ms attempt err fell_back_from request_id =
     \<lparr>lc_role = gc_role q, lc_mode = gc_mode q, lc_provider = ms_provider spec,
      lc_model = ms_model_id spec, lc_operation = gc_operation q, lc_status = status,
      lc_prompt_tokens = tu_prompt_tokens usage, lc_completion_tokens = tu_completion_tokens usage,
      lc_cost_usd = cost_usd spec usage, lc_latency_ms = latency_ms,
      lc_prompt_version = gc_prompt_version q, lc_attempt = attempt,
      lc_fell_back_from = fell_back_from, lc_cache_hit = False, lc_error_code = err,
      lc_run_id = gc_run_id q, lc_request_id = request_id\<rparr>"

definition no_usage :: TokenUsage where
  "no_usage = \<lparr>tu_prompt_tokens = 0, tu_completion_tokens = 0\<rparr>"

definition add_record :: "LlmCallRecord \<Rightarrow> gateway_state \<Rightarrow> gateway_state" where
  "add_record c st = st\<lparr>gs_guard := record_call (gs_guard st) c, gs_records := gs_records st @ [c]\<rparr>"

section \<open>Trying one model\<close>

datatype try_result =
    Answered Completion
  | Failover ModelError
  | Raise ModelError
  | Unattempted

text \<open>
  One pass of the inner loop's body up to the end of the \<open>try\<close>: the guard, then the provider with
  its slot and its timeout.  While the provider works, other calls of the process are recorded.
\<close>

definition perform ::
  "Gateway \<Rightarrow> gateway_world \<Rightarrow> gateway_call \<Rightarrow> ModelSpec \<Rightarrow> gateway_state
     \<Rightarrow> (ModelError + Completion \<times> nat \<times> string option) \<times> gateway_state" where
  "perform gw w q spec st =
     (case authorise (gs_guard st) (gc_run_id q) spec (Some (gc_role q)) of
        Some err \<Rightarrow> (Inl err, st)
      | None \<Rightarrow>
          (let k = length (gs_calls st);
               request = build_request gw spec (gc_max_output_tokens q) (gc_temperature q) (gc_stop q)
                           (gc_effort q);
               st' = st\<lparr>gs_calls := gs_calls st @ [spec],
                        gs_guard := foldl record_call (gs_guard st) (wd_others w k)\<rparr>
           in case wd_invoke w k spec request of
                Completed c latency request_id \<Rightarrow> (Inr (c, latency, request_id), st')
              | Errored err \<Rightarrow> (Inl err, st')
              | TimedOut \<Rightarrow> (Inl ModelError.ProviderTimeout, st')))"

fun try_model ::
  "Gateway \<Rightarrow> gateway_world \<Rightarrow> gateway_call \<Rightarrow> ModelSpec \<Rightarrow> string option \<Rightarrow> nat \<Rightarrow> gateway_state
     \<Rightarrow> try_result \<times> gateway_state" where
  "try_model gw w q spec previous 0 st = (Unattempted, st)"
| "try_model gw w q spec previous (Suc left) st =
     (let attempt = gw_max_attempts gw - left
      in case perform gw w q spec st of
           (Inl err, st') \<Rightarrow>
             (let st'' = add_record (attempt_record q spec LlmCallStatus.ERROR no_usage
                           (wd_elapsed_ms w (length (gs_records st))) attempt (Some (error_code err))
                           previous None) st'
              in if retryable err \<and> attempt < gw_max_attempts gw
                 then try_model gw w q spec previous left
                        (st''\<lparr>gs_pauses := gs_pauses st'' @
                                [backoff gw attempt err (wd_jitter w (length (gs_pauses st'')))]\<rparr>)
                 else if failover err then (Failover err, st'')
                 else (Raise err, st''))
         | (Inr (c, latency, request_id), st') \<Rightarrow>
             (Answered c,
              add_record (attempt_record q spec
                      (if previous \<noteq> None then LlmCallStatus.FALLBACK else LlmCallStatus.OK)
                      (cp_usage c) latency attempt None previous request_id) st'))"

section \<open>Walking the chain\<close>

fun walk_chain ::
  "Gateway \<Rightarrow> gateway_world \<Rightarrow> gateway_call \<Rightarrow> ModelSpec list \<Rightarrow> string option \<Rightarrow> ModelError option
     \<Rightarrow> gateway_state \<Rightarrow> (ModelError + Completion) \<times> gateway_state" where
  "walk_chain gw w q [] previous last_error st =
     (Inl (case last_error of None \<Rightarrow> ModelError.ModelNotConfigured | Some err \<Rightarrow> err), st)"
| "walk_chain gw w q (spec # rest) previous last_error st =
     (if \<not> provider_configured gw spec then (Inl ModelError.ModelNotConfigured, st)
      else case try_model gw w q spec previous (gw_max_attempts gw) st of
        (Answered c, st') \<Rightarrow> (Inr c, st')
      | (Raise err, st') \<Rightarrow> (Inl err, st')
      | (Failover err, st') \<Rightarrow> walk_chain gw w q rest (Some (ms_key spec)) (Some err) st'
      | (Unattempted, st') \<Rightarrow> walk_chain gw w q rest (Some (ms_key spec)) last_error st')"

definition attempt_call ::
  "Gateway \<Rightarrow> gateway_world \<Rightarrow> gateway_call \<Rightarrow> RunBudgetGuard \<Rightarrow> (ModelError + Completion) \<times> gateway_state" where
  "attempt_call gw w q guard =
     (let st = \<lparr>gs_guard = guard, gs_records = [], gs_calls = [], gs_pauses = []\<rparr>
      in case resolve (gw_router gw) (gc_role q) (gc_mode q) of
           None \<Rightarrow> (Inl ModelError.ModelNotConfigured, st)
         | Some decision \<Rightarrow>
             (let chain = filter (\<lambda>spec. \<not> gc_require_structured q \<or> ms_supports_structured_output spec)
                            (chain_of decision)
              in if chain = [] then (Inl ModelError.ModelNotConfigured, st)
                 else walk_chain gw w q chain None None st))"

section \<open>What the records of an operation show\<close>

lemma add_record_fields [simp]:
  "gs_records (add_record c st) = gs_records st @ [c]" "gs_calls (add_record c st) = gs_calls st"
  "gs_pauses (add_record c st) = gs_pauses st" "gs_guard (add_record c st) = record_call (gs_guard st) c"
  by (simp_all add: add_record_def)

lemma attempt_record_fields [simp]:
  "lc_status (attempt_record q spec status u l a err prev rid) = status"
  "lc_model (attempt_record q spec status u l a err prev rid) = ms_model_id spec"
  "lc_attempt (attempt_record q spec status u l a err prev rid) = a"
  "lc_fell_back_from (attempt_record q spec status u l a err prev rid) = prev"
  "lc_error_code (attempt_record q spec status u l a err prev rid) = err"
  "lc_run_id (attempt_record q spec status u l a err prev rid) = gc_run_id q"
  "lc_cost_usd (attempt_record q spec status u l a err prev rid) = cost_usd spec u"
  by (simp_all add: attempt_record_def)

lemma perform_records [simp]:
  "gs_records (snd (perform gw w q spec st)) = gs_records st"
  "gs_pauses (snd (perform gw w q spec st)) = gs_pauses st"
  "length (gs_calls (snd (perform gw w q spec st))) \<le> Suc (length (gs_calls st))"
  by (auto simp: perform_def Let_def split: option.split invocation.split)

text \<open>Why a record is followed by another: a retry of the same model, or the next model.\<close>

definition justified :: "LlmCallRecord \<Rightarrow> LlmCallRecord \<Rightarrow> bool" where
  "justified a b \<longleftrightarrow> lc_status a = LlmCallStatus.ERROR \<and>
     (\<exists>err. lc_error_code a = Some (error_code err) \<and>
        (if lc_fell_back_from b = lc_fell_back_from a
         then retryable err \<and> lc_attempt b = Suc (lc_attempt a)
         else failover err \<and> lc_attempt b = 1))"

text \<open>The records of one model's attempts, and what the last one says about the result.\<close>

definition tries_of :: "Gateway \<Rightarrow> string option \<Rightarrow> nat \<Rightarrow> LlmCallRecord list \<Rightarrow> try_result \<Rightarrow> bool" where
  "tries_of gw previous left rs r \<longleftrightarrow>
     length rs \<le> left \<and> successively justified rs
     \<and> list_all (\<lambda>c. lc_fell_back_from c = previous) rs
     \<and> (rs \<noteq> [] \<longrightarrow> lc_attempt (hd rs) = Suc (gw_max_attempts gw - left))
     \<and> (case r of
          Answered c \<Rightarrow> rs \<noteq> [] \<and> lc_error_code (last rs) = None
             \<and> lc_status (last rs) = (if previous \<noteq> None then LlmCallStatus.FALLBACK else LlmCallStatus.OK)
        | Failover err \<Rightarrow> rs \<noteq> [] \<and> lc_status (last rs) = LlmCallStatus.ERROR
             \<and> lc_error_code (last rs) = Some (error_code err) \<and> failover err
        | Raise err \<Rightarrow> rs \<noteq> [] \<and> lc_status (last rs) = LlmCallStatus.ERROR
             \<and> lc_error_code (last rs) = Some (error_code err) \<and> \<not> failover err
        | Unattempted \<Rightarrow> rs = [] \<and> left = 0)"

lemma successively_Cons_hd:
  "successively P rs \<Longrightarrow> (rs \<noteq> [] \<Longrightarrow> P x (hd rs)) \<Longrightarrow> successively P (x # rs)"
  by (cases rs) auto

lemma try_model_records:
  assumes "try_model gw w q spec previous left st = (r, st')" "left \<le> gw_max_attempts gw"
  shows "\<exists>rs. gs_records st' = gs_records st @ rs \<and> tries_of gw previous left rs r
    \<and> length (gs_calls st') \<le> length (gs_calls st) + length rs"
  using assms
proof (induction left arbitrary: st)
  case 0
  then show ?case by (auto simp: tries_of_def)
next
  case (Suc left)
  let ?a = "gw_max_attempts gw - left"
  have a: "?a = Suc (gw_max_attempts gw - Suc left)" using Suc.prems(2) by simp
  obtain o1 st1 where p: "perform gw w q spec st = (o1, st1)" by fastforce
  have st1: "gs_records st1 = gs_records st" "length (gs_calls st1) \<le> Suc (length (gs_calls st))"
    using perform_records[of gw w q spec st] by (simp_all add: p)
  show ?case
  proof (cases o1)
    case (Inr x)
    obtain c l i where x: "x = (c, l, i)" by (cases x) auto
    from Suc.prems(1) Inr x have "r = Answered c" and
      "\<exists>k. st' = add_record k st1 \<and> lc_error_code k = None \<and> lc_fell_back_from k = previous
        \<and> lc_attempt k = ?a \<and> lc_status k = (if previous \<noteq> None then LlmCallStatus.FALLBACK else LlmCallStatus.OK)"
      by (auto simp: p Let_def)
    then obtain k where "st' = add_record k st1" and k: "lc_error_code k = None" "lc_fell_back_from k = previous"
        "lc_attempt k = ?a" "lc_status k = (if previous \<noteq> None then LlmCallStatus.FALLBACK else LlmCallStatus.OK)"
      by blast
    then show ?thesis using \<open>r = Answered c\<close> st1 a
      by (intro exI[of _ "[k]"]) (simp add: tries_of_def)
  next
    case (Inl err)
    obtain k where k: "k = attempt_record q spec LlmCallStatus.ERROR no_usage
        (wd_elapsed_ms w (length (gs_records st))) ?a (Some (error_code err)) previous None" by simp
    show ?thesis
    proof (cases "retryable err \<and> ?a < gw_max_attempts gw")
      case False
      then have "(r, st') = (if failover err then Failover err else Raise err, add_record k st1)"
        using Suc.prems(1) Inl by (auto simp: p Let_def k)
      then show ?thesis using st1 a
        by (intro exI[of _ "[k]"]) (auto simp: tries_of_def k)
    next
      case True
      define st2 where "st2 = (add_record k st1)\<lparr>gs_pauses := gs_pauses (add_record k st1) @
          [backoff gw ?a err (wd_jitter w (length (gs_pauses (add_record k st1))))]\<rparr>"
      have st2: "gs_records st2 = gs_records st @ [k]" "gs_calls st2 = gs_calls st1"
        by (simp_all add: st2_def st1)
      have "try_model gw w q spec previous left st2 = (r, st')"
        using Suc.prems(1) Inl True by (simp add: p Let_def k st2_def)
      from Suc.IH[OF this] Suc.prems(2) obtain rs where rs: "gs_records st' = gs_records st2 @ rs"
        "tries_of gw previous left rs r" "length (gs_calls st') \<le> length (gs_calls st2) + length rs" by auto
      have "justified k (hd rs)" if "rs \<noteq> []"
        using rs(2) that True a Suc.prems(2)
        by (cases rs) (auto simp: justified_def tries_of_def k)
      then have succ: "successively justified (k # rs)"
        using rs(2) by (intro successively_Cons_hd) (auto simp: tries_of_def)
      have "r \<noteq> Unattempted" using rs(2) True a Suc.prems(2) by (auto simp: tries_of_def)
      then have "rs \<noteq> []" using rs(2) by (cases r) (auto simp: tries_of_def)
      with rs(2) succ a have "tries_of gw previous (Suc left) (k # rs) r"
        by (auto simp: tries_of_def k split: try_result.splits)
      then show ?thesis using rs st1 st2 by (intro exI[of _ "k # rs"]) auto
    qed
  qed
qed

text \<open>The records of a whole operation.\<close>

definition operation_of :: "Gateway \<Rightarrow> ModelSpec list \<Rightarrow> LlmCallRecord list \<Rightarrow> ModelError + Completion \<Rightarrow> bool" where
  "operation_of gw chain rs r \<longleftrightarrow>
     length rs \<le> length chain * gw_max_attempts gw \<and> successively justified rs
     \<and> (case r of
          Inr c \<Rightarrow> rs \<noteq> [] \<and> lc_error_code (last rs) = None
            \<and> (lc_status (last rs) = LlmCallStatus.FALLBACK \<longleftrightarrow> lc_fell_back_from (last rs) \<noteq> None)
            \<and> lc_status (last rs) \<in> {LlmCallStatus.OK, LlmCallStatus.FALLBACK}
        | Inl err \<Rightarrow> True)"

lemma successively_append_hd_last:
  "successively P xs \<Longrightarrow> successively P ys \<Longrightarrow> (xs \<noteq> [] \<Longrightarrow> ys \<noteq> [] \<Longrightarrow> P (last xs) (hd ys)) \<Longrightarrow>
     successively P (xs @ ys)"
  by (auto simp: successively_append_iff)

lemma walk_chain_records:
  assumes "walk_chain gw w q chain previous last_error st = (r, st')"
    and "distinct (map ms_key chain)" "\<forall>k. previous = Some k \<longrightarrow> k \<notin> ms_key ` set chain"
    and "0 < gw_max_attempts gw"
  shows "\<exists>rs. gs_records st' = gs_records st @ rs \<and> operation_of gw chain rs r
    \<and> length (gs_calls st') \<le> length (gs_calls st) + length rs
    \<and> (rs \<noteq> [] \<longrightarrow> lc_fell_back_from (hd rs) = previous \<and> lc_attempt (hd rs) = 1)"
  using assms
proof (induction chain arbitrary: previous last_error st)
  case Nil
  then show ?case by (auto simp: operation_of_def)
next
  case (Cons spec rest)
  show ?case
  proof (cases "provider_configured gw spec")
    case False
    with Cons.prems(1) show ?thesis by (auto simp: operation_of_def)
  next
    case True
    obtain t st1 where t: "try_model gw w q spec previous (gw_max_attempts gw) st = (t, st1)" by fastforce
    from try_model_records[OF t] obtain rs where rs: "gs_records st1 = gs_records st @ rs"
      "tries_of gw previous (gw_max_attempts gw) rs t" "length (gs_calls st1) \<le> length (gs_calls st) + length rs"
      by auto
    have len: "length rs \<le> gw_max_attempts gw" "successively justified rs"
      "list_all (\<lambda>c. lc_fell_back_from c = previous) rs" "rs \<noteq> [] \<longrightarrow> lc_attempt (hd rs) = 1"
      using rs(2) by (auto simp: tries_of_def)
    have hd: "rs \<noteq> [] \<longrightarrow> lc_fell_back_from (hd rs) = previous" "rs \<noteq> [] \<longrightarrow> lc_fell_back_from (last rs) = previous"
      using len(3) by (auto simp: list_all_iff)
    show ?thesis
    proof (cases t)
      case (Answered c)
      with Cons.prems(1) True t have "r = Inr c" "st' = st1" by simp_all
      with rs len hd Answered show ?thesis
        by (intro exI[of _ rs]) (auto simp: operation_of_def tries_of_def)
    next
      case (Raise err)
      with Cons.prems(1) True t have "r = Inl err" "st' = st1" by simp_all
      with rs len hd show ?thesis by (intro exI[of _ rs]) (auto simp: operation_of_def)
    next
      case Unattempted
      with rs(2) Cons.prems(4) show ?thesis by (simp add: tries_of_def)
    next
      case (Failover err)
      with Cons.prems(1) True t have "walk_chain gw w q rest (Some (ms_key spec)) (Some err) st1 = (r, st')" by simp
      from Cons.IH[OF this] Cons.prems(2,4) obtain rs2 where rs2: "gs_records st' = gs_records st1 @ rs2"
        "operation_of gw rest rs2 r" "length (gs_calls st') \<le> length (gs_calls st1) + length rs2"
        "rs2 \<noteq> [] \<longrightarrow> lc_fell_back_from (hd rs2) = Some (ms_key spec) \<and> lc_attempt (hd rs2) = 1" by auto
      have last: "rs \<noteq> []" "lc_status (last rs) = LlmCallStatus.ERROR" "failover err"
          "lc_error_code (last rs) = Some (error_code err)"
        using rs(2) Failover by (simp_all add: tries_of_def)
      have "previous \<noteq> Some (ms_key spec)" using Cons.prems(3) by auto
      with last hd rs2(4) have "justified (last rs) (hd rs2)" if "rs2 \<noteq> []"
        using that by (auto simp: justified_def)
      then have "successively justified (rs @ rs2)"
        using len(2) rs2(2) by (intro successively_append_hd_last) (auto simp: operation_of_def)
      then have "operation_of gw (spec # rest) (rs @ rs2) r"
        using rs2(2) len(1) by (auto simp: operation_of_def split: sum.splits)
      then show ?thesis using rs rs2 len hd last(1) by (intro exI[of _ "rs @ rs2"]) auto
    qed
  qed
qed

end
