(* ===== verification/ModelStreams.thy ===== *)
theory ModelStreams
  imports ModelGateway
begin

text \<open>
  The rest of \<open>app/models/gateway.py\<close> (streamed answers, embeddings and their cache) and
  \<open>app/models/limiter.py\<close> (the observed semaphore every call passes).
\<close>

section \<open>Streaming\<close>

text \<open>
  What the reader of a stream has: the deltas delivered, their length, the usage and finish reason
  seen so far, and whether it stopped reading.
\<close>

record stream_state =
  sx_parts :: "string list"
  sx_length :: nat
  sx_usage :: TokenUsage
  sx_finish_reason :: string

text \<open>The state, and whether the loop broke.\<close>

definition read_chunk :: "nat option \<Rightarrow> CompletionChunk \<Rightarrow> stream_state \<Rightarrow> stream_state \<times> bool" where
  "read_chunk max_chars chunk st =
     (let st1 = st\<lparr>sx_usage := (case ch_usage chunk of Some u \<Rightarrow> u | None \<Rightarrow> sx_usage st),
                  sx_finish_reason := (case ch_finish_reason chunk of Some f \<Rightarrow> f | None \<Rightarrow> sx_finish_reason st)\<rparr>;
          delta = ch_delta chunk
      in if delta = [] then (st1, False)
         else case max_chars of
           Some m \<Rightarrow>
             if sx_length st1 + length delta \<ge> m then
               (let cut = take (m - sx_length st1) delta;
                    st2 = (if cut = [] then st1
                           else st1\<lparr>sx_parts := sx_parts st1 @ [cut], sx_length := sx_length st1 + length cut\<rparr>)
                in (st2\<lparr>sx_finish_reason := ''length''\<rparr>, True))
             else (st1\<lparr>sx_parts := sx_parts st1 @ [delta], sx_length := sx_length st1 + length delta\<rparr>, False)
         | None \<Rightarrow> (st1\<lparr>sx_parts := sx_parts st1 @ [delta], sx_length := sx_length st1 + length delta\<rparr>, False))"

fun read_stream :: "nat option \<Rightarrow> CompletionChunk list \<Rightarrow> stream_state \<Rightarrow> stream_state \<times> bool" where
  "read_stream max_chars [] st = (st, False)"
| "read_stream max_chars (c # cs) st =
     (case read_chunk max_chars c st of
        (st', True) \<Rightarrow> (st', True)
      | (st', False) \<Rightarrow> read_stream max_chars cs st')"

definition stream_start :: stream_state where
  "stream_start = \<lparr>sx_parts = [], sx_length = 0, sx_usage = no_usage, sx_finish_reason = ''stop''\<rparr>"

text \<open>
  \<open>stream_text\<close> over \<open>stream\<close>: the provider yields its chunks and then ends or fails.  The result
  is the completion or the error, the deltas handed to the caller, and the record written when the
  generator is closed.
\<close>

definition stream_text ::
  "Gateway \<Rightarrow> gateway_call \<Rightarrow> RunBudgetGuard \<Rightarrow> CompletionChunk list \<Rightarrow> ModelError option \<Rightarrow> nat \<Rightarrow> nat option
     \<Rightarrow> (ModelError + Completion) \<times> string list \<times> LlmCallRecord option" where
  "stream_text gw q guard chunks failure latency_ms max_chars =
     (case resolve (gw_router gw) (gc_role q) (gc_mode q) of
        None \<Rightarrow> (Inl ModelError.ModelNotConfigured, [], None)
      | Some decision \<Rightarrow>
          (let spec = rt_primary decision
           in if \<not> ms_supports_streaming spec then (Inl ModelError.CapabilityNotSupported, [], None)
              else if \<not> provider_configured gw spec then (Inl ModelError.ModelNotConfigured, [], None)
              else case authorise guard (gc_run_id q) spec (Some (gc_role q)) of
                Some err \<Rightarrow> (Inl err, [], None)
              | None \<Rightarrow>
                  (let (st, stopped) = read_stream max_chars chunks stream_start;
                       failed = (if stopped then None else failure);
                       written = attempt_record q spec
                         (if failed = None then LlmCallStatus.OK else LlmCallStatus.ERROR)
                         (sx_usage st) latency_ms 1 (map_option error_code failed) None None
                   in case failed of
                        Some err \<Rightarrow> (Inl err, sx_parts st, Some written)
                      | None \<Rightarrow>
                          (Inr \<lparr>cp_text = concat (sx_parts st), cp_provider = ms_provider spec,
                                cp_model = ms_model_id spec, cp_usage = sx_usage st,
                                cp_finish_reason = sx_finish_reason st\<rparr>,
                           sx_parts st, Some written))))"

definition stream_inv :: "nat option \<Rightarrow> stream_state \<Rightarrow> bool" where
  "stream_inv max_chars st \<longleftrightarrow>
     sx_length st = length (concat (sx_parts st)) \<and> [] \<notin> set (sx_parts st)
     \<and> (\<forall>m. max_chars = Some m \<longrightarrow> sx_length st \<le> m)"

lemma read_chunk_inv:
  assumes "stream_inv max_chars st" "read_chunk max_chars c st = (st', b)"
  shows "stream_inv max_chars st' \<and>
    concat (sx_parts st') = (if b then take (the max_chars) (concat (sx_parts st) @ ch_delta c)
                             else concat (sx_parts st) @ ch_delta c)
    \<and> (b \<longrightarrow> (\<exists>m. max_chars = Some m \<and> m \<le> length (concat (sx_parts st) @ ch_delta c)))"
  using assms
  by (cases max_chars)
    (auto simp: read_chunk_def stream_inv_def Let_def split: if_splits)

lemma read_stream_inv:
  assumes "stream_inv max_chars st" "read_stream max_chars cs st = (st', b)"
  shows "stream_inv max_chars st' \<and>
    concat (sx_parts st') = (case max_chars of
        None \<Rightarrow> concat (sx_parts st) @ concat (map ch_delta cs)
      | Some m \<Rightarrow> take m (concat (sx_parts st) @ concat (map ch_delta cs)))"
  using assms
proof (induction cs arbitrary: st)
  case Nil
  then show ?case by (auto simp: stream_inv_def split: option.splits)
next
  case (Cons c cs)
  obtain st1 b1 where c: "read_chunk max_chars c st = (st1, b1)" by fastforce
  note step = read_chunk_inv[OF Cons.prems(1) c]
  show ?case
  proof (cases b1)
    case True
    with Cons.prems(2) c have "st' = st1" by simp
    with step True show ?thesis by (auto split: option.splits)
  next
    case False
    with Cons.prems(2) c have "read_stream max_chars cs st1 = (st', b)" by simp
    from Cons.IH[OF _ this] step False show ?thesis by (auto split: option.splits)
  qed
qed

lemma stream_start_inv: "stream_inv max_chars stream_start"
  by (simp add: stream_inv_def stream_start_def)

section \<open>Embeddings\<close>

text \<open>The cache of one provider and model: prepared text to vector.\<close>

type_synonym vector_cache = "string \<rightharpoonup> real list"

definition prepare :: "ModelSpec \<Rightarrow> EmbeddingPurpose \<Rightarrow> string list \<Rightarrow> string list" where
  "prepare spec purpose texts =
     (let prefix = embedding_prefix spec purpose
      in if prefix \<noteq> [] then map (\<lambda>t. prefix @ t) texts else texts)"

definition missing_of :: "vector_cache \<Rightarrow> string list \<Rightarrow> nat list" where
  "missing_of cache prepared = filter (\<lambda>i. cache (prepared ! i) = None) [0..<length prepared]"

text \<open>\<open>_merge_vectors\<close>: \<open>None\<close> passes the result through untouched.\<close>

fun merge_into ::
  "string list \<Rightarrow> (nat \<times> real list) list \<Rightarrow> (nat \<rightharpoonup> real list) \<times> vector_cache \<Rightarrow> (nat \<rightharpoonup> real list) \<times> vector_cache" where
  "merge_into prepared [] acc = acc"
| "merge_into prepared ((i, v) # rest) (known, cache) =
     merge_into prepared rest (known(i \<mapsto> v), cache(prepared ! i \<mapsto> v))"

definition known_of :: "vector_cache \<Rightarrow> string list \<Rightarrow> nat \<rightharpoonup> real list" where
  "known_of cache prepared i = (if i < length prepared then cache (prepared ! i) else None)"

definition merge_vectors ::
  "vector_cache \<Rightarrow> string list \<Rightarrow> real list list \<Rightarrow> real list list \<times> vector_cache" where
  "merge_vectors cache prepared fresh =
     (let missing = missing_of cache prepared
      in if length fresh \<noteq> length missing then (fresh, cache)
         else
           (let (known, cache') = merge_into prepared (zip missing fresh) (known_of cache prepared, cache)
            in (map (the \<circ> known) [0..<length prepared], cache')))"

datatype embed_outcome = Vectors "real list list" nat nat | EmbedErrored ModelError | EmbedTimedOut

text \<open>What the ledger says of an embedding: no decision, so the code's stand-in role and mode.\<close>

definition embed_call :: "uuid option \<Rightarrow> gateway_call" where
  "embed_call run_id =
     \<lparr>gc_role = AgentName.RESEARCHER, gc_mode = ResearchMode.DEEP, gc_operation = ''embed'',
      gc_prompt_version = ''n/a'', gc_run_id = run_id, gc_max_output_tokens = None,
      gc_temperature = None, gc_stop = [], gc_effort = None, gc_require_structured = False\<rparr>"

definition perform_embed ::
  "gateway_world \<Rightarrow> (nat \<Rightarrow> string list \<Rightarrow> embed_outcome) \<Rightarrow> uuid option \<Rightarrow> ModelSpec \<Rightarrow> string list
     \<Rightarrow> gateway_state \<Rightarrow> (ModelError + real list list \<times> nat \<times> nat) \<times> gateway_state" where
  "perform_embed w invoke run_id spec outstanding st =
     (case authorise (gs_guard st) run_id spec None of
        Some err \<Rightarrow> (Inl err, st)
      | None \<Rightarrow>
          (let k = length (gs_calls st);
               st' = st\<lparr>gs_calls := gs_calls st @ [spec],
                        gs_guard := foldl record_call (gs_guard st) (wd_others w k)\<rparr>
           in case invoke k outstanding of
                Vectors vs tokens latency \<Rightarrow> (Inr (vs, tokens, latency), st')
              | EmbedErrored err \<Rightarrow> (Inl err, st')
              | EmbedTimedOut \<Rightarrow> (Inl ModelError.ProviderTimeout, st')))"

fun embed_attempts ::
  "Gateway \<Rightarrow> gateway_world \<Rightarrow> (nat \<Rightarrow> string list \<Rightarrow> embed_outcome) \<Rightarrow> uuid option \<Rightarrow> ModelSpec
     \<Rightarrow> string list \<Rightarrow> nat \<Rightarrow> gateway_state \<Rightarrow> (ModelError + real list list) \<times> gateway_state" where
  "embed_attempts gw w invoke run_id spec outstanding 0 st = (Inl ModelError.ModelNotConfigured, st)"
| "embed_attempts gw w invoke run_id spec outstanding (Suc left) st =
     (let attempt = gw_max_attempts gw - left; q = embed_call run_id
      in case perform_embed w invoke run_id spec outstanding st of
           (Inl err, st1) \<Rightarrow>
             (let st2 = add_record (attempt_record q spec LlmCallStatus.ERROR no_usage
                          (wd_elapsed_ms w (length (gs_records st))) attempt (Some (error_code err)) None None) st1
              in if retryable err \<and> attempt < gw_max_attempts gw
                 then embed_attempts gw w invoke run_id spec outstanding left
                        (st2\<lparr>gs_pauses := gs_pauses st2 @
                                [backoff gw attempt err (wd_jitter w (length (gs_pauses st2)))]\<rparr>)
                 else (Inl err, st2))
         | (Inr (vs, tokens, latency), st1) \<Rightarrow>
             (Inr vs, add_record (attempt_record q spec LlmCallStatus.OK
                        \<lparr>tu_prompt_tokens = tokens, tu_completion_tokens = 0\<rparr> latency attempt None None None) st1))"

definition embed ::
  "Gateway \<Rightarrow> gateway_world \<Rightarrow> (nat \<Rightarrow> string list \<Rightarrow> embed_outcome) \<Rightarrow> uuid option \<Rightarrow> EmbeddingPurpose
     \<Rightarrow> vector_cache \<Rightarrow> RunBudgetGuard \<Rightarrow> string list
     \<Rightarrow> (ModelError + real list list) \<times> vector_cache \<times> gateway_state" where
  "embed gw w invoke run_id purpose cache guard texts =
     (let st = \<lparr>gs_guard = guard, gs_records = [], gs_calls = [], gs_pauses = []\<rparr>
      in case embedding_model (gw_router gw) of
           Inl e \<Rightarrow> (Inl ModelError.ModelNotConfigured, cache, st)
         | Inr spec \<Rightarrow>
             if \<not> provider_configured gw spec then (Inl ModelError.ModelNotConfigured, cache, st)
             else
               (let prepared = prepare spec purpose texts;
                    missing = missing_of cache prepared;
                    hit = (attempt_record (embed_call run_id) spec LlmCallStatus.OK no_usage 0 1 None None None)
                            \<lparr>lc_cache_hit := True\<rparr>;
                    st' = (if length missing < length prepared then add_record hit st else st)
                in if missing = [] then (Inr (map (\<lambda>t. the (cache t)) prepared), cache, st')
                   else case embed_attempts gw w invoke run_id spec (map (\<lambda>i. prepared ! i) missing)
                               (gw_max_attempts gw) st' of
                     (Inl err, st'') \<Rightarrow> (Inl err, cache, st'')
                   | (Inr fresh, st'') \<Rightarrow>
                       (let (vectors, cache') = merge_vectors cache prepared fresh
                        in (Inr vectors, cache', st''))))"

lemma merge_into_known:
  "distinct (map fst ivs) \<Longrightarrow>
     fst (merge_into prepared ivs (known, cache)) i = (case map_of ivs i of Some v \<Rightarrow> Some v | None \<Rightarrow> known i)"
proof (induction ivs arbitrary: known cache)
  case (Cons p ivs)
  obtain j v where p: "p = (j, v)" by fastforce
  have "map_of ivs j = None" using Cons.prems by (simp add: p map_of_eq_None_iff)
  with Cons p show ?case by (auto split: option.split)
qed simp

lemma missing_of_distinct [simp]: "distinct (missing_of cache prepared)"
  by (simp add: missing_of_def)

lemma map_of_zip_index:
  "i \<in> set ms \<Longrightarrow> length fs = length ms \<Longrightarrow> map_of (zip ms fs) i = Some (fs ! index_of ms i)"
proof (induction ms arbitrary: fs)
  case (Cons m ms)
  then show ?case by (cases fs) auto
qed simp

text \<open>Every text gets the vector its cache entry or its place in the provider's answer gives it.\<close>

lemma merge_vectors_place:
  assumes "length fresh = length (missing_of cache prepared)" "i < length prepared"
  shows "fst (merge_vectors cache prepared fresh) ! i =
    (case cache (prepared ! i) of
       Some v \<Rightarrow> v
     | None \<Rightarrow> fresh ! index_of (missing_of cache prepared) i)"
proof -
  let ?m = "missing_of cache prepared"
  have zip: "map fst (zip ?m fresh) = ?m" using assms(1) by simp
  have "fst (merge_vectors cache prepared fresh) ! i
      = the (fst (merge_into prepared (zip ?m fresh) (known_of cache prepared, cache)) i)"
    using assms by (simp add: merge_vectors_def Let_def split_beta)
  also have "\<dots> = the (case map_of (zip ?m fresh) i of Some v \<Rightarrow> Some v | None \<Rightarrow> known_of cache prepared i)"
    by (subst merge_into_known) (simp_all add: zip)
  also have "\<dots> = (case cache (prepared ! i) of Some v \<Rightarrow> v | None \<Rightarrow> fresh ! index_of ?m i)"
  proof (cases "cache (prepared ! i)")
    case None
    then have "i \<in> set ?m" using assms(2) by (simp add: missing_of_def)
    then have "map_of (zip ?m fresh) i = Some (fresh ! index_of ?m i)"
      using assms(1) by (intro map_of_zip_index) simp_all
    with None show ?thesis by simp
  next
    case (Some v)
    then have "i \<notin> set ?m" by (simp add: missing_of_def)
    then have "i \<notin> fst ` set (zip ?m fresh)" using zip by (metis set_map)
    then have "map_of (zip ?m fresh) i = None" by (simp add: map_of_eq_None_iff)
    with Some assms(2) show ?thesis by (simp add: known_of_def)
  qed
  finally show ?thesis .
qed

lemma merge_into_cache:
  "snd (merge_into prepared ivs (known, cache)) t = None \<longleftrightarrow> cache t = None \<and> t \<notin> (\<lambda>(i, v). prepared ! i) ` set ivs"
proof (induction ivs arbitrary: known cache)
  case (Cons p ivs)
  then show ?case by (cases p) (simp split: if_split)
qed simp

lemma length_merge_vectors:
  "length fresh = length (missing_of cache prepared) \<Longrightarrow>
     length (fst (merge_vectors cache prepared fresh)) = length prepared"
  by (simp add: merge_vectors_def Let_def split_beta)

text \<open>After a merge nothing of the batch is missing any more.\<close>

lemma merge_vectors_remembers:
  assumes "length fresh = length (missing_of cache prepared)"
  shows "missing_of (snd (merge_vectors cache prepared fresh)) prepared = []"
proof -
  let ?m = "missing_of cache prepared"
  have "snd (merge_vectors cache prepared fresh) (prepared ! i) \<noteq> None" if i: "i < length prepared" for i
  proof (cases "cache (prepared ! i)")
    case None
    then have "i \<in> set ?m" using i by (simp add: missing_of_def)
    moreover have "map fst (zip ?m fresh) = ?m" using assms by simp
    ultimately have "i \<in> fst ` set (zip ?m fresh)" by (metis set_map)
    then obtain v where "(i, v) \<in> set (zip ?m fresh)" by fastforce
    then have "prepared ! i \<in> (\<lambda>(i, v). prepared ! i) ` set (zip ?m fresh)" by (rule rev_image_eqI) simp
    then show ?thesis using assms by (simp add: merge_vectors_def Let_def split_beta merge_into_cache)
  next
    case (Some v)
    then show ?thesis using assms by (simp add: merge_vectors_def Let_def split_beta merge_into_cache)
  qed
  then show ?thesis by (auto simp: missing_of_def)
qed

section \<open>The concurrency limit\<close>

text \<open>
  The limiter's counters with the \<open>asyncio\<close> semaphore below them: its value, the calls queued in
  it, and those it has woken that have not run yet.
\<close>

record Limiter =
  lm_limit :: nat
  lm_value :: nat
  lm_pending :: nat
  lm_granted :: nat
  lm_in_flight :: nat
  lm_waiting :: nat
  lm_acquisitions :: nat
  lm_waited :: nat
  lm_total_wait :: real
  lm_max_wait :: real
  lm_max_in_flight :: nat

definition limiter_init :: "nat \<Rightarrow> Limiter option" where
  "limiter_init limit =
     (if limit < 1 then None
      else Some \<lparr>lm_limit = limit, lm_value = limit, lm_pending = 0, lm_granted = 0, lm_in_flight = 0,
                 lm_waiting = 0, lm_acquisitions = 0, lm_waited = 0, lm_total_wait = 0, lm_max_wait = 0,
                 lm_max_in_flight = 0\<rparr>)"

definition sem_locked :: "Limiter \<Rightarrow> bool" where
  "sem_locked l \<longleftrightarrow> lm_value l = 0 \<or> lm_pending l + lm_granted l > 0"

definition sem_wake :: "Limiter \<Rightarrow> Limiter" where
  "sem_wake l =
     (if lm_pending l > 0 \<and> lm_value l > 0
      then l\<lparr>lm_pending := lm_pending l - 1, lm_granted := lm_granted l + 1, lm_value := lm_value l - 1\<rparr>
      else l)"

text \<open>The wake-ups at the end of every queued acquisition, while slots and waiters are left.\<close>

definition sem_wake_all :: "Limiter \<Rightarrow> Limiter" where
  "sem_wake_all l =
     (let n = min (lm_value l) (lm_pending l)
      in l\<lparr>lm_pending := lm_pending l - n, lm_granted := lm_granted l + n, lm_value := lm_value l - n\<rparr>)"

text \<open>The counters of one acquisition that waited \<open>t\<close> seconds.\<close>

definition entered :: "bool \<Rightarrow> real \<Rightarrow> Limiter \<Rightarrow> Limiter" where
  "entered contended t l =
     l\<lparr>lm_in_flight := lm_in_flight l + 1,
       lm_max_in_flight := max (lm_max_in_flight l) (lm_in_flight l + 1),
       lm_acquisitions := lm_acquisitions l + 1,
       lm_total_wait := lm_total_wait l + t,
       lm_waited := lm_waited l + (if contended then 1 else 0),
       lm_max_wait := (if contended then max (lm_max_wait l) t else lm_max_wait l)\<rparr>"

inductive limiter_step :: "Limiter \<Rightarrow> Limiter \<Rightarrow> bool" where
  free: "\<not> sem_locked l \<Longrightarrow> limiter_step l (entered False 0 (l\<lparr>lm_value := lm_value l - 1\<rparr>))"
| queue: "sem_locked l \<Longrightarrow>
     limiter_step l (l\<lparr>lm_waiting := lm_waiting l + 1, lm_pending := lm_pending l + 1\<rparr>)"
| resume: "lm_granted l > 0 \<Longrightarrow> 0 \<le> t \<Longrightarrow>
     limiter_step l (entered True t (sem_wake_all
       (l\<lparr>lm_granted := lm_granted l - 1, lm_waiting := lm_waiting l - 1\<rparr>)))"
| cancel_queued: "lm_pending l > 0 \<Longrightarrow>
     limiter_step l (sem_wake_all (l\<lparr>lm_pending := lm_pending l - 1, lm_waiting := lm_waiting l - 1\<rparr>))"
| cancel_woken: "lm_granted l > 0 \<Longrightarrow>
     limiter_step l (sem_wake_all (l\<lparr>lm_granted := lm_granted l - 1, lm_waiting := lm_waiting l - 1,
                                lm_value := lm_value l + 1\<rparr>))"
| release: "lm_in_flight l > 0 \<Longrightarrow>
     limiter_step l (sem_wake (l\<lparr>lm_in_flight := lm_in_flight l - 1, lm_value := lm_value l + 1\<rparr>))"

inductive limiter_reach :: "nat \<Rightarrow> Limiter \<Rightarrow> bool" for limit where
  init: "limiter_init limit = Some l \<Longrightarrow> limiter_reach limit l"
| step: "limiter_reach limit l \<Longrightarrow> limiter_step l l' \<Longrightarrow> limiter_reach limit l'"

definition limiter_inv :: "nat \<Rightarrow> Limiter \<Rightarrow> bool" where
  "limiter_inv limit l \<longleftrightarrow>
     lm_limit l = limit
     \<and> lm_value l + lm_granted l + lm_in_flight l = limit
     \<and> lm_waiting l = lm_pending l + lm_granted l
     \<and> (lm_pending l > 0 \<longrightarrow> lm_value l = 0 \<or> lm_granted l > 0)
     \<and> lm_in_flight l \<le> lm_max_in_flight l \<and> lm_max_in_flight l \<le> limit
     \<and> lm_waited l \<le> lm_acquisitions l \<and> 0 \<le> lm_max_wait l
     \<and> lm_total_wait l \<le> of_nat (lm_waited l) * lm_max_wait l"

lemma wait_bound:
  fixes m t w :: real
  assumes "w \<le> of_nat n * m" "0 \<le> m"
  shows "w + t \<le> of_nat (n + 1) * max m t"
proof -
  have "of_nat n * m \<le> of_nat n * max m t" by (intro mult_left_mono) auto
  with assms show ?thesis by (simp add: algebra_simps)
qed

lemma limiter_step_inv: "limiter_step l l' \<Longrightarrow> limiter_inv limit l \<Longrightarrow> limiter_inv limit l'"
proof (induction rule: limiter_step.induct)
  case (resume l t)
  then show ?case
    using wait_bound[of "lm_total_wait l" "lm_waited l" "lm_max_wait l" t]
    by (auto simp: limiter_inv_def entered_def sem_wake_all_def Let_def min_def)
qed (auto simp: limiter_inv_def entered_def sem_locked_def sem_wake_def sem_wake_all_def Let_def min_def)

lemma limiter_reach_inv: "limiter_reach limit l \<Longrightarrow> limiter_inv limit l"
proof (induction rule: limiter_reach.induct)
  case (init l)
  then show ?case by (auto simp: limiter_init_def limiter_inv_def split: if_splits)
qed (rule limiter_step_inv)

definition mean_wait_seconds :: "Limiter \<Rightarrow> real" where
  "mean_wait_seconds l = (if lm_acquisitions l \<noteq> 0 then lm_total_wait l / of_nat (lm_acquisitions l) else 0)"

definition utilisation :: "Limiter \<Rightarrow> real" where
  "utilisation l = (if lm_limit l \<noteq> 0 then of_nat (lm_max_in_flight l) / of_nat (lm_limit l) else 0)"

end
