(* ===== verification/GatewayProperties.thy ===== *)
theory GatewayProperties
  imports ModelStreams
begin

text \<open>
  The properties of the model gateway: the chain a role is given, the price a finished call is
  given, the budget no call passes, the retries and failovers an operation makes, what a streamed
  answer delivers, where an embedding's vectors end up, and the concurrency limit.
\<close>

section \<open>A sample deployment\<close>

definition sample_spec :: "string \<Rightarrow> LlmProvider \<Rightarrow> string \<Rightarrow> ModelTier \<Rightarrow> Pricing option \<Rightarrow> ModelSpec" where
  "sample_spec key provider model_id tier pricing =
     \<lparr>ms_key = key, ms_provider = provider, ms_model_id = model_id, ms_tier = tier,
      ms_context_window = 100000, ms_max_output_tokens = 4096, ms_pricing = pricing,
      ms_supports_chat = True, ms_supports_streaming = True, ms_supports_structured_output = True,
      ms_supports_temperature = True, ms_supports_token_counting = False, ms_supports_embeddings = False,
      ms_embedding_dimensions = None, ms_embedding_document_prefix = [], ms_embedding_query_prefix = []\<rparr>"

definition sample_price :: Pricing where
  "sample_price = \<lparr>pr_input_usd_per_mtok = 1, pr_output_usd_per_mtok = 2, pr_as_of = 0, pr_source = ''list''\<rparr>"

definition sample_registry :: ModelRegistry where
  "sample_registry =
     [(''mini'', sample_spec ''mini'' LlmProvider.OPENAI ''gpt-4o-mini'' ModelTier.SMALL (Some sample_price)),
      (''full'', sample_spec ''full'' LlmProvider.OPENAI ''gpt-4o'' ModelTier.STRONG (Some sample_price)),
      (''best'', sample_spec ''best'' LlmProvider.ANTHROPIC ''opus'' ModelTier.STRONG None)]"

definition sample_router :: ModelRouter where
  "sample_router = default_router sample_registry None"

lemma sample_registry_ok [simp]: "registry_ok (mr_registry sample_router)"
  by (simp add: registry_ok_def sample_router_def default_router_def sample_registry_def sample_spec_def)

section \<open>Routing\<close>

lemma sorted_wrt_take_prefix: "sorted_wrt P xs \<Longrightarrow> sorted_wrt P (take n xs)"
  by (metis append_take_drop_id sorted_wrt_append)

lemma resolve_chain:
  assumes "registry_ok (mr_registry r)" "resolve r role mode = Some d"
  shows "length (chain_of d) \<le> 1 + mr_max_fallbacks r \<and> distinct (map ms_key (chain_of d))"
proof -
  let ?t = "tier_for r role mode"
  from assms(2) obtain p rest where c: "candidates_for r ?t = p # rest"
    and d: "rt_primary d = p" "rt_fallbacks d = take (mr_max_fallbacks r) rest"
    by (auto simp: resolve_def Let_def split: list.splits)
  have "\<exists>u. chain_inv r u (p # rest)"
    using candidates_for_spec[OF assms(1), of ?t] c by (auto split: if_splits)
  then have "distinct (map ms_key (p # rest))" by (auto simp: chain_inv_def)
  moreover have "chain_of d = take (Suc (mr_max_fallbacks r)) (p # rest)" by (simp add: chain_of_def d)
  ultimately show ?thesis by (simp only: take_map[symmetric] distinct_take) simp
qed

text \<open>C9. When the registry declares a chat model at the tier a role gets in a mode, the role's chain is
  exactly this: the chat models of that tier in the order they are declared, then those of every
  cheaper tier, strongest first, cut after one more than the allowed fallbacks; no model is in it
  twice.  (What an empty tier resolves to is left open here: the docstring and the code disagree.)\<close>

theorem chain_is_sound:
  assumes "registry_ok (mr_registry r)" "models_at r (tier_for r role mode) \<noteq> []"
  shows "\<exists>d. resolve r role mode = Some d
    \<and> chain_of d = take (1 + mr_max_fallbacks r) (concat (map (models_at r) (tiers_from (tier_for r role mode))))
    \<and> distinct (map ms_key (chain_of d))"
proof -
  obtain d where d: "resolve r role mode = Some d"
    "chain_of d = take (1 + mr_max_fallbacks r) (concat (map (models_at r) (tiers_from (tier_for r role mode))))"
    using resolved_chain[OF assms] by auto
  with resolve_chain[OF assms(1) d(1)] show ?thesis by blast
qed

theorem chain_is_sound_witness:
  "\<exists>d. resolve sample_router AgentName.VERIFIER ResearchMode.DEEP = Some d
    \<and> map ms_key (chain_of d) = [''full'', ''best'', ''mini'']"
proof -
  have t: "tier_for sample_router AgentName.VERIFIER ResearchMode.DEEP = ModelTier.STRONG"
    by (simp add: tier_for_def sample_router_def default_router_def)
  have m: "map ms_key (models_at sample_router ModelTier.STRONG) = [''full'', ''best'']"
    "map ms_key (models_at sample_router ModelTier.MEDIUM) = []"
    "map ms_key (models_at sample_router ModelTier.SMALL) = [''mini'']"
    by (simp_all add: models_at_def sample_router_def default_router_def sample_registry_def specs_def sample_spec_def)
  have ne: "models_at sample_router (tier_for sample_router AgentName.VERIFIER ResearchMode.DEEP) \<noteq> []"
    unfolding t using m(1) by (metis list.distinct(1) list.simps(8))
  have down: "tiers_from ModelTier.STRONG = [ModelTier.STRONG, ModelTier.MEDIUM, ModelTier.SMALL]"
    by (simp add: tiers_from_def TIER_ORDER_def less_eq_ModelTier_def)
  have "1 + mr_max_fallbacks sample_router = 4"
    by (simp add: sample_router_def default_router_def MAX_FALLBACKS_def)
  note cs = chain_is_sound[OF sample_registry_ok ne, unfolded t down this]
  then obtain d where d: "resolve sample_router AgentName.VERIFIER ResearchMode.DEEP = Some d"
    "chain_of d = take 4 (concat (map (models_at sample_router) [ModelTier.STRONG, ModelTier.MEDIUM, ModelTier.SMALL]))"
    by blast
  have "map ms_key (chain_of d) = [''full'', ''best'', ''mini'']"
    unfolding d(2) take_map[symmetric] map_concat by (simp add: m)
  then show ?thesis by (intro exI[of _ d] conjI d(1))
qed

text \<open>Routing fails exactly when no chat model is declared at or below the role's tier: a stronger
  model is never used instead, although the docstring of \<open>_candidates\<close> says the search goes up.\<close>

theorem routing_fails_iff:
  assumes "registry_ok (mr_registry r)"
  shows "resolve r role mode = None \<longleftrightarrow>
    \<not> (\<exists>c \<in> set (specs (mr_registry r)). ms_supports_chat c \<and> ms_tier c \<le> tier_for r role mode)"
proof -
  let ?t = "tier_for r role mode"
  have "resolve r role mode = None \<longleftrightarrow> candidates_for r ?t = []"
    by (auto simp: resolve_def Let_def split: list.split)
  also have "\<dots> \<longleftrightarrow> (\<forall>u \<le> ?t. chat_tier r u = [])"
    using candidates_for_spec[OF assms, of ?t] by (auto split: if_splits)
  also have "\<dots> \<longleftrightarrow> \<not> (\<exists>c \<in> set (specs (mr_registry r)). ms_supports_chat c \<and> ms_tier c \<le> ?t)"
    using chat_tier_set[of _ r] by (metis list.set_intros(1) neq_Nil_conv empty_iff empty_set)
  finally show ?thesis .
qed

theorem routing_fails_iff_witness:
  "resolve (sample_router\<lparr>mr_registry := [(''full'', sample_spec ''full'' LlmProvider.OPENAI ''gpt-4o'' ModelTier.STRONG None)]\<rparr>)
     AgentName.PLANNER ResearchMode.DEEP = None"
  by (subst routing_fails_iff)
    (simp_all add: registry_ok_def sample_spec_def specs_def sample_router_def default_router_def tier_for_def
      less_eq_ModelTier_def)

text \<open>Depth is all a mode trades: quick and conversational research never get a stronger tier
  than a deep run's, no role gets more than its declared tier, and the synthesizer's never drops
  below strong.\<close>

theorem mode_only_lowers_tier:
  "tier_for (default_router reg key) role mode \<le> tier_for (default_router reg key) role ResearchMode.DEEP
   \<and> DEFAULT_ROLE_TIERS role = Some (tier_for (default_router reg key) role ResearchMode.DEEP)
   \<and> ModelTier.STRONG \<le> tier_for (default_router reg key) AgentName.SYNTHESIZER mode"
  by (cases role; cases mode; simp add: tier_for_def default_router_def less_eq_ModelTier_def)

section \<open>The price of a finished call\<close>

text \<open>A finished call is priced by the declared model it came from: the one with exactly that id,
  else the longest declared alias of which the id is a dated snapshot; it is unmeasured, never
  free, when there is none or that model has no price.\<close>

theorem finished_call_priced_by_its_model:
  assumes "cost_of reg c = Some v"
  shows "\<exists>spec \<in> set (specs reg). ms_provider spec = cp_provider c \<and> cost_usd spec (cp_usage c) = Some v
    \<and> is_priced spec
    \<and> (ms_model_id spec = cp_model c
       \<or> (\<exists>d. cp_model c = ms_model_id spec @ d \<and> snapshot_suffix d)
          \<and> (\<forall>other \<in> set (specs reg). ms_provider other = cp_provider c \<longrightarrow> ms_model_id other \<noteq> cp_model c)
          \<and> (\<forall>other \<in> set (specs reg). \<forall>d. ms_provider other = cp_provider c \<longrightarrow>
               cp_model c = ms_model_id other @ d \<longrightarrow> snapshot_suffix d \<longrightarrow>
               length (ms_model_id other) \<le> length (ms_model_id spec)))"
proof -
  from assms obtain spec where f: "registry_find reg (cp_provider c) (cp_model c) = Some spec"
    and cost: "cost_usd spec (cp_usage c) = Some v"
    by (auto simp: cost_of_def split: option.splits)
  then have "is_priced spec" using cost_usd_None[of spec "cp_usage c"] by auto
  with registry_find_cases[OF f] cost show ?thesis by blast
qed

definition sample_completion :: Completion where
  "sample_completion =
     \<lparr>cp_text = ''ok'', cp_provider = LlmProvider.OPENAI, cp_model = ''gpt-4o-mini-2024-07-18'',
      cp_usage = \<lparr>tu_prompt_tokens = 10, tu_completion_tokens = 0\<rparr>, cp_finish_reason = ''stop''\<rparr>"

theorem finished_call_priced_by_its_model_witness:
  "\<exists>spec \<in> set (specs sample_registry). ms_provider spec = LlmProvider.OPENAI
     \<and> cost_usd spec (cp_usage sample_completion) = Some (1 / 100000)"
proof -
  have "registry_find sample_registry LlmProvider.OPENAI ''gpt-4o-mini-2024-07-18''
      = Some (sample_spec ''mini'' LlmProvider.OPENAI ''gpt-4o-mini'' ModelTier.SMALL (Some sample_price))"
    by code_simp
  then have "cost_of sample_registry sample_completion = Some (1 / 100000)"
    by (simp add: cost_of_def sample_completion_def cost_usd_def sample_spec_def sample_price_def
        round_to_def round_half_even_def)
  then obtain spec where "spec \<in> set (specs sample_registry)"
    "ms_provider spec = cp_provider sample_completion" "cost_usd spec (cp_usage sample_completion) = Some (1 / 100000)"
    by (blast dest: finished_call_priced_by_its_model)
  then show ?thesis by (intro bexI[of _ spec]) (simp_all add: sample_completion_def)
qed

section \<open>The budget\<close>

text \<open>C10. The spend a run is held to is built from the ledger's records and nothing else: after any
  calls of the process, what the run has spent is what it started with plus the recorded cost of
  its own calls, and an unpriced call is counted as uncosted, not as free.\<close>

theorem run_spend_is_the_ledgers:
  "bg_ledger (foldl record_call (enrol g run limit_usd spent_usd) cs) = bg_ledger g @ cs
   \<and> spend_of (foldl record_call (enrol g run limit_usd spent_usd) cs) run =
     Some \<lparr>sd_limit_usd = limit_usd, sd_spent_usd = spent_usd + cost_of_records run cs,
           sd_calls = length (filter (\<lambda>c. lc_run_id c = Some run) cs),
           sd_uncosted_calls = length (filter (\<lambda>c. lc_run_id c = Some run \<and> lc_cost_usd c = None) cs)\<rparr>"
proof -
  have "bg_runs (enrol g run limit_usd spent_usd) run =
      Some \<lparr>sd_limit_usd = limit_usd, sd_spent_usd = spent_usd, sd_calls = 0, sd_uncosted_calls = 0\<rparr>"
    by (simp add: enrol_def)
  from spend_of_records[OF this] run_guard.ledger_fold[of "enrol g run limit_usd spent_usd" cs]
  show ?thesis by (simp add: spend_of_def enrol_def)
qed

lemma perform_exhausted:
  assumes "authorise (gs_guard st) (gc_run_id q) spec (Some (gc_role q)) = Some ModelError.BudgetExhausted"
  shows "perform gw w q spec st = (Inl ModelError.BudgetExhausted, st)"
  using assms by (simp add: perform_def)

lemma try_model_exhausted:
  assumes "authorise (gs_guard st) (gc_run_id q) spec (Some (gc_role q)) = Some ModelError.BudgetExhausted"
    and "0 < left"
  shows "\<exists>c st'. try_model gw w q spec previous left st = (Raise ModelError.BudgetExhausted, add_record c st)"
  using assms by (cases left) (auto simp: Let_def perform_exhausted)

text \<open>C11. A run that has spent its allowance makes no further call, for a role that is not one of those
  that finish a run (they are exempt), whatever model with a configured provider is asked for and
  wherever in a fallback chain that has one it stands: the operation ends with the bounded budget
  error, one refused attempt is recorded, and no provider is called.\<close>

theorem exhausted_run_calls_no_provider:
  assumes "bg_runs (gs_guard st) run = Some s" "exhausted s" "gc_run_id q = Some run"
    and "gc_role q \<notin> FINISHING_ROLES" "0 < gw_max_attempts gw" "provider_configured gw spec"
  shows "\<exists>st'. walk_chain gw w q (spec # rest) previous last_error st = (Inl ModelError.BudgetExhausted, st')
    \<and> gs_calls st' = gs_calls st \<and> length (gs_records st') = Suc (length (gs_records st))"
proof -
  have "authorise (gs_guard st) (gc_run_id q) spec (Some (gc_role q)) = Some ModelError.BudgetExhausted"
    using assms by (auto simp: authorise_exhausted)
  from try_model_exhausted[OF this assms(5), of gw w previous] assms(6) show ?thesis by auto
qed

definition sample_gateway :: Gateway where
  "sample_gateway =
     \<lparr>gw_router = sample_router, gw_providers = [LlmProvider.OPENAI, LlmProvider.ANTHROPIC],
      gw_max_attempts = 2, gw_request_timeout = 60, gw_base_delay = 1, gw_max_delay = 8\<rparr>"

definition sample_call :: gateway_call where
  "sample_call =
     \<lparr>gc_role = AgentName.CRITIC, gc_mode = ResearchMode.DEEP, gc_operation = ''generate'',
      gc_prompt_version = ''1'', gc_run_id = Some 7, gc_max_output_tokens = None,
      gc_temperature = None, gc_stop = [], gc_effort = None, gc_require_structured = False\<rparr>"

definition sample_guard :: RunBudgetGuard where
  "sample_guard = \<lparr>bg_require_priced = False, bg_runs = Map.empty, bg_ledger = []\<rparr>"

text \<open>The first model times out twice, the second answers.\<close>

definition sample_gateway_world :: gateway_world where
  "sample_gateway_world =
     \<lparr>wd_invoke = (\<lambda>k spec request. if k < 2 then TimedOut else Completed sample_completion 3 None),
      wd_elapsed_ms = (\<lambda>k. 5), wd_jitter = (\<lambda>k. 0), wd_others = (\<lambda>k. [])\<rparr>"

theorem exhausted_run_calls_no_provider_witness:
  "\<exists>st'. walk_chain sample_gateway sample_gateway_world sample_call (specs sample_registry) None None
      \<lparr>gs_guard = enrol sample_guard 7 1 2, gs_records = [], gs_calls = [], gs_pauses = []\<rparr>
      = (Inl ModelError.BudgetExhausted, st') \<and> gs_calls st' = []"
proof -
  let ?st = "\<lparr>gs_guard = enrol sample_guard 7 1 2, gs_records = [], gs_calls = [], gs_pauses = []\<rparr>"
  let ?s = "\<lparr>sd_limit_usd = 1, sd_spent_usd = 2, sd_calls = 0, sd_uncosted_calls = 0\<rparr>"
  have a: "bg_runs (gs_guard ?st) 7 = Some ?s" "exhausted ?s" "gc_run_id sample_call = Some 7"
    "gc_role sample_call \<notin> FINISHING_ROLES" "0 < gw_max_attempts sample_gateway"
    "provider_configured sample_gateway (snd (hd sample_registry))"
    by (simp_all add: enrol_def exhausted_def sample_call_def FINISHING_ROLES_def sample_gateway_def
        provider_configured_def sample_registry_def sample_spec_def)
  have "specs sample_registry = snd (hd sample_registry) # tl (specs sample_registry)"
    by (simp add: specs_def sample_registry_def)
  with exhausted_run_calls_no_provider[OF a, of sample_gateway_world "tl (specs sample_registry)" None None]
  show ?thesis by fastforce
qed

section \<open>Retries and failovers\<close>

text \<open>C12. An operation is bounded and every further attempt has its reason: it makes at most the
  chain's length times the attempts per model, records each of them, retries the same model only
  after a retryable failure, moves to the next one only after a failure another model can survive,
  and answers only from a last attempt recorded as a success (as a fallback exactly when a model
  before it failed).\<close>

theorem operation_bounded_and_justified:
  assumes "registry_ok (mr_registry (gw_router gw))" "0 < gw_max_attempts gw"
    and "attempt_call gw w q guard = (r, st')"
  shows "length (gs_records st') \<le> (1 + mr_max_fallbacks (gw_router gw)) * gw_max_attempts gw
    \<and> length (gs_calls st') \<le> length (gs_records st') \<and> successively justified (gs_records st')
    \<and> (\<forall>c. r = Inr c \<longrightarrow> gs_records st' \<noteq> [] \<and> lc_error_code (last (gs_records st')) = None
         \<and> (lc_status (last (gs_records st')) = LlmCallStatus.FALLBACK \<longleftrightarrow>
              lc_fell_back_from (last (gs_records st')) \<noteq> None))"
proof -
  let ?st = "\<lparr>gs_guard = guard, gs_records = [], gs_calls = [], gs_pauses = []\<rparr>"
  have trivial: ?thesis if "r = Inl e" "st' = ?st" for e using that by simp
  show ?thesis
  proof (cases "resolve (gw_router gw) (gc_role q) (gc_mode q)")
    case None
    with assms(3) trivial show ?thesis by (auto simp: attempt_call_def Let_def)
  next
    case (Some d)
    define chain where "chain = filter (\<lambda>spec. \<not> gc_require_structured q \<or> ms_supports_structured_output spec) (chain_of d)"
    have cd: "length (chain_of d) \<le> 1 + mr_max_fallbacks (gw_router gw)" "distinct (map ms_key (chain_of d))"
      using resolve_chain[OF assms(1) Some] by simp_all
    have len: "length chain \<le> 1 + mr_max_fallbacks (gw_router gw)"
      using cd(1) length_filter_le[of _ "chain_of d"] unfolding chain_def by (rule order_trans[rotated])
    have dist: "distinct (map ms_key chain)" using cd(2) by (simp add: chain_def distinct_map_filter)
    show ?thesis
    proof (cases "chain = []")
      case True
      with assms(3) Some trivial show ?thesis by (auto simp: attempt_call_def Let_def chain_def)
    next
      case False
      with assms(3) Some have walk: "walk_chain gw w q chain None None ?st = (r, st')"
        by (simp add: attempt_call_def Let_def chain_def)
      from walk_chain_records[OF walk dist _ assms(2)] have rs: "operation_of gw chain (gs_records st') r"
        "length (gs_calls st') \<le> length (gs_records st')" by auto
      have "length (gs_records st') \<le> length chain * gw_max_attempts gw"
        using rs(1) by (simp add: operation_of_def)
      also have "\<dots> \<le> (1 + mr_max_fallbacks (gw_router gw)) * gw_max_attempts gw"
        using len by (rule mult_right_mono) simp
      finally show ?thesis using rs by (auto simp: operation_of_def)
    qed
  qed
qed

theorem operation_bounded_and_justified_witness:
  "\<exists>r st'. attempt_call sample_gateway sample_gateway_world sample_call sample_guard = (r, st')
    \<and> length (gs_records st') \<le> 8 \<and> successively justified (gs_records st')"
proof -
  obtain r st' where run: "attempt_call sample_gateway sample_gateway_world sample_call sample_guard = (r, st')"
    by fastforce
  have ok: "registry_ok (mr_registry (gw_router sample_gateway))" "0 < gw_max_attempts sample_gateway"
    "(1 + mr_max_fallbacks (gw_router sample_gateway)) * gw_max_attempts sample_gateway = 8"
    using sample_registry_ok
    by (simp_all add: sample_gateway_def sample_router_def default_router_def MAX_FALLBACKS_def)
  from operation_bounded_and_justified[OF ok(1,2) run] ok(3) run show ?thesis by auto
qed

text \<open>The sample operation in full: two timeouts of the first model, then the second answers.\<close>

lemma sample_operation:
  "map_prod (\<lambda>r. case r of Inl e \<Rightarrow> None | Inr c \<Rightarrow> Some (cp_text c))
     (\<lambda>st. map (\<lambda>c. (lc_status c, lc_attempt c)) (gs_records st))
     (attempt_call sample_gateway sample_gateway_world sample_call sample_guard)
   = (Some ''ok'', [(LlmCallStatus.ERROR, 1), (LlmCallStatus.ERROR, 2), (LlmCallStatus.FALLBACK, 1)])"
  by code_simp

text \<open>
  A failed attempt is recorded with no tokens, so a priced one adds nothing to the run's spend
  whatever the provider charged for it.
\<close>

lemma failed_attempt_adds_no_spend:
  "lc_cost_usd (attempt_record q spec LlmCallStatus.ERROR no_usage l a e prev rid) =
     (if is_priced spec then Some 0 else None)"
  by (auto simp: cost_usd_def is_priced_def no_usage_def round_to_def round_half_even_def split: option.split)

section \<open>Streams\<close>

text \<open>A streamed answer is exactly what was delivered: the pieces handed to the reader, none of
  them empty, joined are the returned text, which is the provider's text cut at the longest answer
  the caller can store.\<close>

theorem stream_returns_what_it_delivered:
  assumes "stream_text gw q guard chunks failure latency max_chars = (Inr c, pieces, written)"
  shows "cp_text c = concat pieces \<and> [] \<notin> set pieces
    \<and> cp_text c = (case max_chars of None \<Rightarrow> concat (map ch_delta chunks)
                   | Some m \<Rightarrow> take m (concat (map ch_delta chunks)))
    \<and> (\<forall>m. max_chars = Some m \<longrightarrow> length (cp_text c) \<le> m)"
proof -
  obtain st stopped where run: "read_stream max_chars chunks stream_start = (st, stopped)" by fastforce
  from assms have "cp_text c = concat (sx_parts st)" "pieces = sx_parts st"
    by (auto simp: stream_text_def run Let_def split: option.splits if_splits)
  with read_stream_inv[OF stream_start_inv run] show ?thesis
    by (auto simp: stream_inv_def stream_start_def split: option.splits)
qed

definition sample_chunks :: "CompletionChunk list" where
  "sample_chunks =
     [\<lparr>ch_delta = ''Solar '', ch_usage = None, ch_finish_reason = None\<rparr>,
      \<lparr>ch_delta = ''cells age.'', ch_usage = None, ch_finish_reason = None\<rparr>,
      \<lparr>ch_delta = [], ch_usage = Some \<lparr>tu_prompt_tokens = 9, tu_completion_tokens = 5\<rparr>,
       ch_finish_reason = Some ''stop''\<rparr>]"

definition streamed :: "nat option \<Rightarrow> (ModelError + Completion) \<times> string list \<times> LlmCallRecord option" where
  "streamed max_chars = stream_text sample_gateway sample_call sample_guard sample_chunks None 4 max_chars"

text \<open>
  A stream cut at the stored length is closed before its usage arrives: it is recorded, and priced,
  as a call that consumed nothing.
\<close>

lemma streamed_cut:
  "\<exists>c r. streamed (Some 11) = (Inr c, [''Solar '', ''cells''], Some r)
     \<and> cp_usage c = no_usage \<and> lc_cost_usd r = Some 0 \<and> lc_status r = LlmCallStatus.OK"
proof -
  have "(case streamed (Some 11) of
      (Inr c, pieces, Some r) \<Rightarrow> pieces = [''Solar '', ''cells''] \<and> cp_usage c = no_usage
         \<and> lc_cost_usd r = Some 0 \<and> lc_status r = LlmCallStatus.OK
    | _ \<Rightarrow> False)"
    by code_simp
  moreover obtain a b c where "streamed (Some 11) = (a, b, c)" by (rule prod_cases3)
  ultimately show ?thesis by (cases a; cases c; simp)
qed

theorem stream_returns_what_it_delivered_witness:
  "\<exists>c :: Completion. length (cp_text c) \<le> 11 \<and> cp_text c = take 11 (concat (map ch_delta sample_chunks))"
proof -
  obtain c r where "streamed (Some 11) = (Inr c, [''Solar '', ''cells''], Some r)"
    using streamed_cut by auto
  from stream_returns_what_it_delivered[OF this[unfolded streamed_def]]
  have "length (cp_text c) \<le> 11 \<and> cp_text c = take 11 (concat (map ch_delta sample_chunks))"
    unfolding option.case by blast
  then show ?thesis ..
qed

section \<open>Embeddings\<close>

text \<open>A provider that answers with one vector per text.\<close>

definition one_each :: "(nat \<Rightarrow> string list \<Rightarrow> embed_outcome) \<Rightarrow> bool" where
  "one_each invoke \<longleftrightarrow> (\<forall>k ts vs tokens latency. invoke k ts = Vectors vs tokens latency \<longrightarrow> length vs = length ts)"

lemma embed_attempts_count:
  assumes "embed_attempts gw w invoke run_id spec outstanding left st = (Inr vs, st')" "one_each invoke"
  shows "length vs = length outstanding"
  using assms
proof (induction left arbitrary: st)
  case (Suc left)
  obtain o1 st1 where p: "perform_embed w invoke run_id spec outstanding st = (o1, st1)" by fastforce
  show ?case
  proof (cases o1)
    case (Inl err)
    with Suc.prems(1) obtain st2 where "embed_attempts gw w invoke run_id spec outstanding left st2 = (Inr vs, st')"
      by (auto simp: p Let_def split: if_splits)
    from Suc.IH[OF this Suc.prems(2)] show ?thesis .
  next
    case (Inr x)
    obtain us tokens latency where x: "x = (us, tokens, latency)" by (rule prod_cases3)
    with Inr Suc.prems(1) p have "us = vs" by (simp add: Let_def)
    with p Inr x have "\<exists>k. invoke k outstanding = Vectors vs tokens latency"
      by (auto simp: perform_embed_def Let_def split: option.splits embed_outcome.splits)
    with Suc.prems(2) show ?thesis unfolding one_each_def by blast
  qed
qed simp

text \<open>Embedding a batch pays only for what is not stored and puts every vector where its text
  was: a stored text keeps its stored vector, the others take the provider's in order, and embedding
  the same batch again calls no provider and gives the same vectors.\<close>

theorem embedding_in_place_and_cached:
  assumes "embed gw w invoke run_id purpose cache guard texts = (Inr vs, cache', st)" "one_each invoke"
  shows "length vs = length texts
    \<and> (\<forall>spec. embedding_model (gw_router gw) = Inr spec \<longrightarrow>
        (\<forall>i < length texts. \<forall>v. cache (prepare spec purpose texts ! i) = Some v \<longrightarrow> vs ! i = v))
    \<and> (\<forall>w' invoke' guard'. gs_calls (snd (snd (embed gw w' invoke' run_id purpose cache' guard' texts))) = [])"
proof -
  from assms(1) obtain spec where spec: "embedding_model (gw_router gw) = Inr spec" "provider_configured gw spec"
    by (auto simp: embed_def Let_def split: sum.splits if_splits)
  let ?p = "prepare spec purpose texts"
  have len: "length ?p = length texts" by (simp add: prepare_def Let_def)
  have again: "gs_calls (snd (snd (embed gw w' invoke' run_id purpose c guard' texts))) = []"
    if "missing_of c ?p = []" for w' invoke' guard' c
    using spec that by (simp add: embed_def Let_def)
  show ?thesis
  proof (cases "missing_of cache ?p = []")
    case True
    with assms(1) spec have r: "vs = map (\<lambda>t. the (cache t)) ?p" "cache' = cache"
      by (auto simp: embed_def Let_def)
    with again[OF True] spec len show ?thesis by simp
  next
    case False
    then obtain fresh st1 st2 where
      run: "embed_attempts gw w invoke run_id spec (map (\<lambda>i. ?p ! i) (missing_of cache ?p)) (gw_max_attempts gw) st1
        = (Inr fresh, st2)" and m: "merge_vectors cache ?p fresh = (vs, cache')"
      using assms(1) spec by (auto simp: embed_def Let_def split: prod.splits sum.splits)
    have fresh: "length fresh = length (missing_of cache ?p)"
      using embed_attempts_count[OF run assms(2)] by simp
    have "missing_of cache' ?p = []" using merge_vectors_remembers[OF fresh] m by simp
    moreover have "length vs = length ?p" using length_merge_vectors[OF fresh] m by simp
    moreover have "vs ! i = v" if "i < length ?p" "cache (?p ! i) = Some v" for i v
      using merge_vectors_place[OF fresh that(1)] that(2) m by simp
    ultimately show ?thesis using again spec len by simp
  qed
qed

definition embedding_gateway :: Gateway where
  "embedding_gateway = sample_gateway\<lparr>gw_router := sample_router\<lparr>mr_registry :=
     [(''vec'', (sample_spec ''vec'' LlmProvider.OPENAI ''embed-1'' ModelTier.SMALL None)
        \<lparr>ms_supports_embeddings := True\<rparr>)]\<rparr>\<rparr>"

definition sample_embedder :: "nat \<Rightarrow> string list \<Rightarrow> embed_outcome" where
  "sample_embedder k ts = (if k = 0 then EmbedErrored ModelError.ProviderUnavailable
     else Vectors (map (\<lambda>t. [of_nat (length t)]) ts) 3 1)"

theorem embedding_in_place_and_cached_witness:
  "\<exists>vs cache' st. embed embedding_gateway sample_gateway_world sample_embedder None EmbeddingPurpose.DOCUMENT
      [''a'' \<mapsto> [9]] sample_guard [''bb'', ''a''] = (Inr vs, cache', st) \<and> length vs = 2 \<and> vs ! 1 = [9]"
proof -
  let ?r = "embed embedding_gateway sample_gateway_world sample_embedder None EmbeddingPurpose.DOCUMENT
      [''a'' \<mapsto> [9]] sample_guard [''bb'', ''a'']"
  have one: "one_each sample_embedder" by (simp add: one_each_def sample_embedder_def)
  have "\<not> isl (fst ?r)" by code_simp
  then obtain vs where "fst ?r = Inr vs" by (cases "fst ?r") auto
  then have r: "?r = (Inr vs, fst (snd ?r), snd (snd ?r))" by (metis prod.collapse)
  obtain spec where spec: "embedding_model (gw_router embedding_gateway) = Inr spec"
    "prepare spec EmbeddingPurpose.DOCUMENT [''bb'', ''a''] = [''bb'', ''a'']"
    by (simp add: embedding_gateway_def sample_gateway_def sample_router_def default_router_def embedding_model_def
        embedding_models_def specs_def sample_spec_def prepare_def embedding_prefix_def)
  have "length vs = length [''bb'', ''a'']"
    using embedding_in_place_and_cached[OF r one] by blast
  moreover have "vs ! 1 = [9]"
    using embedding_in_place_and_cached[OF r one] spec by auto
  ultimately show ?thesis using r
    by (intro exI[of _ vs] exI[of _ "fst (snd ?r)"] exI[of _ "snd (snd ?r)"]) simp
qed

section \<open>The concurrency limit\<close>

text \<open>However calls arrive, wait, are cancelled and finish, no more than the limit are ever in
  flight, the reported high-water mark and mean wait stay within the limit and the longest wait, and
  a slot is idle while a call waits only when one has just been woken to take it.\<close>

theorem limiter_bounds_calls:
  assumes "limiter_reach limit l"
  shows "lm_in_flight l \<le> limit \<and> lm_max_in_flight l \<le> limit \<and> utilisation l \<le> 1
    \<and> mean_wait_seconds l \<le> lm_max_wait l
    \<and> (lm_granted l = 0 \<longrightarrow> lm_waiting l > 0 \<longrightarrow> lm_in_flight l = limit)"
proof -
  have inv: "limiter_inv limit l" by (rule limiter_reach_inv[OF assms])
  then have "of_nat (lm_waited l) * lm_max_wait l \<le> of_nat (lm_acquisitions l) * lm_max_wait l"
    by (intro mult_right_mono) (auto simp: limiter_inv_def)
  with inv have "lm_total_wait l \<le> of_nat (lm_acquisitions l) * lm_max_wait l"
    by (simp add: limiter_inv_def)
  then have "mean_wait_seconds l \<le> lm_max_wait l"
    using inv by (auto simp: mean_wait_seconds_def limiter_inv_def divide_le_eq mult.commute)
  moreover have "utilisation l \<le> 1"
    using inv by (auto simp: utilisation_def limiter_inv_def divide_le_eq)
  ultimately show ?thesis using inv by (auto simp: limiter_inv_def)
qed

definition busy_limiter :: Limiter where
  "busy_limiter =
     \<lparr>lm_limit = 1, lm_value = 0, lm_pending = 1, lm_granted = 0, lm_in_flight = 1, lm_waiting = 1,
      lm_acquisitions = 1, lm_waited = 0, lm_total_wait = 0, lm_max_wait = 0, lm_max_in_flight = 1\<rparr>"

lemma busy_limiter_reached: "limiter_reach 1 busy_limiter"
proof -
  define a where "a = \<lparr>lm_limit = 1, lm_value = 1, lm_pending = 0, lm_granted = 0, lm_in_flight = 0,
      lm_waiting = 0, lm_acquisitions = 0, lm_waited = 0, lm_total_wait = (0 :: real), lm_max_wait = (0 :: real),
      lm_max_in_flight = 0\<rparr>"
  have "limiter_reach 1 a" by (rule limiter_reach.init) (simp add: limiter_init_def a_def)
  moreover have "limiter_step a (entered False 0 (a\<lparr>lm_value := lm_value a - 1\<rparr>))"
    by (rule limiter_step.free) (simp add: sem_locked_def a_def)
  ultimately have 1: "limiter_reach 1 (entered False 0 (a\<lparr>lm_value := lm_value a - 1\<rparr>))"
    by (rule limiter_reach.step)
  let ?b = "entered False 0 (a\<lparr>lm_value := lm_value a - 1\<rparr>)"
  have "limiter_step ?b (?b\<lparr>lm_waiting := lm_waiting ?b + 1, lm_pending := lm_pending ?b + 1\<rparr>)"
    by (rule limiter_step.queue) (simp add: sem_locked_def a_def entered_def)
  from limiter_reach.step[OF 1 this] show ?thesis
    by (simp add: a_def entered_def busy_limiter_def)
qed

theorem limiter_bounds_calls_witness: "lm_in_flight busy_limiter = 1 \<and> lm_waiting busy_limiter > 0"
  using limiter_bounds_calls[OF busy_limiter_reached] by (simp add: busy_limiter_def)

end
