(* ===== verification/WorkerLifecycle.thy ===== *)
theory WorkerLifecycle
  imports ResearchGraph
begin

text \<open>
  A worker's hold on a run: \<open>app/workers/lifecycle.py\<close> and its implementation as conditional updates,
  \<open>app/db/repositories/worker.py\<close>.  The table is a list of rows; every statement is one atomic
  update of the rows its condition selects, at the moment \<open>now\<close> of the database's clock.
  The abstract lease automaton the statements implement follows the operations.
\<close>

section \<open>Rows\<close>

record RunFailure =
  rf_code :: string
  rf_message :: string

record RunProgress =
  rp_status :: RunStatus
  rp_progress :: real
  rp_iterations :: int
  rp_source_count :: int
  rp_claim_count :: int
  rp_contradiction_count :: int
  rp_tokens :: int
  rp_cost_usd :: real

text \<open>The columns of \<open>research_runs\<close> the worker reads or writes.\<close>

record ResearchRunRow =
  rw_id :: uuid
  rw_status :: RunStatus
  rw_progress :: real
  rw_langgraph_thread_id :: "uuid option"
  rw_attempts :: int
  rw_worker_id :: "string option"
  rw_heartbeat_at :: "datetime option"
  rw_next_attempt_at :: "datetime option"
  rw_last_queued_at :: "datetime option"
  rw_iteration_count :: int
  rw_total_cost_usd :: real
  rw_total_tokens :: int
  rw_source_count :: int
  rw_claim_count :: int
  rw_contradiction_count :: int
  rw_coverage_caveat :: "string option"
  rw_error :: "RunFailure option"
  rw_created_at :: datetime
  rw_started_at :: "datetime option"
  rw_completed_at :: "datetime option"
  rw_updated_at :: datetime

record Lease =
  le_run :: ResearchRunRow
  le_worker_id :: string
  le_attempt :: int

definition IN_FLIGHT_STATUSES :: "RunStatus list" where
  "IN_FLIGHT_STATUSES =
     filter (\<lambda>s. \<not> RunStatus_is_terminal s \<and> s \<notin> {RunStatus.QUEUED, RunStatus.PAUSED}) RunStatus_members"

definition in_flight :: "RunStatus \<Rightarrow> bool" where
  "in_flight s \<longleftrightarrow> s \<in> set IN_FLIGHT_STATUSES"

definition CLAIMED_STATUS :: RunStatus where "CLAIMED_STATUS = RunStatus.PLANNING"

text \<open>\<open>dt.timedelta(seconds=x)\<close> in microseconds, and a column \<open>Numeric(p, n)\<close>.\<close>

definition timedelta :: "real \<Rightarrow> int" where
  "timedelta seconds = round_half_even (seconds * 1000000)"

definition ago :: "datetime \<Rightarrow> real \<Rightarrow> datetime" where
  "ago now seconds = now - timedelta seconds"

definition ahead :: "datetime \<Rightarrow> real \<Rightarrow> datetime" where
  "ahead now seconds = now + timedelta seconds"

definition numeric_scale :: "nat \<Rightarrow> real \<Rightarrow> real" where
  "numeric_scale n x = sgn x * of_int \<lfloor>\<bar>x\<bar> * 10 ^ n + 1/2\<rfloor> / 10 ^ n"

text \<open>A comparison with a column that may be null, in a disjunction with \<open>IS NULL\<close>.\<close>

definition null_or_before :: "datetime option \<Rightarrow> datetime \<Rightarrow> bool" where
  "null_or_before t d = (case t of None \<Rightarrow> True | Some x \<Rightarrow> x \<le> d)"

section \<open>Statements\<close>

definition update_rows ::
  "(ResearchRunRow \<Rightarrow> bool) \<Rightarrow> (ResearchRunRow \<Rightarrow> ResearchRunRow) \<Rightarrow> ResearchRunRow list
     \<Rightarrow> ResearchRunRow list \<times> ResearchRunRow list" where
  "update_rows P f t = (map f (filter P t), map (\<lambda>r. if P r then f r else r) t)"

definition claimable :: "datetime \<Rightarrow> real \<Rightarrow> ResearchRunRow \<Rightarrow> bool" where
  "claimable now lease_seconds r \<longleftrightarrow>
     rw_status r \<in> {RunStatus.QUEUED, RunStatus.PAUSED} \<and> null_or_before (rw_next_attempt_at r) now
     \<or> in_flight (rw_status r) \<and> null_or_before (rw_heartbeat_at r) (ago now lease_seconds)"

definition claimed :: "datetime \<Rightarrow> string \<Rightarrow> ResearchRunRow \<Rightarrow> ResearchRunRow" where
  "claimed now worker_id r =
     r\<lparr>rw_status := CLAIMED_STATUS, rw_attempts := rw_attempts r + 1, rw_worker_id := Some worker_id,
       rw_heartbeat_at := Some now, rw_next_attempt_at := None,
       rw_started_at := (case rw_started_at r of None \<Rightarrow> Some now | Some s \<Rightarrow> Some s),
       rw_langgraph_thread_id := Some (rw_id r), rw_error := None, rw_updated_at := now\<rparr>"

definition claim ::
  "datetime \<Rightarrow> real \<Rightarrow> string \<Rightarrow> uuid \<Rightarrow> ResearchRunRow list \<Rightarrow> Lease option \<times> ResearchRunRow list" where
  "claim now lease_seconds worker_id run_id t =
     (let (rows, t') = update_rows (\<lambda>r. rw_id r = run_id \<and> claimable now lease_seconds r) (claimed now worker_id) t
      in (case rows of
            [] \<Rightarrow> None
          | r # _ \<Rightarrow> Some \<lparr>le_run = r, le_worker_id = worker_id, le_attempt = rw_attempts r\<rparr>, t'))"

definition held :: "string \<Rightarrow> ResearchRunRow \<Rightarrow> bool" where
  "held worker_id r \<longleftrightarrow> rw_worker_id r = Some worker_id \<and> \<not> RunStatus_is_terminal (rw_status r)"

definition apply_held ::
  "uuid \<Rightarrow> string \<Rightarrow> (ResearchRunRow \<Rightarrow> ResearchRunRow) \<Rightarrow> ResearchRunRow list \<Rightarrow> bool \<times> ResearchRunRow list" where
  "apply_held run_id worker_id f t =
     (let (rows, t') = update_rows (\<lambda>r. rw_id r = run_id \<and> held worker_id r) f t in (rows \<noteq> [], t'))"

definition advanced_row :: "datetime \<Rightarrow> RunProgress \<Rightarrow> ResearchRunRow \<Rightarrow> ResearchRunRow" where
  "advanced_row now p r =
     r\<lparr>rw_status := rp_status p, rw_progress := numeric_scale 2 (rp_progress p), rw_heartbeat_at := Some now,
       rw_iteration_count := rp_iterations p, rw_source_count := rp_source_count p,
       rw_claim_count := rp_claim_count p, rw_contradiction_count := rp_contradiction_count p,
       rw_total_tokens := rp_tokens p, rw_total_cost_usd := numeric_scale 4 (rp_cost_usd p),
       rw_updated_at := now\<rparr>"

definition advance where
  "advance now worker_id p run_id t = apply_held run_id worker_id (advanced_row now p) t"

definition finished_row ::
  "datetime \<Rightarrow> RunStatus \<Rightarrow> real option \<Rightarrow> string option \<Rightarrow> RunFailure option \<Rightarrow> ResearchRunRow \<Rightarrow> ResearchRunRow" where
  "finished_row now status progress caveat error r =
     (let r1 = r\<lparr>rw_status := status, rw_completed_at := Some now, rw_worker_id := None,
                 rw_heartbeat_at := None, rw_next_attempt_at := None, rw_error := error, rw_updated_at := now\<rparr>;
          r2 = (case progress of None \<Rightarrow> r1 | Some x \<Rightarrow> r1\<lparr>rw_progress := numeric_scale 2 x\<rparr>)
      in case caveat of None \<Rightarrow> r2 | Some c \<Rightarrow> r2\<lparr>rw_coverage_caveat := Some c\<rparr>)"

definition finish where
  "finish now worker_id status progress caveat error run_id t =
     apply_held run_id worker_id (finished_row now status progress caveat error) t"

definition released_row ::
  "datetime \<Rightarrow> real option \<Rightarrow> bool \<Rightarrow> RunFailure option \<Rightarrow> ResearchRunRow \<Rightarrow> ResearchRunRow" where
  "released_row now retry_in refund error r =
     (let r1 = r\<lparr>rw_status := RunStatus.PAUSED, rw_worker_id := None, rw_heartbeat_at := None,
                 rw_next_attempt_at := map_option (ahead now) retry_in, rw_error := error, rw_updated_at := now\<rparr>
      in if refund then r1\<lparr>rw_attempts := max (rw_attempts r - 1) 0\<rparr> else r1)"

definition release where
  "release now worker_id retry_in refund error run_id t =
     apply_held run_id worker_id (released_row now retry_in refund error) t"

section \<open>The sweep\<close>

definition not_already_queued :: "datetime \<Rightarrow> ResearchRunRow \<Rightarrow> bool" where
  "not_already_queued forgotten r =
     (case rw_last_queued_at r of None \<Rightarrow> True | Some q \<Rightarrow> q \<le> rw_updated_at r \<or> q \<le> forgotten)"

definition sweep_due :: "datetime \<Rightarrow> real \<Rightarrow> real \<Rightarrow> ResearchRunRow \<Rightarrow> bool" where
  "sweep_due now lease_seconds grace r \<longleftrightarrow>
     (rw_status r = RunStatus.QUEUED \<and> rw_created_at r \<le> ago now grace
      \<or> rw_status r = RunStatus.PAUSED \<and> null_or_before (rw_next_attempt_at r) now
      \<or> in_flight (rw_status r) \<and> null_or_before (rw_heartbeat_at r) (ago now lease_seconds))
     \<and> not_already_queued (ago now grace) r"

definition due ::
  "datetime \<Rightarrow> real \<Rightarrow> real \<Rightarrow> nat \<Rightarrow> ResearchRunRow list \<Rightarrow> uuid list \<times> ResearchRunRow list" where
  "due now lease_seconds grace limit t =
     (let selected = map rw_id (take limit (sort_key rw_created_at (filter (sweep_due now lease_seconds grace) t)));
          (rows, t') = update_rows (\<lambda>r. rw_id r \<in> set selected) (\<lambda>r. r\<lparr>rw_last_queued_at := Some now\<rparr>) t
      in (map rw_id rows, t'))"

section \<open>A user's cancellation\<close>

text \<open>
  \<open>ResearchService.cancel\<close> with \<open>ResearchRepository.update\<close>.  The run is \<open>seen\<close> and checked first; later
  the session loads its row again (\<open>loaded\<close>) and every column of the DTO is assigned to it.  The flush
  writes the columns whose assigned value differs from the loaded one, with no condition on the
  status: whatever other transactions wrote in between, before or after the row was loaded, may be
  overwritten with what was seen.
\<close>

definition cancel_check :: "ResearchRunRow \<Rightarrow> bool" where
  "cancel_check r = RunStatus_is_cancellable (rw_status r)"

definition flushed :: "(ResearchRunRow \<Rightarrow> 'c) \<Rightarrow> 'c \<Rightarrow> ResearchRunRow \<Rightarrow> ResearchRunRow \<Rightarrow> 'c" where
  "flushed column value loaded r = (if value = column loaded then column r else value)"

definition cancelled_row ::
  "datetime \<Rightarrow> datetime \<Rightarrow> ResearchRunRow \<Rightarrow> ResearchRunRow \<Rightarrow> ResearchRunRow \<Rightarrow> ResearchRunRow" where
  "cancelled_row now api_now seen loaded r =
     r\<lparr>rw_status := flushed rw_status RunStatus.CANCELLED loaded r,
       rw_progress := flushed rw_progress (rw_progress seen) loaded r,
       rw_iteration_count := flushed rw_iteration_count (rw_iteration_count seen) loaded r,
       rw_total_cost_usd := flushed rw_total_cost_usd (rw_total_cost_usd seen) loaded r,
       rw_total_tokens := flushed rw_total_tokens (rw_total_tokens seen) loaded r,
       rw_source_count := flushed rw_source_count (rw_source_count seen) loaded r,
       rw_claim_count := flushed rw_claim_count (rw_claim_count seen) loaded r,
       rw_contradiction_count := flushed rw_contradiction_count (rw_contradiction_count seen) loaded r,
       rw_coverage_caveat := flushed rw_coverage_caveat (rw_coverage_caveat seen) loaded r,
       rw_started_at := flushed rw_started_at (rw_started_at seen) loaded r,
       rw_completed_at := flushed rw_completed_at (Some api_now) loaded r,
       rw_error := flushed rw_error (rw_error seen) loaded r,
       rw_updated_at := now\<rparr>"

section \<open>The abstract lease\<close>

text \<open>
  What the statements implement: a run is free (from some moment on), held by one worker that was
  last heard of at some moment, or over.
\<close>

datatype lease_state =
    Free "datetime option"
  | Held string "datetime option"
  | Over RunStatus

fun may_take :: "datetime \<Rightarrow> real \<Rightarrow> lease_state \<Rightarrow> bool" where
  "may_take now lease_seconds (Free t) = null_or_before t now"
| "may_take now lease_seconds (Held w h) = null_or_before h (ago now lease_seconds)"
| "may_take now lease_seconds (Over s) = False"

fun holds :: "string \<Rightarrow> lease_state \<Rightarrow> bool" where
  "holds w (Held w' h) = (w = w')"
| "holds w s = False"

definition lease_of :: "ResearchRunRow \<Rightarrow> lease_state" where
  "lease_of r =
     (if in_flight (rw_status r) then Held (the (rw_worker_id r)) (rw_heartbeat_at r)
      else if RunStatus_is_terminal (rw_status r) then Over (rw_status r)
      else Free (rw_next_attempt_at r))"

definition row_ok :: "ResearchRunRow \<Rightarrow> bool" where
  "row_ok r \<longleftrightarrow>
     0 \<le> rw_attempts r
     \<and> (if in_flight (rw_status r)
        then rw_worker_id r \<noteq> None \<and> rw_heartbeat_at r \<noteq> None \<and> rw_next_attempt_at r = None
        else rw_status r = RunStatus.CANCELLED \<or> rw_worker_id r = None)"

lemma in_flight_simps [simp]:
  "in_flight RunStatus.PLANNING" "in_flight RunStatus.RESEARCHING" "in_flight RunStatus.VERIFYING"
  "in_flight RunStatus.SYNTHESIZING" "in_flight RunStatus.VALIDATING"
  "\<not> in_flight RunStatus.QUEUED" "\<not> in_flight RunStatus.PAUSED"
  "\<not> in_flight RunStatus.COMPLETED" "\<not> in_flight RunStatus.FAILED" "\<not> in_flight RunStatus.CANCELLED"
  by (simp_all add: in_flight_def IN_FLIGHT_STATUSES_def RunStatus_members_def
      RunStatus_is_terminal_def terminal_statuses_def)

lemma terminal_simps [simp]:
  "RunStatus_is_terminal RunStatus.COMPLETED" "RunStatus_is_terminal RunStatus.FAILED"
  "RunStatus_is_terminal RunStatus.CANCELLED" "\<not> RunStatus_is_terminal RunStatus.QUEUED"
  "\<not> RunStatus_is_terminal RunStatus.PAUSED" "\<not> RunStatus_is_terminal RunStatus.PLANNING"
  by (simp_all add: RunStatus_is_terminal_def terminal_statuses_def)

lemma status_kinds: "in_flight s \<or> RunStatus_is_terminal s \<or> s \<in> {RunStatus.QUEUED, RunStatus.PAUSED}"
  by (cases s) (simp_all add: RunStatus_is_terminal_def terminal_statuses_def)

lemma in_flight_not_terminal: "in_flight s \<Longrightarrow> \<not> RunStatus_is_terminal s"
  by (cases s) (simp_all add: RunStatus_is_terminal_def terminal_statuses_def)

lemma claimable_lease: "row_ok r \<Longrightarrow> claimable now l r = may_take now l (lease_of r)"
  by (cases "rw_status r") (auto simp: claimable_def lease_of_def RunStatus_is_terminal_def terminal_statuses_def)

lemma held_lease: "row_ok r \<Longrightarrow> held w r = holds w (lease_of r)"
  by (cases "rw_status r") (auto simp: held_def lease_of_def row_ok_def RunStatus_is_terminal_def terminal_statuses_def)

text \<open>Each statement on the row it changes is the transition of the lease, and keeps the row well formed.\<close>

lemma claimed_lease:
  "row_ok r \<Longrightarrow> lease_of (claimed now w r) = Held w (Some now) \<and> row_ok (claimed now w r)"
  by (auto simp: claimed_def lease_of_def row_ok_def CLAIMED_STATUS_def)

lemma advanced_lease:
  "row_ok r \<Longrightarrow> held w r \<Longrightarrow> in_flight (rp_status p) \<Longrightarrow>
     lease_of (advanced_row now p r) = Held w (Some now) \<and> row_ok (advanced_row now p r)"
  by (cases "rw_status r")
     (auto simp: advanced_row_def lease_of_def row_ok_def held_def RunStatus_is_terminal_def terminal_statuses_def)

lemma finished_lease:
  "row_ok r \<Longrightarrow> RunStatus_is_terminal s \<Longrightarrow>
     lease_of (finished_row now s p c e r) = Over s \<and> row_ok (finished_row now s p c e r)"
  by (auto simp: finished_row_def lease_of_def row_ok_def Let_def dest: in_flight_not_terminal split: option.splits)

lemma released_lease:
  "row_ok r \<Longrightarrow>
     lease_of (released_row now retry refund e r) = Free (map_option (ahead now) retry)
     \<and> row_ok (released_row now retry refund e r)"
  by (auto simp: released_row_def lease_of_def row_ok_def Let_def)

lemma cancelled_lease:
  "row_ok r \<Longrightarrow>
     lease_of (cancelled_row now t seen loaded r)
       = (if rw_status loaded = RunStatus.CANCELLED then lease_of r else Over RunStatus.CANCELLED)
     \<and> row_ok (cancelled_row now t seen loaded r)"
  by (auto simp: cancelled_row_def flushed_def lease_of_def row_ok_def)

end
