(* ===== verification/WorkerLeases.thy ===== *)
theory WorkerLeases
  imports WorkerLifecycle
begin

text \<open>
  Traces of lifecycle statements by many workers against the table, and their refinement to the
  abstract lease: what a worker that lost a run can still do to it, and which runs the sweep finds.
\<close>

section \<open>Operations as data\<close>

datatype lifecycle_op =
    Claim string
  | Advance string RunProgress
  | Finish string RunStatus "real option" "string option" "RunFailure option"
  | Release string "real option" bool "RunFailure option"
  | CancelRead
  | CancelWrite datetime ResearchRunRow ResearchRunRow

fun op_worker :: "lifecycle_op \<Rightarrow> string option" where
  "op_worker (Claim w) = Some w"
| "op_worker (Advance w p) = Some w"
| "op_worker (Finish w s p c e) = Some w"
| "op_worker (Release w t b e) = Some w"
| "op_worker CancelRead = None"
| "op_worker (CancelWrite t seen loaded) = None"

fun is_claim :: "lifecycle_op \<Rightarrow> bool" where
  "is_claim (Claim w) = True"
| "is_claim _ = False"

text \<open>The statuses the executor passes: a node's phase while running, a terminal one at the end.\<close>

fun op_ok :: "lifecycle_op \<Rightarrow> bool" where
  "op_ok (Advance w p) = in_flight (rp_status p)"
| "op_ok (Finish w s p c e) = RunStatus_is_terminal s"
| "op_ok _ = True"

fun row_op :: "real \<Rightarrow> datetime \<Rightarrow> lifecycle_op \<Rightarrow> ResearchRunRow \<Rightarrow> ResearchRunRow option" where
  "row_op l now (Claim w) r = (if claimable now l r then Some (claimed now w r) else None)"
| "row_op l now (Advance w p) r = (if held w r then Some (advanced_row now p r) else None)"
| "row_op l now (Finish w s p c e) r = (if held w r then Some (finished_row now s p c e r) else None)"
| "row_op l now (Release w t b e) r = (if held w r then Some (released_row now t b e r) else None)"
| "row_op l now CancelRead r = (if cancel_check r then Some r else None)"
| "row_op l now (CancelWrite t seen loaded) r = Some (cancelled_row now t seen loaded r)"

fun table_op ::
  "real \<Rightarrow> uuid \<Rightarrow> datetime \<Rightarrow> lifecycle_op \<Rightarrow> ResearchRunRow list \<Rightarrow> bool \<times> ResearchRunRow list" where
  "table_op l u now (Claim w) t = (case claim now l w u t of (lease, t') \<Rightarrow> (lease \<noteq> None, t'))"
| "table_op l u now (Advance w p) t = advance now w p u t"
| "table_op l u now (Finish w s p c e) t = finish now w s p c e u t"
| "table_op l u now (Release w d b e) t = release now w d b e u t"
| "table_op l u now CancelRead t = (list_ex (\<lambda>r. rw_id r = u \<and> cancel_check r) t, t)"
| "table_op l u now (CancelWrite d seen loaded) t =
     (let (rows, t') = update_rows (\<lambda>r. rw_id r = u) (cancelled_row now d seen loaded) t in (rows \<noteq> [], t'))"

fun lease_step :: "real \<Rightarrow> datetime \<Rightarrow> lifecycle_op \<Rightarrow> lease_state \<Rightarrow> lease_state option" where
  "lease_step l now (Claim w) st = (if may_take now l st then Some (Held w (Some now)) else None)"
| "lease_step l now (Advance w p) st = (if holds w st then Some (Held w (Some now)) else None)"
| "lease_step l now (Finish w s p c e) st = (if holds w st then Some (Over s) else None)"
| "lease_step l now (Release w t b e) st =
     (if holds w st then Some (Free (map_option (ahead now) t)) else None)"
| "lease_step l now CancelRead st = (case st of Over s \<Rightarrow> None | _ \<Rightarrow> Some st)"
| "lease_step l now (CancelWrite t seen loaded) st =
     Some (if rw_status loaded = RunStatus.CANCELLED then st else Over RunStatus.CANCELLED)"

lemma row_op_refines:
  assumes "row_ok r" "op_ok op"
  shows "map_option lease_of (row_op l now op r) = lease_step l now op (lease_of r)"
    and "row_op l now op r = Some r' \<Longrightarrow> row_ok r' \<and> rw_id r' = rw_id r"
proof -
  show "map_option lease_of (row_op l now op r) = lease_step l now op (lease_of r)"
    using assms claimed_lease advanced_lease finished_lease released_lease cancelled_lease
    by (cases op) (auto simp: claimable_lease held_lease cancel_check_def RunStatus_is_cancellable_def
        lease_of_def dest: in_flight_not_terminal)
next
  assume r': "row_op l now op r = Some r'"
  have "rw_id r' = rw_id r" using r'
    by (cases op) (auto simp: claimed_def advanced_row_def finished_row_def released_row_def cancelled_row_def
        Let_def split: if_splits option.splits)
  moreover have "row_ok r'" using r' assms
    by (cases op) (auto split: if_splits simp: claimed_lease advanced_lease finished_lease released_lease cancelled_lease)
  ultimately show "row_ok r' \<and> rw_id r' = rw_id r" by simp
qed

section \<open>On the table\<close>

definition table_ok :: "ResearchRunRow list \<Rightarrow> bool" where
  "table_ok t \<longleftrightarrow> distinct (map rw_id t) \<and> (\<forall>r \<in> set t. row_ok r)"

definition row_at :: "ResearchRunRow list \<Rightarrow> uuid \<Rightarrow> ResearchRunRow option" where
  "row_at t u = find (\<lambda>r. rw_id r = u) t"

lemma row_at_iff: "distinct (map rw_id t) \<Longrightarrow> row_at t u = Some r \<longleftrightarrow> r \<in> set t \<and> rw_id r = u"
  by (induction t) (auto simp: row_at_def)

lemma row_at_None: "row_at t u = None \<longleftrightarrow> u \<notin> rw_id ` set t"
  by (auto simp: row_at_def find_None_iff image_iff)

text \<open>An operation's effect on each row of the table.\<close>

definition effect :: "real \<Rightarrow> uuid \<Rightarrow> datetime \<Rightarrow> lifecycle_op \<Rightarrow> ResearchRunRow \<Rightarrow> ResearchRunRow" where
  "effect l u now op r = (if rw_id r = u then (case row_op l now op r of None \<Rightarrow> r | Some r' \<Rightarrow> r') else r)"

lemma apply_held_result:
  "fst (apply_held u w f t) \<longleftrightarrow> (\<exists>r \<in> set t. rw_id r = u \<and> held w r)"
  "snd (apply_held u w f t) = map (\<lambda>r. if rw_id r = u \<and> held w r then f r else r) t"
  by (auto simp: apply_held_def update_rows_def filter_empty_conv)

lemma claim_result:
  "fst (claim now l w u t) = None \<longleftrightarrow> \<not> (\<exists>r \<in> set t. rw_id r = u \<and> claimable now l r)"
  "snd (claim now l w u t) = map (\<lambda>r. if rw_id r = u \<and> claimable now l r then claimed now w r else r) t"
proof -
  let ?c = "filter (\<lambda>r. rw_id r = u \<and> claimable now l r) t"
  have "fst (claim now l w u t) = None \<longleftrightarrow> ?c = []"
    by (cases ?c) (simp_all add: claim_def update_rows_def)
  then show "fst (claim now l w u t) = None \<longleftrightarrow> \<not> (\<exists>r \<in> set t. rw_id r = u \<and> claimable now l r)"
    by (simp add: filter_empty_conv)
  show "snd (claim now l w u t) = map (\<lambda>r. if rw_id r = u \<and> claimable now l r then claimed now w r else r) t"
    by (simp add: claim_def update_rows_def)
qed

lemma table_op_fst:
  "fst (table_op l u now op t) \<longleftrightarrow> (\<exists>r \<in> set t. rw_id r = u \<and> row_op l now op r \<noteq> None)"
proof (cases op)
  case (Claim w)
  then show ?thesis using claim_result(1)[of now l w u t] by (auto simp: split_beta)
qed (auto simp: advance_def finish_def release_def apply_held_result update_rows_def filter_empty_conv list_ex_iff)

lemma effect_read [simp]: "effect l u now CancelRead r = r"
  by (simp add: effect_def)

lemma table_op_snd: "snd (table_op l u now op t) = map (effect l u now op) t"
proof (cases op)
  case (Claim w)
  then show ?thesis using claim_result(2)[of now l w u t] by (auto simp: split_beta effect_def)
next
  case CancelRead
  then show ?thesis by (simp add: map_idI)
qed (auto simp: advance_def finish_def release_def apply_held_result update_rows_def effect_def)

lemma effect_keeps:
  assumes "row_ok r" "op_ok op"
  shows "row_ok (effect l u now op r) \<and> rw_id (effect l u now op r) = rw_id r"
proof (cases "row_op l now op r")
  case None
  then show ?thesis using assms by (simp add: effect_def)
next
  case (Some r')
  then show ?thesis using assms(1) row_op_refines(2)[OF assms Some] by (simp add: effect_def)
qed

lemma effect_ok: "row_ok r \<Longrightarrow> op_ok op \<Longrightarrow> row_ok (effect l u now op r)"
  and effect_id: "row_ok r \<Longrightarrow> op_ok op \<Longrightarrow> rw_id (effect l u now op r) = rw_id r"
  using effect_keeps by blast+

lemma table_op_ok:
  assumes "table_ok t" "op_ok op"
  shows "table_ok (snd (table_op l u now op t))"
proof -
  have "map rw_id (map (effect l u now op) t) = map rw_id t"
    using assms by (simp add: table_ok_def effect_id)
  then show ?thesis using assms effect_ok
    by (auto simp: table_op_snd table_ok_def simp del: map_map)
qed

lemma row_at_map:
  "\<forall>r \<in> set t. rw_id (f r) = rw_id r \<Longrightarrow> row_at (map f t) v = map_option f (row_at t v)"
  by (induction t) (auto simp: row_at_def)

lemma table_op_row_at:
  "table_ok t \<Longrightarrow> op_ok op \<Longrightarrow> row_at (snd (table_op l u now op t)) v = map_option (effect l u now op) (row_at t v)"
  by (simp add: table_op_snd table_ok_def effect_id row_at_map)

definition lease_at :: "ResearchRunRow list \<Rightarrow> uuid \<Rightarrow> lease_state option" where
  "lease_at t u = map_option lease_of (row_at t u)"

text \<open>The simulation: a statement reports success exactly when the lease allows it, and then makes its
  transition; it touches no other run.\<close>

lemma table_op_refines:
  assumes "table_ok t" "op_ok op" "lease_at t u = Some st"
  shows "fst (table_op l u now op t) \<longleftrightarrow> lease_step l now op st \<noteq> None"
    and "lease_at (snd (table_op l u now op t)) u = Some (case lease_step l now op st of None \<Rightarrow> st | Some st' \<Rightarrow> st')"
    and "v \<noteq> u \<Longrightarrow> row_at (snd (table_op l u now op t)) v = row_at t v"
proof -
  obtain r where r: "row_at t u = Some r" "lease_of r = st" using assms(3) by (auto simp: lease_at_def)
  then have rt: "r \<in> set t" "rw_id r = u" "row_ok r" using assms(1) by (auto simp: table_ok_def row_at_iff)
  note step = row_op_refines(1)[OF rt(3) assms(2), of l now, unfolded r(2)]
  have "(\<exists>r' \<in> set t. rw_id r' = u \<and> row_op l now op r' \<noteq> None) \<longleftrightarrow> row_op l now op r \<noteq> None"
    using rt assms(1) unfolding table_ok_def distinct_map inj_on_def by blast
  then show "fst (table_op l u now op t) \<longleftrightarrow> lease_step l now op st \<noteq> None"
    by (simp add: table_op_fst flip: step)
  show "lease_at (snd (table_op l u now op t)) u = Some (case lease_step l now op st of None \<Rightarrow> st | Some st' \<Rightarrow> st')"
    by (cases "row_op l now op r")
       (simp_all add: lease_at_def table_op_row_at[OF assms(1,2)] r(1) effect_def rt(2) r(2) flip: step)
  have "effect l u now op r' = r'" if "row_at t v = Some r'" "v \<noteq> u" for r'
    using that assms(1) by (auto simp: effect_def table_ok_def row_at_iff)
  then show "v \<noteq> u \<Longrightarrow> row_at (snd (table_op l u now op t)) v = row_at t v"
    by (cases "row_at t v") (simp_all add: table_op_row_at[OF assms(1,2)])
qed

section \<open>Traces\<close>

fun run_ops ::
  "real \<Rightarrow> uuid \<Rightarrow> (datetime \<times> lifecycle_op) list \<Rightarrow> ResearchRunRow list \<Rightarrow> bool list \<times> ResearchRunRow list" where
  "run_ops l u [] t = ([], t)"
| "run_ops l u ((now, op) # ops) t =
     (let (ok, t') = table_op l u now op t; (oks, t'') = run_ops l u ops t' in (ok # oks, t''))"

lemma table_op_failed: "\<not> fst (table_op l u now op t) \<Longrightarrow> snd (table_op l u now op t) = t"
  by (auto simp: table_op_fst table_op_snd effect_def intro!: map_idI)

lemma run_ops_ok:
  "table_ok t \<Longrightarrow> \<forall>(now, op) \<in> set ops. op_ok op \<Longrightarrow> table_ok (snd (run_ops l u ops t))"
proof (induction ops arbitrary: t)
  case (Cons q ops)
  obtain now op where q: "q = (now, op)" by fastforce
  have "table_ok (snd (table_op l u now op t))" using Cons.prems q by (intro table_op_ok) auto
  with Cons q show ?case by (auto simp: Let_def split_beta)
qed simp

text \<open>The lease does not belong to the worker: its writes fail, and others' do not give it back.\<close>

definition foreign :: "string \<Rightarrow> ResearchRunRow list \<Rightarrow> uuid \<Rightarrow> bool" where
  "foreign w t u \<longleftrightarrow> (\<forall>st. lease_at t u = Some st \<longrightarrow> \<not> holds w st)"

lemma lease_step_foreign:
  assumes "\<not> holds w st" "op \<noteq> Claim w" "lease_step l now op st = Some st'"
  shows "\<not> holds w st'" and "op_worker op \<noteq> Some w"
  using assms by (cases op; cases st; auto split: if_splits)+

lemma foreign_step:
  assumes "table_ok t" "op_ok op" "foreign w t u" "op \<noteq> Claim w"
  shows "foreign w (snd (table_op l u now op t)) u"
    and "op_worker op = Some w \<Longrightarrow> \<not> fst (table_op l u now op t)"
proof -
  have "foreign w (snd (table_op l u now op t)) u
      \<and> (op_worker op = Some w \<longrightarrow> \<not> fst (table_op l u now op t))"
  proof (cases "row_at t u")
    case None
    moreover from None have "\<not> fst (table_op l u now op t)"
      by (auto simp: table_op_fst row_at_None)
    ultimately show ?thesis
      by (simp add: foreign_def lease_at_def table_op_row_at[OF assms(1,2)])
  next
    case (Some r)
    then have st: "lease_at t u = Some (lease_of r)" by (simp add: lease_at_def)
    with assms(3) have nh: "\<not> holds w (lease_of r)" by (simp add: foreign_def)
    show ?thesis
      using table_op_refines(1,2)[OF assms(1,2) st, of l now] lease_step_foreign[OF nh assms(4)] nh
      by (auto simp: foreign_def split: option.splits)
  qed
  then show "foreign w (snd (table_op l u now op t)) u"
    and "op_worker op = Some w \<Longrightarrow> \<not> fst (table_op l u now op t)" by auto
qed

lemma foreign_writes_nothing:
  assumes "table_ok t" "\<forall>(now, op) \<in> set ops. op_ok op \<and> op \<noteq> Claim w" "foreign w t u"
  shows "snd (run_ops l u ops t) = snd (run_ops l u (filter (\<lambda>q. op_worker (snd q) \<noteq> Some w) ops) t)
    \<and> (\<forall>i < length ops. op_worker (snd (ops ! i)) = Some w \<longrightarrow> \<not> fst (run_ops l u ops t) ! i)"
  using assms
proof (induction ops arbitrary: t)
  case (Cons q ops)
  obtain now op where q: "q = (now, op)" by fastforce
  have op: "op_ok op" "op \<noteq> Claim w" using Cons.prems(2) q by auto
  note st = foreign_step[OF Cons.prems(1) op(1) Cons.prems(3) op(2), of l now]
  obtain ok t' where e: "table_op l u now op t = (ok, t')" by fastforce
  have t': "table_ok t'" using table_op_ok[OF Cons.prems(1) op(1), of l u now] e by simp
  have "foreign w t' u" using st(1) e by simp
  from Cons.IH[OF t' _ this] Cons.prems(2)
  have IH: "snd (run_ops l u ops t') = snd (run_ops l u (filter (\<lambda>q. op_worker (snd q) \<noteq> Some w) ops) t')"
    "\<forall>i < length ops. op_worker (snd (ops ! i)) = Some w \<longrightarrow> \<not> fst (run_ops l u ops t') ! i" by auto
  have "t' = t" if "op_worker op = Some w"
    using st(2)[OF that] table_op_failed[of l u now op t] e by simp
  with IH st(2) e show ?case
    by (auto simp: q Let_def split_beta nth_Cons split: nat.split)
qed simp

lemma claim_makes_foreign:
  assumes "table_ok t" "fst (table_op l u now (Claim b) t)" "a \<noteq> b"
  shows "foreign a (snd (table_op l u now (Claim b) t)) u"
proof -
  obtain r where r: "r \<in> set t" "rw_id r = u" using assms(2) unfolding table_op_fst by blast
  then have "row_at t u = Some r" using assms(1) by (simp add: table_ok_def row_at_iff)
  then have st: "lease_at t u = Some (lease_of r)" by (simp add: lease_at_def)
  show ?thesis
    using table_op_refines(1,2)[OF assms(1) _ st, of "Claim b" l now] assms(2,3)
    by (auto simp: foreign_def split: if_splits)
qed

section \<open>The sweep\<close>

text \<open>What the sweep selects can be claimed at once, by anybody.\<close>

lemma swept_is_claimable:
  "row_ok r \<Longrightarrow> sweep_due now l g r \<Longrightarrow> rw_status r \<noteq> RunStatus.QUEUED \<or> null_or_before (rw_next_attempt_at r) now
     \<Longrightarrow> claimable now l r"
  by (auto simp: sweep_due_def claimable_def)

text \<open>The sweep takes the oldest first: it leaves out no run that is due while at most \<open>limit\<close> of the due
  runs are as old as it is.\<close>

lemma take_of_sorted:
  assumes "sorted (map f xs)" "x \<in> set xs" "length (filter (\<lambda>y. f y \<le> f x) xs) \<le> n"
  shows "x \<in> set (take n xs)"
proof (rule ccontr)
  assume no: "x \<notin> set (take n xs)"
  obtain i where i: "i < length xs" "xs ! i = x" using assms(2) by (auto simp: in_set_conv_nth)
  with no have "n \<le> i" by (metis in_set_conv_nth length_take min_less_iff_conj not_le nth_take)
  have "f (xs ! j) \<le> f x" if "j \<le> i" for j
    using sorted_nth_mono[OF assms(1) that] i that by simp
  then have "\<forall>y \<in> set (take (Suc i) xs). f y \<le> f x" by (auto simp: in_set_conv_nth less_Suc_eq_le)
  then have "filter (\<lambda>y. f y \<le> f x) (take (Suc i) xs) = take (Suc i) xs" by simp
  then have "Suc i \<le> length (filter (\<lambda>y. f y \<le> f x) (take (Suc i) xs @ drop (Suc i) xs))"
    using i(1) unfolding filter_append by simp
  with assms(3) \<open>n \<le> i\<close> show False by simp
qed

lemma length_filter_sort_key: "length (filter P (sort_key f xs)) = length (filter P xs)"
  by (metis mset_filter mset_sort size_mset)

lemma due_complete:
  assumes "r \<in> set t" "sweep_due now l g r"
    and "length (filter (\<lambda>r'. sweep_due now l g r' \<and> rw_created_at r' \<le> rw_created_at r) t) \<le> limit"
  shows "rw_id r \<in> set (fst (due now l g limit t))"
proof -
  let ?d = "sort_key rw_created_at (filter (sweep_due now l g) t)"
  have "length (filter (\<lambda>r'. rw_created_at r' \<le> rw_created_at r) ?d) \<le> limit"
    using assms(3) by (simp add: length_filter_sort_key conj_commute)
  then have "r \<in> set (take limit ?d)" using assms by (intro take_of_sorted[where f = rw_created_at]) auto
  with assms(1) show ?thesis by (auto simp: due_def update_rows_def Let_def)
qed

text \<open>A run just dispatched is left alone until something happens to it or the grace period is over.\<close>

lemma dispatched_is_not_due:
  assumes "rw_last_queued_at r = Some q" "rw_updated_at r < q" "ago now g < q"
  shows "\<not> sweep_due now l g r"
  using assms by (auto simp: sweep_due_def not_already_queued_def)

end
