(* ===== verification/WorkerProgress.thy ===== *)
theory WorkerProgress
  imports WorkerLifecycle GraphRuns
begin

text \<open>
  \<open>app/workers/progress.py\<close>: the phase and the bar a run's row shows after each superstep of its
  graph, and what the steps of the graph do to the bar.
\<close>

section \<open>The phase and the bar\<close>

fun status_for :: "GraphNode \<Rightarrow> RunStatus" where
  "status_for GraphNode.PLANNER = RunStatus.PLANNING"
| "status_for GraphNode.RESEARCHER = RunStatus.RESEARCHING"
| "status_for GraphNode.EVIDENCE_EXTRACTOR = RunStatus.RESEARCHING"
| "status_for GraphNode.CLAIM_NORMALIZER = RunStatus.RESEARCHING"
| "status_for GraphNode.VERIFIER = RunStatus.VERIFYING"
| "status_for GraphNode.CONTRADICTION_CHECKER = RunStatus.VERIFYING"
| "status_for GraphNode.CRITIC = RunStatus.VERIFYING"
| "status_for GraphNode.ANSWERER = RunStatus.SYNTHESIZING"
| "status_for GraphNode.SYNTHESIZER = RunStatus.SYNTHESIZING"
| "status_for GraphNode.CITATION_VALIDATOR = RunStatus.VALIDATING"

text \<open>\<open>None\<close> is a node the table does not hold.\<close>

fun ROUND_OFFSET :: "GraphNode \<Rightarrow> real option" where
  "ROUND_OFFSET GraphNode.PLANNER = Some 0"
| "ROUND_OFFSET GraphNode.RESEARCHER = Some (35 / 100)"
| "ROUND_OFFSET GraphNode.EVIDENCE_EXTRACTOR = Some (55 / 100)"
| "ROUND_OFFSET GraphNode.CLAIM_NORMALIZER = Some (65 / 100)"
| "ROUND_OFFSET GraphNode.VERIFIER = Some (80 / 100)"
| "ROUND_OFFSET GraphNode.CONTRADICTION_CHECKER = Some (88 / 100)"
| "ROUND_OFFSET GraphNode.CRITIC = Some (95 / 100)"
| "ROUND_OFFSET _ = None"

definition DISCOVERY_FLOOR :: real where "DISCOVERY_FLOOR = 5 / 100"
definition DISCOVERY_CEILING :: real where "DISCOVERY_CEILING = 70 / 100"

fun WRITING_PROGRESS :: "GraphNode \<Rightarrow> real option" where
  "WRITING_PROGRESS GraphNode.ANSWERER = Some (74 / 100)"
| "WRITING_PROGRESS GraphNode.SYNTHESIZER = Some (85 / 100)"
| "WRITING_PROGRESS GraphNode.CITATION_VALIDATOR = Some (92 / 100)"
| "WRITING_PROGRESS _ = None"

definition NODE_ORDER :: "GraphNode list" where
  "NODE_ORDER =
     [GraphNode.PLANNER, GraphNode.RESEARCHER, GraphNode.EVIDENCE_EXTRACTOR, GraphNode.CLAIM_NORMALIZER,
      GraphNode.VERIFIER, GraphNode.CONTRADICTION_CHECKER, GraphNode.CRITIC, GraphNode.ANSWERER,
      GraphNode.SYNTHESIZER, GraphNode.CITATION_VALIDATOR]"

definition node_index :: "GraphNode \<Rightarrow> nat" where
  "node_index n = length (takeWhile (\<lambda>m. m \<noteq> n) NODE_ORDER)"

text \<open>\<open>max(nodes, key=...)\<close> keeps the first of the largest; no node is a \<open>ValueError\<close>.\<close>

fun furthest_from :: "GraphNode \<Rightarrow> GraphNode list \<Rightarrow> GraphNode" where
  "furthest_from best [] = best"
| "furthest_from best (n # ns) = furthest_from (if node_index best < node_index n then n else best) ns"

fun furthest :: "GraphNode list \<Rightarrow> GraphNode option" where
  "furthest [] = None"
| "furthest (n # ns) = Some (furthest_from n ns)"

definition in_order :: "GraphNode list \<Rightarrow> GraphNode list" where
  "in_order nodes = filter (\<lambda>n. n \<in> set nodes) NODE_ORDER"

definition progress_for :: "GraphNode \<Rightarrow> int \<Rightarrow> int \<Rightarrow> real" where
  "progress_for node iteration max_iterations =
     (case WRITING_PROGRESS node of
        Some w \<Rightarrow> w
      | None \<Rightarrow>
          (let rounds = max 1 max_iterations;
               position = (of_int (max 0 (iteration - 1)) + the (ROUND_OFFSET node)) / of_int rounds;
               span = DISCOVERY_CEILING - DISCOVERY_FLOOR
           in round_to 2 (min DISCOVERY_CEILING (DISCOVERY_FLOOR + span * position))))"

lemma NODE_ORDER_all: "n \<in> set NODE_ORDER" "distinct NODE_ORDER"
  by (cases n; simp add: NODE_ORDER_def) (simp add: NODE_ORDER_def)

lemma status_for_in_flight [simp]: "in_flight (status_for n)"
  by (cases n) simp_all

lemma in_order_set: "set (in_order nodes) = set nodes" "distinct (in_order nodes)"
  using NODE_ORDER_all by (auto simp: in_order_def)

lemma furthest_from_max:
  "furthest_from b ns \<in> set (b # ns) \<and> (\<forall>m \<in> set (b # ns). node_index m \<le> node_index (furthest_from b ns))"
  by (induction ns arbitrary: b) (auto, force+)

section \<open>The bar along a round\<close>

lemma round_pos: "(0::real) < of_int (max 1 (m::int))"
  by simp

lemma discovery_mono:
  assumes "x \<le> y"
  shows "round_to 2 (min DISCOVERY_CEILING (DISCOVERY_FLOOR + (DISCOVERY_CEILING - DISCOVERY_FLOOR) * (x / of_int (max 1 m))))
       \<le> round_to 2 (min DISCOVERY_CEILING (DISCOVERY_FLOOR + (DISCOVERY_CEILING - DISCOVERY_FLOOR) * (y / of_int (max 1 m))))"
proof -
  have "x / of_int (max 1 m) \<le> y / of_int (max 1 m)"
    using assms round_pos[of m] by (simp add: divide_right_mono)
  then have "(DISCOVERY_CEILING - DISCOVERY_FLOOR) * (x / of_int (max 1 m))
      \<le> (DISCOVERY_CEILING - DISCOVERY_FLOOR) * (y / of_int (max 1 m))"
    by (intro mult_left_mono) (simp_all add: DISCOVERY_CEILING_def DISCOVERY_FLOOR_def)
  then show ?thesis by (intro round_to_mono) auto
qed

lemma progress_discovery_mono:
  assumes "WRITING_PROGRESS n = None" "WRITING_PROGRESS n' = None"
    and "of_int (max 0 (i - 1)) + the (ROUND_OFFSET n) \<le> of_int (max 0 (i' - 1)) + the (ROUND_OFFSET n')"
  shows "progress_for n i m \<le> progress_for n' i' m"
  using discovery_mono[OF assms(3), of m] assms(1,2) by (simp add: progress_for_def Let_def)

lemma progress_discovery_ceiling:
  assumes "WRITING_PROGRESS n = None"
  shows "progress_for n i m \<le> 70 / 100"
proof -
  have "round_to 2 (min DISCOVERY_CEILING x) \<le> round_to 2 DISCOVERY_CEILING" for x
    by (rule round_to_mono) simp
  moreover have "round_to 2 DISCOVERY_CEILING = 70 / 100"
    using round_to_grid[of 2 70] by (simp add: DISCOVERY_CEILING_def)
  ultimately show ?thesis using assms by (simp add: progress_for_def Let_def)
qed

lemma progress_for_writing:
  "WRITING_PROGRESS n = None \<Longrightarrow> WRITING_PROGRESS n' = Some w \<Longrightarrow> progress_for n i m \<le> progress_for n' i' m"
  using progress_discovery_ceiling[of n i m] by (cases n') (auto simp: progress_for_def)

section \<open>The bar along the graph\<close>

text \<open>
  What the worker's row shows once the superstep from \<open>c\<close> has led to \<open>c'\<close>.  (The researchers of a
  fan-out are one superstep.)
\<close>

fun node_of :: "position \<Rightarrow> GraphNode" where
  "node_of (At n) = n"
| "node_of (Fanout sends) = GraphNode.RESEARCHER"
| "node_of p = GraphNode.PLANNER"

definition bar_after :: "config \<Rightarrow> config \<Rightarrow> real" where
  "bar_after c c' =
     progress_for (node_of (fst c)) (s_iteration (snd c')) (rb_max_iterations (s_budget (snd c')))"

fun raised :: "position \<Rightarrow> bool" where
  "raised (Failed err) = True"
| "raised _ = False"

lemma node_iteration:
  assumes inv: "config_inv mode (At n, s)" and ag: "agents_ok ag" and u: "run_node b e ag n s = Inr u"
  shows "s_iteration (apply_update s u) = s_iteration s
    \<or> n = GraphNode.PLANNER \<and> s_iteration (apply_update s u) = s_iteration s + 1"
proof -
  from inv have core: "core_inv s" by (simp add: config_inv_def)
  note clock = core_inv_clock[OF core]
  have it: "u_iteration u = None \<or> n = GraphNode.PLANNER \<and> u_iteration u = Some (s_iteration s + 1)"
  proof (cases n)
    case PLANNER
    with u planner_update[of b e ag s u, OF _ ag clock] show ?thesis by (auto simp: quiet_def)
  next
    case RESEARCHER
    with u show ?thesis by simp
  next
    case CRITIC
    with u critic_update[of b e ag s u, OF _ ag clock] show ?thesis by (auto simp: quiet_def)
  next
    case ANSWERER
    with u answerer_update[of b e ag s u, OF _ ag clock] show ?thesis by (auto simp: quiet_def)
  next
    case SYNTHESIZER
    with u synthesizer_update[of b e ag s u, OF _ ag clock] show ?thesis by (auto simp: quiet_def)
  next
    case CITATION_VALIDATOR
    with u validator_update[of b e ag s u, OF _ ag clock] show ?thesis by (auto simp: quiet_def)
  qed (use u run_node_processing[OF u ag clock] in \<open>auto simp: quiet_def\<close>)
  then show ?thesis by (auto simp: apply_update_fields)
qed

lemma fanout_iteration:
  assumes inv: "config_inv mode (Fanout sends, s)"
    and us: "list_all2 (\<lambda>a u. \<exists>ag probed. agents_ok ag \<and> researcher b probed ag a = Inr u) sends us"
      "mset us' = mset us"
  shows "s_iteration (foldl apply_update s us') = s_iteration s"
proof -
  from inv have core: "core_inv s"
    and allow: "list_all (\<lambda>a. 1 \<le> sa_source_allowance a) sends"
    and sum: "int (length (s_sources s)) + sum_list (map sa_source_allowance sends) \<le> rb_max_sources (s_budget s)"
    by (simp_all add: config_inv_def)
  from fanout_writes[OF us(1) allow us(2)] obtain sends' where perm: "mset sends' = mset sends"
    and w: "list_all2 researcher_write sends' us'" by blast
  have "sum_list (map sa_source_allowance sends') = sum_list (map sa_source_allowance sends)"
    by (metis perm mset_map sum_mset_sum_list)
  moreover have "\<forall>a \<in> set sends'. 0 \<le> sa_source_allowance a"
    using allow perm by (fastforce simp: list_all_iff dest!: mset_eq_setD)
  ultimately show ?thesis using researcher_writes_fold[OF core w] sum by simp
qed

text \<open>Where a step that does not raise leads.\<close>

definition leads :: "GraphNode \<Rightarrow> GraphNode list" where
  "leads n =
     (case n of
        GraphNode.PLANNER \<Rightarrow> [GraphNode.RESEARCHER, GraphNode.ANSWERER]
      | GraphNode.RESEARCHER \<Rightarrow> [GraphNode.EVIDENCE_EXTRACTOR]
      | GraphNode.EVIDENCE_EXTRACTOR \<Rightarrow> [GraphNode.CLAIM_NORMALIZER]
      | GraphNode.CLAIM_NORMALIZER \<Rightarrow> [GraphNode.VERIFIER, GraphNode.ANSWERER]
      | GraphNode.VERIFIER \<Rightarrow> [GraphNode.CONTRADICTION_CHECKER]
      | GraphNode.CONTRADICTION_CHECKER \<Rightarrow> [GraphNode.CRITIC]
      | GraphNode.CRITIC \<Rightarrow> [GraphNode.PLANNER, GraphNode.ANSWERER]
      | GraphNode.ANSWERER \<Rightarrow> [GraphNode.SYNTHESIZER]
      | GraphNode.SYNTHESIZER \<Rightarrow> [GraphNode.CITATION_VALIDATOR]
      | GraphNode.CITATION_VALIDATOR \<Rightarrow> [GraphNode.SYNTHESIZER])"

lemma next_position_leads:
  "next_position mode b n s = p \<Longrightarrow> p = Finished \<or> raised p \<or> node_of p \<in> set (leads n)"
  by (cases n)
     (auto simp: leads_def after_planner_def after_critic_def after_validation_def Let_def
       split: option.splits if_splits)

text \<open>Beyond the planner a round has been planned.\<close>

definition planned :: "config \<Rightarrow> bool" where
  "planned c \<longleftrightarrow>
     (case fst c of
        Fanout sends \<Rightarrow> 1 \<le> s_iteration (snd c)
      | At n \<Rightarrow> ROUND_OFFSET n \<noteq> None \<and> n \<noteq> GraphNode.PLANNER \<longrightarrow> 1 \<le> s_iteration (snd c)
      | _ \<Rightarrow> True)"

lemma after_planner_fanout: "after_planner b s = Fanout sends \<Longrightarrow> s_stop s = None"
  by (auto simp: after_planner_def stop_reason_def Let_def split: option.splits if_splits)

lemma after_planner_nodes: "after_planner b s = At n \<Longrightarrow> n = GraphNode.ANSWERER"
  by (auto simp: after_planner_def Let_def split: option.splits if_splits)

lemma superstep_progress:
  assumes "config_inv mode c" "planned c" "superstep mode b c c'" "\<not> raised (fst c')"
  shows "planned c'
    \<and> (fst c' = Finished \<or> node_of (fst c') \<in> set (leads (node_of (fst c))))
    \<and> (s_iteration (snd c') = s_iteration (snd c)
       \<or> fst c = At GraphNode.PLANNER \<and> s_iteration (snd c') = s_iteration (snd c) + 1)"
  using assms(3,1,2,4)
proof cases
  case (node ag e n s u s')
  have it: "s_iteration s' = s_iteration s \<or> n = GraphNode.PLANNER \<and> s_iteration s' = s_iteration s + 1"
    using node_iteration[of mode n s ag b e u] node assms(1) by simp
  have lead: "next_position mode b n s' = Finished \<or> node_of (next_position mode b n s') \<in> set (leads n)"
    using next_position_leads[of mode b n s'] node assms(4) by auto
  have "planned c'"
  proof (cases "n = GraphNode.PLANNER")
    case True
    have "s_stop s' \<noteq> None \<or> 1 \<le> s_iteration s'"
      using planner_update[of b e ag s u] core_inv_clock[of s] assms(1) node True
      by (auto simp: config_inv_def core_inv_def apply_update_fields keep_stop_def split: option.splits)
    with node True show ?thesis
      by (auto simp: planned_def dest: after_planner_fanout after_planner_nodes split: position.split)
  next
    case False
    then show ?thesis
      using node assms(2) it
      by (cases n) (auto simp: planned_def after_critic_def after_validation_def Let_def
          split: position.split option.splits if_splits)
  qed
  with it lead node show ?thesis by simp
next
  case (fanout sends us us' s' s)
  then show ?thesis
    using fanout_iteration[of mode sends s b us us'] assms(1,2)
    by (simp add: planned_def leads_def)
qed (use assms(4) in simp_all)

lemma bar_step:
  assumes inv: "config_inv mode c" "planned c"
    and steps: "superstep mode b c c'" "superstep mode b c' c''" "\<not> raised (fst c'')"
    and drop: "bar_after c' c'' < bar_after c c'"
  shows "fst c = At GraphNode.CITATION_VALIDATOR
    \<or> fst c' = At GraphNode.PLANNER \<and> s_iteration (snd c'') = s_iteration (snd c')"
proof (rule ccontr)
  assume no: "\<not> ?thesis"
  let ?n = "node_of (fst c)" and ?n' = "node_of (fst c')"
  have live: "\<not> raised (fst c')" "fst c' \<noteq> Finished"
    using steps(2) by (auto elim: superstep.cases)
  note one = superstep_progress[OF inv steps(1) live(1)]
  have inv': "config_inv mode c'" using superstep_inv[OF inv(1) steps(1)] by simp
  note two = superstep_progress[OF inv' _ steps(2,3)]
  have budget: "rb_max_iterations (s_budget (snd c'')) = rb_max_iterations (s_budget (snd c'))"
    using superstep_budget[OF steps(2)] by simp
  have lead: "?n' \<in> set (leads ?n)" using one live(2) by simp
  have at: "fst c = At ?n \<or> ?n = GraphNode.RESEARCHER" "fst c' = At ?n' \<or> ?n' = GraphNode.RESEARCHER"
    using steps(1,2) by (auto elim: superstep.cases)
  have it2: "s_iteration (snd c'') = s_iteration (snd c') + (if ?n' = GraphNode.PLANNER then 1 else 0)"
    using two one no at by auto
  have it1: "?n = GraphNode.CRITIC \<Longrightarrow> 1 \<le> s_iteration (snd c')"
    using inv(2) at(1) one by (cases "fst c") (auto simp: planned_def)
  have "bar_after c c' \<le> bar_after c' c''"
  proof (cases "WRITING_PROGRESS ?n")
    case None
    show ?thesis
    proof (cases "WRITING_PROGRESS ?n'")
      case None': None
      have "of_int (max 0 (s_iteration (snd c') - 1)) + the (ROUND_OFFSET ?n)
          \<le> (of_int (max 0 (s_iteration (snd c'') - 1)) + the (ROUND_OFFSET ?n') :: real)"
        using lead it1 it2 None None'
        by (cases ?n) (auto simp: leads_def max_def)
      from progress_discovery_mono[OF None None' this] show ?thesis by (simp add: bar_after_def budget)
    next
      case (Some w)
      from progress_for_writing[OF None this] show ?thesis by (simp add: bar_after_def budget)
    qed
  next
    case (Some w)
    then show ?thesis using lead no at
      by (cases ?n) (auto simp: leads_def bar_after_def progress_for_def)
  qed
  with drop show False by simp
qed

lemma run_planned:
  assumes "run_to mode b (start_of brief t) n c" "RunBrief_ok brief" "\<not> raised (fst c)"
  shows "planned c"
  using assms
proof (induction rule: run_to.induct)
  case start
  show ?case by (simp add: planned_def start_of_def)
next
  case (more n c c')
  have "\<not> raised (fst c)" using more.hyps(2) by (auto elim: superstep.cases)
  with more superstep_progress[of mode c b c'] run_from_start(1)[of mode b brief t n c] show ?case by blast
qed

end
