(* ===== verification/WorkerExecutor.thy ===== *)
theory WorkerExecutor
  imports WorkerLeases WorkerProgress
begin

text \<open>
  \<open>app/workers/worker.py\<close>: what a worker does with one claimed run, and the decision to retry or to
  give up; \<open>app/workers/queue.py\<close>, the queue.  The graph's result is a parameter: \<open>ResearchGraph\<close> says
  what it can be.
\<close>

section \<open>Settings\<close>

record WorkerSettings =
  ws_worker_concurrency :: int
  ws_worker_poll_seconds :: real
  ws_worker_max_attempts :: int
  ws_worker_retry_base_delay_seconds :: real
  ws_worker_retry_max_delay_seconds :: real
  ws_worker_lease_seconds :: int
  ws_worker_sweep_interval_seconds :: real
  ws_worker_queued_grace_seconds :: real
  ws_worker_sweep_batch :: int
  ws_worker_shutdown_grace_seconds :: real
  ws_graph_node_timeout_seconds :: real

definition check_worker_bounds :: "WorkerSettings \<Rightarrow> bool" where
  "check_worker_bounds s \<longleftrightarrow>
     1 \<le> ws_worker_concurrency s \<and> 1 \<le> ws_worker_max_attempts s \<and> 1 \<le> ws_worker_sweep_batch s
     \<and> 0 < ws_worker_poll_seconds s \<and> 0 < ws_worker_retry_base_delay_seconds s
     \<and> 0 < ws_worker_retry_max_delay_seconds s \<and> 0 < ws_worker_sweep_interval_seconds s
     \<and> 0 < ws_worker_queued_grace_seconds s \<and> 0 < ws_worker_shutdown_grace_seconds s
     \<and> ws_worker_retry_base_delay_seconds s \<le> ws_worker_retry_max_delay_seconds s
     \<and> 2 * ws_graph_node_timeout_seconds s \<le> of_int (ws_worker_lease_seconds s)"

section \<open>Failures\<close>

text \<open>The exceptions a graph run ends with: the graph's own classes, and everything else.\<close>

fun is_GraphError :: "graph_error \<Rightarrow> bool" where
  "is_GraphError PlanningFailed = True"
| "is_GraphError SynthesisFailed = True"
| "is_GraphError CitationValidationFailed = True"
| "is_GraphError NodeContractViolated = True"
| "is_GraphError _ = False"

fun GraphError_retryable :: "graph_error \<Rightarrow> bool" where
  "GraphError_retryable PlanningFailed = True"
| "GraphError_retryable SynthesisFailed = True"
| "GraphError_retryable CitationValidationFailed = True"
| "GraphError_retryable _ = False"

fun GraphError_code :: "graph_error \<Rightarrow> string" where
  "GraphError_code PlanningFailed = ''planning_failed''"
| "GraphError_code SynthesisFailed = ''synthesis_failed''"
| "GraphError_code CitationValidationFailed = ''citation_validation_failed''"
| "GraphError_code NodeContractViolated = ''node_contract_violated''"
| "GraphError_code _ = ''research_graph_failed''"

fun GraphError_message :: "graph_error \<Rightarrow> string" where
  "GraphError_message PlanningFailed = ''The research plan could not be created.''"
| "GraphError_message SynthesisFailed = ''The report could not be written.''"
| "GraphError_message CitationValidationFailed = ''The report's citations could not be checked.''"
| "GraphError_message NodeContractViolated = ''An internal error stopped the research workflow.''"
| "GraphError_message _ = ''The research workflow could not complete.''"

text \<open>\<open>None\<close> is an exception that is not the graph's: the database, the object store, the queue.\<close>

definition raised_retryable :: "graph_error option \<Rightarrow> bool" where
  "raised_retryable ex =
     (case ex of Some e \<Rightarrow> (if is_GraphError e then GraphError_retryable e else True) | None \<Rightarrow> True)"

definition as_failure :: "graph_error option \<Rightarrow> RunFailure" where
  "as_failure ex =
     (let internal = \<lparr>rf_code = ''worker_error'',
                      rf_message = ''The research run stopped because of an internal error.''\<rparr>
      in case ex of
           Some e \<Rightarrow> (if is_GraphError e then \<lparr>rf_code = GraphError_code e, rf_message = GraphError_message e\<rparr>
                      else internal)
         | None \<Rightarrow> internal)"

definition job_backoff :: "WorkerSettings \<Rightarrow> Lease \<Rightarrow> real" where
  "job_backoff s lease =
     (let delay = ws_worker_retry_base_delay_seconds s * 2 ^ nat (max 0 (le_attempt lease - 1));
          spread = 1 + of_nat (rw_id (le_run lease) mod 512) / 1024
      in min (delay * spread) (ws_worker_retry_max_delay_seconds s))"

lemma job_backoff_bounds:
  assumes "check_worker_bounds s"
  shows "ws_worker_retry_base_delay_seconds s \<le> job_backoff s lease"
    and "job_backoff s lease \<le> ws_worker_retry_max_delay_seconds s"
proof -
  let ?b = "ws_worker_retry_base_delay_seconds s"
  have b: "0 < ?b" using assms by (simp add: check_worker_bounds_def)
  have up: "?b * 1 \<le> ?b * 2 ^ nat (max 0 (le_attempt lease - 1))"
    using b by (intro mult_left_mono) auto
  have "(?b * 2 ^ nat (max 0 (le_attempt lease - 1))) * 1
      \<le> (?b * 2 ^ nat (max 0 (le_attempt lease - 1))) * (1 + of_nat (rw_id (le_run lease) mod 512) / 1024)"
    using b by (intro mult_left_mono) auto
  with up have "?b \<le> ?b * 2 ^ nat (max 0 (le_attempt lease - 1)) * (1 + of_nat (rw_id (le_run lease) mod 512) / 1024)"
    by (simp only: mult_1_right)
  then show "?b \<le> job_backoff s lease"
    using assms unfolding job_backoff_def Let_def check_worker_bounds_def min.bounded_iff by blast
  show "job_backoff s lease \<le> ws_worker_retry_max_delay_seconds s"
    by (simp add: job_backoff_def Let_def)
qed

section \<open>Node boundaries\<close>

definition tokens_of :: "ResearchState \<Rightarrow> int" where
  "tokens_of s = int (TokenCount_total (s_token_usage s))"

definition cost_of :: "ResearchState \<Rightarrow> real" where
  "cost_of s = ce_usd (s_estimated_cost s)"

definition run_progress :: "GraphNode \<Rightarrow> ResearchState \<Rightarrow> int \<Rightarrow> RunProgress" where
  "run_progress node s max_iterations =
     \<lparr>rp_status = status_for node,
      rp_progress = progress_for node (s_iteration s) max_iterations,
      rp_iterations = s_iteration s, rp_source_count = int (length (s_sources s)),
      rp_claim_count = int (length (s_claims s)), rp_contradiction_count = int (length (s_contradictions s)),
      rp_tokens = tokens_of s, rp_cost_usd = cost_of s\<rparr>"

text \<open>\<open>RunExecutor.advanced\<close>: whether the worker still holds the run (\<open>False\<close> raises \<open>LeaseLost\<close>).\<close>

definition step_advanced ::
  "datetime \<Rightarrow> Lease \<Rightarrow> int \<Rightarrow> GraphNode list \<Rightarrow> ResearchState \<Rightarrow> ResearchRunRow list \<Rightarrow> (bool \<times> ResearchRunRow list) option" where
  "step_advanced now lease max_iterations nodes s t =
     (case furthest nodes of
        None \<Rightarrow> None
      | Some node \<Rightarrow>
          Some (advance now (le_worker_id lease) (run_progress node s max_iterations) (rw_id (le_run lease)) t))"

section \<open>Outcomes\<close>

record Outcome =
  oc_run_id :: uuid
  oc_status :: "RunStatus option"
  oc_detail :: string

datatype emitted = EmitCancelled | EmitCompleted | EmitFailed string string bool

datatype graph_result =
    GraphReturned ResearchState
  | GraphLostLease
  | GraphRaised "graph_error option"

definition completed ::
  "datetime \<Rightarrow> Lease \<Rightarrow> ResearchState \<Rightarrow> ResearchRunRow list \<Rightarrow> (Outcome \<times> emitted list) \<times> ResearchRunRow list" where
  "completed now lease s t =
     (let cancelled = (stop_reason s = Some StopReason.CANCELLED);
          status = (if cancelled then RunStatus.CANCELLED else RunStatus.COMPLETED);
          u = rw_id (le_run lease);
          (_, t') = finish now (le_worker_id lease) status (if cancelled then None else Some 1)
                      (case s_stop s of None \<Rightarrow> None | Some st \<Rightarrow> sp_caveat st) None u t
      in ((\<lparr>oc_run_id = u, oc_status = Some status, oc_detail = RunStatus_value status\<rparr>,
           [if cancelled then EmitCancelled else EmitCompleted]), t'))"

definition failed ::
  "WorkerSettings \<Rightarrow> datetime \<Rightarrow> Lease \<Rightarrow> graph_error option \<Rightarrow> bool \<Rightarrow> ResearchRunRow list
     \<Rightarrow> (Outcome \<times> emitted list) \<times> ResearchRunRow list" where
  "failed settings now lease ex has_report t =
     (let failure = as_failure ex; u = rw_id (le_run lease); w = le_worker_id lease;
          attempts_left = ws_worker_max_attempts settings - le_attempt lease
      in if raised_retryable ex \<and> attempts_left > 0
         then (let (_, t') = release now w (Some (job_backoff settings lease)) False (Some failure) u t
               in ((\<lparr>oc_run_id = u, oc_status = Some RunStatus.PAUSED,
                     oc_detail = ''retrying after '' @ rf_code failure\<rparr>, []), t'))
         else (let (_, t') = finish now w RunStatus.FAILED None None (Some failure) u t
               in ((\<lparr>oc_run_id = u, oc_status = Some RunStatus.FAILED, oc_detail = rf_code failure\<rparr>,
                    [EmitFailed (rf_code failure) (rf_message failure) has_report]), t')))"

definition execute ::
  "WorkerSettings \<Rightarrow> datetime \<Rightarrow> Lease \<Rightarrow> graph_result \<Rightarrow> bool \<Rightarrow> ResearchRunRow list
     \<Rightarrow> (Outcome \<times> emitted list) \<times> ResearchRunRow list" where
  "execute settings now lease result has_report t =
     (case result of
        GraphLostLease \<Rightarrow>
          ((\<lparr>oc_run_id = rw_id (le_run lease), oc_status = None, oc_detail = ''no longer held''\<rparr>, []), t)
      | GraphRaised ex \<Rightarrow> failed settings now lease ex has_report t
      | GraphReturned s \<Rightarrow> completed now lease s t)"

text \<open>What it does to the table is one lifecycle operation of its own, or nothing.\<close>

definition outcome_op :: "WorkerSettings \<Rightarrow> Lease \<Rightarrow> graph_result \<Rightarrow> lifecycle_op option" where
  "outcome_op settings lease result =
     (case result of
        GraphLostLease \<Rightarrow> None
      | GraphRaised ex \<Rightarrow>
          Some (if raised_retryable ex \<and> ws_worker_max_attempts settings - le_attempt lease > 0
                then Release (le_worker_id lease) (Some (job_backoff settings lease)) False (Some (as_failure ex))
                else Finish (le_worker_id lease) RunStatus.FAILED None None (Some (as_failure ex)))
      | GraphReturned s \<Rightarrow>
          Some (if stop_reason s = Some StopReason.CANCELLED
                then Finish (le_worker_id lease) RunStatus.CANCELLED None
                       (case s_stop s of None \<Rightarrow> None | Some st \<Rightarrow> sp_caveat st) None
                else Finish (le_worker_id lease) RunStatus.COMPLETED (Some 1)
                       (case s_stop s of None \<Rightarrow> None | Some st \<Rightarrow> sp_caveat st) None))"

lemma execute_table:
  "snd (execute settings now lease result hr t) =
     (case outcome_op settings lease result of None \<Rightarrow> t
      | Some op \<Rightarrow> snd (table_op l (rw_id (le_run lease)) now op t))"
  by (cases result) (auto simp: execute_def outcome_op_def completed_def failed_def Let_def split_beta)

lemma outcome_op_ok: "outcome_op settings lease result = Some op \<Longrightarrow> op_ok op \<and> \<not> is_claim op"
  by (auto simp: outcome_op_def split: graph_result.splits if_splits)

section \<open>Attempts\<close>

text \<open>One delivery of a job: the claim, and the execution that follows it (or nothing).\<close>

definition deliver ::
  "WorkerSettings \<Rightarrow> uuid \<Rightarrow> datetime \<times> datetime \<times> string \<times> graph_result \<Rightarrow> ResearchRunRow list \<Rightarrow> ResearchRunRow list" where
  "deliver settings u d t =
     (case d of (now, ended, w, result) \<Rightarrow>
        (case claim now (of_int (ws_worker_lease_seconds settings)) w u t of
           (None, t') \<Rightarrow> t'
         | (Some lease, t') \<Rightarrow> snd (execute settings ended lease result False t')))"

definition run_at :: "ResearchRunRow list \<Rightarrow> uuid \<Rightarrow> ResearchRunRow \<Rightarrow> bool" where
  "run_at t u r \<longleftrightarrow> t = [r] \<and> rw_id r = u"

text \<open>The row of one run through a failed delivery.\<close>

lemma deliver_failing:
  assumes "row_ok r" "claimable now (of_int (ws_worker_lease_seconds s)) r"
  shows "deliver s (rw_id r) (now, ended, w, GraphRaised ex) [r] =
    (let c = claimed now w r; lease = \<lparr>le_run = c, le_worker_id = w, le_attempt = rw_attempts c\<rparr>
     in if raised_retryable ex \<and> rw_attempts r + 1 < ws_worker_max_attempts s
        then [released_row ended (Some (job_backoff s lease)) False (Some (as_failure ex)) c]
        else [finished_row ended RunStatus.FAILED None None (Some (as_failure ex)) c])"
  using assms
  by (simp add: deliver_def claim_def update_rows_def execute_def failed_def release_def finish_def
      apply_held_def held_def claimed_def CLAIMED_STATUS_def Let_def)

lemma deliver_terminal:
  "RunStatus_is_terminal (rw_status r) \<Longrightarrow> deliver s (rw_id r) d [r] = [r]"
  by (cases "rw_status r")
     (auto simp: deliver_def claim_def update_rows_def claimable_def RunStatus_is_terminal_def
       terminal_statuses_def split: prod.split)

text \<open>
  Deliveries of a run whose every execution raises, each one after the backoff of the one before:
  the run has failed for good after at most \<open>worker_max_attempts\<close> of them.
\<close>

fun spaced :: "real \<Rightarrow> datetime \<Rightarrow> (datetime \<times> datetime \<times> string \<times> graph_result) list \<Rightarrow> bool" where
  "spaced d t [] = True"
| "spaced d t ((now, ended, w, result) # ds) = (ahead t d \<le> now \<and> now \<le> ended \<and> spaced d ended ds)"

definition failing :: "datetime \<times> datetime \<times> string \<times> graph_result \<Rightarrow> bool" where
  "failing d = (case d of (now, ended, w, result) \<Rightarrow> (case result of GraphRaised ex \<Rightarrow> True | _ \<Rightarrow> False))"

lemma ahead_mono: "x \<le> y \<Longrightarrow> ahead t x \<le> ahead t y"
  by (simp add: ahead_def timedelta_def round_half_even_mono)

definition waiting :: "WorkerSettings \<Rightarrow> datetime \<Rightarrow> ResearchRunRow \<Rightarrow> bool" where
  "waiting s t r \<longleftrightarrow>
     row_ok r \<and> rw_status r \<in> {RunStatus.QUEUED, RunStatus.PAUSED}
     \<and> null_or_before (rw_next_attempt_at r) (ahead t (ws_worker_retry_max_delay_seconds s))"

lemma failing_runs_end:
  assumes "check_worker_bounds s" "waiting s t r" "rw_attempts r < ws_worker_max_attempts s"
    and "spaced (ws_worker_retry_max_delay_seconds s) t ds" "\<forall>d \<in> set ds. failing d"
    and "ws_worker_max_attempts s - rw_attempts r \<le> int (length ds)"
  shows "\<exists>r'. foldl (\<lambda>t d. deliver s (rw_id r) d t) [r] ds = [r'] \<and> rw_status r' = RunStatus.FAILED
    \<and> rw_error r' \<noteq> None \<and> rw_attempts r' \<le> ws_worker_max_attempts s"
  using assms
proof (induction ds arbitrary: t r)
  case Nil
  then show ?case by simp
next
  case (Cons d ds)
  obtain now ended w ex where d: "d = (now, ended, w, GraphRaised ex)"
    using Cons.prems(5) by (cases d) (auto simp: failing_def split: graph_result.splits)
  have sp: "ahead t (ws_worker_retry_max_delay_seconds s) \<le> now" "spaced (ws_worker_retry_max_delay_seconds s) ended ds"
    using Cons.prems(4) d by auto
  have ok: "row_ok r" and c: "claimable now (of_int (ws_worker_lease_seconds s)) r"
    using Cons.prems(2) sp(1)
    by (auto simp: waiting_def claimable_def null_or_before_def split: option.splits)
  define c' where "c' = claimed now w r"
  define lease where "lease = \<lparr>le_run = c', le_worker_id = w, le_attempt = rw_attempts c'\<rparr>"
  note step = deliver_failing[OF ok c, of ended w ex, folded c'_def, unfolded Let_def, folded lease_def]
  show ?case
  proof (cases "raised_retryable ex \<and> rw_attempts r + 1 < ws_worker_max_attempts s")
    case True
    let ?r = "released_row ended (Some (job_backoff s lease)) False (Some (as_failure ex)) c'"
    have fields: "rw_id ?r = rw_id r" "rw_attempts ?r = rw_attempts r + 1"
      by (simp_all add: released_row_def c'_def claimed_def Let_def)
    have "row_ok ?r" using released_lease claimed_lease[OF ok] by (auto simp: c'_def)
    moreover have "ahead ended (job_backoff s lease) \<le> ahead ended (ws_worker_retry_max_delay_seconds s)"
      by (intro ahead_mono job_backoff_bounds(2)[OF Cons.prems(1)])
    ultimately have "waiting s ended ?r"
      by (simp add: waiting_def released_row_def Let_def null_or_before_def)
    then have "\<exists>r'. foldl (\<lambda>t d. deliver s (rw_id ?r) d t) [?r] ds = [r'] \<and> rw_status r' = RunStatus.FAILED
      \<and> rw_error r' \<noteq> None \<and> rw_attempts r' \<le> ws_worker_max_attempts s"
      using Cons.prems True sp(2) fields by (intro Cons.IH[of ended ?r]) auto
    then show ?thesis using step True fields(1) by (simp add: d)
  next
    case False
    let ?r = "finished_row ended RunStatus.FAILED None None (Some (as_failure ex)) c'"
    have r: "rw_status ?r = RunStatus.FAILED" "rw_error ?r \<noteq> None" "rw_id ?r = rw_id r"
      "rw_attempts ?r = rw_attempts r + 1"
      by (simp_all add: finished_row_def c'_def claimed_def Let_def)
    have "foldl (\<lambda>t d. deliver s (rw_id r) d t) [?r] ds = [?r]"
      using deliver_terminal[of ?r s] r by (induction ds) simp_all
    moreover have "deliver s (rw_id r) d [r] = [?r]" using step False by (simp add: d)
    ultimately show ?thesis using r Cons.prems(3) by simp
  qed
qed

text \<open>
  A worker that dies in the middle executes nothing, and the ceiling is only looked at after an
  execution: such a run is claimed again whenever its lease has expired, without end.
\<close>

fun crashes :: "real \<Rightarrow> uuid \<Rightarrow> (datetime \<times> string) list \<Rightarrow> ResearchRunRow list \<Rightarrow> ResearchRunRow list" where
  "crashes l u [] t = t"
| "crashes l u ((now, w) # cs) t = crashes l u cs (snd (claim now l w u t))"

fun after_lease :: "real \<Rightarrow> datetime \<Rightarrow> (datetime \<times> string) list \<Rightarrow> bool" where
  "after_lease l t [] = True"
| "after_lease l t ((now, w) # cs) = (t \<le> ago now l \<and> after_lease l now cs)"

lemma crashing_run_is_claimed_forever:
  assumes "in_flight (rw_status r)" "rw_heartbeat_at r = Some t" "after_lease l t cs" "rw_id r = u"
  shows "\<exists>r'. crashes l u cs [r] = [r'] \<and> in_flight (rw_status r')
     \<and> rw_attempts r' = rw_attempts r + int (length cs)"
  using assms
proof (induction cs arbitrary: r t)
  case (Cons c cs)
  obtain now w where c: "c = (now, w)" by fastforce
  have "claimable now l r" using Cons.prems c by (simp add: claimable_def null_or_before_def)
  then have step: "snd (claim now l w u [r]) = [claimed now w r]"
    using Cons.prems(4) by (simp add: claim_def update_rows_def)
  have "\<exists>r'. crashes l u cs [claimed now w r] = [r'] \<and> in_flight (rw_status r')
     \<and> rw_attempts r' = rw_attempts (claimed now w r) + int (length cs)"
    using Cons.prems c by (intro Cons.IH[of _ now]) (simp_all add: claimed_def CLAIMED_STATUS_def)
  moreover have "rw_attempts (claimed now w r) = rw_attempts r + 1" by (simp add: claimed_def)
  moreover have "crashes l u (c # cs) [r] = crashes l u cs [claimed now w r]" by (simp only: c crashes.simps step)
  ultimately show ?case by (simp add: algebra_simps)
qed simp

text \<open>A worker that has lost its run still tells the client how it ended.\<close>

lemma lost_run_is_still_announced:
  assumes "foreign (le_worker_id lease) t (rw_id (le_run lease))" "table_ok t"
    and "\<not> (raised_retryable ex \<and> ws_worker_max_attempts s - le_attempt lease > 0)"
  shows "snd (execute s now lease (GraphRaised ex) hr t) = t
    \<and> snd (fst (execute s now lease (GraphRaised ex) hr t))
        = [EmitFailed (rf_code (as_failure ex)) (rf_message (as_failure ex)) hr]"
proof -
  let ?op = "Finish (le_worker_id lease) RunStatus.FAILED None None (Some (as_failure ex))"
  have "outcome_op s lease (GraphRaised ex) = Some ?op" using assms(3) by (auto simp: outcome_op_def)
  then have "snd (execute s now lease (GraphRaised ex) hr t) = snd (table_op 0 (rw_id (le_run lease)) now ?op t)"
    by (simp add: execute_table[where l = 0])
  moreover have "\<not> fst (table_op 0 (rw_id (le_run lease)) now ?op t)"
    using foreign_step(2)[OF assms(2) _ assms(1), of ?op 0 now] by simp
  ultimately have "snd (execute s now lease (GraphRaised ex) hr t) = t"
    using table_op_failed[of 0 "rw_id (le_run lease)" now ?op t] by metis
  then show ?thesis using assms(3) by (auto simp: execute_def failed_def Let_def split_beta)
qed

section \<open>The queue\<close>

type_synonym job_queue = "uuid list"

definition enqueue :: "uuid \<Rightarrow> job_queue \<Rightarrow> job_queue" where
  "enqueue run_id q = q @ [run_id]"

fun reserve :: "job_queue \<Rightarrow> uuid option \<times> job_queue" where
  "reserve [] = (None, [])"
| "reserve (run_id # q) = (Some run_id, q)"

definition depth :: "job_queue \<Rightarrow> nat" where
  "depth q = length q"

end
