(* ===== verification/WorkerLoop.thy ===== *)
theory WorkerLoop
  imports WorkerExecutor
begin

text \<open>
  \<open>app/workers/loop.py\<close>: one worker process as a transition system over its own state, the queue and
  the table.  The loop's coroutine and the tasks it starts interleave at their awaits; a transition
  is what happens between two of them.  The database and the queue may refuse any call.
\<close>

section \<open>State\<close>

text \<open>Where a job's task is: waiting for its claim, or executing what it claimed.\<close>

datatype phase = Claiming | Executing Lease

text \<open>Where the loop is: at its head, holding a slot for the job it waits for, draining, or returned.\<close>

datatype loop_at = Head | Reserving | Draining | Stopped

record ResearchWorker =
  rk_stopping :: bool
  rk_slots :: nat
  rk_tasks :: "(uuid \<times> phase) list"
  rk_held :: "(uuid \<times> Lease) list"
  rk_swept_at :: "datetime option"
  rk_loop :: loop_at

record system =
  sy_worker :: ResearchWorker
  sy_queue :: job_queue
  sy_table :: "ResearchRunRow list"

definition worker_init :: "WorkerSettings \<Rightarrow> ResearchWorker" where
  "worker_init s =
     \<lparr>rk_stopping = False, rk_slots = nat (ws_worker_concurrency s), rk_tasks = [], rk_held = [],
      rk_swept_at = None, rk_loop = Head\<rparr>"

definition busy :: "ResearchWorker \<Rightarrow> bool" where
  "busy k \<longleftrightarrow> rk_tasks k \<noteq> []"

definition active :: "ResearchWorker \<Rightarrow> nat" where
  "active k = length (rk_tasks k)"

section \<open>The loop\<close>

definition job_sweep_due :: "WorkerSettings \<Rightarrow> datetime \<Rightarrow> ResearchWorker \<Rightarrow> bool" where
  "job_sweep_due s now k \<longleftrightarrow>
     (case rk_swept_at k of None \<Rightarrow> True
      | Some t \<Rightarrow> ws_worker_sweep_interval_seconds s \<le> total_seconds (now - t))"

text \<open>\<open>reconcile\<close>: \<open>reachable\<close> says how many of the runs the queue took before it failed, if it did.\<close>

definition reconcile :: "WorkerSettings \<Rightarrow> datetime \<Rightarrow> bool \<Rightarrow> nat option \<Rightarrow> system \<Rightarrow> nat \<times> system" where
  "reconcile s now table_up queue_fails_after y =
     (if \<not> job_sweep_due s now (sy_worker y) then (0, y)
      else
        (let y1 = y\<lparr>sy_worker := (sy_worker y)\<lparr>rk_swept_at := Some now\<rparr>\<rparr>
         in if \<not> table_up then (0, y1)
            else
              (let (ids, t') = due now (of_int (ws_worker_lease_seconds s)) (ws_worker_queued_grace_seconds s)
                                 (nat (ws_worker_sweep_batch s)) (sy_table y1)
               in case queue_fails_after of
                    None \<Rightarrow> (length ids, y1\<lparr>sy_table := t', sy_queue := foldl (\<lambda>q i. enqueue i q) (sy_queue y1) ids\<rparr>)
                  | Some n \<Rightarrow>
                      (if n < length ids
                       then (0, y1\<lparr>sy_table := t',
                                   sy_queue := foldl (\<lambda>q i. enqueue i q) (sy_queue y1) (take n ids)\<rparr>)
                       else (length ids, y1\<lparr>sy_table := t',
                                   sy_queue := foldl (\<lambda>q i. enqueue i q) (sy_queue y1) ids\<rparr>)))))"

definition take_slot :: "ResearchWorker \<Rightarrow> bool \<times> ResearchWorker" where
  "take_slot k = (if rk_slots k = 0 then (False, k) else (True, k\<lparr>rk_slots := rk_slots k - 1, rk_loop := Reserving\<rparr>))"

definition release_slot :: "ResearchWorker \<Rightarrow> ResearchWorker" where
  "release_slot k = k\<lparr>rk_slots := rk_slots k + 1\<rparr>"

text \<open>\<open>_dispatch\<close> once the reserve has returned: an outage, no job in time, or a run.\<close>

definition dispatch :: "bool \<Rightarrow> system \<Rightarrow> system" where
  "dispatch queue_up y =
     (let k = (sy_worker y)\<lparr>rk_loop := Head\<rparr>
      in if \<not> queue_up then y\<lparr>sy_worker := release_slot k\<rparr>
         else case reserve (sy_queue y) of
           (None, q) \<Rightarrow> y\<lparr>sy_worker := release_slot k, sy_queue := q\<rparr>
         | (Some run_id, q) \<Rightarrow> y\<lparr>sy_worker := k\<lparr>rk_tasks := rk_tasks k @ [(run_id, Claiming)]\<rparr>, sy_queue := q\<rparr>)"

text \<open>\<open>_handle\<close>: its claim, the end of its execution, and the end of a task whose claim raised or that was cancelled.\<close>

definition end_task :: "nat \<Rightarrow> ResearchWorker \<Rightarrow> ResearchWorker" where
  "end_task i k = release_slot (k\<lparr>rk_tasks := take i (rk_tasks k) @ drop (Suc i) (rk_tasks k)\<rparr>)"

definition handle_claim :: "WorkerSettings \<Rightarrow> string \<Rightarrow> datetime \<Rightarrow> nat \<Rightarrow> uuid \<Rightarrow> system \<Rightarrow> system" where
  "handle_claim s w now i run_id y =
     (case claim now (of_int (ws_worker_lease_seconds s)) w run_id (sy_table y) of
        (None, t') \<Rightarrow> y\<lparr>sy_worker := end_task i (sy_worker y), sy_table := t'\<rparr>
      | (Some lease, t') \<Rightarrow>
          y\<lparr>sy_worker := (sy_worker y)\<lparr>rk_tasks := (rk_tasks (sy_worker y))[i := (run_id, Executing lease)],
                                       rk_held := AList.update run_id lease (rk_held (sy_worker y))\<rparr>,
            sy_table := t'\<rparr>)"

definition handle_done :: "nat \<Rightarrow> uuid \<Rightarrow> ResearchRunRow list \<Rightarrow> system \<Rightarrow> system" where
  "handle_done i run_id t' y =
     y\<lparr>sy_worker := end_task i ((sy_worker y)\<lparr>rk_held := AList.delete run_id (rk_held (sy_worker y))\<rparr>),
       sy_table := t'\<rparr>"

definition handle_cancelled :: "nat \<Rightarrow> system \<Rightarrow> system" where
  "handle_cancelled i y = y\<lparr>sy_worker := end_task i (sy_worker y)\<rparr>"

text \<open>\<open>_hand_back\<close>: the table refuses the release, the queue refuses the job, or neither does.\<close>

definition hand_back :: "string \<Rightarrow> datetime \<Rightarrow> bool \<Rightarrow> bool \<Rightarrow> uuid \<times> Lease \<Rightarrow> system \<Rightarrow> system" where
  "hand_back w now table_up queue_up h y =
     (if \<not> table_up then y
      else
        (let u = rw_id (le_run (snd h)); (released, t') = release now w None True None u (sy_table y)
         in y\<lparr>sy_table := t', sy_queue := (if released \<and> queue_up then enqueue u (sy_queue y) else sy_queue y)\<rparr>))"

inductive loop_step :: "WorkerSettings \<Rightarrow> string \<Rightarrow> system \<Rightarrow> system \<Rightarrow> bool" for s w where
  stop: "loop_step s w y (y\<lparr>sy_worker := (sy_worker y)\<lparr>rk_stopping := True\<rparr>\<rparr>)"
| turn: "rk_loop (sy_worker y) = Head \<Longrightarrow> \<not> rk_stopping (sy_worker y) \<Longrightarrow>
     y' = snd (reconcile s now table_up queue_fails_after y) \<Longrightarrow>
     loop_step s w y (y'\<lparr>sy_worker := snd (take_slot (sy_worker y'))\<rparr>)"
| reserved: "rk_loop (sy_worker y) = Reserving \<Longrightarrow> loop_step s w y (dispatch queue_up y)"
| claimed: "i < length (rk_tasks (sy_worker y)) \<Longrightarrow> rk_tasks (sy_worker y) ! i = (u, Claiming) \<Longrightarrow>
     loop_step s w y (handle_claim s w now i u y)"
| claim_failed: "i < length (rk_tasks (sy_worker y)) \<Longrightarrow> rk_tasks (sy_worker y) ! i = (u, Claiming) \<Longrightarrow>
     loop_step s w y (handle_cancelled i y)"
| executed: "i < length (rk_tasks (sy_worker y)) \<Longrightarrow> rk_tasks (sy_worker y) ! i = (u, Executing lease) \<Longrightarrow>
     t' = snd (execute s now lease result hr (sy_table y)) \<or> t' = sy_table y \<Longrightarrow>
     loop_step s w y (handle_done i u t' y)"
| drain: "rk_loop (sy_worker y) = Head \<Longrightarrow> rk_stopping (sy_worker y) \<Longrightarrow>
     loop_step s w y (y\<lparr>sy_worker := (sy_worker y)\<lparr>rk_loop := Draining\<rparr>\<rparr>)"
| cancelled: "rk_loop (sy_worker y) = Draining \<Longrightarrow> i < length (rk_tasks (sy_worker y)) \<Longrightarrow>
     loop_step s w y (handle_cancelled i y)"
| handed_back: "rk_loop (sy_worker y) = Draining \<Longrightarrow> rk_tasks (sy_worker y) = [] \<Longrightarrow>
     rk_held (sy_worker y) = h # hs \<Longrightarrow> y' = hand_back w now table_up queue_up h y \<Longrightarrow>
     loop_step s w y (y'\<lparr>sy_worker := (sy_worker y')\<lparr>rk_held := hs\<rparr>\<rparr>)"
| stopped: "rk_loop (sy_worker y) = Draining \<Longrightarrow> rk_tasks (sy_worker y) = [] \<Longrightarrow> rk_held (sy_worker y) = [] \<Longrightarrow>
     loop_step s w y (y\<lparr>sy_worker := (sy_worker y)\<lparr>rk_loop := Stopped\<rparr>\<rparr>)"
| others: "loop_step s w y (y\<lparr>sy_queue := q, sy_table := t\<rparr>)"

section \<open>What holds of every worker\<close>

text \<open>
  Every slot is free, with the loop, or with a task; a task that executes is held with its lease, or
  shares its run with another task of the same worker; nothing is held once the loop has returned.
\<close>

definition loop_inv :: "WorkerSettings \<Rightarrow> system \<Rightarrow> bool" where
  "loop_inv s y \<longleftrightarrow>
     (let k = sy_worker y
      in rk_slots k + length (rk_tasks k) + (if rk_loop k = Reserving then 1 else 0) = nat (ws_worker_concurrency s)
         \<and> distinct (map fst (rk_held k))
         \<and> (rk_loop k = Stopped \<longrightarrow> rk_tasks k = [] \<and> rk_held k = []))"

lemma reconcile_worker:
  "sy_worker (snd (reconcile s now up f y)) = sy_worker y
   \<or> sy_worker (snd (reconcile s now up f y)) = (sy_worker y)\<lparr>rk_swept_at := Some now\<rparr>"
  by (simp add: reconcile_def Let_def split_beta split: option.split)

lemma take_drop_length: "i < length xs \<Longrightarrow> Suc (length (take i xs @ drop (Suc i) xs)) = length xs"
  by simp

lemma distinct_delete: "distinct (map fst al) \<Longrightarrow> distinct (map fst (AList.delete k al))"
  by (simp add: distinct_delete)

lemma loop_step_inv: "loop_step s w y y' \<Longrightarrow> loop_inv s y \<Longrightarrow> loop_inv s y'"
proof (induction rule: loop_step.induct)
  case (turn y y' now table_up f)
  have "loop_inv s y'" "rk_loop (sy_worker y') = Head"
    using turn reconcile_worker[of s now table_up f y] by (auto simp: loop_inv_def Let_def)
  then show ?case by (auto simp: loop_inv_def take_slot_def Let_def)
next
  case (reserved y queue_up)
  then show ?case
    by (cases "sy_queue y") (auto simp: loop_inv_def dispatch_def release_slot_def Let_def)
next
  case (claimed i y u now)
  then have "rk_loop (sy_worker y) \<noteq> Stopped" by (auto simp: loop_inv_def Let_def)
  with claimed show ?case
    by (auto simp: loop_inv_def handle_claim_def end_task_def release_slot_def distinct_update Let_def
        split: prod.split option.split)
next
  case (claim_failed i y u)
  then show ?case
    by (auto simp: loop_inv_def handle_cancelled_def end_task_def release_slot_def Let_def)
next
  case (executed i y u lease t' now result hr)
  then have "rk_loop (sy_worker y) \<noteq> Stopped" by (auto simp: loop_inv_def Let_def)
  with executed show ?case
    by (auto simp: loop_inv_def handle_done_def end_task_def release_slot_def distinct_delete Let_def)
next
  case (cancelled y i)
  then show ?case
    by (auto simp: loop_inv_def handle_cancelled_def end_task_def release_slot_def Let_def)
next
  case (handed_back y h hs y' now table_up queue_up)
  then have "sy_worker y' = sy_worker y" by (simp add: hand_back_def Let_def split_beta)
  with handed_back show ?case by (auto simp: loop_inv_def Let_def)
qed (auto simp: loop_inv_def Let_def)

lemma init_inv: "loop_inv s \<lparr>sy_worker = worker_init s, sy_queue = q, sy_table = t\<rparr>"
  by (simp add: loop_inv_def worker_init_def)

lemma reachable_inv:
  "(loop_step s w)\<^sup>*\<^sup>* \<lparr>sy_worker = worker_init s, sy_queue = q, sy_table = t\<rparr> y \<Longrightarrow> loop_inv s y"
  by (induction rule: rtranclp_induct) (simp_all add: init_inv loop_step_inv)

text \<open>A run handed back is on the queue, free at once, and has its attempt again.\<close>

lemma handed_back_run:
  assumes "table_ok (sy_table y)" "row_at (sy_table y) u = Some r" "held w r"
    and "rw_id (le_run (snd h)) = u"
  shows "lease_at (sy_table (hand_back w now True True h y)) u = Some (Free None)"
    and "u \<in> set (sy_queue (hand_back w now True True h y))"
proof -
  let ?op = "Release w None True None"
  have r: "r \<in> set (sy_table y)" "rw_id r = u" "row_ok r"
    using assms(1,2) by (auto simp: table_ok_def row_at_iff)
  have st: "lease_at (sy_table y) u = Some (lease_of r)" using assms(2) by (simp add: lease_at_def)
  have step: "lease_step 0 now ?op (lease_of r) = Some (Free None)"
    using held_lease[OF r(3), of w] assms(3) by simp
  note ref = table_op_refines(1,2)[OF assms(1) _ st, of ?op 0 now, simplified step, simplified]
  show "lease_at (sy_table (hand_back w now True True h y)) u = Some (Free None)"
    using ref(2) assms(4) by (simp add: hand_back_def Let_def split_beta)
  show "u \<in> set (sy_queue (hand_back w now True True h y))"
    using ref(1) assms(4) by (simp add: hand_back_def Let_def split_beta enqueue_def)
qed

end
