(* ===== verification/RunHistory.thy ===== *)
theory RunHistory
  imports WorkerLeases
begin

text \<open>
  What can happen to the table of runs: runs are submitted and deleted, workers and users operate on
  them, sweeps dispatch them.  Every moment a row records lies in the past of the last event that
  touched it, so that a run nothing happens to becomes due.
\<close>

section \<open>Histories\<close>

text \<open>\<open>ResearchService.create\<close> with \<open>ResearchRepository.add\<close>: the columns a submitted run starts with.\<close>

definition queued_row :: "uuid \<Rightarrow> datetime \<Rightarrow> ResearchRunRow" where
  "queued_row u now =
     \<lparr>rw_id = u, rw_status = RunStatus.QUEUED, rw_progress = 0, rw_langgraph_thread_id = None, rw_attempts = 0,
      rw_worker_id = None, rw_heartbeat_at = None, rw_next_attempt_at = None, rw_last_queued_at = None,
      rw_iteration_count = 0, rw_total_cost_usd = 0, rw_total_tokens = 0, rw_source_count = 0,
      rw_claim_count = 0, rw_contradiction_count = 0, rw_coverage_caveat = None, rw_error = None,
      rw_created_at = now, rw_started_at = None, rw_completed_at = None, rw_updated_at = now\<rparr>"

fun retry_within :: "real \<Rightarrow> lifecycle_op \<Rightarrow> bool" where
  "retry_within b (Release w d refund e) = (case d of None \<Rightarrow> True | Some x \<Rightarrow> x \<le> b)"
| "retry_within b _ = True"

text \<open>
  Tables that came about by events of which none touched the run \<open>u\<close> after \<open>T\<close>, and none put its next
  attempt off by more than \<open>b\<close> seconds; anything may have happened to the other runs, at any time, by
  workers with any settings.
\<close>

inductive untouched_since :: "uuid \<Rightarrow> datetime \<Rightarrow> real \<Rightarrow> ResearchRunRow list \<Rightarrow> bool" for u T b where
  none: "untouched_since u T b []"
| submit: "untouched_since u T b t \<Longrightarrow> v \<notin> rw_id ` set t \<Longrightarrow> (v = u \<longrightarrow> now \<le> T) \<Longrightarrow>
    untouched_since u T b (t @ [queued_row v now])"
| operate: "untouched_since u T b t \<Longrightarrow> op_ok op \<Longrightarrow> (v = u \<longrightarrow> now \<le> T \<and> retry_within b op) \<Longrightarrow>
    untouched_since u T b (snd (table_op l v now op t))"
| sweep: "untouched_since u T b t \<Longrightarrow> (u \<in> set (fst (due now l g limit t)) \<longrightarrow> now \<le> T) \<Longrightarrow>
    untouched_since u T b (snd (due now l g limit t))"
| delete: "untouched_since u T b t \<Longrightarrow> untouched_since u T b (filter keep t)"

definition past_row :: "datetime \<Rightarrow> real \<Rightarrow> ResearchRunRow \<Rightarrow> bool" where
  "past_row T b r \<longleftrightarrow>
     rw_created_at r \<le> T \<and> null_or_before (rw_heartbeat_at r) T \<and> null_or_before (rw_last_queued_at r) T
     \<and> null_or_before (rw_next_attempt_at r) (ahead T b)"

lemma timedelta_mono: "x \<le> y \<Longrightarrow> timedelta x \<le> timedelta y"
  by (simp add: timedelta_def round_half_even_mono mult_right_mono)

lemma queued_row_past: "now \<le> T \<Longrightarrow> past_row T b (queued_row u now)"
  by (simp add: past_row_def queued_row_def null_or_before_def)

lemma released_row_past:
  assumes "past_row T b r" "now \<le> T" "case d of None \<Rightarrow> True | Some x \<Rightarrow> x \<le> b"
  shows "past_row T b (released_row now d refund e r)"
proof -
  have "ahead now x \<le> ahead T b" if "d = Some x" for x
    using assms(2,3) timedelta_mono[of x b] that by (simp add: ahead_def)
  then have "null_or_before (map_option (ahead now) d) (ahead T b)"
    by (simp add: null_or_before_def split: option.split)
  then show ?thesis using assms(1) by (simp add: past_row_def released_row_def Let_def null_or_before_def)
qed

lemma finished_row_past: "past_row T b r \<Longrightarrow> past_row T b (finished_row now s p c e r)"
  by (simp add: past_row_def finished_row_def Let_def null_or_before_def split: option.split)

lemma cancelled_row_past: "past_row T b (cancelled_row now t seen loaded r) = past_row T b r"
  by (simp add: past_row_def cancelled_row_def)

lemma claimed_row_past: "past_row T b r \<Longrightarrow> now \<le> T \<Longrightarrow> past_row T b (claimed now w r)"
  by (simp add: past_row_def claimed_def null_or_before_def)

lemma advanced_row_past: "past_row T b r \<Longrightarrow> now \<le> T \<Longrightarrow> past_row T b (advanced_row now p r)"
  by (simp add: past_row_def advanced_row_def null_or_before_def)

lemma row_op_past:
  assumes "past_row T b r" "now \<le> T" "retry_within b op" "row_op l now op r = Some r'"
  shows "past_row T b r'"
  using assms
  by (cases op)
     (auto simp: cancelled_row_past split: if_splits
        intro: released_row_past finished_row_past claimed_row_past advanced_row_past)

lemma effect_past:
  assumes "past_row T b r" "v = rw_id r \<longrightarrow> now \<le> T \<and> retry_within b op"
  shows "past_row T b (effect l v now op r)"
  using assms row_op_past[OF assms(1), of now op l] by (auto simp: effect_def split: option.splits)

lemma due_rows:
  "snd (due now l g limit t)
     = map (\<lambda>r. if rw_id r \<in> set (fst (due now l g limit t)) then r\<lparr>rw_last_queued_at := Some now\<rparr> else r) t"
  by (auto simp: due_def update_rows_def Let_def)

lemma row_ok_queued: "row_ok (r\<lparr>rw_last_queued_at := q\<rparr>) = row_ok r"
  by (simp add: row_ok_def)

lemma untouched_rows:
  assumes "untouched_since u T b t"
  shows "table_ok t \<and> (\<forall>r \<in> set t. rw_id r = u \<longrightarrow> past_row T b r)"
  using assms
proof induction
  case (submit t v now)
  moreover have "row_ok (queued_row v now)" "rw_id (queued_row v now) = v"
    by (simp_all add: row_ok_def queued_row_def)
  ultimately show ?case using queued_row_past[of now T b v] by (auto simp: table_ok_def)
next
  case (operate t op v now l)
  then have "\<forall>r \<in> set t. rw_id (effect l v now op r) = rw_id r"
    by (auto simp: table_ok_def effect_id)
  moreover have "past_row T b (effect l v now op r)" if "r \<in> set t" "rw_id r = u" for r
    using operate that by (intro effect_past) auto
  ultimately show ?case using operate table_op_ok by (auto simp: table_op_snd)
next
  case (sweep t now l g limit)
  have "map rw_id (snd (due now l g limit t)) = map rw_id t"
    by (subst due_rows) simp
  moreover have "row_ok r" if "r \<in> set (snd (due now l g limit t))" for r
    using that sweep.IH by (subst (asm) due_rows) (auto simp: table_ok_def row_ok_queued)
  moreover have "past_row T b r" if "r \<in> set (snd (due now l g limit t))" "rw_id r = u" for r
    using that sweep by (subst (asm) due_rows) (auto simp: past_row_def null_or_before_def)
  ultimately show ?case using sweep.IH by (simp add: table_ok_def)
next
  case (delete t keep)
  then show ?case by (auto simp: table_ok_def distinct_map_filter)
qed (simp add: table_ok_def)

section \<open>What nothing happens to becomes due\<close>

lemma past_is_due:
  assumes "row_ok r" "past_row T b r" "\<not> RunStatus_is_terminal (rw_status r)"
    and "ahead T l \<le> now" "ahead T g \<le> now" "ahead T b \<le> now"
  shows "sweep_due now l g r" and "claimable now l r"
proof -
  have "rw_created_at r \<le> ago now g" "null_or_before (rw_heartbeat_at r) (ago now l)"
    "null_or_before (rw_next_attempt_at r) now" "not_already_queued (ago now g) r"
    using assms(2,4-6)
    by (auto simp: past_row_def null_or_before_def not_already_queued_def ahead_def ago_def split: option.splits)
  with status_kinds[of "rw_status r"] assms(3) show "sweep_due now l g r" "claimable now l r"
    by (auto simp: sweep_due_def claimable_def)
qed

lemma length_filter_imp: "(\<And>x. P x \<Longrightarrow> Q x) \<Longrightarrow> length (filter P xs) \<le> length (filter Q xs)"
  by (induction xs) auto

lemma sweep_due_unfinished: "sweep_due now l g r \<Longrightarrow> \<not> RunStatus_is_terminal (rw_status r)"
  by (auto simp: sweep_due_def dest: in_flight_not_terminal)

lemma claim_after_sweep:
  assumes "r \<in> set t" "claimable now l r"
  shows "fst (claim now l w (rw_id r) (snd (due now' l' g limit t))) \<noteq> None"
proof -
  let ?r = "if rw_id r \<in> set (fst (due now' l' g limit t)) then r\<lparr>rw_last_queued_at := Some now'\<rparr> else r"
  have "?r \<in> set (snd (due now' l' g limit t))" using assms(1) by (subst due_rows) auto
  moreover have "rw_id ?r = rw_id r \<and> claimable now l ?r" using assms(2) by (simp add: claimable_def)
  ultimately have "\<exists>x \<in> set (snd (due now' l' g limit t)). rw_id x = rw_id r \<and> claimable now l x" by (rule bexI[rotated])
  then show ?thesis using claim_result(1)[of now l w "rw_id r" "snd (due now' l' g limit t)"] by blast
qed

end
