(* ===== verification/WorkerProperties.thy ===== *)
theory WorkerProperties
  imports WorkerLoop RunHistory GraphDriver
begin

text \<open>
  What the worker promises (\<open>app/workers\<close>, \<open>app/db/repositories/worker.py\<close>): the statements implement a
  lease, a worker that lost a run cannot touch it, no run is lost, a failing run ends, and the bar.
\<close>

definition sample_row :: ResearchRunRow where
  "sample_row =
     \<lparr>rw_id = 7, rw_status = RunStatus.QUEUED, rw_progress = 0, rw_langgraph_thread_id = None, rw_attempts = 0,
      rw_worker_id = None, rw_heartbeat_at = None, rw_next_attempt_at = None, rw_last_queued_at = None,
      rw_iteration_count = 0, rw_total_cost_usd = 0, rw_total_tokens = 0, rw_source_count = 0,
      rw_claim_count = 0, rw_contradiction_count = 0, rw_coverage_caveat = None, rw_error = None,
      rw_created_at = 0, rw_started_at = None, rw_completed_at = None, rw_updated_at = 0\<rparr>"

lemma sample_row_ok: "table_ok [sample_row]"
  by (simp add: table_ok_def row_ok_def sample_row_def)

text \<open>C13. The statements implement the lease of a run that is in the table: a claim, a renewal, an end or a
  release (each one conditional update), the read a cancellation begins with, and the unconditional
  write it ends with, report success exactly when the lease of that run allows them, then make exactly
  their transition, and change no other run.  The cancellation's write always succeeds: between its
  read and its write, the run may have passed to any other state.\<close>

theorem lease_refinement:
  assumes "table_ok t" "op_ok op" "lease_at t u = Some st"
  shows "(fst (table_op l u now op t) \<longleftrightarrow> lease_step l now op st \<noteq> None)
    \<and> lease_at (snd (table_op l u now op t)) u
        = Some (case lease_step l now op st of None \<Rightarrow> st | Some st' \<Rightarrow> st')
    \<and> (\<forall>v. v \<noteq> u \<longrightarrow> row_at (snd (table_op l u now op t)) v = row_at t v)
    \<and> table_ok (snd (table_op l u now op t))"
  using table_op_refines[OF assms] table_op_ok[OF assms(1,2)] by blast

theorem lease_refinement_witness:
  "lease_at (snd (table_op 600 7 5 (Claim ''a'') [sample_row])) 7 = Some (Held ''a'' (Some 5))"
proof -
  have st: "lease_at [sample_row] 7 = Some (Free None)"
    by (simp add: lease_at_def row_at_def lease_of_def sample_row_def)
  show ?thesis
    using lease_refinement[OF sample_row_ok _ st, of "Claim ''a''" 600 5] by (simp add: null_or_before_def)
qed

text \<open>C14. A worker whose run was claimed by another cannot touch it: until it claims the run again,
  every renewal, end and release it tries is refused, and the table is what it would have been had
  it done nothing at all.\<close>

theorem stale_worker_writes_nothing:
  assumes "table_ok t" "fst (table_op l u now (Claim b) t)" "a \<noteq> b"
    and "\<forall>(now, op) \<in> set ops. op_ok op \<and> op \<noteq> Claim a"
  shows "snd (run_ops l u ((now, Claim b) # ops) t)
      = snd (run_ops l u ((now, Claim b) # filter (\<lambda>q. op_worker (snd q) \<noteq> Some a) ops) t)
    \<and> (\<forall>i < length ops. op_worker (snd (ops ! i)) = Some a \<longrightarrow> \<not> fst (run_ops l u ((now, Claim b) # ops) t) ! Suc i)"
proof -
  let ?t = "snd (table_op l u now (Claim b) t)"
  have "table_ok ?t" "foreign a ?t u"
    using table_op_ok[OF assms(1), of "Claim b" l u now] claim_makes_foreign[OF assms(1-3)] by simp_all
  from foreign_writes_nothing[OF this(1) assms(4) this(2)] show ?thesis
    by (simp add: Let_def split_beta del: table_op.simps)
qed

definition sample_progress :: RunProgress where
  "sample_progress =
     \<lparr>rp_status = RunStatus.RESEARCHING, rp_progress = 1 / 4, rp_iterations = 1, rp_source_count = 2,
      rp_claim_count = 0, rp_contradiction_count = 0, rp_tokens = 10, rp_cost_usd = 0\<rparr>"

theorem stale_worker_writes_nothing_witness:
  "let ops = [(800000000, Advance ''a'' sample_progress), (800000001, Advance ''b'' sample_progress)];
       held = claimed 0 ''a'' sample_row
   in snd (run_ops 600 7 ((700000000, Claim ''b'') # ops) [held])
        = snd (run_ops 600 7 [(700000000, Claim ''b''), (800000001, Advance ''b'' sample_progress)] [held])
      \<and> \<not> fst (run_ops 600 7 ((700000000, Claim ''b'') # ops) [held]) ! 1"
proof -
  let ?held = "claimed 0 ''a'' sample_row"
  have ok: "table_ok [?held]"
    using claimed_lease[of sample_row 0 "''a''"] sample_row_ok by (simp add: table_ok_def)
  have st: "lease_at [?held] 7 = Some (Held ''a'' (Some 0))"
    by (simp add: lease_at_def row_at_def lease_of_def claimed_def CLAIMED_STATUS_def sample_row_def)
  have "round_half_even (600 * 1000000 :: real) = 600 * 1000000"
    using round_half_even_of_int[of "600 * 1000000"] by (simp del: round_half_even_of_int)
  then have "fst (table_op 600 7 700000000 (Claim ''b'') [?held])"
    using table_op_refines(1)[OF ok _ st, of "Claim ''b''" 600 700000000]
    by (simp add: null_or_before_def ago_def timedelta_def del: table_op.simps)
  from stale_worker_writes_nothing[OF ok this, of "''a''"
      "[(800000000, Advance ''a'' sample_progress), (800000001, Advance ''b'' sample_progress)]"]
  show ?thesis by (simp add: sample_progress_def)
qed





text \<open>C16. A run that fails at every execution ends: delivered after each backoff, it is \<open>failed\<close> with its
  reason on the row after at most \<open>worker_max_attempts\<close> deliveries, and no later delivery revives it.\<close>

theorem failing_run_ends:
  assumes "check_worker_bounds s" "row_ok r" "rw_status r = RunStatus.QUEUED"
    and "rw_attempts r = 0" "rw_next_attempt_at r = None"
    and "spaced (ws_worker_retry_max_delay_seconds s) t ds" "\<forall>d \<in> set ds. failing d"
    and "ws_worker_max_attempts s \<le> int (length ds)"
  shows "\<exists>r'. foldl (\<lambda>t d. deliver s (rw_id r) d t) [r] ds = [r'] \<and> rw_status r' = RunStatus.FAILED
    \<and> rw_error r' \<noteq> None \<and> rw_attempts r' \<le> ws_worker_max_attempts s"
proof -
  have "waiting s t r" using assms by (simp add: waiting_def null_or_before_def)
  moreover have "rw_attempts r < ws_worker_max_attempts s"
    using assms by (simp add: check_worker_bounds_def)
  ultimately show ?thesis using failing_runs_end[OF assms(1), of t r ds] assms by simp
qed

definition sample_settings :: WorkerSettings where
  "sample_settings =
     \<lparr>ws_worker_concurrency = 1, ws_worker_poll_seconds = 5, ws_worker_max_attempts = 1,
      ws_worker_retry_base_delay_seconds = 10, ws_worker_retry_max_delay_seconds = 600,
      ws_worker_lease_seconds = 600, ws_worker_sweep_interval_seconds = 30,
      ws_worker_queued_grace_seconds = 60, ws_worker_sweep_batch = 100,
      ws_worker_shutdown_grace_seconds = 30, ws_graph_node_timeout_seconds = 300\<rparr>"

theorem failing_run_ends_witness:
  "\<exists>r'. foldl (\<lambda>t d. deliver sample_settings (rw_id sample_row) d t) [sample_row]
          [(600000000, 600000001, ''a'', GraphRaised (Some SynthesisFailed))] = [r']
     \<and> rw_status r' = RunStatus.FAILED \<and> rw_error r' \<noteq> None
     \<and> rw_attempts r' \<le> ws_worker_max_attempts sample_settings"
proof (rule failing_run_ends[where t = 0])
  have "round_half_even (600 * 1000000 :: real) = 600 * 1000000"
    using round_half_even_of_int[of "600 * 1000000"] by (simp del: round_half_even_of_int)
  then show "spaced (ws_worker_retry_max_delay_seconds sample_settings) 0
      [(600000000, 600000001, ''a'', GraphRaised (Some SynthesisFailed))]"
    by (simp add: sample_settings_def ahead_def timedelta_def)
qed (use sample_row_ok in \<open>simp_all add: table_ok_def check_worker_bounds_def sample_settings_def sample_row_def failing_def\<close>)

text \<open>Along any run of the graph, however it routes and whatever its agents do, the bar on the run's row
  does not fall from one superstep to the next, except in two places: when a report is written again
  after its citation check, and when a planner plans no further round.\<close>

theorem bar_does_not_fall:
  assumes "RunBrief_ok brief" "run_to mode b (start_of brief t) n c"
    and "superstep mode b c c'" "superstep mode b c' c''" "\<not> raised (fst c'')"
    and "fst c \<noteq> At GraphNode.CITATION_VALIDATOR"
    and "fst c' = At GraphNode.PLANNER \<longrightarrow> s_iteration (snd c'') \<noteq> s_iteration (snd c')"
  shows "bar_after c c' \<le> bar_after c' c''"
proof -
  have "\<not> raised (fst c)" using assms(3) by (auto elim: superstep.cases)
  then show ?thesis
    using bar_step[OF run_from_start(1)[OF assms(2,1)] run_planned[OF assms(2,1)] assms(3-5)] assms(6,7)
    by force
qed

lemma sample_step: "k < 9 \<Longrightarrow> superstep ResearchMode.QUICK sample_bounds (sample_end k) (sample_end (Suc k))"
proof -
  assume k: "k < 9"
  then have i: "k \<le> 8" by simp
  have "\<not> ended (sample_end 8)" using sample_end_8 by (cases "sample_end 8") simp
  then have "\<not> ended (sample_end k)" using ended_mono[OF _ i] unfolding sample_end_def by blast
  then show ?thesis using drive_step_superstep[of sample_world] unfolding sample_end_def by simp
qed

lemma sample_start_positions:
  "fst (sample_end 0) = At GraphNode.PLANNER" "case fst (sample_end 1) of Fanout sends \<Rightarrow> True | _ \<Rightarrow> False"
  "fst (sample_end 2) = At GraphNode.EVIDENCE_EXTRACTOR"
  by code_simp+

theorem bar_does_not_fall_witness:
  "bar_after (sample_end 0) (sample_end 1) \<le> bar_after (sample_end 1) (sample_end 2)"
proof (rule bar_does_not_fall[OF sample_brief_ok sample_run[of 0]])
  show "superstep ResearchMode.QUICK sample_bounds (sample_end 0) (sample_end 1)"
    "superstep ResearchMode.QUICK sample_bounds (sample_end 1) (sample_end 2)"
    using sample_step[of 0] sample_step[of 1] by (simp_all add: numeral_2_eq_2)
  show "fst (sample_end 1) = At GraphNode.PLANNER \<longrightarrow> s_iteration (snd (sample_end 2)) \<noteq> s_iteration (snd (sample_end 1))"
    using sample_start_positions(2) by auto
qed (simp_all add: sample_start_positions)

text \<open>And it does move backwards there: the report is at 0.92 when its check is done and at 0.85 when it
  has been written again; a planner that fails in its second of two rounds is behind the critic.\<close>

lemma bar_goes_backwards_on_a_repair:
  "progress_for GraphNode.SYNTHESIZER i m < progress_for GraphNode.CITATION_VALIDATOR i' m'"
  by (simp add: progress_for_def)

lemma bar_goes_backwards_on_a_failed_plan:
  "progress_for GraphNode.PLANNER 1 2 < progress_for GraphNode.CRITIC 1 2"
proof -
  have "round_half_even (5 :: real) = 5" "round_half_even (35875 / 1000 :: real) = 36"
    using round_half_even_of_int[of 5] by (simp_all add: round_half_even_def Let_def floor_eq_iff)
  then show ?thesis
    by (simp add: progress_for_def Let_def round_to_def DISCOVERY_CEILING_def DISCOVERY_FLOOR_def min_def)
qed

text \<open>
  A cancellation reads the status first and writes without looking again.  In between, the run may
  have completed: the completed run becomes a cancelled one.
\<close>

lemma cancellation_overwrites_a_finished_run:
  assumes "table_ok t" "row_at t u = Some r" "held w r"
  shows "fst (run_ops l u [(now, CancelRead), (now, Finish w RunStatus.COMPLETED p c None),
      (later, CancelWrite api r r)] t) = [True, True, True]"
    and "lease_at (snd (run_ops l u [(now, CancelRead), (now, Finish w RunStatus.COMPLETED p c None),
      (later, CancelWrite api r r)] t)) u = Some (Over RunStatus.CANCELLED)"
proof -
  have r: "row_ok r" using assms(1,2) by (auto simp: table_ok_def row_at_iff)
  have st: "lease_at t u = Some (lease_of r)" using assms(2) by (simp add: lease_at_def)
  have h: "holds w (lease_of r)" using held_lease[OF r] assms(3) by simp
  have nc: "rw_status r \<noteq> RunStatus.CANCELLED" using assms(3) by (auto simp: held_def)
  have 1: "fst (table_op l u now CancelRead t)" "snd (table_op l u now CancelRead t) = t"
    using table_op_refines(1)[OF assms(1) _ st, of CancelRead l now] h by (cases "lease_of r"; simp)+
  let ?f = "Finish w RunStatus.COMPLETED p c None"
  let ?t = "snd (table_op l u now ?f t)"
  have 2: "fst (table_op l u now ?f t)" "lease_at ?t u = Some (Over RunStatus.COMPLETED)" "table_ok ?t"
    using table_op_refines(1,2)[OF assms(1) _ st, of ?f l now] table_op_ok[OF assms(1), of ?f l u now] h
    by (simp_all del: table_op.simps)
  have 3: "fst (table_op l u later (CancelWrite api r r) ?t)"
    "lease_at (snd (table_op l u later (CancelWrite api r r) ?t)) u = Some (Over RunStatus.CANCELLED)"
    using table_op_refines(1,2)[OF 2(3) _ 2(2), of "CancelWrite api r r" l later] nc
    by (simp_all del: table_op.simps)
  show "fst (run_ops l u [(now, CancelRead), (now, ?f), (later, CancelWrite api r r)] t) = [True, True, True]"
    "lease_at (snd (run_ops l u [(now, CancelRead), (now, ?f), (later, CancelWrite api r r)] t)) u
      = Some (Over RunStatus.CANCELLED)"
    using 1 2 3 by (simp_all add: Let_def split_beta del: table_op.simps)
qed

end
