(* ===== verification/Catalogs.thy ===== *)
theory Catalogs
  imports GraphState "HOL-Library.List_Lexorder" "HOL-Library.Char_ord" "HOL-Library.Product_Lexorder"
begin

text \<open>
  \<open>app/agents/catalog.py\<close>: the numbered catalogues, built from the state by a pure function.  (How they
  are rendered into a prompt is not modelled.)  Strings are ordered by code point, as Python does;
  the text of a UUID has the order of its number.
\<close>

definition MAX_PROMPT_SOURCES :: nat where "MAX_PROMPT_SOURCES = 60"
definition MAX_PROMPT_EVIDENCE :: nat where "MAX_PROMPT_EVIDENCE = 80"
definition MAX_PROMPT_CLAIMS :: nat where "MAX_PROMPT_CLAIMS = 120"
definition MAX_PROMPT_SUBTASKS :: nat where "MAX_PROMPT_SUBTASKS = 40"
definition MAX_PROMPT_CONTRADICTIONS :: nat where "MAX_PROMPT_CONTRADICTIONS = 30"

type_synonym 'a Catalog = "'a list"

definition numbered :: "'a Catalog \<Rightarrow> (nat \<times> 'a) list" where
  "numbered c = zip [1..<Suc (length c)] c"

definition catalog_get :: "'a Catalog \<Rightarrow> nat \<Rightarrow> 'a option" where
  "catalog_get c number = (if 1 \<le> number \<and> number \<le> length c then Some (c ! (number - 1)) else None)"

fun catalog_resolve :: "'a Catalog \<Rightarrow> nat list \<Rightarrow> 'a list \<times> nat list" where
  "catalog_resolve c [] = ([], [])"
| "catalog_resolve c (n # ns) =
     (let (found, unknown) = catalog_resolve c ns
      in case catalog_get c n of None \<Rightarrow> (found, n # unknown) | Some i \<Rightarrow> (i # found, unknown))"

definition source_catalog :: "nat \<Rightarrow> ResearchState \<Rightarrow> SourceRef Catalog" where
  "source_catalog limit s =
     take limit (sort_key (\<lambda>r. (sr_task_key r, sr_url r, sr_source_id r)) (s_sources s))"

text \<open>\<open>ordered[-limit:]\<close>, which is the whole list when the limit is zero.\<close>

definition last_items :: "nat \<Rightarrow> 'a list \<Rightarrow> 'a list" where
  "last_items limit xs = (if limit = 0 then xs else drop (length xs - limit) xs)"

definition subtask_catalog :: "nat \<Rightarrow> ResearchState \<Rightarrow> Subtask Catalog" where
  "subtask_catalog limit s = last_items limit (sort_key (\<lambda>t. (su_iteration t, su_key t)) (s_subtasks s))"

definition evidence_catalog :: "nat \<Rightarrow> ResearchState \<Rightarrow> EvidenceItem Catalog" where
  "evidence_catalog limit s =
     take limit (sort_key (\<lambda>e. (ev_source_id e, ev_span_start e, ev_id e)) (s_evidence s))"

fun STATUS_MERIT :: "ClaimStatus \<Rightarrow> nat" where
  "STATUS_MERIT ClaimStatus.REFUTED = 0"
| "STATUS_MERIT ClaimStatus.CONTESTED = 1"
| "STATUS_MERIT ClaimStatus.VERIFIED = 2"
| "STATUS_MERIT ClaimStatus.CANDIDATE = 3"

definition claim_merit :: "ClaimItem \<Rightarrow> nat \<times> real \<times> uuid" where
  "claim_merit c = (STATUS_MERIT (cl_status c), - cl_confidence c, cl_id c)"

definition claim_catalog :: "nat \<Rightarrow> ResearchState \<Rightarrow> ClaimItem Catalog" where
  "claim_catalog limit s =
     (let claims = s_claims s;
          kept = (if length claims > limit then take limit (sort_key claim_merit claims) else claims)
      in sort_key (\<lambda>c. (cl_normalized_key c, cl_id c)) kept)"

definition contradiction_catalog :: "nat \<Rightarrow> ResearchState \<Rightarrow> ContradictionItem Catalog" where
  "contradiction_catalog limit s =
     take limit (sort_key (\<lambda>c. (cn_normalized_key c, cn_id c)) (s_contradictions s))"

section \<open>What a catalogue is\<close>

lemma claim_catalog_length: "length (claim_catalog limit s) = min limit (length (s_claims s))"
  by (simp add: claim_catalog_def Let_def)

lemma claim_catalog_subset: "set (claim_catalog limit s) \<subseteq> set (s_claims s)"
  by (auto simp: claim_catalog_def Let_def dest: in_set_takeD)

lemma claim_catalog_distinct:
  assumes "distinct (map cl_id (s_claims s))"
  shows "distinct (map cl_id (claim_catalog limit s))"
proof -
  have d: "distinct (map f (sort_key k xs)) = distinct (map f xs)" for f :: "'x \<Rightarrow> 'y" and k :: "'x \<Rightarrow> 'z :: linorder" and xs
    using mset_sort[of k xs] by (metis mset_eq_imp_distinct_iff mset_map)
  have "distinct (map cl_id (sort_key claim_merit (s_claims s)))" using assms d by blast
  then have "distinct (map cl_id (take limit (sort_key claim_merit (s_claims s))))"
    by (simp add: take_map[symmetric])
  with assms show ?thesis by (simp add: claim_catalog_def Let_def d)
qed

lemma catalog_get_in: "catalog_get c n = Some i \<Longrightarrow> i \<in> set c"
  by (auto simp: catalog_get_def split: if_splits)

lemma catalog_get_Some: "(\<exists>i. catalog_get c n = Some i) \<longleftrightarrow> 1 \<le> n \<and> n \<le> length c"
  by (simp add: catalog_get_def)

text \<open>Over the cap nothing of less merit is kept than anything dropped.\<close>

lemma take_sort_key_least:
  assumes "x \<in> set (take n (sort_key k xs))" "y \<in> set (drop n (sort_key k xs))"
  shows "k x \<le> k y"
proof -
  have "sorted (map k (take n (sort_key k xs)) @ map k (drop n (sort_key k xs)))"
    by (simp flip: map_append)
  with assms show ?thesis by (auto simp: sorted_append)
qed

end
