(* ===== verification/Citations.thy ===== *)
theory Citations
  imports Catalogs
begin

text \<open>
  \<open>app/agents/citations.py\<close>: the markers of a report and the check of what they cite.  A section's text
  is read as a list of tokens, which loses nothing: a character, a marker, or the label of a link
  that has the shape of a marker.
\<close>

section \<open>Markers\<close>

datatype token = Ch char | Cite string | Link string

definition OPEN :: char where "OPEN = CHR ''[''"
definition CLOSE :: char where "CLOSE = CHR '']''"

text \<open>\<open>\[(\d{1,3})\]\<close> once its bracket has been read: the digits, and what follows.\<close>

definition marker_at :: "string \<Rightarrow> (string \<times> string) option" where
  "marker_at s =
     (let ds = takeWhile is_digit s; rest = dropWhile is_digit s
      in if 1 \<le> length ds \<and> length ds \<le> 3 \<and> rest \<noteq> [] \<and> hd rest = CLOSE then Some (ds, tl rest) else None)"

definition link_next :: "string \<Rightarrow> bool" where
  "link_next rest \<longleftrightarrow> rest \<noteq> [] \<and> (hd rest = CHR ''('' \<or> hd rest = OPEN)"

lemma marker_at_shorter: "marker_at s = Some (ds, rest) \<Longrightarrow> length rest < length s"
proof -
  assume m: "marker_at s = Some (ds, rest)"
  then have "rest = tl (dropWhile is_digit s)" "dropWhile is_digit s \<noteq> []"
    by (auto simp: marker_at_def Let_def split: if_splits)
  moreover have "length (dropWhile is_digit s) \<le> length s" by (rule length_dropWhile_le)
  ultimately show ?thesis by (cases "dropWhile is_digit s") auto
qed

function tokens :: "string \<Rightarrow> token list" where
  "tokens [] = []"
| "tokens (c # s) =
     (if c = OPEN
      then case marker_at s of
             Some (ds, rest) \<Rightarrow> (if link_next rest then Link ds else Cite ds) # tokens rest
           | None \<Rightarrow> Ch c # tokens s
      else Ch c # tokens s)"
  by pat_completeness auto
termination by (relation "measure length") (auto dest: marker_at_shorter)

fun text_of :: "token \<Rightarrow> string" where
  "text_of (Ch c) = [c]"
| "text_of (Cite ds) = OPEN # ds @ [CLOSE]"
| "text_of (Link ds) = OPEN # ds @ [CLOSE]"

definition untoken :: "token list \<Rightarrow> string" where
  "untoken ts = concat (map text_of ts)"

fun digits_value :: "nat \<Rightarrow> string \<Rightarrow> nat" where
  "digits_value n [] = n"
| "digits_value n (c # cs) = digits_value (n * 10 + (of_char c - 48)) cs"

definition cite_of :: "token \<Rightarrow> nat list" where
  "cite_of t = (case t of Cite ds \<Rightarrow> [digits_value 0 ds] | _ \<Rightarrow> [])"

definition cited_numbers :: "string \<Rightarrow> nat list" where
  "cited_numbers markdown = concat (map cite_of (tokens markdown))"

section \<open>The check\<close>

definition NAMED_REJECTIONS :: nat where "NAMED_REJECTIONS = 8"

text \<open>\<open>{item.id: item for item in items}\<close>: the last of an id is kept.\<close>

definition by_id :: "('a \<Rightarrow> uuid) \<Rightarrow> 'a list \<Rightarrow> uuid \<rightharpoonup> 'a" where
  "by_id f items = map_of (rev (map (\<lambda>i. (f i, i)) items))"

definition reject ::
  "nat \<Rightarrow> ClaimItem Catalog \<Rightarrow> (uuid \<rightharpoonup> ClaimItem) \<Rightarrow> (uuid \<rightharpoonup> EvidenceItem) \<Rightarrow> uuid set \<Rightarrow> string option" where
  "reject marker catalog claims evidence sources =
     (case catalog_get catalog marker of
        None \<Rightarrow> Some ''no_such_claim''
      | Some claim \<Rightarrow>
          if claims (cl_id claim) = None then Some ''claim_not_in_run''
          else
            (let backing = List.map_filter evidence (cl_evidence_ids claim)
             in if backing = [] then Some ''claim_without_evidence''
                else if \<not> list_ex (\<lambda>i. ev_source_id i \<in> sources) backing
                then Some ''evidence_without_retrieved_source''
                else None))"

definition EXPLANATION :: "string \<Rightarrow> string" where
  "EXPLANATION r =
     (if r = ''no_such_claim'' then ''the number is not in the list of claims you were given''
      else if r = ''claim_not_in_run'' then ''the claim is not part of this run''
      else if r = ''claim_without_evidence'' then ''the claim has no evidence behind it''
      else ''the evidence does not belong to a source this run retrieved'')"

text \<open>\<open>Counter\<close>: counts in the order the keys were first seen.\<close>

definition count_in :: "string \<Rightarrow> (string \<times> nat) list \<Rightarrow> (string \<times> nat) list" where
  "count_in r m = (case map_of m r of None \<Rightarrow> m @ [(r, 1)] | Some n \<Rightarrow> AList.update r (n + 1) m)"

definition instructions :: "nat list \<Rightarrow> (string \<times> nat) list \<Rightarrow> nat \<Rightarrow> string" where
  "instructions markers reasons claims =
     (let offending = sorted_list_of_set (set markers);
          named = str_join '', '' (map (\<lambda>m. ''['' @ show_nat m @ '']'') (take NAMED_REJECTIONS offending));
          more = (if length offending > NAMED_REJECTIONS
                  then '' and '' @ show_nat (length offending - NAMED_REJECTIONS) @ '' more'' else []);
          explained = str_join ''; '' (map (\<lambda>(r, n). EXPLANATION r @ '' ('' @ show_nat n @ '')'') reasons);
          valid_range = (if claims = 0 then ''none - there are no claims to cite'' else ''1 to '' @ show_nat claims)
      in show_nat (length markers) @ '' citation marker(s) in the draft did not resolve: '' @ named @ more
         @ ''. Why: '' @ explained @ ''. Valid claim numbers are '' @ valid_range
         @ ''. Rewrite so that every factual sentence carries a marker from that range, ''
         @ ''and remove any sentence you cannot support with one rather than citing ''
         @ ''a different claim that does not say it.'')"

record tally =
  ta_checked :: nat
  ta_valid :: nat
  ta_reasons :: "(string \<times> nat) list"
  ta_rejected_markers :: "nat list"

definition check_marker :: "(nat \<Rightarrow> string option) \<Rightarrow> tally \<Rightarrow> nat \<Rightarrow> tally" where
  "check_marker rej t m =
     (let t1 = t\<lparr>ta_checked := ta_checked t + 1\<rparr>
      in case rej m of
           None \<Rightarrow> t1\<lparr>ta_valid := ta_valid t1 + 1\<rparr>
         | Some r \<Rightarrow> t1\<lparr>ta_reasons := count_in r (ta_reasons t1),
                        ta_rejected_markers := ta_rejected_markers t1 @ [m]\<rparr>)"

definition tally_all :: "(nat \<Rightarrow> string option) \<Rightarrow> nat list \<Rightarrow> tally" where
  "tally_all rej markers =
     foldl (check_marker rej) \<lparr>ta_checked = 0, ta_valid = 0, ta_reasons = [], ta_rejected_markers = []\<rparr> markers"

definition report_markers :: "ReportDraft \<Rightarrow> nat list" where
  "report_markers r = concat (map (cited_numbers \<circ> rs_content_md) (rd_sections r))"

definition state_reject :: "ResearchState \<Rightarrow> nat \<Rightarrow> string option" where
  "state_reject s m =
     reject m (claim_catalog MAX_PROMPT_CLAIMS s) (by_id cl_id (s_claims s)) (by_id ev_id (s_evidence s))
       (sr_source_id ` set (s_sources s))"

text \<open>\<open>CitationValidator.validate\<close>; \<open>None\<close> is the \<open>AgentError\<close> of a state without a draft.\<close>

definition validate :: "ResearchState \<Rightarrow> CitationCheck option" where
  "validate s =
     (case s_report s of
        None \<Rightarrow> None
      | Some report \<Rightarrow>
          (let t = tally_all (state_reject s) (report_markers report);
               rejected = ta_checked t - ta_valid t
           in Some
                \<lparr>cc_revision = rd_revision report, cc_checked = int (ta_checked t), cc_valid = int (ta_valid t),
                 cc_rejected = int rejected,
                 cc_rejections = map (\<lambda>(r, n). \<lparr>rj_reason = r, rj_count = int n\<rparr>) (sort_key fst (ta_reasons t)),
                 cc_repair_instructions =
                   (if rejected = 0 then None
                    else Some (instructions (ta_rejected_markers t) (ta_reasons t)
                                 (length (claim_catalog MAX_PROMPT_CLAIMS s))))\<rparr>))"

section \<open>Tokens lose nothing\<close>

lemma marker_at_text: "marker_at s = Some (ds, rest) \<Longrightarrow> s = ds @ CLOSE # rest"
proof -
  assume m: "marker_at s = Some (ds, rest)"
  have "s = takeWhile is_digit s @ dropWhile is_digit s" by simp
  with m show ?thesis
    by (cases "dropWhile is_digit s") (auto simp: marker_at_def Let_def split: if_splits)
qed

lemma untoken_tokens [simp]: "untoken (tokens s) = s"
proof (induction s rule: tokens.induct)
  case (2 c s)
  then show ?case
    by (auto simp: untoken_def dest!: marker_at_text split: option.splits prod.splits)
qed (simp add: untoken_def)

lemma marker_at_digits: "marker_at s = Some (ds, rest) \<Longrightarrow> 1 \<le> length ds \<and> length ds \<le> 3 \<and> list_all is_digit ds"
  by (auto simp: marker_at_def Let_def list_all_iff dest: set_takeWhileD split: if_splits)

lemma marker_at_intro:
  "1 \<le> length ds \<Longrightarrow> length ds \<le> 3 \<Longrightarrow> list_all is_digit ds \<Longrightarrow> marker_at (ds @ CLOSE # rest) = Some (ds, rest)"
proof -
  assume a: "1 \<le> length ds" "length ds \<le> 3" "list_all is_digit ds"
  have c: "\<not> is_digit CLOSE" by (simp add: is_digit_def CLOSE_def)
  have "takeWhile is_digit (ds @ CLOSE # rest) = ds" "dropWhile is_digit (ds @ CLOSE # rest) = CLOSE # rest"
    using a(3) c by (simp_all add: list_all_iff takeWhile_append dropWhile_append)
  with a show ?thesis by (simp add: marker_at_def)
qed

lemma digits_value_bound:
  "list_all is_digit ds \<Longrightarrow> digits_value n ds < (n + 1) * 10 ^ length ds"
proof (induction ds arbitrary: n)
  case (Cons c cs)
  have "of_char c \<le> (57 :: nat)" using Cons.prems by (simp add: is_digit_def)
  then have d: "of_char c - 48 \<le> (9 :: nat)" by linarith
  have "digits_value n (c # cs) < (n * 10 + (of_char c - 48) + 1) * 10 ^ length cs"
    using Cons by simp
  also have "\<dots> \<le> ((n + 1) * 10) * 10 ^ length cs"
    using d by (intro mult_right_mono) simp_all
  finally show ?case by (simp add: algebra_simps)
qed simp

lemma cite_digits: "Cite ds \<in> set (tokens s) \<Longrightarrow> 1 \<le> length ds \<and> length ds \<le> 3 \<and> list_all is_digit ds"
proof (induction s rule: tokens.induct)
  case (2 c s)
  then show ?case
    by (auto dest: marker_at_digits split: if_splits option.splits)
qed simp

lemma cited_below_1000: "m \<in> set (cited_numbers s) \<Longrightarrow> m < 1000"
proof -
  assume "m \<in> set (cited_numbers s)"
  then obtain ds where ds: "Cite ds \<in> set (tokens s)" "m = digits_value 0 ds"
    by (auto simp: cited_numbers_def cite_of_def split: token.splits)
  note d = cite_digits[OF ds(1)]
  have "m < 10 ^ length ds" using digits_value_bound[of ds 0] d ds(2) by simp
  also have "\<dots> \<le> 10 ^ 3" using d by (intro power_increasing) auto
  finally show ?thesis by simp
qed

lemma length_cited: "length (cited_numbers s) \<le> length s"
proof -
  have "length (concat (map cite_of ts)) \<le> length ts" for ts
    by (induction ts) (auto simp: cite_of_def split: token.split)
  moreover have "length (tokens s) \<le> length s"
  proof (induction s rule: tokens.induct)
    case (2 c s)
    show ?case
    proof (cases "c = OPEN \<and> marker_at s \<noteq> None")
      case True
      then obtain ds rest where m: "marker_at s = Some (ds, rest)" by auto
      with 2 True marker_at_shorter[OF m] show ?thesis by fastforce
    next
      case False
      with 2 show ?thesis by (auto split: option.splits)
    qed
  qed simp
  ultimately show ?thesis unfolding cited_numbers_def using le_trans by blast
qed

section \<open>The tally\<close>

lemma sum_count_in:
  "distinct (map fst m) \<Longrightarrow> sum_list (map snd (count_in r m)) = sum_list (map snd m) + 1
     \<and> distinct (map fst (count_in r m))"
proof -
  assume d: "distinct (map fst m)"
  have upd: "sum_list (map snd (AList.update r (n + 1) xs)) = sum_list (map snd xs) + 1"
    if "map_of xs r = Some n" for xs :: "(string \<times> nat) list" and n
    using that by (induction xs) (auto split: if_splits)
  have "r \<notin> set (map fst m)" if "map_of m r = None" using that by (simp add: map_of_eq_None_iff)
  with d upd show ?thesis by (auto simp: count_in_def distinct_update split: option.split)
qed

lemma keys_count_in: "fst ` set (count_in r m) = insert r (fst ` set m)"
  by (auto simp: count_in_def dom_update split: option.split)

lemma count_in_pos: "\<forall>(k, n) \<in> set m. 1 \<le> n \<Longrightarrow> \<forall>(k, n) \<in> set (count_in r m). 1 \<le> n"
proof -
  have upd: "\<forall>(k, n) \<in> set xs. 1 \<le> n \<Longrightarrow> \<forall>(k, n) \<in> set (AList.update r (v + 1) xs). 1 \<le> n"
    for xs :: "(string \<times> nat) list" and v
    by (induction xs) auto
  assume "\<forall>(k, n) \<in> set m. 1 \<le> n"
  with upd show ?thesis by (auto simp: count_in_def split: option.split)
qed

definition tally_inv :: "(nat \<Rightarrow> string option) \<Rightarrow> nat list \<Rightarrow> tally \<Rightarrow> bool" where
  "tally_inv rej ms t \<longleftrightarrow>
     ta_checked t = length ms
     \<and> ta_rejected_markers t = filter (\<lambda>m. rej m \<noteq> None) ms
     \<and> ta_valid t = length (filter (\<lambda>m. rej m = None) ms)
     \<and> distinct (map fst (ta_reasons t)) \<and> (\<forall>(k, n) \<in> set (ta_reasons t). 1 \<le> n)
     \<and> fst ` set (ta_reasons t) \<subseteq> {r. \<exists>m. rej m = Some r}
     \<and> sum_list (map snd (ta_reasons t)) = length (filter (\<lambda>m. rej m \<noteq> None) ms)"

lemma tally_all_inv: "tally_inv rej ms (tally_all rej ms)"
proof (induction ms rule: rev_induct)
  case Nil
  show ?case by (simp add: tally_inv_def tally_all_def)
next
  case (snoc m ms)
  let ?t = "tally_all rej ms"
  have t: "tally_all rej (ms @ [m]) = check_marker rej ?t m" by (simp add: tally_all_def)
  show ?case
  proof (cases "rej m")
    case None
    then show ?thesis using snoc unfolding t by (simp add: check_marker_def tally_inv_def)
  next
    case (Some r)
    have d: "distinct (map fst (ta_reasons ?t))" and p: "\<forall>(k, n) \<in> set (ta_reasons ?t). 1 \<le> n"
      using snoc by (simp_all add: tally_inv_def)
    have "fst ` set (count_in r (ta_reasons ?t)) \<subseteq> {r. \<exists>m. rej m = Some r}"
      using Some snoc unfolding tally_inv_def keys_count_in by blast
    then show ?thesis
      using Some sum_count_in[OF d, of r] count_in_pos[OF p, of r] snoc
      unfolding t tally_inv_def check_marker_def Let_def by simp
  qed
qed

section \<open>What a check says\<close>

text \<open>A marker is backed when it names a claim of the run with evidence from a source that was retrieved.\<close>

definition backed :: "ResearchState \<Rightarrow> nat \<Rightarrow> bool" where
  "backed s m \<longleftrightarrow>
     (\<exists>claim. catalog_get (claim_catalog MAX_PROMPT_CLAIMS s) m = Some claim
        \<and> (\<exists>e \<in> set (s_evidence s). ev_id e \<in> set (cl_evidence_ids claim)
             \<and> ev_source_id e \<in> sr_source_id ` set (s_sources s)))"

lemma by_id_distinct: "distinct (map f xs) \<Longrightarrow> by_id f xs i = Some x \<longleftrightarrow> x \<in> set xs \<and> f x = i"
proof -
  assume d: "distinct (map f xs)"
  then have "distinct (rev (map f xs))" by simp
  then have "distinct (map fst (rev (map (\<lambda>i. (f i, i)) xs)))" by (simp add: rev_map comp_def)
  then show ?thesis by (auto simp: by_id_def map_of_eq_Some_iff)
qed

lemma by_id_None: "by_id f xs i = None \<longleftrightarrow> i \<notin> f ` set xs"
  by (force simp: by_id_def map_of_eq_None_iff)

lemma set_map_filter_eq: "set (List.map_filter g xs) = {y. \<exists>x \<in> set xs. g x = Some y}"
  by (induction xs) (auto simp: map_filter_simps split: option.splits)

lemma state_reject_backed:
  assumes "ids_distinct ev_id (s_evidence s)"
  shows "state_reject s m = None \<longleftrightarrow> backed s m"
proof (cases "catalog_get (claim_catalog MAX_PROMPT_CLAIMS s) m")
  case None
  then show ?thesis by (simp add: state_reject_def reject_def backed_def)
next
  case (Some claim)
  then have "claim \<in> set (s_claims s)"
    using subsetD[OF claim_catalog_subset catalog_get_in] by blast
  then have known: "by_id cl_id (s_claims s) (cl_id claim) \<noteq> None" by (auto simp: by_id_None)
  let ?b = "List.map_filter (by_id ev_id (s_evidence s)) (cl_evidence_ids claim)"
  have b: "set ?b = {e \<in> set (s_evidence s). ev_id e \<in> set (cl_evidence_ids claim)}"
    using assms by (auto simp: set_map_filter_eq ids_distinct_def by_id_distinct)
  have "state_reject s m = None \<longleftrightarrow> (\<exists>e \<in> set ?b. ev_source_id e \<in> sr_source_id ` set (s_sources s))"
    using Some known by (auto simp: state_reject_def reject_def Let_def list_ex_iff)
  then show ?thesis using Some b by (auto simp: backed_def)
qed

lemma validate_fields:
  assumes "validate s = Some c" "s_report s = Some r"
  shows "cc_revision c = rd_revision r"
    "cc_checked c = int (length (report_markers r))"
    "cc_valid c = int (length (filter (\<lambda>m. state_reject s m = None) (report_markers r)))"
    "cc_rejected c = int (length (filter (\<lambda>m. state_reject s m \<noteq> None) (report_markers r)))"
    "cc_checked c = cc_valid c + cc_rejected c"
proof -
  let ?m = "report_markers r" and ?f = "state_reject s"
  have t: "tally_inv ?f ?m (tally_all ?f ?m)" by (rule tally_all_inv)
  have "length (filter (\<lambda>m. ?f m = None) ?m) + length (filter (\<lambda>m. ?f m \<noteq> None) ?m) = length ?m"
    by (rule sum_length_filter_compl)
  with assms t show "cc_revision c = rd_revision r"
    "cc_checked c = int (length ?m)"
    "cc_valid c = int (length (filter (\<lambda>m. ?f m = None) ?m))"
    "cc_rejected c = int (length (filter (\<lambda>m. ?f m \<noteq> None) ?m))"
    "cc_checked c = cc_valid c + cc_rejected c"
    by (auto simp: validate_def Let_def tally_inv_def)
qed

lemma state_reject_reasons:
  "state_reject s m = Some r \<Longrightarrow>
     r \<in> {''no_such_claim'', ''claim_not_in_run'', ''claim_without_evidence'', ''evidence_without_retrieved_source''}"
  by (auto simp: state_reject_def reject_def Let_def split: option.splits if_splits)

lemma passed_iff:
  assumes "validate s = Some c" "s_report s = Some r" "ids_distinct ev_id (s_evidence s)"
  shows "passed c \<longleftrightarrow> (\<forall>m \<in> set (report_markers r). backed s m)"
  unfolding passed_def validate_fields(4)[OF assms(1,2)]
  by (auto simp: filter_empty_conv state_reject_backed[OF assms(3)])

section \<open>The check it returns is well formed\<close>

lemma length_report_markers:
  assumes "ReportDraft_ok r"
  shows "length (report_markers r) \<le> 2000000"
proof -
  have "length (cited_numbers (rs_content_md sec)) \<le> 100000" if "sec \<in> set (rd_sections r)" for sec
    using that assms length_cited[of "rs_content_md sec"]
    by (force simp: ReportDraft_ok_def list_all_iff ReportSectionDraft_ok_def len_between_def)
  then have "length (report_markers r) \<le> length (rd_sections r) * 100000"
    using sum_list_map_bound[of "rd_sections r" "\<lambda>sec. length (cited_numbers (rs_content_md sec))" 100000]
    by (simp add: report_markers_def length_concat comp_def)
  moreover have "length (rd_sections r) \<le> 20"
    using assms by (simp add: ReportDraft_ok_def len_between_def MAX_REPORT_SECTIONS_def)
  ultimately show ?thesis by linarith
qed

lemma length_str_join_bound:
  assumes "\<forall>x \<in> set xs. length x \<le> n" "length xs \<le> k"
  shows "length (str_join sep xs) \<le> k * (n + length sep)"
proof -
  have "length (str_join sep xs) \<le> length xs * n + length sep * length xs"
    using sum_list_map_bound[OF assms(1)] by (simp add: length_str_join diff_le_self add_mono)
  also have "\<dots> = length xs * (n + length sep)" by (simp add: algebra_simps)
  also have "\<dots> \<le> k * (n + length sep)" using assms(2) by (rule mult_right_mono) simp
  finally show ?thesis .
qed

lemma length_show_small: "n < 10000000 \<Longrightarrow> length (show_nat n) \<le> 7"
  using length_show_nat[of 7 n] by simp

lemma length_EXPLANATION: "length (EXPLANATION r) \<le> 60"
  by (simp add: EXPLANATION_def)

lemma instructions_length:
  assumes "length markers < 10000000" "length reasons \<le> 4" "\<forall>(r, n) \<in> set reasons. n < 10000000"
    and "claims < 10000000" "\<forall>m \<in> set markers. m < 10000000"
  shows "instructions markers reasons claims \<noteq> [] \<and> length (instructions markers reasons claims) \<le> 4000"
proof -
  let ?off = "sorted_list_of_set (set markers)"
  let ?named = "str_join '', '' (map (\<lambda>m. ''['' @ show_nat m @ '']'') (take NAMED_REJECTIONS ?off))"
  let ?expl = "str_join ''; '' (map (\<lambda>(r, n). EXPLANATION r @ '' ('' @ show_nat n @ '')'') reasons)"
  have "length (show_nat m) \<le> 7" if "m \<in> set (take NAMED_REJECTIONS ?off)" for m
    using in_set_takeD[OF that] assms(5) length_show_small by simp
  then have n2: "length ?named \<le> 8 * (9 + 2)"
    using length_str_join_bound[of "map (\<lambda>m. ''['' @ show_nat m @ '']'') (take NAMED_REJECTIONS ?off)" 9 8 "'', ''"]
    by (simp add: NAMED_REJECTIONS_def)
  have "\<forall>x \<in> set (map (\<lambda>(r, n). EXPLANATION r @ '' ('' @ show_nat n @ '')'') reasons). length x \<le> 80"
  proof
    fix x assume "x \<in> set (map (\<lambda>(r, n). EXPLANATION r @ '' ('' @ show_nat n @ '')'') reasons)"
    then obtain r n where rn: "(r, n) \<in> set reasons" "x = EXPLANATION r @ '' ('' @ show_nat n @ '')''" by auto
    have "length (show_nat n) \<le> 7" using rn(1) assms(3) by (intro length_show_small) auto
    then show "length x \<le> 80" using length_EXPLANATION[of r] unfolding rn(2) by simp
  qed
  then have n3: "length ?expl \<le> 4 * (80 + 2)"
    using length_str_join_bound[of "map (\<lambda>(r, n). EXPLANATION r @ '' ('' @ show_nat n @ '')'') reasons" 80 4 "''; ''"]
      assms(2) by simp
  have "length ?off \<le> length markers"
    by (simp add: sorted_list_of_set.length_sorted_key_list_of_set card_length)
  then have "length (show_nat (length ?off - NAMED_REJECTIONS)) \<le> 7"
    using assms(1) by (intro length_show_small) linarith
  then have n4: "length (if length ?off > NAMED_REJECTIONS
      then '' and '' @ show_nat (length ?off - NAMED_REJECTIONS) @ '' more'' else []) \<le> 20" by simp
  have n5: "length (if claims = 0 then ''none - there are no claims to cite'' else ''1 to '' @ show_nat claims) \<le> 40"
    using length_show_small[OF assms(4)] by simp
  have n1: "length (show_nat (length markers)) \<le> 7" by (rule length_show_small[OF assms(1)])
  have total: "length (instructions markers reasons claims)
      = length (show_nat (length markers)) + length '' citation marker(s) in the draft did not resolve: ''
        + length ?named
        + length (if length ?off > NAMED_REJECTIONS
            then '' and '' @ show_nat (length ?off - NAMED_REJECTIONS) @ '' more'' else [])
        + length ''. Why: '' + length ?expl + length ''. Valid claim numbers are ''
        + length (if claims = 0 then ''none - there are no claims to cite'' else ''1 to '' @ show_nat claims)
        + length ''. Rewrite so that every factual sentence carries a marker from that range, ''
        + length ''and remove any sentence you cannot support with one rather than citing ''
        + length ''a different claim that does not say it.''"
    unfolding instructions_def Let_def length_append add.assoc ..
  have n6: "length '' citation marker(s) in the draft did not resolve: '' \<le> 100"
    "length ''. Why: '' \<le> 100" "length ''. Valid claim numbers are '' \<le> 100"
    "length ''. Rewrite so that every factual sentence carries a marker from that range, '' \<le> 100"
    "length ''and remove any sentence you cannot support with one rather than citing '' \<le> 100"
    "length ''a different claim that does not say it.'' \<le> 100" by simp_all
  have "length (instructions markers reasons claims)
      \<le> 7 + 100 + 8 * (9 + 2) + 20 + 100 + 4 * (80 + 2) + 100 + 40 + 100 + 100 + 100"
    unfolding total by (intro add_mono n1 n2 n3 n4 n5 n6)
  also have "\<dots> \<le> 4000" by simp
  finally have "length (instructions markers reasons claims) \<le> 4000" .
  moreover have "instructions markers reasons claims \<noteq> []" by (simp add: instructions_def Let_def)
  ultimately show ?thesis by blast
qed

lemma sum_list_int: "sum_list (map (int \<circ> f) xs) = int (sum_list (map f xs))"
  by (induction xs) simp_all

lemma validate_ok:
  assumes "validate s = Some c" "s_report s = Some r" "ReportDraft_ok r"
  shows "CitationCheck_ok c"
proof -
  let ?m = "report_markers r" and ?f = "state_reject s"
  define t where "t = tally_all ?f ?m"
  have t: "tally_inv ?f ?m t" unfolding t_def by (rule tally_all_inv)
  note fields = validate_fields[OF assms(1,2)]
  have few: "length ?m < 10000000" using length_report_markers[OF assms(3)] by simp
  have keys: "fst ` set (ta_reasons t)
      \<subseteq> {''no_such_claim'', ''claim_not_in_run'', ''claim_without_evidence'', ''evidence_without_retrieved_source''}"
    using t state_reject_reasons[of s] unfolding tally_inv_def by blast
  have "length (ta_reasons t) = card (fst ` set (ta_reasons t))"
    using t distinct_card[of "map fst (ta_reasons t)"] by (simp add: tally_inv_def)
  also have "\<dots> \<le> card {''no_such_claim'', ''claim_not_in_run'', ''claim_without_evidence'', ''evidence_without_retrieved_source''}"
    using keys by (intro card_mono) simp_all
  also have "\<dots> \<le> 4" by (simp add: card_insert_if)
  finally have four: "length (ta_reasons t) \<le> 4" .
  have counts: "n < 10000000" if "(k, n) \<in> set (ta_reasons t)" for k n
  proof -
    have "n \<le> sum_list (map snd (ta_reasons t))" using that by (intro member_le_sum_list) force+
    also have "\<dots> \<le> length ?m" using t by (simp add: tally_inv_def)
    finally show ?thesis using few by simp
  qed
  have rej: "cc_rejections c = map (\<lambda>(r, n). \<lparr>rj_reason = r, rj_count = int n\<rparr>) (sort_key fst (ta_reasons t))"
    and rep: "cc_repair_instructions c =
      (if cc_rejected c = 0 then None
       else Some (instructions (ta_rejected_markers t) (ta_reasons t) (length (claim_catalog MAX_PROMPT_CLAIMS s))))"
    using assms(1,2) by (auto simp: validate_def t_def Let_def)
  have "list_all RejectionCount_ok (cc_rejections c)"
    using keys t unfolding rej tally_inv_def
    by (auto simp: list_all_iff RejectionCount_ok_def is_lower_def is_digit_def)
  moreover have "sum_list (map rj_count (cc_rejections c)) = cc_rejected c"
  proof -
    have "sum_list (map rj_count (cc_rejections c)) = sum_list (map (int \<circ> snd) (sort_key fst (ta_reasons t)))"
      unfolding rej by (simp add: comp_def split_beta)
    also have "\<dots> = sum_list (map (int \<circ> snd) (ta_reasons t))"
      by (metis mset_map mset_sort sum_mset_sum_list)
    also have "\<dots> = int (sum_list (map snd (ta_reasons t)))" by (simp add: sum_list_int)
    also have "\<dots> = cc_rejected c" using t fields(4) by (simp add: tally_inv_def)
    finally show ?thesis .
  qed
  moreover have "instructions (ta_rejected_markers t) (ta_reasons t) (length (claim_catalog MAX_PROMPT_CLAIMS s)) \<noteq> []
      \<and> length (instructions (ta_rejected_markers t) (ta_reasons t) (length (claim_catalog MAX_PROMPT_CLAIMS s))) \<le> 4000"
  proof (rule instructions_length[OF _ four])
    have "length (ta_rejected_markers t) \<le> length ?m" using t by (simp add: tally_inv_def)
    with few show "length (ta_rejected_markers t) < 10000000" by simp
    show "\<forall>(r, n) \<in> set (ta_reasons t). n < 10000000" using counts by blast
    show "length (claim_catalog MAX_PROMPT_CLAIMS s) < 10000000"
      by (simp add: claim_catalog_length MAX_PROMPT_CLAIMS_def)
    have "m < 1000" if "m \<in> set ?m" for m
      using that cited_below_1000 by (auto simp: report_markers_def)
    then show "\<forall>m \<in> set (ta_rejected_markers t). m < 10000000"
      using t by (force simp: tally_inv_def)
  qed
  ultimately show ?thesis
    using fields four assms(3)
    by (simp add: CitationCheck_ok_def rep ReportDraft_ok_def rej)
qed

end
