(* ===== verification/Texts.thy ===== *)
theory Texts
  imports Prelude
begin

text \<open>
  Operations on text that several components use: splitting into words, case folding, and the
  dictionary that groups values under a key in the order the keys are first seen.
\<close>

section \<open>Words\<close>

text \<open>\<open>str.split()\<close>.\<close>

fun words_from :: "string \<Rightarrow> string \<Rightarrow> string list" where
  "words_from w [] = (if w = [] then [] else [w])"
| "words_from w (c # s) =
     (if is_space c then (if w = [] then words_from [] s else w # words_from [] s) else words_from (w @ [c]) s)"

definition words :: "string \<Rightarrow> string list" where
  "words s = words_from [] s"

text \<open>
  \<open>str.casefold\<close> on the code points below 256.  The micro sign folds to a character past them that no
  other character of such a text folds to, so it stands for itself.
\<close>

definition str_casefold :: "string \<Rightarrow> string" where
  "str_casefold s = concat (map (\<lambda>c. if (of_char c :: nat) = 223 then ''ss'' else [lower_char c]) s)"

section \<open>Grouping\<close>

text \<open>\<open>groups.setdefault(k, []).append(x)\<close>.\<close>

definition group_add :: "'k \<Rightarrow> 'x \<Rightarrow> ('k \<times> 'x list) list \<Rightarrow> ('k \<times> 'x list) list" where
  "group_add k x g =
     (case map_of g k of None \<Rightarrow> g @ [(k, [x])] | Some xs \<Rightarrow> AList.update k (xs @ [x]) g)"

lemma group_add_keys: "fst ` set (group_add k x g) = insert k (fst ` set g)"
  by (auto simp: group_add_def dom_map_of_conv_image_fst[symmetric] update_conv' split: option.splits)

lemma group_add_distinct: "distinct (map fst g) \<Longrightarrow> distinct (map fst (group_add k x g))"
  by (auto simp: group_add_def distinct_update map_of_eq_None_iff split: option.splits)

lemma group_add_lookup:
  "map_of (group_add k x g) j =
     (if j = k then Some ((case map_of g k of None \<Rightarrow> [] | Some xs \<Rightarrow> xs) @ [x]) else map_of g j)"
  by (auto simp: group_add_def update_conv' map_add_def split: option.splits)

definition group_by :: "('x \<Rightarrow> 'k) \<Rightarrow> 'x list \<Rightarrow> ('k \<times> 'x list) list" where
  "group_by f xs = foldl (\<lambda>g x. group_add (f x) x g) [] xs"

lemma group_by_snoc: "group_by f (xs @ [x]) = group_add (f x) x (group_by f xs)"
  by (simp add: group_by_def)

lemma group_by_keys: "fst ` set (group_by f xs) = f ` set xs"
  by (induction xs rule: rev_induct) (simp_all add: group_by_snoc group_add_keys group_by_def)

lemma group_by_distinct: "distinct (map fst (group_by f xs))"
  by (induction xs rule: rev_induct) (simp_all add: group_by_snoc group_add_distinct group_by_def)

lemma group_by_lookup:
  "map_of (group_by f xs) k = (if k \<in> f ` set xs then Some (filter (\<lambda>x. f x = k) xs) else None)"
proof (induction xs rule: rev_induct)
  case Nil
  then show ?case by (simp add: group_by_def)
next
  case (snoc x xs)
  show ?case
  proof (cases "k = f x")
    case True
    have "filter (\<lambda>y. f y = k) xs = []" if "k \<notin> f ` set xs" using that by (auto simp: filter_empty_conv)
    moreover have "map_of (group_by f xs) (f x) = (if k \<in> f ` set xs then Some (filter (\<lambda>x. f x = k) xs) else None)"
      using snoc.IH True by simp
    ultimately show ?thesis using True unfolding group_by_snoc group_add_lookup
      by (cases "k \<in> f ` set xs") simp_all
  next
    case False
    then show ?thesis unfolding group_by_snoc group_add_lookup snoc.IH by simp
  qed
qed

lemma group_by_in: "(k, ys) \<in> set (group_by f xs) \<longleftrightarrow> k \<in> f ` set xs \<and> ys = filter (\<lambda>x. f x = k) xs"
proof -
  have "(k, ys) \<in> set (group_by f xs) \<longleftrightarrow> map_of (group_by f xs) k = Some ys"
    by (rule map_of_eq_Some_iff[OF group_by_distinct, symmetric])
  then show ?thesis unfolding group_by_lookup by (metis option.distinct(1) option.inject)
qed

lemma group_by_set: "set (group_by f xs) = (\<lambda>k. (k, filter (\<lambda>x. f x = k) xs)) ` f ` set xs"
proof (rule set_eqI)
  fix z
  show "z \<in> set (group_by f xs) \<longleftrightarrow> z \<in> (\<lambda>k. (k, filter (\<lambda>x. f x = k) xs)) ` f ` set xs"
    using group_by_in[of "fst z" "snd z" f xs] by (cases z) (auto simp: image_iff)
qed

section \<open>Splitting at a character\<close>

text \<open>Python's \<open>s.split(c)\<close> for one character, and \<open>s.partition(c)\<close>: before it, whether it is there, after it.\<close>

fun split_on :: "char \<Rightarrow> string \<Rightarrow> string list" where
  "split_on c [] = [[]]"
| "split_on c (x # xs) =
     (if x = c then [] # split_on c xs
      else case split_on c xs of [] \<Rightarrow> [[x]] | w # ws \<Rightarrow> (x # w) # ws)"

definition partition_at :: "char \<Rightarrow> string \<Rightarrow> string \<times> bool \<times> string" where
  "partition_at c s =
     (let front = takeWhile (\<lambda>x. x \<noteq> c) s
      in (front, c \<in> set s, drop (length front + 1) s))"

lemma split_on_nonempty [simp]: "split_on c s \<noteq> []"
  by (induction s) (auto split: list.splits)

lemma split_on_append: "split_on c (xs @ c # ys) = split_on c xs @ split_on c ys"
  by (induction xs) (auto split: list.splits)

lemma split_on_no: "c \<notin> set s \<Longrightarrow> split_on c s = [s]"
  by (induction s) auto

lemma set_split_on: "w \<in> set (split_on c s) \<Longrightarrow> set w \<subseteq> set s - {c}"
proof (induction s arbitrary: w)
  case (Cons x xs)
  show ?case
  proof (cases "x = c")
    case True
    then show ?thesis using Cons by auto
  next
    case False
    obtain v vs where v: "split_on c xs = v # vs" by (cases "split_on c xs") auto
    then have "w = x # v \<or> w \<in> set vs" using Cons.prems False by auto
    moreover have "set u \<subseteq> set xs - {c}" if "u \<in> set (v # vs)" for u using Cons.IH[of u] that v by simp
    ultimately consider "w = x # v" "set v \<subseteq> set xs - {c}" | "set w \<subseteq> set xs - {c}" by auto
    then show ?thesis using False by cases auto
  qed
qed simp

end
