(* ===== verification/ReportAssembly.thy ===== *)
theory ReportAssembly
  imports Citations Texts
begin

text \<open>
  \<open>app/reports/assembly.py\<close>: the draft with its markers renumbered to citations, and the sections built
  from the run's records; with the parts of \<open>app/agents/synthesis.py\<close> and \<open>app/agents/answer.py\<close> that
  read the markers of a text.  UUID5 and the calendar are parameters, and so are the two characters
  of the assembled text that are not among the 256 of a \<open>char\<close>.
\<close>

section \<open>Shortening\<close>

text \<open>\<open>s.rsplit(' ', 1)[0]\<close>: up to the last blank, or all of it.\<close>

definition before_last_blank :: "string \<Rightarrow> string" where
  "before_last_blank s =
     (if CHR '' '' \<in> set s then rev (tl (dropWhile (\<lambda>c. c \<noteq> CHR '' '') (rev s))) else s)"

section \<open>Records\<close>

record CitedSource =
  cs_id :: uuid
  cs_title :: string
  cs_url :: string
  cs_publisher :: string
  cs_accessed_at :: datetime

record Resolved =
  rv_ordinal :: nat
  rv_claim :: ClaimItem
  rv_source :: CitedSource
  rv_quote :: string

record SectionRecord =
  se_id :: uuid
  se_report_id :: uuid
  se_kind :: ReportSectionKind
  se_heading :: string
  se_ordinal :: nat
  se_content_md :: string

record CitationRecord =
  ct_id :: uuid
  ct_report_section_id :: uuid
  ct_claim_id :: uuid
  ct_source_id :: uuid
  ct_ordinal :: nat
  ct_quote :: string
  ct_confidence :: real

record ValidationRecord =
  vr_checked :: int
  vr_valid :: int
  vr_rejected :: int
  vr_reasons :: "(string \<times> int) list"

record ReportRecord =
  rr'_id :: uuid
  rr'_run_id :: uuid
  rr'_title :: string
  rr'_summary :: string
  rr'_overall_confidence :: "real option"
  rr'_status :: ReportStatus
  rr'_model :: string
  rr'_word_count :: nat
  rr'_generated_at :: datetime
  rr'_validated_at :: "datetime option"
  rr'_coverage_caveat :: "string option"
  rr'_validation :: "ValidationRecord option"

record AssembledReport =
  as_report :: ReportRecord
  as_sections :: "SectionRecord list"
  as_citations :: "CitationRecord list"

record report_world =
  wo_uuid5 :: "string \<Rightarrow> string \<Rightarrow> uuid"
  wo_uuid_text :: "uuid \<Rightarrow> string"
  wo_isodate :: "datetime \<Rightarrow> string"
  wo_em_dash :: string
  wo_ellipsis :: string

definition UNRESOLVED_ORDINAL :: nat where "UNRESOLVED_ORDINAL = 0"
definition SUMMARY_CHARS :: nat where "SUMMARY_CHARS = 320"
definition MAX_REFERENCES :: nat where "MAX_REFERENCES = 200"

definition report_identity :: "report_world \<Rightarrow> uuid \<Rightarrow> uuid" where
  "report_identity w run_id = wo_uuid5 w ''7a1c2f48-6de1-4b93-9d20-5c8f3a17e4b6'' (wo_uuid_text w run_id)"

definition section_identity :: "report_world \<Rightarrow> uuid \<Rightarrow> ReportSectionKind \<Rightarrow> uuid" where
  "section_identity w report_id kind =
     wo_uuid5 w ''c3b8e5d2-04a7-4f16-8e93-1b6d7c20af55''
       (wo_uuid_text w report_id @ '':'' @ ReportSectionKind_value kind)"

definition citation_identity :: "report_world \<Rightarrow> uuid \<Rightarrow> uuid \<Rightarrow> uuid" where
  "citation_identity w section_id claim_id =
     wo_uuid5 w ''2e9d4b71-8c35-4a08-b6f2-9a4e1d73c580''
       (wo_uuid_text w section_id @ '':'' @ wo_uuid_text w claim_id)"

fun escape_markdown :: "string \<Rightarrow> string" where
  "escape_markdown [] = []"
| "escape_markdown (c # s) =
     (if c = OPEN \<and> s \<noteq> [] \<and> is_digit (hd s) then CHR 0x5C # c # escape_markdown s
      else c # escape_markdown s)"

section \<open>The resolver\<close>

record resolver =
  rs'_claims :: "ClaimItem Catalog"
  rs'_evidence :: "uuid \<rightharpoonup> EvidenceItem"
  rs'_sources :: "uuid \<rightharpoonup> CitedSource"
  rs'_retrieved :: "uuid set"

text \<open>The first span of a claim that a retrieved and stored source carries.\<close>

fun first_span :: "resolver \<Rightarrow> uuid list \<Rightarrow> (EvidenceItem \<times> CitedSource) option" where
  "first_span rs [] = None"
| "first_span rs (i # rest) =
     (case rs'_evidence rs i of
        None \<Rightarrow> first_span rs rest
      | Some sp \<Rightarrow>
          if ev_source_id sp \<notin> rs'_retrieved rs then first_span rs rest
          else case rs'_sources rs (ev_source_id sp) of
            None \<Rightarrow> first_span rs rest
          | Some source \<Rightarrow> Some (sp, source))"

type_synonym by_claim = "(uuid \<times> Resolved) list"

definition resolve_marker :: "resolver \<Rightarrow> nat \<Rightarrow> by_claim \<Rightarrow> Resolved option \<times> by_claim" where
  "resolve_marker rs marker m =
     (case catalog_get (rs'_claims rs) marker of
        None \<Rightarrow> (None, m)
      | Some claim \<Rightarrow>
          (case map_of m (cl_id claim) of
             Some e \<Rightarrow> (Some e, m)
           | None \<Rightarrow>
               (case first_span rs (cl_evidence_ids claim) of
                  None \<Rightarrow> (None, m)
                | Some (sp, source) \<Rightarrow>
                    (let e = \<lparr>rv_ordinal = length m + 1, rv_claim = claim, rv_source = source,
                              rv_quote = ev_claim_text sp\<rparr>
                     in (Some e, m @ [(cl_id claim, e)])))))"

definition entry_ordinal :: "Resolved option \<Rightarrow> nat" where
  "entry_ordinal e = (case e of None \<Rightarrow> UNRESOLVED_ORDINAL | Some r \<Rightarrow> rv_ordinal r)"

fun rewrite_tokens :: "resolver \<Rightarrow> token list \<Rightarrow> by_claim \<Rightarrow> (token \<times> Resolved option) list \<times> by_claim" where
  "rewrite_tokens rs [] m = ([], m)"
| "rewrite_tokens rs (t # ts) m =
     (case t of
        Cite ds \<Rightarrow>
          (let (e, m') = resolve_marker rs (digits_value 0 ds) m; (out, m'') = rewrite_tokens rs ts m'
           in ((Cite (show_nat (entry_ordinal e)), e) # out, m''))
      | _ \<Rightarrow> (let (out, m'') = rewrite_tokens rs ts m in ((t, None) # out, m'')))"

definition rewrite :: "resolver \<Rightarrow> string \<Rightarrow> by_claim \<Rightarrow> (string \<times> Resolved list) \<times> by_claim" where
  "rewrite rs markdown m =
     (let (out, m') = rewrite_tokens rs (tokens markdown) m
      in ((untoken (map fst out), List.map_filter snd out), m'))"

fun rewrite_all :: "resolver \<Rightarrow> ReportSectionDraft list \<Rightarrow> by_claim
    \<Rightarrow> (ReportSectionDraft \<times> string \<times> Resolved list) list \<times> by_claim" where
  "rewrite_all rs [] m = ([], m)"
| "rewrite_all rs (s # ss) m =
     (let ((content, cited), m') = rewrite rs (rs_content_md s) m; (rest, m'') = rewrite_all rs ss m'
      in ((s, content, cited) # rest, m''))"

section \<open>Assembly\<close>

definition citation_record :: "report_world \<Rightarrow> uuid \<Rightarrow> Resolved \<Rightarrow> CitationRecord" where
  "citation_record w section_id e =
     \<lparr>ct_id = citation_identity w section_id (cl_id (rv_claim e)), ct_report_section_id = section_id,
      ct_claim_id = cl_id (rv_claim e), ct_source_id = cs_id (rv_source e), ct_ordinal = rv_ordinal e,
      ct_quote = rv_quote e, ct_confidence = cl_confidence (rv_claim e)\<rparr>"

definition distinct_cited :: "Resolved list \<Rightarrow> Resolved list" where
  "distinct_cited cited = map snd (foldl (\<lambda>m e. set_default (cl_id (rv_claim e)) e m) [] cited)"

definition evidence_section :: "report_world \<Rightarrow> Resolved list \<Rightarrow> (ReportSectionKind \<times> string \<times> string) option" where
  "evidence_section w resolved =
     (if resolved = [] then None
      else Some (ReportSectionKind.EVIDENCE, ''Evidence'',
        str_join [char_of (10 :: nat)]
          ([''Every citation in this report, with the exact passage it rests on.'', []]
           @ concat (map (\<lambda>e.
               [show_nat (rv_ordinal e) @ ''. **'' @ escape_markdown (cl_text (rv_claim e)) @ ''** [''
                  @ show_nat (rv_ordinal e) @ ''] '' @ wo_em_dash w @ '' '' @ escape_markdown (cs_publisher (rv_source e)),
                ''   \"'' @ escape_markdown (rv_quote e) @ ''\"'']) resolved))))"

fun group_by_source :: "Resolved list \<Rightarrow> (uuid \<times> Resolved list) list \<Rightarrow> (uuid \<times> Resolved list) list" where
  "group_by_source [] m = m"
| "group_by_source (e # es) m =
     group_by_source es
       (case map_of m (cs_id (rv_source e)) of
          None \<Rightarrow> m @ [(cs_id (rv_source e), [e])]
        | Some xs \<Rightarrow> AList.update (cs_id (rv_source e)) (xs @ [e]) m)"

definition references_section :: "report_world \<Rightarrow> Resolved list \<Rightarrow> (ReportSectionKind \<times> string \<times> string) option" where
  "references_section w resolved =
     (if resolved = [] then None
      else Some (ReportSectionKind.REFERENCES, ''References'',
        str_join [char_of (10 :: nat)]
          (map (\<lambda>(_, entries).
              (let source = rv_source (hd entries);
                   markers = str_join '', '' (map (\<lambda>e. ''['' @ show_nat (rv_ordinal e) @ '']'') entries)
               in ''- '' @ markers @ '' '' @ escape_markdown (cs_title source) @ '' '' @ wo_em_dash w @ '' ''
                  @ escape_markdown (cs_publisher source) @ ''. Accessed '' @ wo_isodate w (cs_accessed_at source)
                  @ ''. '' @ escape_markdown (cs_url source)))
            (take MAX_REFERENCES (group_by_source resolved [])))))"

definition kind_order :: "ReportSectionKind \<Rightarrow> nat" where
  "kind_order k = length (takeWhile (\<lambda>x. x \<noteq> k) ReportSectionKind_members)"

definition strip_markers :: "string \<Rightarrow> string" where
  "strip_markers s = untoken (filter (\<lambda>t. case t of Ch c \<Rightarrow> True | _ \<Rightarrow> False) (tokens s))"

definition summary :: "report_world \<Rightarrow> SectionRecord list \<Rightarrow> string" where
  "summary w sections =
     (case find (\<lambda>s. se_kind s = ReportSectionKind.EXECUTIVE_SUMMARY) sections of
        None \<Rightarrow> []
      | Some s \<Rightarrow>
          (let plain = str_join '' '' (words (strip_markers (se_content_md s)))
           in if length plain \<le> SUMMARY_CHARS then plain
              else before_last_blank (take SUMMARY_CHARS plain) @ wo_ellipsis w))"

definition confidence :: "Resolved list \<Rightarrow> real option" where
  "confidence resolved =
     (if resolved = [] then None
      else Some (round_to 2 (sum_list (map (cl_confidence \<circ> rv_claim) resolved) / of_nat (length resolved))))"

definition validation_record :: "CitationCheck option \<Rightarrow> ValidationRecord option" where
  "validation_record check =
     map_option (\<lambda>c. \<lparr>vr_checked = cc_checked c, vr_valid = cc_valid c, vr_rejected = cc_rejected c,
        vr_reasons = map (\<lambda>r. (rj_reason r, rj_count r)) (cc_rejections c)\<rparr>) check"

definition report_record ::
  "report_world \<Rightarrow> ReportDraft \<Rightarrow> uuid \<Rightarrow> uuid \<Rightarrow> SectionRecord list \<Rightarrow> Resolved list
     \<Rightarrow> CitationCheck option \<Rightarrow> datetime \<Rightarrow> ReportRecord" where
  "report_record w draft report_id run_id sections resolved check now =
     \<lparr>rr'_id = report_id, rr'_run_id = run_id, rr'_title = rd_title draft, rr'_summary = summary w sections,
      rr'_overall_confidence = confidence resolved,
      rr'_status = (case check of None \<Rightarrow> ReportStatus.DRAFT
                    | Some c \<Rightarrow> if passed c then ReportStatus.VALIDATED else ReportStatus.DRAFT),
      rr'_model = (if rd_model draft = [] then ''unknown'' else rd_model draft),
      rr'_word_count = sum_list (map (length \<circ> words \<circ> se_content_md) sections),
      rr'_generated_at = now, rr'_validated_at = (case check of None \<Rightarrow> None | Some c \<Rightarrow> Some now),
      rr'_coverage_caveat = rd_coverage_caveat draft, rr'_validation = validation_record check\<rparr>"

definition section_of :: "report_world \<Rightarrow> uuid \<Rightarrow> ReportSectionKind \<Rightarrow> string \<Rightarrow> string \<Rightarrow> SectionRecord" where
  "section_of w report_id kind heading content =
     \<lparr>se_id = section_identity w report_id kind, se_report_id = report_id, se_kind = kind,
      se_heading = heading, se_ordinal = 0, se_content_md = content\<rparr>"

definition assemble ::
  "report_world \<Rightarrow> resolver \<Rightarrow> ReportDraft \<Rightarrow> uuid \<Rightarrow> CitationCheck option \<Rightarrow> datetime \<Rightarrow> AssembledReport" where
  "assemble w rs draft run_id check now =
     (let report_id = report_identity w run_id;
          (written, m) = rewrite_all rs (rd_sections draft) [];
          resolved = sort_key rv_ordinal (map snd m);
          built = List.map_filter id [evidence_section w resolved, references_section w resolved];
          drafted = map (\<lambda>(s, content, _). section_of w report_id (rs_kind s) (rs_heading s) content) written;
          citations = concat (map (\<lambda>(s, _, cited).
            map (citation_record w (section_identity w report_id (rs_kind s))) (distinct_cited cited)) written);
          assembled = map (\<lambda>(kind, heading, content). section_of w report_id kind heading content) built;
          ordered = map (\<lambda>(i, s). s\<lparr>se_ordinal := i\<rparr>)
            (zip [1..<Suc (length (drafted @ assembled))] (sort_key (kind_order \<circ> se_kind) (drafted @ assembled)))
      in \<lparr>as_report = report_record w draft report_id run_id ordered resolved check now,
          as_sections = ordered, as_citations = citations\<rparr>)"

section \<open>Citing in a draft\<close>

definition ASSEMBLED_SECTIONS :: "ReportSectionKind set" where
  "ASSEMBLED_SECTIONS = {ReportSectionKind.EVIDENCE, ReportSectionKind.REFERENCES}"

definition cited_claims :: "string \<Rightarrow> ClaimItem Catalog \<Rightarrow> uuid list" where
  "cited_claims markdown claims =
     take MAX_CLAIMS_PER_SECTION
       (dict_fromkeys (map cl_id (List.map_filter (catalog_get claims) (cited_numbers markdown))))"

definition merge_section ::
  "ClaimItem Catalog \<Rightarrow> (ReportSectionKind \<times> ReportSectionDraft) list \<Rightarrow> ReportSectionKind \<times> string \<times> string
     \<Rightarrow> (ReportSectionKind \<times> ReportSectionDraft) list" where
  "merge_section claims merged sec =
     (case sec of (kind, heading, content) \<Rightarrow>
        if kind \<in> ASSEMBLED_SECTIONS then merged
        else
          (let cited = cited_claims content claims;
               draft = \<lparr>rs_kind = kind, rs_heading = heading, rs_content_md = content, rs_claim_ids = cited\<rparr>
           in AList.update kind
                (case map_of merged kind of
                   None \<Rightarrow> draft
                 | Some e \<Rightarrow>
                     e\<lparr>rs_content_md := rs_content_md e @ [char_of (10 :: nat), char_of (10 :: nat)] @ content,
                       rs_claim_ids := take MAX_CLAIMS_PER_SECTION (dict_fromkeys (rs_claim_ids e @ cited))\<rparr>)
                merged))"

definition draft_sections ::
  "(ReportSectionKind \<times> string \<times> string) list \<Rightarrow> ClaimItem Catalog \<Rightarrow> ReportSectionDraft list" where
  "draft_sections output claims =
     take MAX_REPORT_SECTIONS (sort_key (kind_order \<circ> rs_kind) (map snd (foldl (merge_section claims) [] output)))"

section \<open>Reading a rewritten text\<close>

text \<open>A token and what it may be rewritten to: only the number of a citation changes.\<close>

fun same_token :: "token \<Rightarrow> token \<Rightarrow> bool" where
  "same_token (Ch c) t \<longleftrightarrow> t = Ch c"
| "same_token (Link ds) t \<longleftrightarrow> t = Link ds"
| "same_token (Cite ds) t \<longleftrightarrow> (\<exists>ds'. t = Cite ds' \<and> 1 \<le> length ds' \<and> length ds' \<le> 3 \<and> list_all is_digit ds')"

lemma untoken_Cons: "untoken (t # ts) = text_of t @ untoken ts"
  by (simp add: untoken_def)

lemma same_head:
  "list_all2 same_token (tokens s) out \<Longrightarrow>
     (untoken out = [] \<longleftrightarrow> s = []) \<and> (s \<noteq> [] \<longrightarrow> hd (untoken out) = hd s)"
  by (cases s) (auto simp: list_all2_Cons1 untoken_Cons untoken_def split: option.splits if_splits)

lemma same_digits:
  "list_all2 same_token (tokens s) out \<Longrightarrow>
     takeWhile is_digit (untoken out) = takeWhile is_digit s
     \<and> (dropWhile is_digit (untoken out) = [] \<longleftrightarrow> dropWhile is_digit s = [])
     \<and> (dropWhile is_digit s \<noteq> [] \<longrightarrow> hd (dropWhile is_digit (untoken out)) = hd (dropWhile is_digit s))"
proof (induction s arbitrary: out)
  case Nil
  then show ?case by (simp add: untoken_def)
next
  case (Cons c s)
  show ?case
  proof (cases "is_digit c")
    case True
    then have "c \<noteq> OPEN" by (auto simp: is_digit_def OPEN_def)
    with Cons.prems obtain out' where o': "out = Ch c # out'" "list_all2 same_token (tokens s) out'"
      by (auto simp: list_all2_Cons1)
    with Cons.IH[OF o'(2)] True show ?thesis by (simp add: untoken_Cons)
  next
    case False
    with same_head[OF Cons.prems] show ?thesis by (cases "untoken out") auto
  qed
qed

lemma same_no_marker:
  "list_all2 same_token (tokens s) out \<Longrightarrow> marker_at s = None \<Longrightarrow> marker_at (untoken out) = None"
  using same_digits[of s out] by (auto simp: marker_at_def Let_def split: if_splits)

lemma same_link_next: "list_all2 same_token (tokens s) out \<Longrightarrow> link_next (untoken out) = link_next s"
  using same_head[of s out] by (auto simp: link_next_def)

lemma tokens_rewritten: "list_all2 same_token (tokens s) out \<Longrightarrow> tokens (untoken out) = out"
proof (induction s arbitrary: out rule: tokens.induct)
  case 1
  then show ?case by (simp add: untoken_def)
next
  case (2 c s)
  show ?case
  proof (cases "c = OPEN")
    case False
    with 2 show ?thesis by (auto simp: list_all2_Cons1 untoken_Cons)
  next
    case True
    show ?thesis
    proof (cases "marker_at s")
      case None
      with True 2 same_no_marker[OF _ None] show ?thesis
        by (auto simp: list_all2_Cons1 untoken_Cons)
    next
      case (Some m)
      obtain ds rest where m: "m = (ds, rest)" by fastforce
      with Some True 2(4) obtain t out' where o': "out = t # out'" "list_all2 same_token (tokens rest) out'"
        "same_token (if link_next rest then Link ds else Cite ds) t"
        by (auto simp: list_all2_Cons1)
      obtain ds' where ds': "t = (if link_next rest then Link ds' else Cite ds')"
        "1 \<le> length ds'" "length ds' \<le> 3" "list_all is_digit ds'"
        using o'(3) marker_at_digits[of s ds rest] Some m by (cases "link_next rest") auto
      have "text_of t = OPEN # ds' @ [CLOSE]" using ds'(1) by simp
      then have "tokens (untoken out)
          = (if link_next (untoken out') then Link ds' else Cite ds') # tokens (untoken out')"
        using marker_at_intro[OF ds'(2-4), of "untoken out'"] by (simp add: o'(1) untoken_Cons)
      then show ?thesis
        using 2(2)[OF True Some m[symmetric] o'(2)] same_link_next[OF o'(2)] ds'(1) o'(1) by simp
    qed
  qed
qed

section \<open>Numbers are read back\<close>

lemma digits_value_append: "digits_value n (xs @ [c]) = digits_value n xs * 10 + (of_char c - 48)"
  by (induction xs arbitrary: n) simp_all

lemma digit_char_value: "d < 10 \<Longrightarrow> of_char (digit_char d) = 48 + d"
  by (simp add: digit_char_def)

lemma digits_value_show [simp]: "digits_value 0 (show_nat n) = n"
proof (induction n rule: show_nat.induct)
  case (1 n)
  show ?case
  proof (cases "n < 10")
    case True
    then show ?thesis by (subst show_nat.simps) (simp add: digit_char_value)
  next
    case False
    then have "digits_value 0 (show_nat n) = digits_value 0 (show_nat (n div 10)) * 10 + n mod 10"
      by (subst show_nat.simps) (simp add: digits_value_append digit_char_value)
    with 1 False show ?thesis by simp
  qed
qed

lemma show_nat_digits: "list_all is_digit (show_nat n)"
proof (induction n rule: show_nat.induct)
  case (1 n)
  have d: "d < 10 \<Longrightarrow> is_digit (digit_char d)" for d by (simp add: is_digit_def digit_char_value)
  show ?case
  proof (cases "n < 10")
    case True
    then show ?thesis using d by (subst show_nat.simps) simp
  next
    case False
    then show ?thesis using 1 d by (subst show_nat.simps) simp
  qed
qed

lemma show_nat_marker: "n < 1000 \<Longrightarrow> 1 \<le> length (show_nat n) \<and> length (show_nat n) \<le> 3"
  using length_show_nat[of 3 n] by (cases "show_nat n") auto

section \<open>What the resolver hands out\<close>

text \<open>An entry is backed by a span of its claim from a source that was retrieved and stored.\<close>

definition entry_backed :: "resolver \<Rightarrow> Resolved \<Rightarrow> bool" where
  "entry_backed rs e \<longleftrightarrow>
     rv_claim e \<in> set (rs'_claims rs)
     \<and> (\<exists>i \<in> set (cl_evidence_ids (rv_claim e)). \<exists>sp. rs'_evidence rs i = Some sp
          \<and> ev_source_id sp \<in> rs'_retrieved rs \<and> rs'_sources rs (ev_source_id sp) = Some (rv_source e)
          \<and> rv_quote e = ev_claim_text sp)"

definition claim_backed :: "resolver \<Rightarrow> ClaimItem \<Rightarrow> bool" where
  "claim_backed rs c \<longleftrightarrow>
     (\<exists>i \<in> set (cl_evidence_ids c). \<exists>sp. rs'_evidence rs i = Some sp
        \<and> ev_source_id sp \<in> rs'_retrieved rs \<and> rs'_sources rs (ev_source_id sp) \<noteq> None)"

lemma first_span_Some:
  "first_span rs ids = Some (sp, src) \<Longrightarrow>
     \<exists>i \<in> set ids. rs'_evidence rs i = Some sp \<and> ev_source_id sp \<in> rs'_retrieved rs
       \<and> rs'_sources rs (ev_source_id sp) = Some src"
  by (induction ids) (auto split: option.splits if_splits)

lemma first_span_None:
  "first_span rs ids = None \<longleftrightarrow>
     \<not> (\<exists>i \<in> set ids. \<exists>sp. rs'_evidence rs i = Some sp \<and> ev_source_id sp \<in> rs'_retrieved rs
          \<and> rs'_sources rs (ev_source_id sp) \<noteq> None)"
  by (induction ids) (auto split: option.splits)

definition entries_ok :: "resolver \<Rightarrow> by_claim \<Rightarrow> bool" where
  "entries_ok rs m \<longleftrightarrow>
     distinct (map fst m) \<and> map (rv_ordinal \<circ> snd) m = [1..<Suc (length m)]
     \<and> (\<forall>(k, e) \<in> set m. cl_id (rv_claim e) = k \<and> entry_backed rs e)"

text \<open>A marker and the citation it becomes.\<close>

definition resolves_to :: "resolver \<Rightarrow> by_claim \<Rightarrow> nat \<Rightarrow> nat \<Rightarrow> bool" where
  "resolves_to rs m n ordinal \<longleftrightarrow>
     (ordinal = 0 \<and> (\<forall>c. catalog_get (rs'_claims rs) n = Some c \<longrightarrow> \<not> claim_backed rs c))
     \<or> (\<exists>e \<in> snd ` set m. rv_ordinal e = ordinal \<and> catalog_get (rs'_claims rs) n = Some (rv_claim e))"

lemma resolve_marker_ok:
  assumes "distinct (map cl_id (rs'_claims rs))" "entries_ok rs m" "resolve_marker rs n m = (e, m')"
  shows "entries_ok rs m' \<and> set m \<subseteq> set m' \<and> resolves_to rs m' n (entry_ordinal e)
    \<and> (\<forall>x. e = Some x \<longrightarrow> x \<in> snd ` set m')"
proof (cases "catalog_get (rs'_claims rs) n")
  case None
  with assms show ?thesis
    by (simp add: resolve_marker_def resolves_to_def entry_ordinal_def UNRESOLVED_ORDINAL_def)
next
  case (Some claim)
  then have claim: "claim \<in> set (rs'_claims rs)" by (rule catalog_get_in)
  show ?thesis
  proof (cases "map_of m (cl_id claim)")
    case old: (Some x)
    then have x: "(cl_id claim, x) \<in> set m" by (rule map_of_SomeD)
    then have "cl_id (rv_claim x) = cl_id claim" "rv_claim x \<in> set (rs'_claims rs)"
      using assms(2) by (auto simp: entries_ok_def entry_backed_def)
    then have "rv_claim x = claim" using assms(1) claim by (auto simp: distinct_map inj_on_def)
    moreover have "x \<in> snd ` set m" using x by force
    ultimately have "resolves_to rs m n (rv_ordinal x)" using Some unfolding resolves_to_def by blast
    moreover have "e = Some x" "m' = m" using assms(3) Some old by (simp_all add: resolve_marker_def)
    ultimately show ?thesis using assms(2) \<open>x \<in> snd ` set m\<close> by (simp add: entry_ordinal_def)
  next
    case new: None
    show ?thesis
    proof (cases "first_span rs (cl_evidence_ids claim)")
      case None
      then have "\<not> claim_backed rs claim" using first_span_None by (simp add: claim_backed_def)
      with None new Some assms show ?thesis
        by (simp add: resolve_marker_def resolves_to_def entry_ordinal_def UNRESOLVED_ORDINAL_def)
    next
      case span: (Some p)
      obtain sp src where p: "p = (sp, src)" by fastforce
      let ?e = "\<lparr>rv_ordinal = length m + 1, rv_claim = claim, rv_source = src, rv_quote = ev_claim_text sp\<rparr>"
      have r: "e = Some ?e" "m' = m @ [(cl_id claim, ?e)]"
        using assms(3) Some new span p by (simp_all add: resolve_marker_def Let_def)
      have "entry_backed rs ?e"
        using first_span_Some[of rs "cl_evidence_ids claim" sp src] span p claim by (auto simp: entry_backed_def)
      moreover have "cl_id claim \<notin> set (map fst m)" using new by (simp add: map_of_eq_None_iff)
      ultimately have "entries_ok rs m'" using assms(2) r by (auto simp: entries_ok_def)
      then show ?thesis using r Some by (auto simp: resolves_to_def entry_ordinal_def)
    qed
  qed
qed

lemma resolves_to_mono: "resolves_to rs m n i \<Longrightarrow> set m \<subseteq> set m' \<Longrightarrow> resolves_to rs m' n i"
  by (auto simp: resolves_to_def)

lemma entries_few:
  assumes "entries_ok rs m"
  shows "length m \<le> length (rs'_claims rs)"
proof -
  have "length m = card (fst ` set m)" using assms distinct_card[of "map fst m"] by (simp add: entries_ok_def)
  also have "\<dots> \<le> card (cl_id ` set (rs'_claims rs))"
    using assms by (intro card_mono) (auto simp: entries_ok_def entry_backed_def)
  also have "\<dots> \<le> length (rs'_claims rs)" by (meson card_image_le card_length finite_set le_trans)
  finally show ?thesis .
qed

lemma entry_ordinal_small:
  assumes "entries_ok rs m" "\<forall>x. e = Some x \<longrightarrow> x \<in> snd ` set m" "length (rs'_claims rs) < 1000"
  shows "entry_ordinal e < 1000"
proof (cases e)
  case None
  then show ?thesis by (simp add: entry_ordinal_def UNRESOLVED_ORDINAL_def)
next
  case (Some x)
  then have "rv_ordinal x \<in> set (map (rv_ordinal \<circ> snd) m)" using assms(2) by auto
  also have "\<dots> = set [1..<Suc (length m)]" using assms(1) unfolding entries_ok_def by metis
  finally have "rv_ordinal x \<le> length m" by (simp only: set_upt) auto
  with entries_few[OF assms(1)] assms(3) Some show ?thesis by (simp add: entry_ordinal_def)
qed

lemma rewrite_tokens_ok:
  assumes "distinct (map cl_id (rs'_claims rs))" "length (rs'_claims rs) < 1000"
    and "entries_ok rs m" "rewrite_tokens rs ts m = (out, m')"
  shows "entries_ok rs m' \<and> set m \<subseteq> set m' \<and> list_all2 same_token ts (map fst out)
    \<and> list_all2 (resolves_to rs m') (concat (map cite_of ts)) (concat (map cite_of (map fst out)))
    \<and> (\<forall>x \<in> set (List.map_filter snd out). x \<in> snd ` set m')"
  using assms(3,4)
proof (induction ts arbitrary: m out)
  case Nil
  then show ?case by (simp add: map_filter_simps)
next
  case (Cons t ts)
  show ?case
  proof (cases t)
    case (Cite ds)
    obtain e m1 where e: "resolve_marker rs (digits_value 0 ds) m = (e, m1)" by fastforce
    obtain out1 where o1: "rewrite_tokens rs ts m1 = (out1, m')" "out = (Cite (show_nat (entry_ordinal e)), e) # out1"
      using Cons.prems(2) Cite e by (auto split: prod.splits)
    note r = resolve_marker_ok[OF assms(1) Cons.prems(1) e]
    note IH = Cons.IH[of m1 out1] r o1(1)
    have "entry_ordinal e < 1000" using entry_ordinal_small[of rs m1 e] r assms(2) by blast
    then have "same_token t (Cite (show_nat (entry_ordinal e)))"
      using show_nat_marker show_nat_digits Cite by simp
    moreover have "resolves_to rs m' (digits_value 0 ds) (entry_ordinal e)"
      using resolves_to_mono IH by blast
    moreover have "\<forall>x. e = Some x \<longrightarrow> x \<in> snd ` set m'" using IH by blast
    ultimately show ?thesis using IH Cite o1(2)
      by (cases e) (auto simp: cite_of_def map_filter_simps)
  next
    case (Ch c)
    then obtain out1 where o1: "rewrite_tokens rs ts m = (out1, m')" "out = (t, None) # out1"
      using Cons.prems(2) by (auto split: prod.splits)
    with Cons.IH[OF Cons.prems(1) o1(1)] Ch show ?thesis by (auto simp: cite_of_def map_filter_simps)
  next
    case (Link ds)
    then obtain out1 where o1: "rewrite_tokens rs ts m = (out1, m')" "out = (t, None) # out1"
      using Cons.prems(2) by (auto split: prod.splits)
    with Cons.IH[OF Cons.prems(1) o1(1)] Link show ?thesis by (auto simp: cite_of_def map_filter_simps)
  qed
qed

text \<open>Read again, the rewritten text cites exactly what was assigned.\<close>

lemma rewrite_ok:
  assumes "distinct (map cl_id (rs'_claims rs))" "length (rs'_claims rs) < 1000"
    and "entries_ok rs m" "rewrite rs markdown m = ((content, cited), m')"
  shows "entries_ok rs m' \<and> set m \<subseteq> set m'
    \<and> list_all2 (resolves_to rs m') (cited_numbers markdown) (cited_numbers content)
    \<and> set cited \<subseteq> snd ` set m'"
proof -
  obtain out where o': "rewrite_tokens rs (tokens markdown) m = (out, m')"
    "content = untoken (map fst out)" "cited = List.map_filter snd out"
    using assms(4) by (auto simp: rewrite_def split: prod.splits)
  note r = rewrite_tokens_ok[OF assms(1-3) o'(1)]
  then have "tokens content = map fst out" using tokens_rewritten o'(2) by blast
  with r o'(3) show ?thesis by (auto simp: cited_numbers_def)
qed

lemma rewrite_all_ok:
  assumes "distinct (map cl_id (rs'_claims rs))" "length (rs'_claims rs) < 1000"
    and "entries_ok rs m" "rewrite_all rs secs m = (written, m')"
  shows "entries_ok rs m' \<and> set m \<subseteq> set m' \<and> map fst written = secs
    \<and> (\<forall>(s, content, cited) \<in> set written.
          list_all2 (resolves_to rs m') (cited_numbers (rs_content_md s)) (cited_numbers content)
          \<and> set cited \<subseteq> snd ` set m')"
  using assms(3,4)
proof (induction secs arbitrary: m written)
  case Nil
  then show ?case by simp
next
  case (Cons s secs)
  obtain content cited m1 where e: "rewrite rs (rs_content_md s) m = ((content, cited), m1)" by (metis prod.collapse)
  obtain rest where o1: "rewrite_all rs secs m1 = (rest, m')" "written = (s, content, cited) # rest"
    using Cons.prems(2) e by (auto split: prod.splits)
  note r = rewrite_ok[OF assms(1,2) Cons.prems(1) e]
  with Cons.IH[OF _ o1(1)] have IH: "entries_ok rs m'" "set m1 \<subseteq> set m'" "map fst rest = secs"
    "\<forall>(s, content, cited) \<in> set rest.
        list_all2 (resolves_to rs m') (cited_numbers (rs_content_md s)) (cited_numbers content)
        \<and> set cited \<subseteq> snd ` set m'" by blast+
  have "list_all2 (resolves_to rs m') (cited_numbers (rs_content_md s)) (cited_numbers content)"
    using r resolves_to_mono[OF _ IH(2)] by (auto elim: list_all2_mono)
  moreover have "set cited \<subseteq> snd ` set m'" using r IH(2) by blast
  ultimately show ?case using r IH o1(2) by auto
qed

end
