(* ===== verification/ReportRecords.thy ===== *)
theory ReportRecords
  imports ReportAssembly
begin

text \<open>
  What \<open>assemble\<close> (\<open>app/reports/assembly.py\<close>) stores: the sections with their text, and the citation
  records behind the markers of each.
\<close>

section \<open>Only the numbers of markers change\<close>

fun blank :: "token \<Rightarrow> token" where
  "blank (Cite ds) = Cite []"
| "blank t = t"

text \<open>A text with the number of every marker the code reads left out, and nothing else.\<close>

definition skeleton :: "string \<Rightarrow> token list" where
  "skeleton s = map blank (tokens s)"

lemma same_token_blank: "list_all2 same_token ts us \<Longrightarrow> map blank us = map blank ts"
proof (induction rule: list_all2_induct)
  case (Cons t ts u us)
  then show ?case by (cases t) auto
qed simp

section \<open>The entries of one section\<close>

definition resolved_by :: "resolver \<Rightarrow> Resolved set \<Rightarrow> nat \<Rightarrow> nat \<Rightarrow> bool" where
  "resolved_by rs E n i \<longleftrightarrow>
     i = 0 \<and> (\<forall>c. catalog_get (rs'_claims rs) n = Some c \<longrightarrow> \<not> claim_backed rs c)
     \<or> (\<exists>e \<in> E. rv_ordinal e = i \<and> catalog_get (rs'_claims rs) n = Some (rv_claim e))"

lemma resolved_by_mono: "E \<subseteq> F \<Longrightarrow> resolved_by rs E n i \<Longrightarrow> resolved_by rs F n i"
  by (auto simp: resolved_by_def)

lemma resolve_marker_entry:
  assumes "distinct (map cl_id (rs'_claims rs))" "entries_ok rs m" "resolve_marker rs n m = (e, m')"
  shows "resolved_by rs (set_option e) n (entry_ordinal e)"
    and "snd ` set m' \<subseteq> snd ` set m \<union> set_option e"
proof -
  have "resolved_by rs (set_option e) n (entry_ordinal e) \<and> snd ` set m' \<subseteq> snd ` set m \<union> set_option e"
  proof (cases "catalog_get (rs'_claims rs) n")
    case None
    with assms(3) show ?thesis
      by (simp add: resolve_marker_def resolved_by_def entry_ordinal_def UNRESOLVED_ORDINAL_def)
  next
    case (Some claim)
    then have claim: "claim \<in> set (rs'_claims rs)" by (rule catalog_get_in)
    show ?thesis
    proof (cases "map_of m (cl_id claim)")
      case old: (Some x)
      then have "(cl_id claim, x) \<in> set m" by (rule map_of_SomeD)
      then have "cl_id (rv_claim x) = cl_id claim" "rv_claim x \<in> set (rs'_claims rs)"
        using assms(2) by (auto simp: entries_ok_def entry_backed_def)
      then have c: "rv_claim x = claim" using assms(1) claim by (auto simp: distinct_map inj_on_def)
      have "e = Some x" "m' = m" using assms(3) Some old by (simp_all add: resolve_marker_def)
      then show ?thesis using Some c by (auto simp: resolved_by_def entry_ordinal_def)
    next
      case new: None
      show ?thesis
      proof (cases "first_span rs (cl_evidence_ids claim)")
        case None
        then have "\<not> claim_backed rs claim" using first_span_None by (simp add: claim_backed_def)
        with None new Some assms(3) show ?thesis
          by (simp add: resolve_marker_def resolved_by_def entry_ordinal_def UNRESOLVED_ORDINAL_def)
      next
        case (Some p)
        with new \<open>catalog_get (rs'_claims rs) n = Some claim\<close> assms(3) show ?thesis
          by (auto simp: resolve_marker_def resolved_by_def entry_ordinal_def Let_def split: prod.splits)
      qed
    qed
  qed
  then show "resolved_by rs (set_option e) n (entry_ordinal e)"
    and "snd ` set m' \<subseteq> snd ` set m \<union> set_option e" by blast+
qed

lemma rewrite_tokens_entries:
  assumes "distinct (map cl_id (rs'_claims rs))" "entries_ok rs m" "rewrite_tokens rs ts m = (out, m')"
  shows "list_all2 (resolved_by rs (set (List.map_filter snd out)))
      (concat (map cite_of ts)) (concat (map cite_of (map fst out)))
    \<and> snd ` set m' \<subseteq> snd ` set m \<union> set (List.map_filter snd out)
    \<and> rv_ordinal ` set (List.map_filter snd out) \<subseteq> set (concat (map cite_of (map fst out)))"
  using assms(2,3)
proof (induction ts arbitrary: m out)
  case Nil
  then show ?case by (simp add: map_filter_simps)
next
  case (Cons t ts)
  show ?case
  proof (cases t)
    case (Cite ds)
    obtain e m1 where e: "resolve_marker rs (digits_value 0 ds) m = (e, m1)" by fastforce
    obtain out1 where o1: "rewrite_tokens rs ts m1 = (out1, m')" "out = (Cite (show_nat (entry_ordinal e)), e) # out1"
      using Cons.prems(2) Cite e by (auto split: prod.splits)
    have "entries_ok rs m1" using resolve_marker_ok[OF assms(1) Cons.prems(1) e] by blast
    note IH = Cons.IH[OF this o1(1)] and r = resolve_marker_entry[OF assms(1) Cons.prems(1) e]
    have E: "set (List.map_filter snd out) = set_option e \<union> set (List.map_filter snd out1)"
      by (cases e) (simp_all add: o1(2) map_filter_simps)
    have "rv_ordinal ` set_option e \<subseteq> {entry_ordinal e}" by (cases e) (simp_all add: entry_ordinal_def)
    then have 3: "rv_ordinal ` set (List.map_filter snd out) \<subseteq> set (concat (map cite_of (map fst out)))"
      unfolding E using IH by (auto simp: o1(2) cite_of_def)
    have 2: "snd ` set m' \<subseteq> snd ` set m \<union> set (List.map_filter snd out)" unfolding E using IH r(2) by blast
    have "resolved_by rs (set (List.map_filter snd out)) (digits_value 0 ds) (entry_ordinal e)"
      using resolved_by_mono[OF _ r(1)] E by blast
    moreover have "list_all2 (resolved_by rs (set (List.map_filter snd out)))
        (concat (map cite_of ts)) (concat (map cite_of (map fst out1)))"
    proof (rule list_all2_mono[OF IH[THEN conjunct1]])
      show "resolved_by rs (set (List.map_filter snd out1)) n i \<Longrightarrow> resolved_by rs (set (List.map_filter snd out)) n i"
        for n i using resolved_by_mono E by blast
    qed
    moreover have "concat (map cite_of (t # ts)) = digits_value 0 ds # concat (map cite_of ts)"
      "concat (map cite_of (map fst out)) = entry_ordinal e # concat (map cite_of (map fst out1))"
      by (simp_all add: Cite o1(2) cite_of_def)
    ultimately show ?thesis using 2 3 by (simp only: list_all2_Cons simp_thms)
  next
    case (Ch c)
    then obtain out1 where o1: "rewrite_tokens rs ts m = (out1, m')" "out = (t, None) # out1"
      using Cons.prems(2) by (auto split: prod.splits)
    with Cons.IH[OF Cons.prems(1) o1(1)] Ch show ?thesis by (auto simp: cite_of_def map_filter_simps)
  next
    case (Link ds)
    then obtain out1 where o1: "rewrite_tokens rs ts m = (out1, m')" "out = (t, None) # out1"
      using Cons.prems(2) by (auto split: prod.splits)
    with Cons.IH[OF Cons.prems(1) o1(1)] Link show ?thesis by (auto simp: cite_of_def map_filter_simps)
  qed
qed

definition section_resolved :: "resolver \<Rightarrow> ReportSectionDraft \<Rightarrow> string \<Rightarrow> Resolved list \<Rightarrow> bool" where
  "section_resolved rs sec content cited \<longleftrightarrow>
     skeleton content = skeleton (rs_content_md sec)
     \<and> list_all2 (resolved_by rs (set cited)) (cited_numbers (rs_content_md sec)) (cited_numbers content)
     \<and> rv_ordinal ` set cited \<subseteq> set (cited_numbers content)"

lemma rewrite_entries:
  assumes "distinct (map cl_id (rs'_claims rs))" "length (rs'_claims rs) < 1000"
    and "entries_ok rs m" "rewrite rs (rs_content_md sec) m = ((content, cited), m')"
  shows "section_resolved rs sec content cited \<and> snd ` set m' \<subseteq> snd ` set m \<union> set cited"
proof -
  obtain out where o': "rewrite_tokens rs (tokens (rs_content_md sec)) m = (out, m')"
    "content = untoken (map fst out)" "cited = List.map_filter snd out"
    using assms(4) by (auto simp: rewrite_def split: prod.splits)
  have same: "list_all2 same_token (tokens (rs_content_md sec)) (map fst out)"
    using rewrite_tokens_ok[OF assms(1-3) o'(1)] by blast
  then have "tokens content = map fst out" using tokens_rewritten o'(2) by blast
  with rewrite_tokens_entries[OF assms(1,3) o'(1)] same_token_blank[OF same] o'(3) show ?thesis
    by (simp add: section_resolved_def skeleton_def cited_numbers_def)
qed

lemma rewrite_all_entries:
  assumes "distinct (map cl_id (rs'_claims rs))" "length (rs'_claims rs) < 1000"
    and "entries_ok rs m" "rewrite_all rs secs m = (written, m')"
  shows "(\<forall>(sec, content, cited) \<in> set written. section_resolved rs sec content cited)
    \<and> snd ` set m' \<subseteq> snd ` set m \<union> (\<Union>(sec, content, cited) \<in> set written. set cited)"
  using assms(3,4)
proof (induction secs arbitrary: m written)
  case Nil
  then show ?case by simp
next
  case (Cons s secs)
  obtain content cited m1 where e: "rewrite rs (rs_content_md s) m = ((content, cited), m1)" by (metis prod.collapse)
  obtain rest where o1: "rewrite_all rs secs m1 = (rest, m')" "written = (s, content, cited) # rest"
    using Cons.prems(2) e by (auto split: prod.splits)
  have "entries_ok rs m1" using rewrite_ok[OF assms(1,2) Cons.prems(1) e] by blast
  note IH = Cons.IH[OF this o1(1)] and r = rewrite_entries[OF assms(1,2) Cons.prems(1) e]
  have "snd ` set m' \<subseteq> snd ` set m \<union> (\<Union>(sec, content, cited) \<in> set written. set cited)"
    using subset_trans[OF IH[THEN conjunct2] Un_mono[OF r[THEN conjunct2] subset_refl]] by (simp add: o1(2) Un_assoc)
  then show ?case using IH r by (simp add: o1(2))
qed

section \<open>The stored rows\<close>

lemma distinct_cited_set:
  assumes "\<And>e e'. e \<in> set cited \<Longrightarrow> e' \<in> set cited \<Longrightarrow> cl_id (rv_claim e) = cl_id (rv_claim e') \<Longrightarrow> e = e'"
  shows "set (distinct_cited cited) = set cited"
proof -
  have "snd ` set (foldl (\<lambda>m e. set_default (cl_id (rv_claim e)) e m) m es) = snd ` set m \<union> set es"
    if "set es \<subseteq> set cited" "\<forall>(k, e) \<in> set m. k = cl_id (rv_claim e) \<and> e \<in> set cited" for es m
    using that
  proof (induction es arbitrary: m)
    case (Cons e es)
    show ?case
    proof (cases "map_of m (cl_id (rv_claim e))")
      case None
      with Cons show ?thesis by (simp add: set_default_def)
    next
      case (Some x)
      then have "(cl_id (rv_claim e), x) \<in> set m" by (rule map_of_SomeD)
      then have "x = e" "x \<in> snd ` set m" using Cons.prems assms by force+
      with Cons Some show ?thesis by (auto simp: set_default_def)
    qed
  qed simp
  from this[of cited "[]"] show ?thesis by (simp add: distinct_cited_def)
qed

lemma entry_unique:
  assumes "entries_ok rs m" "e \<in> snd ` set m" "e' \<in> snd ` set m"
  shows "(rv_ordinal e = rv_ordinal e' \<longleftrightarrow> e = e') \<and> (cl_id (rv_claim e) = cl_id (rv_claim e') \<longleftrightarrow> e = e')"
proof -
  have "distinct (map (rv_ordinal \<circ> snd) m)" "distinct (map fst m)"
    using assms(1) distinct_upt unfolding entries_ok_def by metis+
  then have "inj_on (rv_ordinal \<circ> snd) (set m)" "inj_on fst (set m)" by (simp_all add: distinct_map)
  moreover obtain k k' where k: "(k, e) \<in> set m" "(k', e') \<in> set m" using assms(2,3) by auto
  moreover have "cl_id (rv_claim e) = k" "cl_id (rv_claim e') = k'"
    using k assms(1) by (auto simp: entries_ok_def)
  ultimately have "rv_ordinal e = rv_ordinal e' \<Longrightarrow> e = e'" "k = k' \<Longrightarrow> e = e'" "cl_id (rv_claim e) = k" "cl_id (rv_claim e') = k'"
    by (auto dest: inj_onD[where x = "(k, e)" and y = "(k', e')"])
  then show ?thesis by blast
qed

lemma numbered_section:
  assumes "x \<in> set xs"
  shows "\<exists>i. x\<lparr>se_ordinal := i\<rparr> \<in> set (map (\<lambda>(i, s). s\<lparr>se_ordinal := i\<rparr>) (zip [1..<Suc (length xs)] (sort_key f xs)))"
proof -
  obtain k where "k < length xs" "sort_key f xs ! k = x"
    using assms by (metis in_set_conv_nth length_sort set_sort)
  then have "(Suc k, x) \<in> set (zip [1..<Suc (length xs)] (sort_key f xs))"
    by (force simp: in_set_zip simp del: upt_Suc)
  from imageI[OF this, of "\<lambda>(i, s). s\<lparr>se_ordinal := i\<rparr>"]
  show ?thesis by (intro exI[of _ "Suc k"]) (simp only: prod.case set_map)
qed

lemma assemble_rows:
  assumes "rewrite_all rs (rd_sections draft) [] = (written, m)" "a = assemble w rs draft run check now"
  shows "(sec, content, cited) \<in> set written \<Longrightarrow>
      \<exists>i. (section_of w (report_identity w run) (rs_kind sec) (rs_heading sec) content)\<lparr>se_ordinal := i\<rparr>
          \<in> set (as_sections a)"
    and "set (as_citations a) = (\<Union>(sec, content, cited) \<in> set written.
      citation_record w (section_identity w (report_identity w run) (rs_kind sec)) ` set (distinct_cited cited))"
proof -
  let ?drafted = "map (\<lambda>(s, content, _). section_of w (report_identity w run) (rs_kind s) (rs_heading s) content) written"
  assume "(sec, content, cited) \<in> set written"
  then have "section_of w (report_identity w run) (rs_kind sec) (rs_heading sec) content \<in> set (?drafted @ ys)" for ys
    by force
  from numbered_section[OF this] show "\<exists>i. (section_of w (report_identity w run) (rs_kind sec) (rs_heading sec) content)\<lparr>se_ordinal := i\<rparr>
      \<in> set (as_sections a)"
    unfolding assms(2) assemble_def assms(1) Let_def prod.case AssembledReport.simps by blast
next
  show "set (as_citations a) = (\<Union>(sec, content, cited) \<in> set written.
      citation_record w (section_identity w (report_identity w run) (rs_kind sec)) ` set (distinct_cited cited))"
    by (auto simp: assms assemble_def Let_def)
qed

end
