(* ===== verification/ReportProperties.thy ===== *)
theory ReportProperties
  imports ReportRecords GraphDriver
begin

text \<open>
  What the citations of a report promise (\<open>app/agents/citations.py\<close>, \<open>app/reports/assembly.py\<close>).
\<close>

text \<open>C17. The citation check of a well-formed draft is always a well-formed verdict (its counts add up, its
  instructions fit), and it passes exactly when every marker it reads names a claim of the run with
  evidence from a source the run retrieved.  It reads a bracketed number of one to three digits unless
  a round or square bracket opens right after it: of two markers that touch, the first is not read.\<close>

theorem check_is_exact:
  assumes "validate s = Some c" "s_report s = Some r" "ReportDraft_ok r" "ids_distinct ev_id (s_evidence s)"
  shows "CitationCheck_ok c \<and> cc_revision c = rd_revision r \<and> cc_checked c = int (length (report_markers r))
    \<and> (passed c \<longleftrightarrow> (\<forall>m \<in> set (report_markers r). backed s m))"
  using validate_ok[OF assms(1-3)] validate_fields[OF assms(1,2)] passed_iff[OF assms(1,2,4)] by blast

definition cited_state :: ResearchState where
  "cited_state =
     (snd (start_of sample_brief 0))
       \<lparr>s_sources := [\<lparr>sr_source_id = 5, sr_task_key = ''t1'', sr_title = ''T'', sr_url = ''https://a.example'',
          sr_source_type = SourceType.WEB, sr_publisher = ''P'', sr_chunk_count = 1\<rparr>],
        s_evidence := [\<lparr>ev_id = 3, ev_task_key = ''t1'', ev_iteration = 1, ev_source_id = 5, ev_document_id = 6,
          ev_claim_text = ''Q'', ev_span_start = 0, ev_span_end = 1, ev_stance = EvidenceStance.SUPPORTS,
          ev_extractor_model = ''m''\<rparr>],
        s_claims := [\<lparr>cl_id = 1, cl_normalized_key = ''k'', cl_text = ''C'', cl_claim_type = ClaimType.EVENT,
          cl_status = ClaimStatus.VERIFIED, cl_confidence = 1, cl_evidence_ids = [3], cl_object_value = ''''\<rparr>],
        s_report := Some \<lparr>rd_title = ''T'', rd_model = ''m'', rd_revision = 0,
          rd_sections = [\<lparr>rs_kind = ReportSectionKind.KEY_FINDINGS, rs_heading = ''H'',
             rs_content_md = ''A [1]. B [7].'', rs_claim_ids = [1]\<rparr>], rd_coverage_caveat = None\<rparr>\<rparr>"

lemma cited_report:
  "ReportDraft_ok (the (s_report cited_state))" "s_report cited_state \<noteq> None"
  "ids_distinct ev_id (s_evidence cited_state)" "ids_distinct cl_id (s_claims cited_state)"
  by (simp_all add: cited_state_def ReportDraft_ok_def ReportSectionDraft_ok_def len_between_def
      MAX_REPORT_SECTIONS_def MAX_CLAIMS_PER_SECTION_def ids_distinct_def)

theorem check_is_exact_witness:
  "case validate cited_state of None \<Rightarrow> False | Some c \<Rightarrow> CitationCheck_ok c \<and> cc_checked c = 2 \<and> \<not> passed c"
proof -
  obtain r where r: "s_report cited_state = Some r" using cited_report(2) by blast
  then obtain c where c: "validate cited_state = Some c" by (simp add: validate_def Let_def)
  have m: "report_markers r = [1, 7]"
    using r by (auto simp: cited_state_def report_markers_def cited_numbers_def cite_of_def OPEN_def CLOSE_def
        marker_at_def link_next_def is_digit_def)
  have "\<not> backed cited_state 7"
    by (simp add: backed_def catalog_get_def claim_catalog_length) (simp add: cited_state_def)
  with check_is_exact[OF c r _ cited_report(3)] cited_report(1) r m c show ?thesis by simp
qed

text \<open>The resolver of a run's report: the catalogue the writer was shown, over the run's own state.\<close>

definition report_resolver :: "ResearchState \<Rightarrow> (uuid \<rightharpoonup> CitedSource) \<Rightarrow> resolver" where
  "report_resolver s rows =
     \<lparr>rs'_claims = claim_catalog MAX_PROMPT_CLAIMS s, rs'_evidence = by_id ev_id (s_evidence s),
      rs'_sources = rows, rs'_retrieved = sr_source_id ` set (s_sources s)\<rparr>"

lemma claim_backed_state:
  assumes "ids_distinct ev_id (s_evidence s)" "\<forall>i \<in> sr_source_id ` set (s_sources s). rows i \<noteq> None"
  shows "claim_backed (report_resolver s rows) c \<longleftrightarrow>
    (\<exists>e \<in> set (s_evidence s). ev_id e \<in> set (cl_evidence_ids c) \<and> ev_source_id e \<in> sr_source_id ` set (s_sources s))"
proof -
  have "claim_backed (report_resolver s rows) c \<longleftrightarrow>
    (\<exists>e \<in> set (s_evidence s). ev_id e \<in> set (cl_evidence_ids c) \<and> ev_source_id e \<in> sr_source_id ` set (s_sources s)
       \<and> rows (ev_source_id e) \<noteq> None)"
    using assms(1) unfolding claim_backed_def report_resolver_def ids_distinct_def
    by (simp add: by_id_distinct) blast
  then show ?thesis using assms(2) by blast
qed

text \<open>
  What a marker of a draft, naming the number \<open>n\<close>, is in the stored section: the ordinal of a citation
  record of that section, for the very claim \<open>n\<close> names, quoting a span of it from a source that was
  retrieved; or 0, when the claim has none.
\<close>

definition marker_recorded ::
  "ResearchState \<Rightarrow> (uuid \<rightharpoonup> CitedSource) \<Rightarrow> CitationRecord set \<Rightarrow> uuid \<Rightarrow> nat \<Rightarrow> nat \<Rightarrow> bool" where
  "marker_recorded s rows records section_id n i \<longleftrightarrow>
     (if backed s n
      then \<exists>c \<in> records. \<exists>claim src. \<exists>e \<in> set (s_evidence s).
             1 \<le> i \<and> ct_ordinal c = i \<and> ct_report_section_id c = section_id
             \<and> catalog_get (claim_catalog MAX_PROMPT_CLAIMS s) n = Some claim \<and> ct_claim_id c = cl_id claim
             \<and> ct_confidence c = cl_confidence claim
             \<and> ev_id e \<in> set (cl_evidence_ids claim) \<and> ct_quote c = ev_claim_text e
             \<and> ev_source_id e \<in> sr_source_id ` set (s_sources s)
             \<and> rows (ev_source_id e) = Some src \<and> ct_source_id c = cs_id src
      else i = 0)"

lemma resolved_marker_recorded:
  assumes "ids_distinct ev_id (s_evidence s)" "\<forall>i \<in> sr_source_id ` set (s_sources s). rows i \<noteq> None"
    and m: "entries_ok (report_resolver s rows) m" "E \<subseteq> snd ` set m"
    and res: "resolved_by (report_resolver s rows) E n i"
    and records: "citation_record w section_id ` E \<subseteq> records"
  shows "marker_recorded s rows records section_id n i"
proof -
  let ?rs = "report_resolver s rows"
  note cb = claim_backed_state[OF assms(1,2)]
  show ?thesis
  proof (cases "\<exists>e \<in> E. rv_ordinal e = i \<and> catalog_get (rs'_claims ?rs) n = Some (rv_claim e)")
    case True
    then obtain e where e: "e \<in> E" "rv_ordinal e = i" "catalog_get (claim_catalog MAX_PROMPT_CLAIMS s) n = Some (rv_claim e)"
      by (auto simp: report_resolver_def)
    then obtain j where "(j, e) \<in> set m" using m(2) by auto
    then have "entry_backed ?rs e" using m(1) unfolding entries_ok_def by blast
    then obtain k sp where sp: "k \<in> set (cl_evidence_ids (rv_claim e))" "by_id ev_id (s_evidence s) k = Some sp"
      "ev_source_id sp \<in> sr_source_id ` set (s_sources s)" "rows (ev_source_id sp) = Some (rv_source e)"
      "rv_quote e = ev_claim_text sp"
      by (auto simp: entry_backed_def report_resolver_def)
    then have k: "sp \<in> set (s_evidence s)" "ev_id sp = k"
      using assms(1) by (simp_all add: ids_distinct_def by_id_distinct)
    have "i \<in> set (map (rv_ordinal \<circ> snd) m)" using e(1,2) m(2) by auto
    then have "i \<in> set [1..<Suc (length m)]" using m(1) unfolding entries_ok_def by metis
    then have "1 \<le> i" by (simp only: set_upt) auto
    moreover have "backed s n" using e(3) sp k by (auto simp: backed_def)
    moreover have "citation_record w section_id e \<in> records" using e(1) records by blast
    ultimately show ?thesis
      unfolding marker_recorded_def using e(2,3) sp k
      by (auto simp: citation_record_def intro!: bexI[of _ "citation_record w section_id e"] bexI[of _ sp])
  next
    case False
    with res have i: "i = 0" "\<And>c. catalog_get (rs'_claims ?rs) n = Some c \<Longrightarrow> \<not> claim_backed ?rs c"
      by (auto simp: resolved_by_def)
    then have "\<not> backed s n" using cb by (auto simp: backed_def report_resolver_def)
    with i show ?thesis by (simp add: marker_recorded_def)
  qed
qed

text \<open>C18. A written report cites only what the run can show.  Every section of the draft is stored with its
  heading and with its text, in which nothing but the numbers of the markers the code reads is
  changed (of two markers that touch, the first is not read, and keeps its number).  Each of these
  numbers is the ordinal of a citation record of that section, for the very claim the draft named,
  quoting a span from a source that was retrieved - or 0, exactly where the claim has none.  Every
  citation record is cited in its section, the records number the claims from 1 without a gap, and
  two records have the same number exactly when they are of the same claim.\<close>

theorem written_report_cites_what_it_has:
  assumes "ids_distinct cl_id (s_claims s)" "ids_distinct ev_id (s_evidence s)"
    and "\<forall>i \<in> sr_source_id ` set (s_sources s). rows i \<noteq> None"
    and "a = assemble w (report_resolver s rows) draft run check now"
  shows "(\<forall>sec \<in> set (rd_sections draft). \<exists>st \<in> set (as_sections a).
           se_kind st = rs_kind sec \<and> se_heading st = rs_heading sec
           \<and> skeleton (se_content_md st) = skeleton (rs_content_md sec)
           \<and> list_all2 (marker_recorded s rows (set (as_citations a)) (se_id st))
               (cited_numbers (rs_content_md sec)) (cited_numbers (se_content_md st)))
    \<and> (\<forall>c \<in> set (as_citations a). \<exists>st \<in> set (as_sections a).
         ct_report_section_id c = se_id st \<and> ct_ordinal c \<in> set (cited_numbers (se_content_md st)))
    \<and> (\<exists>n. ct_ordinal ` set (as_citations a) = {1..n})
    \<and> (\<forall>c \<in> set (as_citations a). \<forall>c' \<in> set (as_citations a).
         ct_ordinal c = ct_ordinal c' \<longleftrightarrow> ct_claim_id c = ct_claim_id c')"
proof -
  let ?rs = "report_resolver s rows" and ?r = "report_identity w run"
  obtain written m where w: "rewrite_all ?rs (rd_sections draft) [] = (written, m)" by fastforce
  have d: "distinct (map cl_id (rs'_claims ?rs))"
    using assms(1) claim_catalog_distinct by (simp add: report_resolver_def ids_distinct_def)
  have small: "length (rs'_claims ?rs) < 1000"
    by (simp add: report_resolver_def claim_catalog_length MAX_PROMPT_CLAIMS_def)
  have "entries_ok ?rs []" by (simp add: entries_ok_def)
  note ok = rewrite_all_ok[OF d small this w] and en = rewrite_all_entries[OF d small this w]
  have m: "entries_ok ?rs m" "map fst written = rd_sections draft" using ok by blast+
  have cited: "set cited \<subseteq> snd ` set m" "section_resolved ?rs sec content cited"
    if "(sec, content, cited) \<in> set written" for sec content cited
    using bspec[OF ok[THEN conjunct2, THEN conjunct2, THEN conjunct2] that] bspec[OF en[THEN conjunct1] that] by simp_all
  have dc: "set (distinct_cited cited) = set cited" if "(sec, content, cited) \<in> set written" for sec content cited
    using cited(1)[OF that] entry_unique[OF m(1)] by (intro distinct_cited_set) blast
  note rows = assemble_rows[OF w assms(4)]
  let ?rec = "\<lambda>sec. citation_record w (section_identity w ?r (rs_kind sec))"
  have cites: "c \<in> set (as_citations a) \<longleftrightarrow> (\<exists>sec content cited. (sec, content, cited) \<in> set written \<and> c \<in> ?rec sec ` set cited)" for c
  proof -
    have "set (as_citations a) = (\<Union>(sec, content, cited) \<in> set written. ?rec sec ` set cited)"
      unfolding rows(2)
    proof (rule SUP_cong[OF refl], clarify)
      show "?rec sec ` set (distinct_cited ci) = ?rec sec ` set ci" if "(sec, content, ci) \<in> set written" for sec content ci
        using dc[OF that] by simp
    qed
    then show ?thesis by auto
  qed
  have stored: "\<exists>st \<in> set (as_sections a). se_kind st = rs_kind sec \<and> se_heading st = rs_heading sec
      \<and> se_content_md st = content \<and> se_id st = section_identity w ?r (rs_kind sec)"
    if "(sec, content, cited) \<in> set written" for sec content cited
    using rows(1)[OF that] by (auto simp: section_of_def intro: bexI[rotated])
  have 1: "\<exists>st \<in> set (as_sections a). se_kind st = rs_kind sec \<and> se_heading st = rs_heading sec
      \<and> skeleton (se_content_md st) = skeleton (rs_content_md sec)
      \<and> list_all2 (marker_recorded s rows (set (as_citations a)) (se_id st))
          (cited_numbers (rs_content_md sec)) (cited_numbers (se_content_md st))"
    if sec: "sec \<in> set (rd_sections draft)" for sec
  proof -
    have "sec \<in> fst ` set written" using sec m(2) by (metis set_map)
    then obtain content ci where in_w: "(sec, content, ci) \<in> set written" by auto
    have sub: "?rec sec ` set ci \<subseteq> set (as_citations a)" using in_w unfolding rows(2) dc[OF in_w, symmetric] by force
    have "list_all2 (resolved_by ?rs (set ci)) (cited_numbers (rs_content_md sec)) (cited_numbers content)"
      using cited(2)[OF in_w] by (simp add: section_resolved_def)
    then have "list_all2 (marker_recorded s rows (set (as_citations a)) (section_identity w ?r (rs_kind sec)))
        (cited_numbers (rs_content_md sec)) (cited_numbers content)"
      by (rule list_all2_mono) (rule resolved_marker_recorded[OF assms(2,3) m(1) cited(1)[OF in_w] _ sub])
    moreover have "skeleton content = skeleton (rs_content_md sec)"
      using cited(2)[OF in_w] by (simp add: section_resolved_def)
    ultimately show ?thesis using stored[OF in_w] by auto
  qed
  have 2: "\<exists>st \<in> set (as_sections a). ct_report_section_id c = se_id st \<and> ct_ordinal c \<in> set (cited_numbers (se_content_md st))"
    if c: "c \<in> set (as_citations a)" for c
  proof -
    obtain sec content ci e where e: "(sec, content, ci) \<in> set written" "e \<in> set ci" "c = ?rec sec e"
      using c cites by blast
    then have "ct_ordinal c \<in> set (cited_numbers content)" "ct_report_section_id c = section_identity w ?r (rs_kind sec)"
      using cited(2)[OF e(1)] by (auto simp: section_resolved_def citation_record_def)
    moreover obtain st where "st \<in> set (as_sections a)" "se_content_md st = content"
      "se_id st = section_identity w ?r (rs_kind sec)"
      using stored[OF e(1)] by blast
    ultimately show ?thesis by (intro bexI[of _ st]) simp_all
  qed
  have all: "\<exists>e \<in> snd ` set m. ct_ordinal c = rv_ordinal e \<and> ct_claim_id c = cl_id (rv_claim e)"
    if "c \<in> set (as_citations a)" for c
    using that cited(1) unfolding cites by (fastforce simp: citation_record_def)
  have "rv_ordinal e \<in> ct_ordinal ` set (as_citations a)" if e: "e \<in> snd ` set m" for e
  proof -
    have "e \<in> (\<Union>(sec, content, ci) \<in> set written. set ci)"
      using subsetD[OF en[THEN conjunct2], of e] e by (simp only: list.set image_empty Un_empty_left)
    then obtain sec content ci where "(sec, content, ci) \<in> set written" "e \<in> set ci" by auto
    then have "?rec sec e \<in> set (as_citations a)" using cites by blast
    from imageI[OF this, of ct_ordinal] show ?thesis by (simp add: citation_record_def)
  qed
  with all have "ct_ordinal ` set (as_citations a) = rv_ordinal ` snd ` set m" by blast
  then have "ct_ordinal ` set (as_citations a) = set (map (rv_ordinal \<circ> snd) m)" by (simp add: image_image)
  also have "\<dots> = {1..length m}"
    using m(1) unfolding entries_ok_def by (metis atLeastLessThanSuc_atLeastAtMost set_upt)
  finally have 3: "\<exists>n. ct_ordinal ` set (as_citations a) = {1..n}" by blast
  have 4: "ct_ordinal c = ct_ordinal c' \<longleftrightarrow> ct_claim_id c = ct_claim_id c'"
    if "c \<in> set (as_citations a)" "c' \<in> set (as_citations a)" for c c'
    using all[OF that(1)] all[OF that(2)] entry_unique[OF m(1)] by metis
  from 1 2 3 4 show ?thesis by blast
qed

definition cited_rows :: "uuid \<rightharpoonup> CitedSource" where
  "cited_rows = [5 \<mapsto> \<lparr>cs_id = 5, cs_title = ''T'', cs_url = ''https://a.example'', cs_publisher = ''P'', cs_accessed_at = 0\<rparr>]"

definition cited_world :: report_world where
  "cited_world =
     \<lparr>wo_uuid5 = (\<lambda>namespace name. length name), wo_uuid_text = show_nat,
      wo_isodate = show_int, wo_em_dash = ''--'', wo_ellipsis = ''...''\<rparr>"

theorem written_report_cites_what_it_has_witness:
  "let a = assemble cited_world (report_resolver cited_state cited_rows) (the (s_report cited_state)) 9 None 0
   in \<exists>st \<in> set (as_sections a). se_heading st = ''H''
        \<and> skeleton (se_content_md st) = skeleton ''A [1]. B [7].'' \<and> (\<exists>n. ct_ordinal ` set (as_citations a) = {1..n})"
proof -
  have "\<forall>i \<in> sr_source_id ` set (s_sources cited_state). cited_rows i \<noteq> None"
    by (simp add: cited_state_def cited_rows_def)
  note w = written_report_cites_what_it_has[where w = cited_world and draft = "the (s_report cited_state)"
      and run = 9 and check = None and now = 0, OF cited_report(4,3) this refl]
  have "\<exists>sec \<in> set (rd_sections (the (s_report cited_state))). rs_heading sec = ''H'' \<and> rs_content_md sec = ''A [1]. B [7].''"
    by (simp add: cited_state_def)
  with w show ?thesis unfolding Let_def by metis
qed

text \<open>
  Of two markers that stand side by side, as a sentence resting on two claims has them, the first is
  read as the label of a link: the check does not see it, and the report keeps the number the model
  wrote, which in the stored text is somebody else's ordinal.
\<close>

lemma first_of_adjacent_markers_is_not_read:
  "tokens ''[7][1]'' = [Link ''7'', Cite ''1'']" "cited_numbers ''[7][1]'' = [1]"
  by (simp_all add: cited_numbers_def cite_of_def OPEN_def CLOSE_def marker_at_def link_next_def is_digit_def)

end
