(* ===== verification/OrderedDicts.thy ===== *)
theory OrderedDicts
  imports Prelude
begin

text \<open>
  Python's \<open>OrderedDict\<close> as the bounded stores use it: an association list in order of use, oldest
  first.  \<open>od_put\<close> is the assignment followed by \<open>move_to_end\<close>, \<open>od_trim\<close> the loop that pops the
  oldest entries while there are too many.
\<close>

definition od_del :: "'k \<Rightarrow> ('k \<times> 'v) list \<Rightarrow> ('k \<times> 'v) list" where
  "od_del k d = filter (\<lambda>p. fst p \<noteq> k) d"

definition od_put :: "'k \<Rightarrow> 'v \<Rightarrow> ('k \<times> 'v) list \<Rightarrow> ('k \<times> 'v) list" where
  "od_put k v d = od_del k d @ [(k, v)]"

fun od_trim :: "nat \<Rightarrow> ('k \<times> 'v) list \<Rightarrow> ('k \<times> 'v) list" where
  "od_trim n [] = []"
| "od_trim n (p # d) = (if length (p # d) > n then od_trim n d else p # d)"

definition od_ok :: "('k \<times> 'v) list \<Rightarrow> bool" where
  "od_ok d \<longleftrightarrow> distinct (map fst d)"

lemma od_del_keys: "map fst (od_del k d) = filter (\<lambda>x. x \<noteq> k) (map fst d)"
  by (simp add: od_del_def filter_map comp_def)

lemma od_del_ok [simp]: "od_ok d \<Longrightarrow> od_ok (od_del k d)"
  by (simp add: od_ok_def od_del_keys)

lemma od_put_ok [simp]: "od_ok d \<Longrightarrow> od_ok (od_put k v d)"
  by (auto simp: od_ok_def od_put_def od_del_keys)

lemma od_trim_drop: "od_trim n d = drop (length d - n) d"
  by (induction d) (auto simp: Suc_diff_le)

lemma od_trim_ok [simp]: "od_ok d \<Longrightarrow> od_ok (od_trim n d)"
  by (simp add: od_ok_def od_trim_drop flip: drop_map)

lemma od_trim_length: "length (od_trim n d) \<le> n"
  by (simp add: od_trim_drop)

lemma od_trim_id [simp]: "length d \<le> n \<Longrightarrow> od_trim n d = d"
  by (simp add: od_trim_drop)

lemma od_del_lookup: "map_of (od_del k d) j = (if j = k then None else map_of d j)"
  by (induction d) (auto simp: od_del_def)

lemma od_put_lookup: "map_of (od_put k v d) j = (if j = k then Some v else map_of d j)"
proof -
  have "map_of (od_put k v d) j = (case map_of (od_del k d) j of Some x \<Rightarrow> Some x | None \<Rightarrow> map_of [(k, v)] j)"
    by (simp add: od_put_def map_add_def split: option.split)
  then show ?thesis by (auto simp: od_del_lookup split: option.split)
qed

text \<open>Trimming can only forget: what is still found is what was stored.\<close>

lemma od_trim_lookup:
  assumes "od_ok d" "map_of (od_trim n d) k = Some v"
  shows "map_of d k = Some v"
proof -
  have "(k, v) \<in> set (od_trim n d)" using assms(2) by (rule map_of_SomeD)
  then have "(k, v) \<in> set d" unfolding od_trim_drop by (rule in_set_dropD)
  then show ?thesis using assms(1) by (simp add: od_ok_def)
qed

lemma od_put_trim_lookup:
  assumes "od_ok d" "0 < n"
  shows "map_of (od_trim n (od_put k v d)) k = Some v"
proof -
  have "length (od_put k v d) - n \<le> length (od_del k d)" using assms(2) by (simp add: od_put_def)
  then have "drop (length (od_put k v d) - n) (od_put k v d)
      = drop (length (od_put k v d) - n) (od_del k d) @ [(k, v)]"
    unfolding od_put_def by simp
  then have "(k, v) \<in> set (od_trim n (od_put k v d))" by (simp add: od_trim_drop)
  moreover have "od_ok (od_trim n (od_put k v d))" using assms(1) by simp
  ultimately show ?thesis by (simp add: od_ok_def)
qed

end
