(* ===== verification/RateLimit.thy ===== *)
theory RateLimit
  imports OrderedDicts Texts
begin

text \<open>
  \<open>app/security/ratelimit.py\<close>: the token bucket, its two stores (in this process and in Redis) and
  the limiter that fails open, and \<open>app/security/forwarded.py\<close>: the address a request is limited by.
  Times are seconds.  The hash in a bucket's key is a parameter.
\<close>

section \<open>The bucket\<close>

record Rule =
  ru_name :: string
  ru_capacity :: int
  ru_refill_per_second :: real

definition per_minute :: "Rule \<Rightarrow> int" where
  "per_minute r = round_half_even (ru_refill_per_second r * 60)"

definition ttl_seconds :: "Rule \<Rightarrow> int" where
  "ttl_seconds r = \<lceil>of_int (ru_capacity r) / max (ru_refill_per_second r) (1 / 10 ^ 9)\<rceil> + 60"

record Decision =
  de_allowed :: bool
  de_limit :: int
  de_remaining :: int
  de_retry_after_seconds :: int

text \<open>\<open>int(x)\<close> truncates towards zero.\<close>

definition truncate_int :: "real \<Rightarrow> int" where
  "truncate_int x = (if 0 \<le> x then \<lfloor>x\<rfloor> else \<lceil>x\<rceil>)"

definition decide :: "real \<Rightarrow> Rule \<Rightarrow> int \<Rightarrow> bool \<Rightarrow> Decision" where
  "decide tokens rule cost allowed =
     (if allowed
      then \<lparr>de_allowed = True, de_limit = ru_capacity rule, de_remaining = truncate_int tokens,
            de_retry_after_seconds = 0\<rparr>
      else \<lparr>de_allowed = False, de_limit = ru_capacity rule, de_remaining = truncate_int tokens,
            de_retry_after_seconds =
              max 1 \<lceil>(of_int cost - tokens) / ru_refill_per_second rule\<rceil>\<rparr>)"

text \<open>A bucket: its tokens and when they were counted.\<close>

type_synonym bucket = "real \<times> real"

definition refilled :: "Rule \<Rightarrow> bucket option \<Rightarrow> real \<Rightarrow> real" where
  "refilled rule b now =
     (let (tokens, updated) = (case b of Some p \<Rightarrow> p | None \<Rightarrow> (of_int (ru_capacity rule), now))
      in min (of_int (ru_capacity rule)) (tokens + max 0 (now - updated) * ru_refill_per_second rule))"

definition spend :: "Rule \<Rightarrow> int \<Rightarrow> real \<Rightarrow> bucket option \<Rightarrow> bucket \<times> bool" where
  "spend rule cost now b =
     (let tokens = refilled rule b now; allowed = tokens \<ge> of_int cost
      in ((if allowed then tokens - of_int cost else tokens, now), allowed))"

section \<open>The stores\<close>

record InMemoryRateLimitBackend =
  ib_buckets :: "(string \<times> bucket) list"
  ib_max_entries :: nat

definition memory_consume ::
  "InMemoryRateLimitBackend \<Rightarrow> string \<Rightarrow> Rule \<Rightarrow> int \<Rightarrow> real \<Rightarrow> Decision \<times> InMemoryRateLimitBackend" where
  "memory_consume be key rule cost now =
     (let ((tokens, at_time), allowed) = spend rule cost now (map_of (ib_buckets be) key)
      in (decide tokens rule cost allowed,
          be\<lparr>ib_buckets := od_trim (ib_max_entries be) (od_put key (tokens, at_time) (ib_buckets be))\<rparr>))"

text \<open>
  The Redis script on the hash of each key, with the moment the key expires.  \<open>clock\<close> is the
  server's clock, by which keys expire; \<open>now\<close> is the caller's.
\<close>

type_synonym redis_buckets = "string \<rightharpoonup> bucket \<times> real"

definition redis_state :: "redis_buckets \<Rightarrow> real \<Rightarrow> string \<Rightarrow> bucket option" where
  "redis_state rd clock key =
     (case rd key of None \<Rightarrow> None | Some (b, expires) \<Rightarrow> if expires \<le> clock then None else Some b)"

definition script_spend :: "Rule \<Rightarrow> int \<Rightarrow> real \<Rightarrow> bucket option \<Rightarrow> bucket \<times> bool" where
  "script_spend rule cost now b =
     (let (tokens, at_time) = (case b of None \<Rightarrow> (of_int (ru_capacity rule), now) | Some p \<Rightarrow> p);
          elapsed = now - at_time;
          elapsed' = (if elapsed < 0 then 0 else elapsed);
          tokens' = min (of_int (ru_capacity rule)) (tokens + elapsed' * ru_refill_per_second rule)
      in if tokens' \<ge> of_int cost then ((tokens' - of_int cost, now), True) else ((tokens', now), False))"

text \<open>The script may answer, fail before it ran, or run and have its answer lost; a failure is \<open>None\<close>.\<close>

datatype reach = Replied | NotSent | ReplyLost

definition redis_consume ::
  "redis_buckets \<Rightarrow> real \<Rightarrow> reach \<Rightarrow> string \<Rightarrow> Rule \<Rightarrow> int \<Rightarrow> real \<Rightarrow> Decision option \<times> redis_buckets" where
  "redis_consume rd clock reach key rule cost now =
     (if reach = NotSent then (None, rd)
      else
        (let (b, allowed) = script_spend rule cost now (redis_state rd clock key);
             rd' = rd(key \<mapsto> (b, clock + of_int (ttl_seconds rule)))
         in (if reach = ReplyLost then None else Some (decide (fst b) rule cost allowed), rd')))"

section \<open>The limiter\<close>

definition bucket_key :: "(string \<Rightarrow> string) \<Rightarrow> string \<Rightarrow> string \<Rightarrow> string" where
  "bucket_key digest rule identity = ''rl:v1:'' @ rule @ '':'' @ take 32 (digest identity)"

text \<open>\<open>answer\<close> is what the backend said; \<open>None\<close> is a backend that could not be reached.\<close>

definition check_rate :: "bool \<Rightarrow> Rule \<Rightarrow> Decision option \<Rightarrow> Decision" where
  "check_rate enabled rule answer =
     (let full = \<lparr>de_allowed = True, de_limit = ru_capacity rule, de_remaining = ru_capacity rule,
                  de_retry_after_seconds = 0\<rparr>
      in if \<not> enabled then full else case answer of None \<Rightarrow> full | Some d \<Rightarrow> d)"

definition refuse_headers :: "Decision \<Rightarrow> (string \<times> string) list" where
  "refuse_headers d =
     [(''Retry-After'', show_int (de_retry_after_seconds d)),
      (''X-RateLimit-Limit'', show_int (de_limit d)), (''X-RateLimit-Remaining'', ''0'')]"

section \<open>What a bucket guarantees\<close>

definition rule_ok :: "Rule \<Rightarrow> bool" where
  "rule_ok r \<longleftrightarrow> 0 \<le> ru_capacity r \<and> 1 / 10 ^ 9 \<le> ru_refill_per_second r"

definition bucket_ok :: "Rule \<Rightarrow> bucket option \<Rightarrow> bool" where
  "bucket_ok r b \<longleftrightarrow> (\<forall>t u. b = Some (t, u) \<longrightarrow> 0 \<le> t \<and> t \<le> of_int (ru_capacity r))"

lemma rule_refill_pos: "rule_ok r \<Longrightarrow> 0 < ru_refill_per_second r"
  unfolding rule_ok_def by (rule less_le_trans[of _ "1 / 10 ^ 9"]) simp_all

lemma refilled_bounds:
  assumes "rule_ok r" "bucket_ok r b"
  shows "0 \<le> refilled r b now" "refilled r b now \<le> of_int (ru_capacity r)"
  using assms rule_refill_pos[OF assms(1)]
  by (auto simp: refilled_def bucket_ok_def rule_ok_def Let_def split: option.splits)

lemma spend_ok:
  assumes "rule_ok r" "bucket_ok r b" "0 \<le> cost"
  shows "bucket_ok r (Some (fst (spend r cost now b)))"
  using refilled_bounds[OF assms(1,2), of now] assms(3)
  by (auto simp: spend_def bucket_ok_def Let_def)

lemma script_spend_same: "script_spend rule cost now b = spend rule cost now b"
  by (cases b) (auto simp: script_spend_def spend_def refilled_def Let_def max_def min_def)

text \<open>
  A bucket nobody touched for its time to live is as full as a new one; the minute on top of that time
  is there for clocks that do not agree.
\<close>

lemma expired_bucket_is_new:
  assumes r: "rule_ok r" and b: "bucket_ok r (Some (t, u))" and idle: "u + of_int (ttl_seconds r) \<le> now + 60"
  shows "spend r cost now (Some (t, u)) = spend r cost now None"
proof -
  let ?f = "ru_refill_per_second r"
  have f: "0 < ?f" "max ?f (1 / 10 ^ 9) = ?f"
    using rule_refill_pos[OF r] r by (simp_all add: rule_ok_def)
  have "of_int (ru_capacity r) / ?f \<le> of_int \<lceil>of_int (ru_capacity r) / ?f\<rceil>" by simp
  also have "\<dots> = of_int (ttl_seconds r) - 60" unfolding ttl_seconds_def f(2) by simp
  also have "\<dots> \<le> now - u" using idle by linarith
  finally have "of_int (ru_capacity r) \<le> (now - u) * ?f" using f by (simp add: pos_divide_le_eq)
  moreover have "now - u \<le> max 0 (now - u)" by simp
  then have "(now - u) * ?f \<le> max 0 (now - u) * ?f" using f by (intro mult_right_mono) auto
  ultimately have "of_int (ru_capacity r) \<le> t + max 0 (now - u) * ?f"
    using b by (simp add: bucket_ok_def)
  then have "refilled r (Some (t, u)) now = refilled r None now"
    by (simp add: refilled_def min_def)
  then show ?thesis by (simp add: spend_def)
qed

text \<open>A run of requests against one bucket, and what of it was allowed.\<close>

fun spend_all :: "Rule \<Rightarrow> (int \<times> real) list \<Rightarrow> bucket option \<Rightarrow> int \<times> bucket option" where
  "spend_all r [] b = (0, b)"
| "spend_all r ((cost, now) # rest) b =
     (let (b', allowed) = spend r cost now b; (total, b'') = spend_all r rest (Some b')
      in ((if allowed then cost else 0) + total, b''))"

text \<open>Tokens are only what the bucket held and what time has added.\<close>

lemma spend_all_bound:
  assumes "rule_ok r" "bucket_ok r (Some (t, u))" "\<forall>(c, now) \<in> set reqs. 0 \<le> c"
    and "sorted (map snd reqs)" "\<forall>(c, now) \<in> set reqs. u \<le> now \<and> now \<le> e" "u \<le> e"
  shows "of_int (fst (spend_all r reqs (Some (t, u)))) \<le> t + (e - u) * ru_refill_per_second r"
  using assms
proof (induction reqs arbitrary: t u)
  case Nil
  then show ?case using rule_refill_pos[OF Nil.prems(1)] by (auto simp: bucket_ok_def)
next
  case (Cons q rest)
  obtain c now where q: "q = (c, now)" by fastforce
  let ?f = "ru_refill_per_second r"
  obtain t' u' a where s: "spend r c now (Some (t, u)) = ((t', u'), a)" by (metis prod.collapse)
  have u': "u' = now" using s by (auto simp: spend_def Let_def)
  have ok: "bucket_ok r (Some (t', u'))"
    using spend_ok[OF Cons.prems(1,2), of c now] Cons.prems(3) s q by auto
  have IH: "of_int (fst (spend_all r rest (Some (t', now)))) \<le> t' + (e - now) * ?f"
    using Cons.prems q u' ok by (intro Cons.IH) auto
  have "t' = refilled r (Some (t, u)) now - (if a then of_int c else 0)"
    using s by (auto simp: spend_def Let_def)
  moreover have "refilled r (Some (t, u)) now \<le> t + (now - u) * ?f"
    using Cons.prems(5) q by (simp add: refilled_def)
  ultimately have "t' + (if a then of_int c else 0) \<le> t + (now - u) * ?f" by simp
  moreover have "(now - u) * ?f + (e - now) * ?f = (e - u) * ?f" by (simp add: algebra_simps)
  ultimately show ?case using IH by (auto simp: q s u' Let_def split_beta)
qed

text \<open>A refused request that waits as long as it was told finds its tokens.\<close>

lemma retry_after_suffices:
  assumes r: "rule_ok r" and b: "bucket_ok r b" and cost: "0 \<le> cost" "cost \<le> ru_capacity r"
    and s: "spend r cost now b = ((t, u), False)"
    and later: "now + of_int (de_retry_after_seconds (decide t r cost False)) \<le> later"
  shows "snd (spend r cost later (Some (t, u)))"
proof -
  let ?f = "ru_refill_per_second r"
  have f: "0 < ?f" by (rule rule_refill_pos[OF r])
  have u: "u = now" and short: "t < of_int cost" using s by (auto simp: spend_def Let_def split: if_splits)
  have "\<lceil>(of_int cost - t) / ?f\<rceil> \<le> de_retry_after_seconds (decide t r cost False)"
    by (simp add: decide_def)
  then have "(of_int cost - t) / ?f \<le> of_int (de_retry_after_seconds (decide t r cost False))"
    by (simp only: ceiling_le_iff)
  with later have "(of_int cost - t) / ?f \<le> later - now" by linarith
  then have "of_int cost - t \<le> (later - now) * ?f" using f by (simp add: pos_divide_le_eq)
  moreover have "(later - now) * ?f \<le> max 0 (later - now) * ?f" using f by (intro mult_right_mono) auto
  ultimately show ?thesis using cost u by (simp add: spend_def refilled_def Let_def)
qed

section \<open>Both stores are one map of buckets\<close>

text \<open>
  The abstract store: a bucket per key, never forgotten.  The rule is a function of the key, as
  \<open>bucket_key\<close> makes it.
\<close>

definition spec_consume ::
  "(string \<Rightarrow> Rule) \<Rightarrow> (string \<rightharpoonup> bucket) \<Rightarrow> string \<Rightarrow> int \<Rightarrow> real \<Rightarrow> Decision \<times> (string \<rightharpoonup> bucket)" where
  "spec_consume rules st key cost now =
     (let (b, allowed) = spend (rules key) cost now (st key)
      in (decide (fst b) (rules key) cost allowed, st(key \<mapsto> b)))"

text \<open>A trace of requests: key, cost and the caller's clock.\<close>

type_synonym requests = "(string \<times> int \<times> real) list"

fun run_spec :: "(string \<Rightarrow> Rule) \<Rightarrow> (string \<rightharpoonup> bucket) \<Rightarrow> requests \<Rightarrow> Decision list" where
  "run_spec rules st [] = []"
| "run_spec rules st ((k, c, now) # rest) =
     (let (d, st') = spec_consume rules st k c now in d # run_spec rules st' rest)"

fun run_memory :: "(string \<Rightarrow> Rule) \<Rightarrow> InMemoryRateLimitBackend \<Rightarrow> requests \<Rightarrow> Decision list" where
  "run_memory rules be [] = []"
| "run_memory rules be ((k, c, now) # rest) =
     (let (d, be') = memory_consume be k (rules k) c now in d # run_memory rules be' rest)"

text \<open>A request as Redis meets it: with the caller's clock, the server's, and what becomes of the call.\<close>

record limit_request =
  lq_key :: string
  lq_cost :: int
  lq_now :: real
  lq_clock :: real
  lq_reach :: reach

fun run_redis :: "(string \<Rightarrow> Rule) \<Rightarrow> redis_buckets \<Rightarrow> limit_request list \<Rightarrow> Decision option list" where
  "run_redis rules rd [] = []"
| "run_redis rules rd (q # rest) =
     (let (d, rd') = redis_consume rd (lq_clock q) (lq_reach q) (lq_key q) (rules (lq_key q)) (lq_cost q) (lq_now q)
      in d # run_redis rules rd' rest)"

text \<open>The requests whose script ran, and what the callers of a trace learn of their decisions.\<close>

definition script_ran :: "limit_request list \<Rightarrow> requests" where
  "script_ran reqs = map (\<lambda>q. (lq_key q, lq_cost q, lq_now q)) (filter (\<lambda>q. lq_reach q \<noteq> NotSent) reqs)"

fun replies :: "limit_request list \<Rightarrow> Decision list \<Rightarrow> Decision option list" where
  "replies [] ds = []"
| "replies (q # qs) ds =
     (case lq_reach q of
        NotSent \<Rightarrow> None # replies qs ds
      | ReplyLost \<Rightarrow> None # replies qs (tl ds)
      | Replied \<Rightarrow> Some (hd ds) # replies qs (tl ds))"

text \<open>The two clocks are apart by \<open>off\<close> to a minute more, whichever replica calls.\<close>

definition clocks_within :: "real \<Rightarrow> limit_request list \<Rightarrow> bool" where
  "clocks_within off reqs \<longleftrightarrow> (\<forall>q \<in> set reqs. off \<le> lq_clock q - lq_now q \<and> lq_clock q - lq_now q \<le> off + 60)"

definition limits_ok :: "(string \<Rightarrow> Rule) \<Rightarrow> limit_request list \<Rightarrow> bool" where
  "limits_ok rules reqs \<longleftrightarrow> (\<forall>q \<in> set reqs. rule_ok (rules (lq_key q)) \<and> 0 \<le> lq_cost q)"

definition rules_ok :: "(string \<Rightarrow> Rule) \<Rightarrow> requests \<Rightarrow> bool" where
  "rules_ok rules reqs \<longleftrightarrow> (\<forall>(k, c, now) \<in> set reqs. rule_ok (rules k) \<and> 0 \<le> c)"

definition memory_inv :: "InMemoryRateLimitBackend \<Rightarrow> bool" where
  "memory_inv be \<longleftrightarrow> od_ok (ib_buckets be) \<and> length (ib_buckets be) \<le> ib_max_entries be"

lemma memory_consume_inv: "memory_inv be \<Longrightarrow> memory_inv (snd (memory_consume be k r c now))"
  by (auto simp: memory_inv_def memory_consume_def Let_def od_trim_length split: prod.split)

lemma keys_bound:
  assumes "od_ok d" "fst ` set d \<subseteq> K" "finite K"
  shows "length d \<le> card K"
proof -
  have "length d = card (set (map fst d))"
    using distinct_card[of "map fst d"] assms(1) by (simp add: od_ok_def)
  also have "\<dots> \<le> card K" using assms by (auto intro!: card_mono)
  finally show ?thesis .
qed

lemma memory_refines_spec:
  assumes "od_ok (ib_buckets be)" "finite K" "card K \<le> ib_max_entries be"
    and "fst ` set (ib_buckets be) \<subseteq> K" "fst ` set reqs \<subseteq> K"
  shows "run_memory rules be reqs = run_spec rules (map_of (ib_buckets be)) reqs"
  using assms
proof (induction reqs arbitrary: be)
  case Nil
  show ?case by simp
next
  case (Cons q rest)
  obtain k c now where q: "q = (k, c, now)" by (cases q)
  obtain b a where s: "spend (rules k) c now (map_of (ib_buckets be) k) = (b, a)" by fastforce
  let ?d = "od_put k b (ib_buckets be)"
  have keys: "fst ` set ?d \<subseteq> K"
    using Cons.prems(4,5) by (auto simp: od_put_def od_del_def q)
  have "length ?d \<le> ib_max_entries be"
    using keys_bound[of ?d K] keys Cons.prems(1-3) by simp
  then have step: "memory_consume be k (rules k) c now
      = (decide (fst b) (rules k) c a, be\<lparr>ib_buckets := ?d\<rparr>)"
    using s by (cases b) (simp add: memory_consume_def Let_def)
  have st: "map_of ?d = (map_of (ib_buckets be))(k \<mapsto> b)"
    by (rule ext) (simp add: od_put_lookup)
  have "run_memory rules (be\<lparr>ib_buckets := ?d\<rparr>) rest = run_spec rules (map_of ?d) rest"
    using Cons.prems keys by (intro Cons.IH[of "be\<lparr>ib_buckets := ?d\<rparr>", simplified]) auto
  then show ?case by (simp add: q spec_consume_def step s st)
qed

text \<open>Redis forgets an idle bucket only when it would be full again.\<close>

definition redis_rel :: "(string \<Rightarrow> Rule) \<Rightarrow> real \<Rightarrow> redis_buckets \<Rightarrow> (string \<rightharpoonup> bucket) \<Rightarrow> bool" where
  "redis_rel rules off rd st \<longleftrightarrow>
     (\<forall>k. case st k of
            None \<Rightarrow> rd k = None
          | Some (t, u) \<Rightarrow> \<exists>expires. rd k = Some ((t, u), expires) \<and> u + off + of_int (ttl_seconds (rules k)) \<le> expires)"

lemma redis_relD:
  assumes "redis_rel rules off rd st"
  shows "st k = None \<Longrightarrow> rd k = None"
    and "st k = Some (t, u) \<Longrightarrow>
      \<exists>expires. rd k = Some ((t, u), expires) \<and> u + off + of_int (ttl_seconds (rules k)) \<le> expires"
  using assms[unfolded redis_rel_def, THEN spec, of k] by simp_all

lemma redis_rel_update:
  assumes "redis_rel rules off rd st" "u + off + of_int (ttl_seconds (rules k)) \<le> expires"
  shows "redis_rel rules off (rd(k \<mapsto> ((t, u), expires))) (st(k \<mapsto> (t, u)))"
  unfolding redis_rel_def
proof
  fix j
  show "case (st(k \<mapsto> (t, u))) j of
          None \<Rightarrow> (rd(k \<mapsto> ((t, u), expires))) j = None
        | Some (t', u') \<Rightarrow> \<exists>e. (rd(k \<mapsto> ((t, u), expires))) j = Some ((t', u'), e)
            \<and> u' + off + of_int (ttl_seconds (rules j)) \<le> e"
    using assms(2) assms(1)[unfolded redis_rel_def, THEN spec, of j] by (auto split: option.splits)
qed

lemma redis_spend:
  assumes "redis_rel rules off rd st" "rule_ok (rules k)" "bucket_ok (rules k) (st k)" "clock \<le> now + off + 60"
  shows "script_spend (rules k) c now (redis_state rd clock k) = spend (rules k) c now (st k)"
proof (cases "st k")
  case None
  then have "rd k = None" by (rule redis_relD(1)[OF assms(1)])
  with None show ?thesis by (simp add: redis_state_def script_spend_same)
next
  case (Some p)
  obtain t u where p: "p = (t, u)" by fastforce
  then obtain expires where e: "rd k = Some ((t, u), expires)" "u + off + of_int (ttl_seconds (rules k)) \<le> expires"
    using redis_relD(2)[OF assms(1), of k t u] Some by blast
  have "spend (rules k) c now (Some (t, u)) = spend (rules k) c now None" if "expires \<le> clock"
    using assms(2,3,4) Some p e(2) that by (intro expired_bucket_is_new) auto
  then show ?thesis using Some p e(1) by (simp add: redis_state_def script_spend_same)
qed

lemma redis_refines_spec:
  assumes "redis_rel rules off rd st" "limits_ok rules reqs" "clocks_within off reqs" "\<And>k. bucket_ok (rules k) (st k)"
  shows "run_redis rules rd reqs = replies reqs (run_spec rules st (script_ran reqs))"
  using assms
proof (induction reqs arbitrary: rd st)
  case Nil
  show ?case by simp
next
  case (Cons q rest)
  let ?k = "lq_key q" and ?c = "lq_cost q" and ?now = "lq_now q"
  have ok: "rule_ok (rules ?k)" "0 \<le> ?c" "limits_ok rules rest" "clocks_within off rest"
    "off \<le> lq_clock q - ?now" "lq_clock q \<le> ?now + off + 60"
    using Cons.prems(2,3) by (auto simp: limits_ok_def clocks_within_def)
  show ?case
  proof (cases "lq_reach q = NotSent")
    case True
    then show ?thesis using Cons.IH[OF Cons.prems(1) ok(3,4) Cons.prems(4)]
      by (simp add: redis_consume_def script_ran_def)
  next
    case False
    obtain t a where s: "spend (rules ?k) ?c ?now (st ?k) = ((t, ?now), a)"
      by (auto simp: spend_def Let_def)
    have b: "bucket_ok (rules ?k) (Some (t, ?now))"
      using spend_ok[OF ok(1) Cons.prems(4) ok(2), of ?now] s by simp
    let ?rd = "rd(?k \<mapsto> ((t, ?now), lq_clock q + of_int (ttl_seconds (rules ?k))))"
    have "redis_rel rules off ?rd (st(?k \<mapsto> (t, ?now)))"
      using ok(5) by (intro redis_rel_update Cons.prems(1)) simp
    moreover have "bucket_ok (rules j) ((st(?k \<mapsto> (t, ?now))) j)" for j using Cons.prems(4) b by simp
    ultimately have "run_redis rules ?rd rest = replies rest (run_spec rules (st(?k \<mapsto> (t, ?now))) (script_ran rest))"
      by (rule Cons.IH[OF _ ok(3,4)])
    with redis_spend[OF Cons.prems(1) ok(1) Cons.prems(4) ok(6), of ?c] s False
    show ?thesis by (cases "lq_reach q") (simp_all add: script_ran_def spec_consume_def redis_consume_def Let_def)
  qed
qed

lemma run_redis_spec:
  assumes "limits_ok rules reqs" "clocks_within off reqs"
  shows "run_redis rules Map.empty reqs = replies reqs (run_spec rules Map.empty (script_ran reqs))"
  using assms by (intro redis_refines_spec) (auto simp: redis_rel_def bucket_ok_def)

section \<open>What a window lets through\<close>

text \<open>The cost of the requests under one key that were answered and allowed.\<close>

fun allowed_cost :: "string \<Rightarrow> limit_request list \<Rightarrow> Decision option list \<Rightarrow> int" where
  "allowed_cost k (q # reqs) (d # ds) =
     (if lq_key q = k \<and> (case d of None \<Rightarrow> False | Some x \<Rightarrow> de_allowed x) then lq_cost q else 0) + allowed_cost k reqs ds"
| "allowed_cost k _ _ = 0"

definition of_key :: "string \<Rightarrow> limit_request list \<Rightarrow> (int \<times> real) list" where
  "of_key k reqs = map snd (filter (\<lambda>q. fst q = k) (script_ran reqs))"

lemma of_key_Cons:
  "of_key k (q # reqs) = (if lq_reach q \<noteq> NotSent \<and> lq_key q = k then [(lq_cost q, lq_now q)] else []) @ of_key k reqs"
  by (simp add: of_key_def script_ran_def)

lemma allowed_cost_spec:
  assumes "\<forall>q \<in> set reqs. 0 \<le> lq_cost q"
  shows "allowed_cost k reqs (replies reqs (run_spec rules st (script_ran reqs)))
      \<le> fst (spend_all (rules k) (of_key k reqs) (st k))"
  using assms
proof (induction reqs arbitrary: st)
  case Nil
  show ?case by (simp add: of_key_def script_ran_def)
next
  case (Cons q rest)
  obtain b a where s: "spend (rules (lq_key q)) (lq_cost q) (lq_now q) (st (lq_key q)) = (b, a)" by fastforce
  let ?st = "st(lq_key q \<mapsto> b)"
  have IH: "allowed_cost k rest (replies rest (run_spec rules ?st (script_ran rest)))
      \<le> fst (spend_all (rules k) (of_key k rest) (?st k))"
    "allowed_cost k rest (replies rest (run_spec rules st (script_ran rest)))
      \<le> fst (spend_all (rules k) (of_key k rest) (st k))"
    by (rule Cons.IH, use Cons.prems in simp)+
  show ?case
  proof (cases "lq_reach q = NotSent")
    case True
    then have "script_ran (q # rest) = script_ran rest" "of_key k (q # rest) = of_key k rest"
      by (simp_all add: script_ran_def of_key_Cons)
    with True IH(2) show ?thesis by simp
  next
    case False
    have "run_spec rules st (script_ran (q # rest))
        = decide (fst b) (rules (lq_key q)) (lq_cost q) a # run_spec rules ?st (script_ran rest)"
      using False s by (simp add: script_ran_def spec_consume_def)
    then have "allowed_cost k (q # rest) (replies (q # rest) (run_spec rules st (script_ran (q # rest))))
        \<le> (if lq_key q = k \<and> a then lq_cost q else 0) + allowed_cost k rest (replies rest (run_spec rules ?st (script_ran rest)))"
      using Cons.prems False by (cases "lq_reach q") (auto simp: decide_def)
    also have "\<dots> \<le> (if lq_key q = k \<and> a then lq_cost q else 0) + fst (spend_all (rules k) (of_key k rest) (?st k))"
      using IH(1) by simp
    also have "\<dots> = fst (spend_all (rules k) (of_key k (q # rest)) (st k))"
      using False s by (cases "lq_key q = k") (auto simp: of_key_Cons split_beta)
    finally show ?thesis .
  qed
qed

text \<open>However the bucket was left: its first request finds at most the capacity.\<close>

lemma spend_all_window:
  assumes "rule_ok r" "bucket_ok r b" "\<forall>(c, now) \<in> set reqs. 0 \<le> c \<and> s \<le> now \<and> now \<le> e"
    and "sorted (map snd reqs)" "s \<le> e"
  shows "of_int (fst (spend_all r reqs b)) \<le> of_int (ru_capacity r) + (e - s) * ru_refill_per_second r"
proof (cases reqs)
  case Nil
  have "0 \<le> (e - s) * ru_refill_per_second r" using assms(5) rule_refill_pos[OF assms(1)] by simp
  with Nil assms(1) show ?thesis by (simp add: rule_ok_def)
next
  case (Cons q rest)
  obtain c now where q: "q = (c, now)" by fastforce
  let ?f = "ru_refill_per_second r"
  obtain t a where sp: "spend r c now b = ((t, now), a)" by (auto simp: spend_def Let_def)
  have ok: "bucket_ok r (Some (t, now))"
    using spend_ok[OF assms(1,2), of c now] assms(3) sp by (auto simp: Cons q)
  have "of_int (fst (spend_all r rest (Some (t, now)))) \<le> t + (e - now) * ?f"
    using assms(1,3,4) ok by (intro spend_all_bound) (auto simp: Cons q)
  moreover have "t = refilled r b now - (if a then of_int c else 0)" using sp by (auto simp: spend_def Let_def)
  moreover have "refilled r b now \<le> of_int (ru_capacity r)" using refilled_bounds(2)[OF assms(1,2)] .
  moreover have "(e - now) * ?f \<le> (e - s) * ?f"
    using assms(3) rule_refill_pos[OF assms(1)] by (intro mult_right_mono) (auto simp: Cons q)
  ultimately show ?thesis by (auto simp: Cons q sp Let_def split_beta)
qed

text \<open>The buckets after a trace, and the rest of the trace from them.\<close>

fun spec_after :: "(string \<Rightarrow> Rule) \<Rightarrow> (string \<rightharpoonup> bucket) \<Rightarrow> requests \<Rightarrow> (string \<rightharpoonup> bucket)" where
  "spec_after rules st [] = st"
| "spec_after rules st ((k, c, now) # rest) = spec_after rules (snd (spec_consume rules st k c now)) rest"

lemma run_spec_append: "run_spec rules st (xs @ ys) = run_spec rules st xs @ run_spec rules (spec_after rules st xs) ys"
  by (induction xs arbitrary: st) (auto simp: split_beta)

lemma length_run_spec: "length (run_spec rules st xs) = length xs"
  by (induction xs arbitrary: st) (auto simp: split_beta)

lemma spec_after_ok:
  "(\<And>k. bucket_ok (rules k) (st k)) \<Longrightarrow> rules_ok rules xs \<Longrightarrow> bucket_ok (rules k) (spec_after rules st xs k)"
proof (induction xs arbitrary: st)
  case (Cons x xs)
  obtain j c now where x: "x = (j, c, now)" by (cases x)
  have "bucket_ok (rules i) (snd (spec_consume rules st j c now) i)" for i
    using spend_ok[of "rules j" "st j" c now] Cons.prems by (auto simp: spec_consume_def x rules_ok_def split_beta)
  with Cons show ?case by (simp add: x rules_ok_def)
qed simp

lemma replies_append:
  "length ds = length (script_ran xs) \<Longrightarrow> replies (xs @ ys) (ds @ es) = replies xs ds @ replies ys es"
proof (induction xs arbitrary: ds)
  case (Cons x xs)
  show ?case
  proof (cases "lq_reach x = NotSent")
    case True
    then show ?thesis using Cons.IH[of ds] Cons.prems by (simp add: script_ran_def)
  next
    case False
    then obtain d ds' where "ds = d # ds'" using Cons.prems by (cases ds) (auto simp: script_ran_def)
    with False Cons show ?thesis by (cases "lq_reach x") (auto simp: script_ran_def)
  qed
qed (simp add: script_ran_def)

lemma length_replies: "length (replies xs ds) = length xs"
  by (induction xs ds rule: replies.induct) (auto split: reach.split)

lemma window_bound:
  assumes "limits_ok rules (earlier @ window)" "clocks_within off (earlier @ window)" "rule_ok (rules k)"
    and "sorted (map snd (of_key k window))" "\<forall>(c, now) \<in> set (of_key k window). s \<le> now \<and> now \<le> e" "s \<le> e"
  shows "of_int (allowed_cost k window (drop (length earlier) (run_redis rules Map.empty (earlier @ window))))
      \<le> of_int (ru_capacity (rules k)) + (e - s) * ru_refill_per_second (rules k)"
proof -
  let ?st = "spec_after rules Map.empty (script_ran earlier)"
  have ran: "script_ran (earlier @ window) = script_ran earlier @ script_ran window" by (simp add: script_ran_def)
  have early: "rules_ok rules (script_ran earlier)" and pos: "\<forall>q \<in> set window. 0 \<le> lq_cost q"
    using assms(1) by (auto simp: limits_ok_def rules_ok_def script_ran_def)
  have ok: "bucket_ok (rules k) (?st k)"
    by (rule spec_after_ok[OF _ early]) (simp add: bucket_ok_def)
  have "drop (length earlier) (run_redis rules Map.empty (earlier @ window))
      = replies window (run_spec rules ?st (script_ran window))"
    unfolding run_redis_spec[OF assms(1,2)] ran run_spec_append
    by (simp add: replies_append length_run_spec length_replies)
  moreover have "\<forall>(c, now) \<in> set (of_key k window). 0 \<le> c \<and> s \<le> now \<and> now \<le> e"
    using assms(5) pos by (auto simp: of_key_def script_ran_def)
  from spend_all_window[OF assms(3) ok this assms(4,6)]
  have "of_int (fst (spend_all (rules k) (of_key k window) (?st k)))
      \<le> of_int (ru_capacity (rules k)) + (e - s) * ru_refill_per_second (rules k)" .
  moreover have "real_of_int (allowed_cost k window (replies window (run_spec rules ?st (script_ran window))))
      \<le> real_of_int (fst (spend_all (rules k) (of_key k window) (?st k)))"
    using allowed_cost_spec[OF pos, of k rules ?st] by simp
  ultimately show ?thesis by (simp add: order_trans)
qed

text \<open>
  The order matters.  Of two replicas whose clocks are a second apart, one takes the bucket's time back
  and the other counts the second again, each time they take turns: a bucket of one token that gets one
  per second lets every second request through, however many there are.
\<close>

definition one_per_second :: Rule where
  "one_per_second = \<lparr>ru_name = ''r'', ru_capacity = 1, ru_refill_per_second = 1\<rparr>"

lemma replicas_taking_turns:
  "fst (spend_all one_per_second (concat (replicate n [(1, 0), (1, 1)])) (Some (0, u)))
     = int n" if "0 \<le> u"
  using that
proof (induction n arbitrary: u)
  case (Suc n)
  have "spend one_per_second 1 0 (Some (0, u)) = ((0, 0), False)"
    "spend one_per_second 1 1 (Some (0, 0)) = ((0, 1), True)"
    using Suc.prems by (simp_all add: spend_def refilled_def one_per_second_def)
  then show ?case using Suc.IH[of 1] by (simp add: split_beta)
qed simp

section \<open>Where a request came from\<close>

text \<open>
  The parser of IP addresses (\<open>ipaddress.ip_address\<close> followed
  by \<open>str\<close>) as a parameter: \<open>None\<close> is its \<open>ValueError\<close>.
\<close>

definition MAX_FORWARDED_ENTRIES :: nat where "MAX_FORWARDED_ENTRIES = 20"

definition valid_address :: "(string \<Rightarrow> string option) \<Rightarrow> string option \<Rightarrow> string option" where
  "valid_address ip_address address =
     (case address of
        None \<Rightarrow> None
      | Some raw \<Rightarrow>
          if raw = [] then None
          else
            (let candidate = str_strip raw;
                 bare =
                   (if starts_with ''['' candidate \<and> CHR '']'' \<in> set candidate
                    then takeWhile (\<lambda>c. c \<noteq> CHR '']'') (tl candidate)
                    else if length (filter (\<lambda>c. c = CHR '':'') candidate) = 1
                    then takeWhile (\<lambda>c. c \<noteq> CHR '':'') candidate
                    else candidate)
             in ip_address bare))"

definition forwarded_chain :: "string \<Rightarrow> string list" where
  "forwarded_chain raw =
     map str_strip (filter (\<lambda>e. str_strip e \<noteq> []) (take MAX_FORWARDED_ENTRIES (split_on (CHR '','') raw)))"

definition client_address ::
  "(string \<Rightarrow> string option) \<Rightarrow> string option \<Rightarrow> string option \<Rightarrow> int \<Rightarrow> string option" where
  "client_address ip_address peer header trusted_hops =
     (let fallback = valid_address ip_address peer
      in if trusted_hops \<le> 0 then fallback
         else case header of
           None \<Rightarrow> fallback
         | Some raw \<Rightarrow>
             if raw = [] then fallback
             else
               (let chain = forwarded_chain raw; index = int (length chain) - trusted_hops
                in if 0 \<le> index \<and> index < int (length chain)
                   then (case valid_address ip_address (Some (chain ! nat index)) of
                           Some a \<Rightarrow> Some a
                         | None \<Rightarrow> fallback)
                   else fallback))"

text \<open>What the split makes of a header that a proxy has appended to.\<close>

definition blank :: "string \<Rightarrow> bool" where
  "blank e \<longleftrightarrow> str_strip e = []"

lemma forwarded_chain_append:
  assumes "length (split_on (CHR '','') client) + length (split_on (CHR '','') proxied) \<le> MAX_FORWARDED_ENTRIES"
  shows "forwarded_chain (client @ CHR '','' # proxied) = forwarded_chain client @ forwarded_chain proxied"
  using assms by (simp add: forwarded_chain_def split_on_append)

lemma forwarded_chain_all:
  assumes "length (split_on (CHR '','') h) \<le> MAX_FORWARDED_ENTRIES" "\<forall>e \<in> set (split_on (CHR '','') h). \<not> blank e"
  shows "forwarded_chain h = map str_strip (split_on (CHR '','') h)"
  using assms by (simp add: forwarded_chain_def blank_def filter_id_conv)

lemma forwarded_chain_cut:
  assumes "MAX_FORWARDED_ENTRIES \<le> length (split_on (CHR '','') client)"
  shows "forwarded_chain (client @ CHR '','' # proxied) = forwarded_chain client"
  using assms by (simp add: forwarded_chain_def split_on_append)

end
