(* ===== verification/SecurityProperties.thy ===== *)
theory SecurityProperties
  imports RateLimit
begin

text \<open>
  What the request limits promise (\<open>app/security/ratelimit.py\<close>, \<open>app/security/forwarded.py\<close>).
\<close>

text \<open>C19. Under the Redis store, whatever the requests over all keys were before: of the requests made in a
  window from \<open>s\<close> to \<open>e\<close>, those under one key that Redis answers and allows cost at most one burst (the
  capacity) plus what the rule refills in that time.  No rule has a negative capacity or refills
  less than a billionth of a token a second, no cost is negative, and Redis loses a bucket only by its expiry.  The callers' clocks have to be in
  order over the requests of that key in the window, and no more than a minute's difference may come
  and go between a caller's clock and the server's.  A request that gets no answer from Redis is let
  through, and is not counted here.\<close>

theorem allowed_within_rate:
  assumes "limits_ok rules (earlier @ window)" "rule_ok (rules k)" "clocks_within off (earlier @ window)"
    and "sorted (map snd (of_key k window))" "\<forall>(c, now) \<in> set (of_key k window). s \<le> now \<and> now \<le> e" "s \<le> e"
  shows "of_int (allowed_cost k window (drop (length earlier) (run_redis rules Map.empty (earlier @ window))))
       \<le> of_int (ru_capacity (rules k)) + (e - s) * ru_refill_per_second (rules k)"
  by (rule window_bound[OF assms(1,3,2,4-6)])

definition request_at :: "string \<Rightarrow> real \<Rightarrow> real \<Rightarrow> reach \<Rightarrow> limit_request" where
  "request_at k now clock r = \<lparr>lq_key = k, lq_cost = 1, lq_now = now, lq_clock = clock, lq_reach = r\<rparr>"

text \<open>A client that spent its token at 0 asks three times between 1 and 10; the second answer is lost.\<close>

theorem allowed_within_rate_witness:
  "let rules = \<lambda>_. \<lparr>ru_name = ''r'', ru_capacity = 1, ru_refill_per_second = 1 / 5\<rparr>;
       window = [request_at ''b'' 1 1 Replied, request_at ''a'' 1 2 ReplyLost, request_at ''a'' 10 10 Replied]
   in of_int (allowed_cost ''a'' window (drop 1 (run_redis rules Map.empty (request_at ''a'' 0 0 Replied # window))))
        \<le> (14 / 5 :: real)"
  using allowed_within_rate[of "\<lambda>_. \<lparr>ru_name = ''r'', ru_capacity = 1, ru_refill_per_second = 1 / 5\<rparr>"
      "[request_at ''a'' 0 0 Replied]"
      "[request_at ''b'' 1 1 Replied, request_at ''a'' 1 2 ReplyLost, request_at ''a'' 10 10 Replied]" "''a''" 0 1 10]
  by (simp add: limits_ok_def rule_ok_def clocks_within_def of_key_def script_ran_def request_at_def)

text \<open>C20. The two stores are one, starting empty: on a trace of requests, of which some are not sent to Redis
  at all and of some the answer is lost, the Redis script answers as the store in this process answers
  the requests that reached Redis.  For that no rule has a negative capacity or refills
  less than a billionth of a token a second, no cost is negative, the requests that reached Redis have no more keys than the store in this process may
  hold, and no more than a minute's difference comes and goes between the callers' clocks and the
  server's.  That Redis drops an idle key changes nothing, because by then the bucket would be full.\<close>

theorem stores_agree:
  assumes "limits_ok rules reqs" "clocks_within off reqs" "card (fst ` set (script_ran reqs)) \<le> n"
  shows "run_redis rules Map.empty reqs
       = replies reqs (run_memory rules \<lparr>ib_buckets = [], ib_max_entries = n\<rparr> (script_ran reqs))"
proof -
  have "run_memory rules \<lparr>ib_buckets = [], ib_max_entries = n\<rparr> (script_ran reqs)
      = run_spec rules Map.empty (script_ran reqs)"
    using memory_refines_spec[of "\<lparr>ib_buckets = [], ib_max_entries = n\<rparr>" "fst ` set (script_ran reqs)"
        "script_ran reqs" rules] assms(3)
    by (simp add: od_ok_def)
  then show ?thesis using run_redis_spec[OF assms(1,2)] by simp
qed

theorem stores_agree_witness:
  "let rules = \<lambda>_. \<lparr>ru_name = ''r'', ru_capacity = 2, ru_refill_per_second = 1\<rparr>;
       reqs = [request_at ''a'' 0 5 Replied, request_at ''a'' 0 50 NotSent, request_at ''a'' 90 100 ReplyLost]
   in run_redis rules Map.empty reqs
        = replies reqs (run_memory rules \<lparr>ib_buckets = [], ib_max_entries = 1\<rparr> [(''a'', 1, 0), (''a'', 1, 90)])"
  using stores_agree[of "\<lambda>_. \<lparr>ru_name = ''r'', ru_capacity = 2, ru_refill_per_second = 1\<rparr>"
      "[request_at ''a'' 0 5 Replied, request_at ''a'' 0 50 NotSent, request_at ''a'' 90 100 ReplyLost]" 0 1]
  by (simp add: limits_ok_def rule_ok_def clocks_within_def script_ran_def request_at_def)

text \<open>C21. \<open>Retry-After\<close> is honest: a refused request whose cost the bucket can hold at all, repeated
  when it was told to, is allowed.\<close>

theorem retry_after_honest:
  assumes "rule_ok rule" "memory_inv be" "0 < ib_max_entries be"
    and "bucket_ok rule (map_of (ib_buckets be) key)" "0 \<le> cost" "cost \<le> ru_capacity rule"
    and "memory_consume be key rule cost now = (d, be')" "\<not> de_allowed d"
    and "now + of_int (de_retry_after_seconds d) \<le> later"
  shows "de_allowed (fst (memory_consume be' key rule cost later))"
proof -
  obtain t u a where s: "spend rule cost now (map_of (ib_buckets be) key) = ((t, u), a)"
    by (metis prod.collapse)
  have d: "d = decide t rule cost a"
    and be': "be' = be\<lparr>ib_buckets := od_trim (ib_max_entries be) (od_put key (t, u) (ib_buckets be))\<rparr>"
    using assms(7) s by (auto simp: memory_consume_def)
  have a: "\<not> a" using assms(8) d by (auto simp: decide_def)
  have "map_of (ib_buckets be') key = Some (t, u)"
    using od_put_trim_lookup[of "ib_buckets be" "ib_max_entries be" key "(t, u)"] assms(2,3)
    by (simp add: be' memory_inv_def)
  moreover have "snd (spend rule cost later (Some (t, u)))"
    using retry_after_suffices[of rule "map_of (ib_buckets be) key" cost now t u later] assms(1,4-6,9) s a d
    by simp
  ultimately show ?thesis
    by (auto simp: memory_consume_def decide_def split: prod.split)
qed

theorem retry_after_honest_witness:
  "let rule = \<lparr>ru_name = ''r'', ru_capacity = 2, ru_refill_per_second = 1 / 4\<rparr>;
       be = \<lparr>ib_buckets = [(''a'', (0, 0))], ib_max_entries = 1\<rparr>;
       (d, be') = memory_consume be ''a'' rule 1 0
   in \<not> de_allowed d \<and> de_retry_after_seconds d = 4 \<and> de_allowed (fst (memory_consume be' ''a'' rule 1 4))"
proof -
  let ?r = "\<lparr>ru_name = ''r'', ru_capacity = 2, ru_refill_per_second = 1 / 4\<rparr>"
  let ?b = "\<lparr>ib_buckets = [(''a'', (0, 0))], ib_max_entries = 1\<rparr>"
  let ?d = "\<lparr>de_allowed = False, de_limit = 2, de_remaining = 0, de_retry_after_seconds = 4\<rparr>"
  have m: "memory_consume ?b ''a'' ?r 1 0 = (?d, ?b)"
    by (simp add: memory_consume_def spend_def refilled_def decide_def truncate_int_def od_put_def od_del_def)
  have "de_allowed (fst (memory_consume ?b ''a'' ?r 1 4))"
    using retry_after_honest[OF _ _ _ _ _ _ m, of 4]
    by (simp add: rule_ok_def memory_inv_def od_ok_def bucket_ok_def)
  with m show ?thesis by simp
qed

text \<open>C22. Behind \<open>n\<close> declared proxies the address a request is limited by is the one the outermost of
  them saw, or the peer's: what the client wrote into the header before them changes nothing, as
  long as the whole header has at most twenty entries.\<close>

theorem client_cannot_choose_address:
  assumes "0 < hops" "client \<noteq> []"
    and "length (split_on (CHR '','') client) + length (split_on (CHR '','') proxied) \<le> MAX_FORWARDED_ENTRIES"
    and "\<forall>e \<in> set (split_on (CHR '','') proxied). \<not> blank e"
    and "int (length (split_on (CHR '','') proxied)) = hops"
  shows "client_address ip_address peer (Some (client @ CHR '','' # proxied)) hops
       = (case valid_address ip_address (Some (str_strip (hd (split_on (CHR '','') proxied)))) of
            Some a \<Rightarrow> Some a | None \<Rightarrow> valid_address ip_address peer)"
proof -
  have "forwarded_chain (client @ CHR '','' # proxied)
      = forwarded_chain client @ map str_strip (split_on (CHR '','') proxied)"
    using assms(3,4) by (simp add: forwarded_chain_append forwarded_chain_all)
  then show ?thesis using assms(1,5)
    by (cases "split_on (CHR '','') proxied") (auto simp: client_address_def Let_def nth_append)
qed

definition example_ip :: "string \<Rightarrow> string option" where
  "example_ip s = (if s \<in> {''6.6.6.6'', ''203.0.113.7'', ''10.0.0.1''} then Some s else None)"

theorem client_cannot_choose_address_witness:
  "client_address example_ip (Some ''10.0.0.1'') (Some ''6.6.6.6, 203.0.113.7:51234'') 1 = Some ''203.0.113.7''"
proof -
  have "client_address example_ip (Some ''10.0.0.1'') (Some (''6.6.6.6'' @ CHR '','' # '' 203.0.113.7:51234'')) 1
      = (case valid_address example_ip (Some (str_strip (hd (split_on (CHR '','') '' 203.0.113.7:51234'')))) of
            Some a \<Rightarrow> Some a | None \<Rightarrow> valid_address example_ip (Some ''10.0.0.1''))"
    by (rule client_cannot_choose_address) (simp_all add: MAX_FORWARDED_ENTRIES_def blank_def str_strip_def is_space_def)
  also have "\<dots> = Some ''203.0.113.7''"
    by (simp add: valid_address_def str_strip_def is_space_def starts_with_def example_ip_def)
  finally show ?thesis by simp
qed

text \<open>
  The bound on the entries breaks that: the entries kept are the first twenty, which are the
  client's.  With twenty entries of its own a client is limited by an address it wrote itself,
  whatever the proxies append.
\<close>

lemma long_header_is_believed:
  assumes "0 < hops" "hops \<le> 20" "client \<noteq> []"
    and "MAX_FORWARDED_ENTRIES \<le> length (split_on (CHR '','') client)"
    and "\<forall>e \<in> set (take MAX_FORWARDED_ENTRIES (split_on (CHR '','') client)). \<not> blank e"
  shows "client_address ip_address peer (Some (client @ CHR '','' # proxied)) hops
       = (case valid_address ip_address (Some (str_strip (split_on (CHR '','') client ! nat (20 - hops)))) of
            Some a \<Rightarrow> Some a | None \<Rightarrow> valid_address ip_address peer)"
proof -
  have "filter (\<lambda>e. str_strip e \<noteq> []) (take MAX_FORWARDED_ENTRIES (split_on (CHR '','') client))
      = take MAX_FORWARDED_ENTRIES (split_on (CHR '','') client)"
    using assms(5) by (simp add: blank_def filter_id_conv)
  then have "forwarded_chain (client @ CHR '','' # proxied)
      = map str_strip (take MAX_FORWARDED_ENTRIES (split_on (CHR '','') client))"
    unfolding forwarded_chain_cut[OF assms(4)] by (simp add: forwarded_chain_def)
  then show ?thesis using assms(1,2,4)
    by (auto simp: client_address_def Let_def MAX_FORWARDED_ENTRIES_def min_def)
qed

lemma long_header_is_believed_witness:
  "client_address example_ip (Some ''10.0.0.1'')
     (Some (concat (replicate 19 ''6.6.6.6,'') @ ''6.6.6.6'' @ CHR '','' # ''203.0.113.7'')) 1 = Some ''6.6.6.6''"
  by (simp add: client_address_def forwarded_chain_def MAX_FORWARDED_ENTRIES_def valid_address_def
      str_strip_def is_space_def starts_with_def example_ip_def numeral_eq_Suc)

end
