(* ===== verification/ResponseCache.thy ===== *)
theory ResponseCache
  imports OrderedDicts
begin

text \<open>
  \<open>app/cache\<close>: the backends, the keys, the read-through policy and the single flight in front of it.
  A request (\<open>namespace\<close> and parts) is a value of a type \<open>'p\<close>; the digest, the loaders and the
  encodings are parameters.  Concurrent callers are a transition system, one transition between two
  awaits.
\<close>

section \<open>Keys\<close>

datatype CacheNamespace = SEARCH | PAGE | EXTRACT | EMBEDDING

fun CacheNamespace_value :: "CacheNamespace \<Rightarrow> string" where
  "CacheNamespace_value CacheNamespace.SEARCH = ''search''"
| "CacheNamespace_value CacheNamespace.PAGE = ''page''"
| "CacheNamespace_value CacheNamespace.EXTRACT = ''extract''"
| "CacheNamespace_value CacheNamespace.EMBEDDING = ''embedding''"

definition KEY_VERSION :: string where "KEY_VERSION = ''v1''"
definition CACHE_PREFIX :: string where "CACHE_PREFIX = ''aether:cache''"

text \<open>\<open>canonical\<close> is the canonical JSON of the parts, \<open>sha256\<close> the hexadecimal digest of its bytes.\<close>

definition fingerprint :: "(string \<Rightarrow> string) \<Rightarrow> ('a \<Rightarrow> string) \<Rightarrow> 'a \<Rightarrow> string" where
  "fingerprint sha256 canonical parts = sha256 (canonical parts)"

definition cache_key :: "(string \<Rightarrow> string) \<Rightarrow> ('a \<Rightarrow> string) \<Rightarrow> CacheNamespace \<times> 'a \<Rightarrow> string" where
  "cache_key sha256 canonical p =
     CACHE_PREFIX @ '':'' @ KEY_VERSION @ '':'' @ CacheNamespace_value (fst p) @ '':''
       @ fingerprint sha256 canonical (snd p)"

text \<open>Two namespaces never share a key, whatever the digests are, as none holds a colon.\<close>

lemma namespace_no_colon: "CHR '':'' \<notin> set (CacheNamespace_value n)"
  by (cases n) simp_all

lemma append_at_separator:
  "c \<notin> set xs \<Longrightarrow> c \<notin> set ys \<Longrightarrow> xs @ c # u = ys @ c # v \<Longrightarrow> xs = ys \<and> u = v"
proof (induction xs arbitrary: ys)
  case Nil
  then show ?case by (cases ys) auto
next
  case (Cons x xs)
  then show ?case by (cases ys) auto
qed

lemma cache_key_inj:
  assumes "cache_key sha canon p = cache_key sha canon q"
  shows "fst p = fst q \<and> sha (canon (snd p)) = sha (canon (snd q))"
proof -
  have "CacheNamespace_value (fst p) @ CHR '':'' # sha (canon (snd p))
      = CacheNamespace_value (fst q) @ CHR '':'' # sha (canon (snd q))"
    using assms by (simp add: cache_key_def fingerprint_def)
  from append_at_separator[OF namespace_no_colon namespace_no_colon this]
  have "CacheNamespace_value (fst p) = CacheNamespace_value (fst q)"
    and sha: "sha (canon (snd p)) = sha (canon (snd q))" by auto
  then have "fst p = fst q" by (cases "fst p"; cases "fst q") simp_all
  with sha show ?thesis by simp
qed

section \<open>Backends\<close>

record 'c backend =
  be_get :: "real \<Rightarrow> string \<Rightarrow> 'c \<Rightarrow> string option \<times> 'c"
  be_set :: "real \<Rightarrow> string \<Rightarrow> string \<Rightarrow> int \<Rightarrow> 'c \<Rightarrow> 'c"
  be_delete :: "string \<Rightarrow> 'c \<Rightarrow> 'c"

record InMemoryCache =
  im_max_entries :: nat
  im_entries :: "(string \<times> real \<times> string) list"

definition memory_get :: "real \<Rightarrow> string \<Rightarrow> InMemoryCache \<Rightarrow> string option \<times> InMemoryCache" where
  "memory_get now key c =
     (case map_of (im_entries c) key of
        None \<Rightarrow> (None, c)
      | Some (expires_at, value) \<Rightarrow>
          if expires_at \<le> now then (None, c\<lparr>im_entries := od_del key (im_entries c)\<rparr>)
          else (Some value, c\<lparr>im_entries := od_put key (expires_at, value) (im_entries c)\<rparr>))"

definition memory_set :: "real \<Rightarrow> string \<Rightarrow> string \<Rightarrow> int \<Rightarrow> InMemoryCache \<Rightarrow> InMemoryCache" where
  "memory_set now key value ttl_seconds c =
     c\<lparr>im_entries := od_trim (im_max_entries c) (od_put key (now + of_int ttl_seconds, value) (im_entries c))\<rparr>"

definition memory_delete :: "string \<Rightarrow> InMemoryCache \<Rightarrow> InMemoryCache" where
  "memory_delete key c = c\<lparr>im_entries := od_del key (im_entries c)\<rparr>"

definition memory_close :: "InMemoryCache \<Rightarrow> InMemoryCache" where
  "memory_close c = c\<lparr>im_entries := []\<rparr>"

definition memory_backend :: "InMemoryCache backend" where
  "memory_backend = \<lparr>be_get = memory_get, be_set = memory_set, be_delete = memory_delete\<rparr>"

definition null_backend :: "unit backend" where
  "null_backend = \<lparr>be_get = (\<lambda>_ _ c. (None, c)), be_set = (\<lambda>_ _ _ _ c. c), be_delete = (\<lambda>_ c. c)\<rparr>"

text \<open>\<open>RedisCache.get\<close>: what the client answered, or nothing when it raised.\<close>

definition redis_cache_get :: "(unit + string option) \<Rightarrow> string option" where
  "redis_cache_get reply = (case reply of Inl _ \<Rightarrow> None | Inr v \<Rightarrow> v)"

text \<open>
  What a backend promises its client: it returns only what was last set under the key.  It may forget
  at any time.
\<close>

locale cache_backend =
  fixes be :: "'c backend" and stored :: "'c \<Rightarrow> string \<Rightarrow> string set"
  assumes get_stored: "fst (be_get be now k c) = Some v \<Longrightarrow> v \<in> stored c k"
    and get_keeps: "stored (snd (be_get be now k c)) j \<subseteq> stored c j"
    and set_stored: "stored (be_set be now k v ttl c) j \<subseteq> (if j = k then {v} else stored c j)"
    and delete_stored: "stored (be_delete be k c) j \<subseteq> stored c j"

section \<open>The policy\<close>

record 'p CachePolicy =
  po_ttl_seconds :: "'p \<Rightarrow> int"
  po_enabled :: "'p \<Rightarrow> bool"
  po_max_value_bytes :: nat

record ('p, 'v) codec =
  co_key :: "'p \<Rightarrow> string"
  co_encode :: "'p \<Rightarrow> 'v \<Rightarrow> string option"
  co_decode :: "'p \<Rightarrow> string \<Rightarrow> 'v option"

text \<open>\<open>_read\<close>: an entry that does not decode is dropped, and is a miss.\<close>

definition read_entry ::
  "'c backend \<Rightarrow> ('p, 'v) codec \<Rightarrow> real \<Rightarrow> 'p \<Rightarrow> 'c \<Rightarrow> 'v option \<times> 'c" where
  "read_entry be co now p c =
     (let (raw, c') = be_get be now (co_key co p) c
      in case raw of
           None \<Rightarrow> (None, c')
         | Some s \<Rightarrow>
             (case co_decode co p s of
                Some v \<Rightarrow> (Some v, c')
              | None \<Rightarrow> (None, be_delete be (co_key co p) c')))"

text \<open>\<open>_write\<close>: a value that does not encode, or is too large, is not stored.\<close>

definition write_entry ::
  "'c backend \<Rightarrow> ('p, 'v) codec \<Rightarrow> 'p CachePolicy \<Rightarrow> real \<Rightarrow> 'p \<Rightarrow> 'v \<Rightarrow> 'c \<Rightarrow> 'c" where
  "write_entry be co po now p v c =
     (case co_encode co p v of
        None \<Rightarrow> c
      | Some payload \<Rightarrow>
          if length payload > po_max_value_bytes po then c
          else be_set be now (co_key co p) payload (po_ttl_seconds po p) c)"

definition stored_value where
  "stored_value be co po now p c = (if po_enabled po p then read_entry be co now p c else (None, c))"

definition remember where
  "remember be co po now p v c = (if po_enabled po p then write_entry be co po now p v c else c)"

definition invalidate where
  "invalidate be co p c = be_delete be (co_key co p) c"

text \<open>
  The codec of a call site: the key is \<open>cache_key\<close> of the namespace and the parts; the value is encoded
  to JSON text and decoded from it, each of which may raise (\<open>None\<close>).
\<close>

definition keyed_codec ::
  "(string \<Rightarrow> string) \<Rightarrow> ('a \<Rightarrow> string) \<Rightarrow> (CacheNamespace \<times> 'a \<Rightarrow> 'v \<Rightarrow> string option)
     \<Rightarrow> (CacheNamespace \<times> 'a \<Rightarrow> string \<Rightarrow> 'v option) \<Rightarrow> (CacheNamespace \<times> 'a, 'v) codec" where
  "keyed_codec sha256 canonical encode decode =
     \<lparr>co_key = cache_key sha256 canonical, co_encode = encode, co_decode = decode\<rparr>"

section \<open>Concurrent callers\<close>

datatype Origin = from_store | from_inflight | from_loader

definition is_hit :: "Origin \<Rightarrow> bool" where
  "is_hit o' \<longleftrightarrow> o' \<noteq> from_loader"

text \<open>
  A caller of \<open>through\<close>: asking the store, past a miss, leading the flight for its key (its loader
  runs), holding what the loader returned, waiting on another caller's flight, or answered.
\<close>

datatype ('p, 'v, 'e) caller =
    Asking 'p
  | Missed 'p
  | Leading 'p
  | Loaded 'p 'v
  | Waiting 'p nat
  | Answered 'p "'e + 'v" Origin

fun request_of :: "('p, 'v, 'e) caller \<Rightarrow> 'p" where
  "request_of (Asking p) = p"
| "request_of (Missed p) = p"
| "request_of (Leading p) = p"
| "request_of (Loaded p v) = p"
| "request_of (Waiting p l) = p"
| "request_of (Answered p r o') = p"

fun flying :: "('p, 'v, 'e) caller \<Rightarrow> bool" where
  "flying (Leading p) = True"
| "flying (Loaded p v) = True"
| "flying _ = False"

text \<open>
  The cache in memory and the one that stores nothing never suspend their caller, so that reading and
  dropping an entry is one transition, and so is writing one and ending the flight.

  The state: the cache, the flights by key with their leader, the callers, the futures of the flights
  that ended, and (for the statements only) what loaders have returned.
\<close>

record ('c, 'p, 'v, 'e) flights =
  fl_cache :: 'c
  fl_inflight :: "string \<rightharpoonup> nat"
  fl_callers :: "nat \<rightharpoonup> ('p, 'v, 'e) caller"
  fl_futures :: "nat \<rightharpoonup> 'e + 'v"
  fl_produced :: "('p \<times> 'v) set"

inductive through_step ::
  "'c backend \<Rightarrow> ('p, 'v) codec \<Rightarrow> 'p CachePolicy
     \<Rightarrow> ('c, 'p, 'v, 'e) flights \<Rightarrow> ('c, 'p, 'v, 'e) flights \<Rightarrow> bool"
  for be co po where
  call: "fl_callers y i = None \<Longrightarrow> fl_futures y i = None \<Longrightarrow>
     through_step be co po y (y\<lparr>fl_callers := (fl_callers y)(i \<mapsto> Asking p)\<rparr>)"
| found: "fl_callers y i = Some (Asking p) \<Longrightarrow> po_enabled po p \<Longrightarrow>
     read_entry be co now p (fl_cache y) = (Some v, c') \<Longrightarrow>
     through_step be co po y
       (y\<lparr>fl_cache := c', fl_callers := (fl_callers y)(i \<mapsto> Answered p (Inr v) from_store)\<rparr>)"
| missed: "fl_callers y i = Some (Asking p) \<Longrightarrow> po_enabled po p \<Longrightarrow>
     read_entry be co now p (fl_cache y) = (None, c') \<Longrightarrow>
     through_step be co po y (y\<lparr>fl_cache := c', fl_callers := (fl_callers y)(i \<mapsto> Missed p)\<rparr>)"
| uncached: "fl_callers y i = Some (Asking p) \<Longrightarrow> \<not> po_enabled po p \<Longrightarrow>
     through_step be co po y (y\<lparr>fl_callers := (fl_callers y)(i \<mapsto> Missed p)\<rparr>)"
| join: "fl_callers y i = Some (Missed p) \<Longrightarrow> fl_inflight y (co_key co p) = Some l \<Longrightarrow>
     through_step be co po y (y\<lparr>fl_callers := (fl_callers y)(i \<mapsto> Waiting p l)\<rparr>)"
| lead: "fl_callers y i = Some (Missed p) \<Longrightarrow> fl_inflight y (co_key co p) = None \<Longrightarrow>
     through_step be co po y
       (y\<lparr>fl_callers := (fl_callers y)(i \<mapsto> Leading p), fl_inflight := (fl_inflight y)(co_key co p \<mapsto> i)\<rparr>)"
| loaded: "fl_callers y i = Some (Leading p) \<Longrightarrow>
     through_step be co po y
       (y\<lparr>fl_callers := (fl_callers y)(i \<mapsto> Loaded p v), fl_produced := insert (p, v) (fl_produced y)\<rparr>)"
| landed: "fl_callers y i = Some (Loaded p v) \<Longrightarrow>
     c' = (if po_enabled po p then write_entry be co po now p v (fl_cache y) else fl_cache y) \<Longrightarrow>
     through_step be co po y
       (y\<lparr>fl_cache := c', fl_callers := (fl_callers y)(i \<mapsto> Answered p (Inr v) from_loader),
          fl_futures := (fl_futures y)(i \<mapsto> Inr v), fl_inflight := (fl_inflight y)(co_key co p := None)\<rparr>)"
| crashed: "fl_callers y i = Some r \<Longrightarrow> flying r \<Longrightarrow> request_of r = p \<Longrightarrow>
     through_step be co po y
       (y\<lparr>fl_callers := (fl_callers y)(i \<mapsto> Answered p (Inl e) from_loader),
          fl_futures := (fl_futures y)(i \<mapsto> Inl e), fl_inflight := (fl_inflight y)(co_key co p := None)\<rparr>)"
| woken: "fl_callers y i = Some (Waiting p l) \<Longrightarrow> fl_futures y l = Some r \<Longrightarrow>
     through_step be co po y (y\<lparr>fl_callers := (fl_callers y)(i \<mapsto> Answered p r from_inflight)\<rparr>)"
| invalidated: "through_step be co po y (y\<lparr>fl_cache := invalidate be co p (fl_cache y)\<rparr>)"

definition flights_init :: "'c \<Rightarrow> ('c, 'p, 'v, 'e) flights" where
  "flights_init c =
     \<lparr>fl_cache = c, fl_inflight = Map.empty, fl_callers = Map.empty, fl_futures = Map.empty, fl_produced = {}\<rparr>"

section \<open>What a backend's client may rely on\<close>

text \<open>A value some loader returned for a request with this key.\<close>

definition produced_for :: "('p, 'v) codec \<Rightarrow> ('p \<times> 'v) set \<Rightarrow> string \<Rightarrow> 'v \<Rightarrow> bool" where
  "produced_for co h k v \<longleftrightarrow> (\<exists>p. (p, v) \<in> h \<and> co_key co p = k)"

text \<open>The encoding of such a value.\<close>

definition encoded_for :: "('p, 'v) codec \<Rightarrow> ('p \<times> 'v) set \<Rightarrow> string \<Rightarrow> string \<Rightarrow> bool" where
  "encoded_for co h k s \<longleftrightarrow> (\<exists>p v. (p, v) \<in> h \<and> co_key co p = k \<and> co_encode co p v = Some s)"

text \<open>What a caller may be answered: from the store, the decoding of such an encoding; else such a value itself.\<close>

definition answer_ok :: "('p, 'v) codec \<Rightarrow> ('p \<times> 'v) set \<Rightarrow> 'p \<Rightarrow> 'v \<Rightarrow> Origin \<Rightarrow> bool" where
  "answer_ok co h p v o' \<longleftrightarrow>
     (if o' = from_store then \<exists>s. encoded_for co h (co_key co p) s \<and> co_decode co p s = Some v
      else produced_for co h (co_key co p) v)"

text \<open>One flight per key, led by a caller that is still flying; futures hold what was produced.\<close>

definition flight_inv :: "('p, 'v) codec \<Rightarrow> ('c, 'p, 'v, 'e) flights \<Rightarrow> bool" where
  "flight_inv co y \<longleftrightarrow>
     (\<forall>k l. fl_inflight y k = Some l \<longleftrightarrow>
        (\<exists>r. fl_callers y l = Some r \<and> flying r \<and> co_key co (request_of r) = k))
     \<and> (\<forall>i p l. fl_callers y i = Some (Waiting p l) \<longrightarrow>
          (\<exists>r. fl_callers y l = Some r \<and> (flying r \<or> fl_futures y l \<noteq> None) \<and> co_key co (request_of r) = co_key co p))
     \<and> (\<forall>l r. fl_futures y l = Some r \<longrightarrow> (\<exists>p. fl_callers y l = Some (Answered p r from_loader)))"

definition value_inv :: "('p, 'v) codec \<Rightarrow> ('c, 'p, 'v, 'e) flights \<Rightarrow> bool" where
  "value_inv co y \<longleftrightarrow>
     (\<forall>i p v. fl_callers y i = Some (Loaded p v) \<longrightarrow> (p, v) \<in> fl_produced y)
     \<and> (\<forall>i p v o'. fl_callers y i = Some (Answered p (Inr v) o') \<longrightarrow> answer_ok co (fl_produced y) p v o')"

lemma answer_ok_insert [simp]: "answer_ok co h p v o' \<Longrightarrow> answer_ok co (insert x h) p v o'"
  unfolding answer_ok_def produced_for_def encoded_for_def by (auto split: if_splits)

lemma flight_init [simp]: "flight_inv co (flights_init c)" "value_inv co (flights_init c)"
  by (simp_all add: flight_inv_def value_inv_def flights_init_def)

text \<open>The two ways a caller moves: on, with its flight; and out of its flight.\<close>

fun answered :: "('p, 'v, 'e) caller \<Rightarrow> bool" where
  "answered (Answered p r o') = True"
| "answered _ = False"

lemma flight_move:
  assumes inv: "flight_inv co y" and a: "fl_callers y i = Some a" "\<not> answered a"
    and b: "flying b = flying a" "co_key co (request_of b) = co_key co (request_of a)"
    and w: "\<And>p l. b = Waiting p l \<Longrightarrow>
      \<exists>r. fl_callers y l = Some r \<and> (flying r \<or> fl_futures y l \<noteq> None) \<and> co_key co (request_of r) = co_key co p"
    and y': "fl_callers y' = (fl_callers y)(i \<mapsto> b)" "fl_inflight y' = fl_inflight y" "fl_futures y' = fl_futures y"
  shows "flight_inv co y'"
proof -
  have f: "fl_futures y i = None"
    using inv a unfolding flight_inv_def by (metis answered.simps(1) option.exhaust option.inject)
  have "fl_inflight y' k = Some l \<longleftrightarrow> (\<exists>r. fl_callers y' l = Some r \<and> flying r \<and> co_key co (request_of r) = k)" for k l
    using inv a(1) b unfolding flight_inv_def y' by (cases "l = i") auto
  moreover have "\<exists>r. fl_callers y' l = Some r \<and> (flying r \<or> fl_futures y' l \<noteq> None)
      \<and> co_key co (request_of r) = co_key co q" if j: "fl_callers y' j = Some (Waiting q l)" for j q l
  proof -
    have "\<exists>r. fl_callers y l = Some r \<and> (flying r \<or> fl_futures y l \<noteq> None) \<and> co_key co (request_of r) = co_key co q"
      using inv w j unfolding flight_inv_def y' by (cases "j = i") auto
    then show ?thesis using a(1) b f unfolding y' by (cases "l = i") auto
  qed
  moreover have "\<exists>q. fl_callers y' l = Some (Answered q r from_loader)" if "fl_futures y' l = Some r" for l r
    using inv that f unfolding flight_inv_def y' by (cases "l = i") auto
  ultimately show ?thesis unfolding flight_inv_def by blast
qed

lemma flight_end:
  assumes inv: "flight_inv co y" and a: "fl_callers y i = Some a" "flying a" "request_of a = p"
    and y': "fl_callers y' = (fl_callers y)(i \<mapsto> Answered p r from_loader)"
      "fl_inflight y' = (fl_inflight y)(co_key co p := None)" "fl_futures y' = (fl_futures y)(i \<mapsto> r)"
  shows "flight_inv co y'"
proof -
  have only: "l = i" if "fl_callers y l = Some c" "flying c" "co_key co (request_of c) = co_key co p" for l c
  proof -
    have "fl_inflight y (co_key co p) = Some l" "fl_inflight y (co_key co p) = Some i"
      using inv a that unfolding flight_inv_def by blast+
    then show ?thesis by simp
  qed
  have "fl_inflight y' k = Some l \<longleftrightarrow> (\<exists>c. fl_callers y' l = Some c \<and> flying c \<and> co_key co (request_of c) = k)" for k l
  proof (cases "k = co_key co p")
    case True
    then show ?thesis using only[of l] unfolding y' by auto
  next
    case False
    then show ?thesis using inv a unfolding flight_inv_def y' by (cases "l = i") auto
  qed
  moreover have "\<exists>c. fl_callers y' l = Some c \<and> (flying c \<or> fl_futures y' l \<noteq> None)
      \<and> co_key co (request_of c) = co_key co q" if j: "fl_callers y' j = Some (Waiting q l)" for j q l
  proof -
    from j have "fl_callers y j = Some (Waiting q l)" unfolding y' by (simp split: if_splits)
    then have "\<exists>c. fl_callers y l = Some c \<and> (flying c \<or> fl_futures y l \<noteq> None) \<and> co_key co (request_of c) = co_key co q"
      using inv unfolding flight_inv_def by blast
    then show ?thesis using a unfolding y' by (cases "l = i") auto
  qed
  moreover have "\<exists>q. fl_callers y' l = Some (Answered q x from_loader)" if "fl_futures y' l = Some x" for l x
    using inv that unfolding flight_inv_def y' by (cases "l = i") auto
  ultimately show ?thesis unfolding flight_inv_def by blast
qed

lemma through_flight:
  assumes "through_step be co po y y'" "flight_inv co y"
  shows "flight_inv co y'"
  using assms
proof cases
  case (call i p)
  have "fl_callers y j \<noteq> Some (Waiting q i)" for j q
    using assms(2) call(2) unfolding flight_inv_def by fastforce
  then show ?thesis using assms(2) call unfolding flight_inv_def by (auto split: if_splits)
next
  case (join i p l)
  have "\<exists>r. fl_callers y l = Some r \<and> flying r \<and> co_key co (request_of r) = co_key co p"
    using assms(2) join(3) unfolding flight_inv_def by blast
  with join show ?thesis by (intro flight_move[OF assms(2), of i "Missed p" "Waiting p l"]) auto
next
  case (lead i p)
  have free: "\<not> (flying r \<and> co_key co (request_of r) = co_key co p)" if "fl_callers y l = Some r" for l r
    using lead(3) assms(2) that unfolding flight_inv_def by (metis option.distinct(1))
  have "fl_inflight y' k = Some l \<longleftrightarrow> (\<exists>r. fl_callers y' l = Some r \<and> flying r \<and> co_key co (request_of r) = k)" for k l
    using lead(1,2) assms(2) free unfolding flight_inv_def by (cases "k = co_key co p"; cases "l = i") auto
  moreover have "\<exists>r. fl_callers y' l = Some r \<and> (flying r \<or> fl_futures y' l \<noteq> None)
      \<and> co_key co (request_of r) = co_key co q" if j: "fl_callers y' j = Some (Waiting q l)" for j q l
  proof -
    from j have "fl_callers y j = Some (Waiting q l)" using lead(1) by (simp split: if_splits)
    then have "\<exists>c. fl_callers y l = Some c \<and> (flying c \<or> fl_futures y l \<noteq> None) \<and> co_key co (request_of c) = co_key co q"
      using assms(2) unfolding flight_inv_def by blast
    then show ?thesis using lead(1,2) by (cases "l = i") auto
  qed
  moreover have "\<exists>q. fl_callers y' l = Some (Answered q x from_loader)" if "fl_futures y' l = Some x" for l x
    using assms(2) lead that unfolding flight_inv_def by (cases "l = i") fastforce+
  ultimately show ?thesis unfolding flight_inv_def by blast
next
  case (landed i p v c' now)
  then show ?thesis by (intro flight_end[OF assms(2), of i "Loaded p v" p]) auto
next
  case (crashed i r p e)
  then show ?thesis by (intro flight_end[OF assms(2), of i r p]) auto
next
  case (found i p now v c')
  then show ?thesis by (intro flight_move[OF assms(2), of i "Asking p"]) auto
next
  case (missed i p now c')
  then show ?thesis by (intro flight_move[OF assms(2), of i "Asking p"]) auto
next
  case (uncached i p)
  then show ?thesis by (intro flight_move[OF assms(2), of i "Asking p"]) auto
next
  case (loaded i p v)
  then show ?thesis by (intro flight_move[OF assms(2), of i "Leading p"]) auto
next
  case (woken i p l r)
  then show ?thesis by (intro flight_move[OF assms(2), of i "Waiting p l"]) auto
qed (use assms(2) in \<open>auto simp: flight_inv_def\<close>)

context cache_backend
begin

definition sound_store :: "('p, 'v) codec \<Rightarrow> 'c \<Rightarrow> ('p \<times> 'v) set \<Rightarrow> bool" where
  "sound_store co c h \<longleftrightarrow>
     (\<forall>k. \<forall>s \<in> stored c k. encoded_for co h k s)"

lemma sound_store_subset:
  "sound_store co c h \<Longrightarrow> (\<And>k. stored c' k \<subseteq> stored c k) \<Longrightarrow> h \<subseteq> h' \<Longrightarrow> sound_store co c' h'"
  unfolding sound_store_def encoded_for_def by blast

lemma read_sound:
  assumes "sound_store co c h" "read_entry be co now p c = (r, c')"
  shows "sound_store co c' h" and "r = Some v \<Longrightarrow> answer_ok co h p v from_store"
proof -
  obtain raw c1 where g: "be_get be now (co_key co p) c = (raw, c1)" by fastforce
  have sub: "stored c1 k \<subseteq> stored c k" for k using get_keeps[of now "co_key co p" c k] g by simp
  have "stored c' k \<subseteq> stored c k" for k
    using assms(2) g sub[of k] delete_stored[of "co_key co p" c1 k]
    by (auto simp: read_entry_def split: option.splits)
  then show "sound_store co c' h" using sound_store_subset[OF assms(1)] by blast
  show "r = Some v \<Longrightarrow> answer_ok co h p v from_store"
    using assms g get_stored[of now "co_key co p" c]
    by (auto simp: read_entry_def sound_store_def answer_ok_def split: option.splits)
qed

lemma write_sound:
  assumes "sound_store co c h" "(p, v) \<in> h"
  shows "sound_store co (write_entry be co po now p v c) h"
proof (cases "\<exists>s. co_encode co p v = Some s \<and> length s \<le> po_max_value_bytes po")
  case False
  then show ?thesis using assms(1) by (auto simp: write_entry_def split: option.split)
next
  case True
  then obtain s where s: "co_encode co p v = Some s" "length s \<le> po_max_value_bytes po" by blast
  let ?c = "be_set be now (co_key co p) s (po_ttl_seconds po p) c"
  have "encoded_for co h k x" if "x \<in> stored ?c k" for k x
  proof (cases "k = co_key co p")
    case True
    with that set_stored[of now "co_key co p" s "po_ttl_seconds po p" c k] have "x = s" by auto
    with assms(2) True s(1) show ?thesis by (auto simp: encoded_for_def)
  next
    case False
    with that set_stored[of now "co_key co p" s "po_ttl_seconds po p" c k] have "x \<in> stored c k" by auto
    with assms(1) show ?thesis by (auto simp: sound_store_def)
  qed
  then show ?thesis using s by (simp add: write_entry_def sound_store_def)
qed

lemma through_values:
  assumes "through_step be co po y y'"
    and "flight_inv co y" "value_inv co y" "sound_store co (fl_cache y) (fl_produced y)"
  shows "value_inv co y' \<and> sound_store co (fl_cache y') (fl_produced y')"
  using assms
proof (induction rule: through_step.induct)
  case (found y i p now v c')
  with read_sound[OF found.prems(3) found.hyps(3)] show ?case
    by (auto simp: value_inv_def split: if_splits)
next
  case (missed y i p now c')
  with read_sound[OF missed.prems(3) missed.hyps(3)] show ?case
    by (auto simp: value_inv_def split: if_splits)
next
  case (loaded y i p v)
  have "fl_produced y \<subseteq> insert (p, v) (fl_produced y)" by blast
  with loaded sound_store_subset[OF loaded.prems(3) order_refl this] show ?case
    by (auto simp: value_inv_def split: if_splits)
next
  case (landed y i p v c' now)
  then have pv: "(p, v) \<in> fl_produced y" by (simp add: value_inv_def)
  then have "answer_ok co (fl_produced y) p v from_loader" by (auto simp: answer_ok_def produced_for_def)
  moreover have "sound_store co c' (fl_produced y)"
    using landed write_sound[OF landed.prems(3) pv, of po now] by simp
  ultimately show ?case using landed.prems(2) by (auto simp: value_inv_def split: if_splits)
next
  case (woken y i p l r)
  from woken.hyps(1) woken.prems(1) obtain c where c: "fl_callers y l = Some c"
    "co_key co (request_of c) = co_key co p"
    unfolding flight_inv_def by blast
  from woken.hyps(2) woken.prems(1) obtain p' where p': "fl_callers y l = Some (Answered p' r from_loader)"
    unfolding flight_inv_def by blast
  with c have "co_key co p' = co_key co p" by auto
  moreover have "answer_ok co (fl_produced y) p' v from_loader" if "r = Inr v" for v
    using p' that woken.prems(2) unfolding value_inv_def by blast
  ultimately have "answer_ok co (fl_produced y) p v from_inflight" if "r = Inr v" for v
    using that by (simp add: answer_ok_def)
  with woken show ?case by (auto simp: value_inv_def split: if_splits)
next
  case (invalidated y p)
  with sound_store_subset[OF invalidated.prems(3), of "invalidate be co p (fl_cache y)"] show ?case
    using delete_stored by (auto simp: value_inv_def invalidate_def)
qed (auto simp: value_inv_def split: if_splits)

theorem answers_are_produced:
  assumes "(through_step be co po)\<^sup>*\<^sup>* (flights_init c) y" "\<And>k. stored c k = {}"
  shows "flight_inv co y \<and> value_inv co y"
proof -
  have start: "sound_store co c {}" using assms(2) by (simp add: sound_store_def)
  have "flight_inv co y \<and> value_inv co y \<and> sound_store co (fl_cache y) (fl_produced y)"
    using assms(1)
  proof (induction rule: rtranclp_induct)
    case base
    show ?case using start by (simp add: flights_init_def[symmetric]) (simp add: flights_init_def)
  next
    case (step y z)
    then show ?case using through_values[OF step.hyps(2)] through_flight by blast
  qed
  then show ?thesis by blast
qed

end

section \<open>The backends keep their promise\<close>

definition memory_stored :: "InMemoryCache \<Rightarrow> string \<Rightarrow> string set" where
  "memory_stored c k = {v. \<exists>e. (k, e, v) \<in> set (im_entries c)}"

lemma od_trim_subset: "set (od_trim n d) \<subseteq> set d"
  by (simp add: od_trim_drop set_drop_subset)

interpretation memory: cache_backend memory_backend memory_stored
proof
  fix now k c v
  assume "fst (be_get memory_backend now k c) = Some v"
  then show "v \<in> memory_stored c k"
    by (auto simp: memory_backend_def memory_get_def memory_stored_def dest!: map_of_SomeD
        split: option.splits if_splits)
next
  fix now k c j
  show "memory_stored (snd (be_get memory_backend now k c)) j \<subseteq> memory_stored c j"
    by (auto simp: memory_backend_def memory_get_def memory_stored_def od_put_def od_del_def
        dest!: map_of_SomeD split: option.splits if_splits)
next
  fix now k v ttl c j
  show "memory_stored (be_set memory_backend now k v ttl c) j \<subseteq> (if j = k then {v} else memory_stored c j)"
    using od_trim_subset[of "im_max_entries c" "od_put k (now + of_int ttl, v) (im_entries c)"]
    by (auto simp: memory_backend_def memory_set_def memory_stored_def od_put_def od_del_def)
next
  fix k c j
  show "memory_stored (be_delete memory_backend k c) j \<subseteq> memory_stored c j"
    by (auto simp: memory_backend_def memory_delete_def memory_stored_def od_del_def)
qed

interpretation null: cache_backend null_backend "\<lambda>_ _. {}"
  by unfold_locales (simp_all add: null_backend_def)

text \<open>The store in memory stays within its bound.\<close>

lemma memory_set_bound: "length (im_entries (memory_set now k v ttl c)) \<le> im_max_entries c"
  by (simp add: memory_set_def od_trim_length)

lemma memory_get_bound:
  "length (im_entries c) \<le> n \<Longrightarrow> length (im_entries (snd (memory_get now k c))) \<le> n"
proof -
  have del: "length (od_del k (im_entries c)) \<le> length (im_entries c)" by (simp add: od_del_def)
  have put: "length (od_put k x (im_entries c)) \<le> length (im_entries c)" if "map_of (im_entries c) k = Some x" for x
  proof -
    have "(k, x) \<in> set (im_entries c)" using that by (rule map_of_SomeD)
    then have "length (od_del k (im_entries c)) < length (im_entries c)"
      unfolding od_del_def by (rule length_filter_less) simp
    then show ?thesis by (simp add: od_put_def)
  qed
  show "length (im_entries c) \<le> n \<Longrightarrow> ?thesis"
    using del put by (auto simp: memory_get_def split: option.split intro: order_trans)
qed

end
