(* ===== verification/CacheProperties.thy ===== *)
theory CacheProperties
  imports ResponseCache
begin

text \<open>
  What the read-through cache promises its callers (\<open>app/cache\<close>).
\<close>

text \<open>C39. However calls, loaders, expiries, evictions, invalidations and failures interleave, a value a caller
  gets comes from one that a loader returned for a request of the same namespace whose parts have the
  same digest: it is that very value, unless the caller got it from the store, and then it is what the
  caller's decoder made of the encoding of that value.  And no two loaders run at the same time for
  requests of one namespace whose parts have the same digest.\<close>

theorem cache_only_repeats_loaders:
  assumes "(through_step memory_backend (keyed_codec sha256 canonical encode decode) po)\<^sup>*\<^sup>*
      (flights_init \<lparr>im_max_entries = n, im_entries = []\<rparr>) y"
  shows "(fl_callers y i = Some (Answered p (Inr v) o') \<longrightarrow>
           (\<exists>q w. (q, w) \<in> fl_produced y \<and> fst q = fst p
              \<and> fingerprint sha256 canonical (snd q) = fingerprint sha256 canonical (snd p)
              \<and> (if o' = from_store then \<exists>s. encode q w = Some s \<and> decode p s = Some v else v = w)))
    \<and> (fl_callers y j = Some a \<and> fl_callers y k = Some b \<and> flying a \<and> flying b
         \<and> fst (request_of a) = fst (request_of b)
         \<and> fingerprint sha256 canonical (snd (request_of a)) = fingerprint sha256 canonical (snd (request_of b))
         \<longrightarrow> j = k)"
proof -
  let ?co = "keyed_codec sha256 canonical encode decode"
  have inv: "flight_inv ?co y" "value_inv ?co y"
    using memory.answers_are_produced[OF assms] by (simp_all add: memory_stored_def)
  have key: "co_key ?co q = co_key ?co p \<longleftrightarrow>
      fst q = fst p \<and> fingerprint sha256 canonical (snd q) = fingerprint sha256 canonical (snd p)" for q p
    using cache_key_inj[of sha256 canonical q p] by (auto simp: keyed_codec_def cache_key_def fingerprint_def)
  have "j = k" if "fl_callers y j = Some a" "fl_callers y k = Some b" "flying a" "flying b"
    "co_key ?co (request_of a) = co_key ?co (request_of b)"
  proof -
    have "fl_inflight y (co_key ?co (request_of b)) = Some j" "fl_inflight y (co_key ?co (request_of b)) = Some k"
      using inv(1) that unfolding flight_inv_def by blast+
    then show ?thesis by simp
  qed
  moreover have "\<exists>q w. (q, w) \<in> fl_produced y \<and> co_key ?co q = co_key ?co p
      \<and> (if o' = from_store then \<exists>s. encode q w = Some s \<and> decode p s = Some v else v = w)"
    if "fl_callers y i = Some (Answered p (Inr v) o')"
  proof -
    have "answer_ok ?co (fl_produced y) p v o'" using inv(2) that unfolding value_inv_def by blast
    then show ?thesis unfolding answer_ok_def produced_for_def encoded_for_def
      by (auto simp: keyed_codec_def split: if_splits)
  qed
  ultimately show ?thesis unfolding key by blast
qed

text \<open>A search, with the identity for a digest.\<close>

abbreviation sample_request :: "CacheNamespace \<times> string" where "sample_request \<equiv> (CacheNamespace.SEARCH, ''k'')"

definition plain_codec :: "(CacheNamespace \<times> string, string) codec" where
  "plain_codec = keyed_codec (\<lambda>s. s) (\<lambda>s. s) (\<lambda>_. Some) (\<lambda>_. Some)"

definition plain_policy :: "(CacheNamespace \<times> string) CachePolicy" where
  "plain_policy = \<lparr>po_ttl_seconds = (\<lambda>_. 60), po_enabled = (\<lambda>_. True), po_max_value_bytes = 10\<rparr>"

text \<open>A caller misses, leads and loads; a second one finds the value in the store.\<close>

definition sample_key :: string where
  "sample_key = cache_key (\<lambda>s. s) (\<lambda>s. s) sample_request"

definition plain_state ::
  "(string \<times> real \<times> string) list \<Rightarrow> (string \<rightharpoonup> nat) \<Rightarrow> (nat \<rightharpoonup> (CacheNamespace \<times> string, string, unit) caller)
     \<Rightarrow> (nat \<rightharpoonup> unit + string) \<Rightarrow> ((CacheNamespace \<times> string) \<times> string) set \<Rightarrow> (InMemoryCache, CacheNamespace \<times> string, string, unit) flights" where
  "plain_state es fl cs fs h =
     \<lparr>fl_cache = \<lparr>im_max_entries = 4, im_entries = es\<rparr>, fl_inflight = fl, fl_callers = cs,
      fl_futures = fs, fl_produced = h\<rparr>"

lemma plain_run:
  "(through_step memory_backend plain_codec plain_policy)\<^sup>*\<^sup>*
     (flights_init \<lparr>im_max_entries = 4, im_entries = []\<rparr>)
     (plain_state [(sample_key, 60, ''v'')] (Map.empty(sample_key := None))
        [0 \<mapsto> Answered sample_request (Inr ''v'') from_loader, 1 \<mapsto> Answered sample_request (Inr ''v'') from_store]
        [0 \<mapsto> Inr ''v''] {(sample_request, ''v'')})"
proof -
  let ?R = "through_step memory_backend plain_codec plain_policy"
  note defs = plain_state_def plain_codec_def keyed_codec_def sample_key_def plain_policy_def flights_init_def
    read_entry_def write_entry_def
    memory_backend_def memory_get_def memory_set_def od_put_def od_del_def
  let ?s0 = "plain_state [] Map.empty [0 \<mapsto> Asking sample_request] Map.empty {}"
  let ?s1 = "plain_state [] Map.empty [0 \<mapsto> Missed sample_request] Map.empty {}"
  let ?s2 = "plain_state [] [sample_key \<mapsto> 0] [0 \<mapsto> Leading sample_request] Map.empty {}"
  let ?s3 = "plain_state [] [sample_key \<mapsto> 0] [0 \<mapsto> Loaded sample_request ''v''] Map.empty {(sample_request, ''v'')}"
  let ?s4 = "plain_state [(sample_key, 60, ''v'')] (Map.empty(sample_key := None))
      [0 \<mapsto> Answered sample_request (Inr ''v'') from_loader] [0 \<mapsto> Inr ''v''] {(sample_request, ''v'')}"
  let ?s5 = "plain_state [(sample_key, 60, ''v'')] (Map.empty(sample_key := None))
      [0 \<mapsto> Answered sample_request (Inr ''v'') from_loader, 1 \<mapsto> Asking sample_request] [0 \<mapsto> Inr ''v''] {(sample_request, ''v'')}"
  let ?s6 = "plain_state [(sample_key, 60, ''v'')] (Map.empty(sample_key := None))
      [0 \<mapsto> Answered sample_request (Inr ''v'') from_loader, 1 \<mapsto> Answered sample_request (Inr ''v'') from_store]
      [0 \<mapsto> Inr ''v''] {(sample_request, ''v'')}"
  have "?R (flights_init \<lparr>im_max_entries = 4, im_entries = []\<rparr>) ?s0"
    using through_step.call[of "flights_init \<lparr>im_max_entries = 4, im_entries = []\<rparr>" 0 memory_backend plain_codec plain_policy sample_request]
    by (simp add: defs)
  moreover have "?R ?s0 ?s1"
    using through_step.missed[of ?s0 0 sample_request plain_policy memory_backend plain_codec 0 "\<lparr>im_max_entries = 4, im_entries = []\<rparr>"]
    by (simp add: defs)
  moreover have "?R ?s1 ?s2"
    using through_step.lead[of ?s1 0 sample_request plain_codec memory_backend plain_policy] by (simp add: defs)
  moreover have "?R ?s2 ?s3"
    using through_step.loaded[of ?s2 0 sample_request memory_backend plain_codec plain_policy "''v''"] by (simp add: defs)
  moreover have "?R ?s3 ?s4"
    using through_step.landed[of ?s3 0 sample_request "''v''" _ plain_policy memory_backend plain_codec 0] by (simp add: defs)
  moreover have "?R ?s4 ?s5"
    using through_step.call[of ?s4 1 memory_backend plain_codec plain_policy sample_request] by (simp add: defs)
  moreover have "?R ?s5 ?s6"
    using through_step.found[of ?s5 1 sample_request plain_policy memory_backend plain_codec 1 "''v''"
        "\<lparr>im_max_entries = 4, im_entries = [(sample_key, 60, ''v'')]\<rparr>"]
    by (simp add: defs)
  ultimately show ?thesis by (meson converse_rtranclp_into_rtranclp rtranclp.rtrancl_refl)
qed

theorem cache_only_repeats_loaders_witness:
  "\<exists>q. (q, ''v'') \<in> {(sample_request, ''v'')} \<and> fst q = CacheNamespace.SEARCH \<and> snd q = ''k''"
  using cache_only_repeats_loaders[OF plain_run[unfolded plain_codec_def], of 1 sample_request "''v''" from_store]
  by (simp add: plain_state_def fingerprint_def)

end
