(* ===== verification/Pagination.thy ===== *)
theory Pagination
  imports Prelude
begin

text \<open>
  \<open>app/core/pagination.py\<close>: opaque cursors, with the UTF-8 and Base64 codecs of the standard library
  they use, and the clamped page size.  Texts are lists of code points, bytes are numbers below 256.
\<close>

section \<open>UTF-8\<close>

type_synonym codepoints = "nat list"
type_synonym bytes = "nat list"

definition codepoint_ok :: "nat \<Rightarrow> bool" where
  "codepoint_ok c \<longleftrightarrow> c < 0xD800 \<or> 0xE000 \<le> c \<and> c \<le> 0x10FFFF"

definition utf8_char :: "nat \<Rightarrow> bytes" where
  "utf8_char c =
     (if c < 0x80 then [c]
      else if c < 0x800 then [0xC0 + c div 64, 0x80 + c mod 64]
      else if c < 0x10000 then [0xE0 + c div 4096, 0x80 + c div 64 mod 64, 0x80 + c mod 64]
      else [0xF0 + c div 262144, 0x80 + c div 4096 mod 64, 0x80 + c div 64 mod 64, 0x80 + c mod 64])"

definition utf8_encode :: "codepoints \<Rightarrow> bytes" where
  "utf8_encode s = concat (map utf8_char s)"

definition cont :: "nat \<Rightarrow> bool" where
  "cont b \<longleftrightarrow> 0x80 \<le> b \<and> b < 0xC0"

text \<open>Strict decoding: no overlong forms, no surrogates, nothing past the last code point.\<close>

definition utf8_next :: "bytes \<Rightarrow> (nat \<times> bytes) option" where
  "utf8_next bs =
     (case bs of
        [] \<Rightarrow> None
      | b # r1 \<Rightarrow>
          if b < 0x80 then Some (b, r1)
          else case r1 of
            [] \<Rightarrow> None
          | b1 # r2 \<Rightarrow>
              if \<not> cont b1 then None
              else if 0xC2 \<le> b \<and> b < 0xE0 then Some ((b - 0xC0) * 64 + (b1 - 0x80), r2)
              else case r2 of
                [] \<Rightarrow> None
              | b2 # r3 \<Rightarrow>
                  if \<not> cont b2 then None
                  else if 0xE0 \<le> b \<and> b < 0xF0 then
                    (let c = (b - 0xE0) * 4096 + (b1 - 0x80) * 64 + (b2 - 0x80)
                     in if 0x800 \<le> c \<and> codepoint_ok c then Some (c, r3) else None)
                  else case r3 of
                    [] \<Rightarrow> None
                  | b3 # r4 \<Rightarrow>
                      if cont b3 \<and> 0xF0 \<le> b \<and> b < 0xF5 then
                        (let c = (b - 0xF0) * 262144 + (b1 - 0x80) * 4096 + (b2 - 0x80) * 64 + (b3 - 0x80)
                         in if 0x10000 \<le> c \<and> codepoint_ok c then Some (c, r4) else None)
                      else None)"

lemma utf8_next_shorter: "utf8_next bs = Some (c, rest) \<Longrightarrow> length rest < length bs"
  by (auto simp: utf8_next_def Let_def split: list.splits if_splits)

function utf8_decode :: "bytes \<Rightarrow> codepoints option" where
  "utf8_decode bs =
     (if bs = [] then Some []
      else case utf8_next bs of
        None \<Rightarrow> None
      | Some (c, rest) \<Rightarrow> map_option (\<lambda>s. c # s) (utf8_decode rest))"
  by pat_completeness auto
termination by (relation "measure length") (auto dest: utf8_next_shorter)

declare utf8_decode.simps [simp del]

lemma three_digits: "(c :: nat) div 4096 * 4096 + c div 64 mod 64 * 64 + c mod 64 = c"
proof -
  have "c div 4096 = c div 64 div 64" by (simp flip: div_mult2_eq)
  then have "c div 4096 * 64 + c div 64 mod 64 = c div 64" by simp
  then have "(c div 4096 * 64 + c div 64 mod 64) * 64 + c mod 64 = c" by simp
  then show ?thesis by (simp add: algebra_simps)
qed

lemma four_digits:
  "(c :: nat) div 262144 * 262144 + c div 4096 mod 64 * 4096 + c div 64 mod 64 * 64 + c mod 64 = c"
proof -
  have "c div 262144 = c div 4096 div 64" by (simp flip: div_mult2_eq)
  then have "c div 262144 * 64 + c div 4096 mod 64 = c div 4096" by simp
  then have "c div 262144 * 262144 + c div 4096 mod 64 * 4096 = c div 4096 * 4096" by (simp add: algebra_simps)
  with three_digits[of c] show ?thesis by simp
qed

lemma utf8_next_2: "2 \<le> q \<Longrightarrow> q < 32 \<Longrightarrow> r < 64 \<Longrightarrow> utf8_next ((192 + q) # (128 + r) # rest) = Some (q * 64 + r, rest)"
  by (simp add: utf8_next_def cont_def)

lemma utf8_next_3:
  "q < 16 \<Longrightarrow> m < 64 \<Longrightarrow> r < 64 \<Longrightarrow> q * 4096 + m * 64 + r = c \<Longrightarrow> 0x800 \<le> c \<Longrightarrow> codepoint_ok c \<Longrightarrow>
     utf8_next ((224 + q) # (128 + m) # (128 + r) # rest) = Some (c, rest)"
  by (simp add: utf8_next_def cont_def)

lemma utf8_next_4:
  "q < 5 \<Longrightarrow> l < 64 \<Longrightarrow> m < 64 \<Longrightarrow> r < 64 \<Longrightarrow> q * 262144 + l * 4096 + m * 64 + r = c \<Longrightarrow> 0x10000 \<le> c \<Longrightarrow>
     codepoint_ok c \<Longrightarrow> utf8_next ((240 + q) # (128 + l) # (128 + m) # (128 + r) # rest) = Some (c, rest)"
  by (simp add: utf8_next_def cont_def)

lemma utf8_next_char:
  assumes "codepoint_ok c"
  shows "utf8_next (utf8_char c @ rest) = Some (c, rest)"
proof -
  have m: "c mod 64 < 64" "c div 64 mod 64 < 64" "c div 4096 mod 64 < 64" by simp_all
  have top: "c < 1114112" using assms by (auto simp: codepoint_ok_def)
  consider "c < 0x80" | "0x80 \<le> c" "c < 0x800" | "0x800 \<le> c" "c < 0x10000" | "0x10000 \<le> c" by linarith
  then show ?thesis
  proof cases
    case 1
    then show ?thesis by (simp add: utf8_char_def utf8_next_def)
  next
    case 2
    then have "2 \<le> c div 64" "c div 64 < 32" by linarith+
    from utf8_next_2[OF this m(1)] 2 show ?thesis by (simp add: utf8_char_def)
  next
    case 3
    then have "c div 4096 < 16" by linarith
    from utf8_next_3[OF this m(2,1) three_digits 3(1) assms] 3 show ?thesis by (simp add: utf8_char_def)
  next
    case 4
    have "c div 262144 < 5" using top by linarith
    from utf8_next_4[OF this m(3,2,1) four_digits 4 assms] 4 show ?thesis by (simp add: utf8_char_def)
  qed
qed

lemma utf8_char_nonempty [simp]: "utf8_char c \<noteq> []"
  by (simp add: utf8_char_def)

lemma utf8_char_bytes:
  assumes "codepoint_ok c"
  shows "\<forall>b \<in> set (utf8_char c). b < 256"
proof -
  have m: "c mod 64 < 64" "c div 64 mod 64 < 64" "c div 4096 mod 64 < 64" by simp_all
  have "c < 1114112" using assms by (auto simp: codepoint_ok_def)
  then have "c div 262144 < 5" by linarith
  moreover have "c < 0x800 \<Longrightarrow> c div 64 < 32" "c < 0x10000 \<Longrightarrow> c div 4096 < 16" by linarith+
  ultimately show ?thesis using m unfolding utf8_char_def by (auto simp del: mod_less_divisor)
qed

lemma utf8_round: "list_all codepoint_ok s \<Longrightarrow> utf8_decode (utf8_encode s) = Some s"
proof (induction s)
  case (Cons c s)
  then show ?case
    by (subst utf8_decode.simps) (simp add: utf8_encode_def utf8_next_char)
qed (simp add: utf8_encode_def utf8_decode.simps)

lemma utf8_encode_bytes: "list_all codepoint_ok s \<Longrightarrow> \<forall>b \<in> set (utf8_encode s). b < 256"
  using utf8_char_bytes by (fastforce simp: utf8_encode_def list_all_iff)

section \<open>Base64, URL-safe\<close>

definition ALPHABET :: string where
  "ALPHABET = ''ABCDEFGHIJKLMNOPQRSTUVWXYZabcdefghijklmnopqrstuvwxyz0123456789-_''"

definition sextet_char :: "nat \<Rightarrow> char" where
  "sextet_char n = ALPHABET ! n"

text \<open>
  The decoder translates \<open>-\<close> and \<open>_\<close> to the standard alphabet first, so it reads both spellings.
\<close>

definition char_sextet :: "char \<Rightarrow> nat option" where
  "char_sextet c =
     (let n = (of_char c :: nat)
      in if 65 \<le> n \<and> n \<le> 90 then Some (n - 65)
         else if 97 \<le> n \<and> n \<le> 122 then Some (n - 71)
         else if 48 \<le> n \<and> n \<le> 57 then Some (n + 4)
         else if n = 45 \<or> n = 43 then Some 62
         else if n = 95 \<or> n = 47 then Some 63
         else None)"

fun b64_sextets :: "bytes \<Rightarrow> nat list" where
  "b64_sextets [] = []"
| "b64_sextets [a] = [a div 4, a mod 4 * 16]"
| "b64_sextets [a, b] = [a div 4, a mod 4 * 16 + b div 16, b mod 16 * 4]"
| "b64_sextets (a # b # c # rest) =
     [a div 4, a mod 4 * 16 + b div 16, b mod 16 * 4 + c div 64, c mod 64] @ b64_sextets rest"

definition b64_pads :: "bytes \<Rightarrow> nat" where
  "b64_pads bs = (3 - length bs mod 3) mod 3"

definition urlsafe_b64encode :: "bytes \<Rightarrow> string" where
  "urlsafe_b64encode bs = map sextet_char (b64_sextets bs) @ replicate (b64_pads bs) CHR ''=''"

text \<open>
  \<open>binascii.a2b_base64\<close> as it is when not strict: characters outside the alphabet are skipped, padding
  ends the input once it completes a group, and an incomplete group at the end is an error.
\<close>

fun a2b :: "nat \<Rightarrow> nat \<Rightarrow> nat \<Rightarrow> string \<Rightarrow> bytes option" where
  "a2b quad left pads [] = (if quad = 0 then Some [] else None)"
| "a2b quad left pads (c # s) =
     (if c = CHR ''='' then
        (if quad \<ge> 2 then (if quad + (pads + 1) \<ge> 4 then Some [] else a2b quad left (pads + 1) s)
         else a2b quad left pads s)
      else case char_sextet c of
        None \<Rightarrow> a2b quad left pads s
      | Some v \<Rightarrow>
          (if quad = 0 then a2b 1 v 0 s
           else if quad = 1 then map_option (\<lambda>r. (left * 4 + v div 16) # r) (a2b 2 (v mod 16) 0 s)
           else if quad = 2 then map_option (\<lambda>r. (left * 16 + v div 4) # r) (a2b 3 (v mod 4) 0 s)
           else map_option (\<lambda>r. (left * 64 + v) # r) (a2b 0 0 0 s)))"

section \<open>Cursors\<close>

definition encode_cursor :: "codepoints \<Rightarrow> string" where
  "encode_cursor value = rev (dropWhile (\<lambda>c. c = CHR ''='') (rev (urlsafe_b64encode (utf8_encode value))))"

text \<open>
  What decoding a cursor can end in besides a text: the refusal the API turns into a 422, or the plain
  \<open>ValueError\<close> of a text that is not ASCII, which \<open>decode_cursor\<close> does not catch.
\<close>

datatype cursor_error = ValidationFailed | ValueError

definition ascii :: "string \<Rightarrow> bool" where
  "ascii s \<longleftrightarrow> list_all (\<lambda>c. (of_char c :: nat) < 128) s"

definition decode_cursor :: "string \<Rightarrow> cursor_error + codepoints" where
  "decode_cursor cursor =
     (let padding = replicate ((4 - length cursor mod 4) mod 4) CHR ''=''
      in if \<not> ascii cursor then Inl ValueError
         else case a2b 0 0 0 (cursor @ padding) of
           None \<Rightarrow> Inl ValidationFailed
         | Some bs \<Rightarrow> (case utf8_decode bs of None \<Rightarrow> Inl ValidationFailed | Some s \<Rightarrow> Inr s))"

text \<open>\<open>parse_uuid\<close> is \<open>UUID(...)\<close>; both value errors become the refusal.\<close>

definition decode_cursor_id :: "(codepoints \<Rightarrow> uuid option) \<Rightarrow> string \<Rightarrow> cursor_error + uuid" where
  "decode_cursor_id parse_uuid cursor =
     (case decode_cursor cursor of
        Inl e \<Rightarrow> Inl ValidationFailed
      | Inr s \<Rightarrow> (case parse_uuid s of None \<Rightarrow> Inl ValidationFailed | Some u \<Rightarrow> Inr u))"

record PageParams =
  pp_limit :: int
  pp_cursor :: "string option"

definition clamped :: "int option \<Rightarrow> string option \<Rightarrow> int \<Rightarrow> int \<Rightarrow> PageParams option" where
  "clamped limit cursor dflt maximum =
     (let resolved = (case limit of None \<Rightarrow> dflt | Some l \<Rightarrow> max 1 (min l maximum))
      in if 1 \<le> resolved \<and> resolved \<le> 100 then Some \<lparr>pp_limit = resolved, pp_cursor = cursor\<rparr> else None)"

lemma clamped_bounds:
  "1 \<le> maximum \<Longrightarrow> maximum \<le> 100 \<Longrightarrow> 1 \<le> dflt \<Longrightarrow> dflt \<le> maximum \<Longrightarrow>
     \<exists>p. clamped limit cursor dflt maximum = Some p \<and> 1 \<le> pp_limit p \<and> pp_limit p \<le> maximum"
  by (auto simp: clamped_def Let_def split: option.split)

section \<open>Cursors come back\<close>

definition sextet_ok :: "nat \<Rightarrow> bool" where
  "sextet_ok n \<longleftrightarrow>
     char_sextet (sextet_char n) = Some n \<and> sextet_char n \<noteq> CHR ''='' \<and> (of_char (sextet_char n) :: nat) < 128"

lemma sextets_ok: "list_all sextet_ok [0..<64]"
  by (simp add: upt_rec sextet_ok_def sextet_char_def ALPHABET_def char_sextet_def Let_def)

lemma char_sextet_alphabet:
  "n < 64 \<Longrightarrow>
     char_sextet (sextet_char n) = Some n \<and> sextet_char n \<noteq> CHR ''='' \<and> (of_char (sextet_char n) :: nat) < 128"
  using sextets_ok by (simp add: list_all_iff sextet_ok_def)

lemmas sextet_simps = char_sextet_alphabet[THEN conjunct1] char_sextet_alphabet[THEN conjunct2, THEN conjunct1]

lemma sextets_small: "\<forall>b \<in> set bs. b < 256 \<Longrightarrow> \<forall>n \<in> set (b64_sextets bs). n < 64"
proof (induction bs rule: b64_sextets.induct)
  case (3 a b)
  then have "b div 16 < 16" by auto
  moreover have "a mod 4 < 4" "b mod 16 < 16" by simp_all
  ultimately show ?case using 3 by auto
next
  case (4 a b c rest)
  then have "b div 16 < 16" "c div 64 < 4" by auto
  moreover have "a mod 4 < 4" "b mod 16 < 16" by simp_all
  ultimately show ?case using 4 by auto
qed auto

text \<open>What the decoder reads of one sextet in each place of its group.\<close>

lemma a2b_first: "n < 64 \<Longrightarrow> a2b 0 l p (sextet_char n # s) = a2b 1 n 0 s"
  by (simp add: sextet_simps)

lemma a2b_second: "n < 64 \<Longrightarrow> a2b 1 l p (sextet_char n # s) = map_option (\<lambda>r. (l * 4 + n div 16) # r) (a2b 2 (n mod 16) 0 s)"
  by (simp add: sextet_simps)

lemma a2b_third: "n < 64 \<Longrightarrow> a2b 2 l p (sextet_char n # s) = map_option (\<lambda>r. (l * 16 + n div 4) # r) (a2b 3 (n mod 4) 0 s)"
  by (simp add: sextet_simps)

lemma a2b_fourth: "n < 64 \<Longrightarrow> a2b 3 l p (sextet_char n # s) = map_option (\<lambda>r. (l * 64 + n) # r) (a2b 0 0 0 s)"
  by (simp add: sextet_simps)

lemma a2b_pads: "a2b 2 l p ''=='' = Some []" "a2b 3 l 0 ''='' = Some []"
  by (cases p) simp_all

lemmas a2b_places = a2b_pads a2b_first a2b_second a2b_third a2b_fourth

lemma byte_parts:
  fixes a b c :: nat
  assumes "a < 256" "b < 256" "c < 256"
  shows "a div 4 < 64" "a mod 4 * 16 + b div 16 < 64" "b mod 16 * 4 + c div 64 < 64" "c mod 64 < 64"
    "(a mod 4 * 16 + b div 16) div 16 = a mod 4" "(a mod 4 * 16 + b div 16) mod 16 = b div 16"
    "(b mod 16 * 4 + c div 64) div 4 = b mod 16" "(b mod 16 * 4 + c div 64) mod 4 = c div 64"
proof -
  have m: "a mod 4 < 4" "b mod 16 < 16" by simp_all
  have d: "b div 16 < 16" "c div 64 < 4" using assms by linarith+
  show "a div 4 < 64" "c mod 64 < 64" using assms by linarith+
  show "a mod 4 * 16 + b div 16 < 64" "b mod 16 * 4 + c div 64 < 64" using m d by linarith+
  show "(a mod 4 * 16 + b div 16) div 16 = a mod 4" using d(1) by simp
  show "(a mod 4 * 16 + b div 16) mod 16 = b div 16" using d(1) by simp
  show "(b mod 16 * 4 + c div 64) div 4 = b mod 16" using d(2) by simp
  show "(b mod 16 * 4 + c div 64) mod 4 = c div 64" using d(2) by simp
qed

lemma b64_pads_triple: "b64_pads (a # b # c # rest) = b64_pads rest"
  by (simp add: b64_pads_def)

lemma a2b_encoded:
  "\<forall>b \<in> set bs. b < 256 \<Longrightarrow>
     a2b 0 0 0 (map sextet_char (b64_sextets bs) @ replicate (b64_pads bs) CHR ''='') = Some bs"
proof (induction bs rule: b64_sextets.induct)
  case 1
  then show ?case by (simp add: b64_pads_def)
next
  case (2 a)
  then have p: "a < 256" "(0 :: nat) < 256" by simp_all
  note q = byte_parts[OF p(1) p(2) p(2), simplified]
  have "replicate (b64_pads [a]) CHR ''='' = ''==''" by (simp add: b64_pads_def numeral_2_eq_2)
  then show ?case using q by (simp add: a2b_places del: a2b.simps(2) One_nat_def)
next
  case (3 a b)
  then have p: "a < 256" "b < 256" "(0 :: nat) < 256" by simp_all
  note q = byte_parts[OF p, simplified]
  have "replicate (b64_pads [a, b]) CHR ''='' = ''=''" by (simp add: b64_pads_def)
  moreover have "b div 16 * 16 + b mod 16 = b" by simp
  ultimately show ?case using q by (simp add: a2b_places del: a2b.simps(2) One_nat_def)
next
  case (4 a b c rest)
  then have p: "a < 256" "b < 256" "c < 256" by simp_all
  note q = byte_parts[OF p]
  have "b div 16 * 16 + b mod 16 = b" "c div 64 * 64 + c mod 64 = c" by simp_all
  then show ?case using 4 q by (simp add: a2b_places b64_pads_triple del: a2b.simps(2) One_nat_def)
qed

lemma length_sextets: "(length (b64_sextets bs) + b64_pads bs) mod 4 = 0 \<and> b64_pads bs < 3"
proof (induction bs rule: b64_sextets.induct)
  case (4 a b c rest)
  then show ?case by (simp add: b64_pads_triple)
qed (simp_all add: b64_pads_def)

lemma dropWhile_eq_self: "x \<notin> set xs \<Longrightarrow> dropWhile (\<lambda>c. c = x) xs = xs"
  by (cases xs) auto

lemma padding_completes: "(n + p) mod 4 = 0 \<Longrightarrow> p < 3 \<Longrightarrow> (4 - n mod 4) mod 4 = (p :: nat)"
proof -
  assume a: "(n + p) mod 4 = 0" "p < 3"
  have "n mod 4 < 4" by simp
  then have "n mod 4 = 0 \<or> n mod 4 = 1 \<or> n mod 4 = 2 \<or> n mod 4 = 3" by linarith
  moreover have "p = 0 \<or> p = 1 \<or> p = 2" using a(2) by linarith
  moreover have "(n mod 4 + p) mod 4 = 0" using a(1) by (simp add: mod_add_left_eq)
  ultimately show ?thesis by (auto dest: dvd_imp_le)
qed

lemma dropWhile_replicate: "dropWhile (\<lambda>c. c = x) (replicate k x @ xs) = dropWhile (\<lambda>c. c = x) xs"
  by (induction k) simp_all

lemma sextet_chars_no_padding: "\<forall>n \<in> set ns. n < 64 \<Longrightarrow> CHR ''='' \<notin> set (map sextet_char ns)"
  using sextet_simps(2) by fastforce

lemma strip_padding: "x \<notin> set xs \<Longrightarrow> rev (dropWhile (\<lambda>c. c = x) (rev (xs @ replicate k x))) = xs"
  by (simp add: dropWhile_replicate dropWhile_eq_self)

lemma encode_cursor_sextets:
  assumes "list_all codepoint_ok s"
  shows "encode_cursor s = map sextet_char (b64_sextets (utf8_encode s))"
  unfolding encode_cursor_def urlsafe_b64encode_def
  by (intro strip_padding sextet_chars_no_padding sextets_small utf8_encode_bytes assms)

lemma cursor_round:
  assumes "list_all codepoint_ok s"
  shows "decode_cursor (encode_cursor s) = Inr s"
proof -
  let ?bs = "utf8_encode s"
  have e: "encode_cursor s = map sextet_char (b64_sextets ?bs)" by (rule encode_cursor_sextets[OF assms])
  have small: "\<forall>n \<in> set (b64_sextets ?bs). n < 64" by (rule sextets_small[OF utf8_encode_bytes[OF assms]])
  then have "ascii (encode_cursor s)"
    using char_sextet_alphabet by (auto simp: e ascii_def list_all_iff)
  moreover have "(4 - length (encode_cursor s) mod 4) mod 4 = b64_pads ?bs"
    unfolding e length_map using length_sextets by (intro padding_completes) auto
  moreover have "a2b 0 0 0 (map sextet_char (b64_sextets ?bs) @ replicate (b64_pads ?bs) CHR ''='') = Some ?bs"
    by (rule a2b_encoded[OF utf8_encode_bytes[OF assms]])
  ultimately show ?thesis using utf8_round[OF assms] by (simp add: decode_cursor_def e Let_def)
qed

text \<open>A cursor travels in a URL as it is: the letters, the digits, the minus sign and the underscore.\<close>

lemma sextet_char_alphabet: "n < 64 \<Longrightarrow> sextet_char n \<in> set ALPHABET"
  unfolding sextet_char_def by (rule nth_mem) (simp add: ALPHABET_def)

lemma encode_cursor_alphabet: "list_all codepoint_ok s \<Longrightarrow> set (encode_cursor s) \<subseteq> set ALPHABET"
  using sextets_small[OF utf8_encode_bytes] sextet_char_alphabet by (fastforce simp: encode_cursor_sextets)

text \<open>C40. A cursor the API hands out is text that a URL carries unescaped, and handing it back gives
  exactly the position it was made of: decoding the cursor of any text yields that text, so a cursor made of an
  identifier is read as that identifier, and one made of anything else is refused as a bad request.\<close>

theorem cursor_round_trip:
  assumes "list_all codepoint_ok s"
  shows "decode_cursor (encode_cursor s) = Inr s \<and>
    decode_cursor_id parse_uuid (encode_cursor s) =
      (case parse_uuid s of None \<Rightarrow> Inl ValidationFailed | Some u \<Rightarrow> Inr u) \<and>
    set (encode_cursor s) \<subseteq> set ALPHABET"
  using assms by (simp add: cursor_round decode_cursor_id_def encode_cursor_alphabet)

text \<open>The round trip at a text whose characters take one to four bytes.\<close>

lemma cursor_round_trip_witness:
  "decode_cursor (encode_cursor [0x69, 0xE9, 0x20AC, 0x1F600]) = Inr [0x69, 0xE9, 0x20AC, 0x1F600] \<and>
   decode_cursor_id (\<lambda>s. None) (encode_cursor [0x69, 0xE9, 0x20AC, 0x1F600]) = Inl ValidationFailed"
  using cursor_round_trip[of "[0x69, 0xE9, 0x20AC, 0x1F600]" "\<lambda>s. None"] by (simp add: codepoint_ok_def)

end
