(* ===== verification/Deduplication.thy ===== *)
theory Deduplication
  imports Texts "HOL-Library.Monad_Syntax" "HOL-Library.Product_Lexorder"
begin

text \<open>
  \<open>app/evidence/dedup.py\<close>: the sources of a run grouped so that the same content counts once.  The
  union-find forest with its path halving is written out; a walk up the forest that did not end would be
  the value \<open>None\<close>.  UUID5 is a parameter, and the order of the texts of identifiers is the order of
  the identifiers.
\<close>

section \<open>Definitions\<close>

datatype ClusterReason = ExactHash | CanonicalUrl | NearDuplicate

record SourceFingerprint =
  fp_source_id :: uuid
  fp_canonical_url :: string
  fp_content_hash :: string
  fp_title :: string
  fp_text :: string
  fp_accessed_at :: datetime

record Cluster =
  cu_cluster_id :: uuid
  cu_primary_source_id :: uuid
  cu_duplicate_source_ids :: "uuid list"
  cu_reason :: ClusterReason

definition cluster_source_ids :: "Cluster \<Rightarrow> uuid list" where
  "cluster_source_ids c = cu_primary_source_id c # cu_duplicate_source_ids c"

definition NEAR_DUPLICATE_RATIO :: real where "NEAR_DUPLICATE_RATIO = 0.9"
definition MIN_SHINGLES :: nat where "MIN_SHINGLES = 25"
definition MAX_NEAR_DUPLICATE_CANDIDATES :: nat where "MAX_NEAR_DUPLICATE_CANDIDATES = 400"

definition STRENGTH :: "ClusterReason list" where
  "STRENGTH = [NearDuplicate, CanonicalUrl, ExactHash]"

definition strength :: "ClusterReason \<Rightarrow> nat" where
  "strength r = length (takeWhile (\<lambda>x. x \<noteq> r) STRENGTH)"

fun weaker :: "ClusterReason option \<Rightarrow> ClusterReason option \<Rightarrow> ClusterReason option" where
  "weaker None right = right"
| "weaker left None = left"
| "weaker (Some l) (Some r) = Some (if strength l < strength r then l else r)"

text \<open>The forest: the parent of each source, and the reason recorded at each root.\<close>

type_synonym parents = "uuid \<Rightarrow> uuid"

record forest =
  fo_parent :: parents
  fo_reasons :: "uuid \<rightharpoonup> ClusterReason"

partial_function (option) find_root :: "parents \<Rightarrow> uuid \<Rightarrow> (uuid \<times> parents) option" where
  "find_root parent node =
     (if parent node = node then Some (node, parent)
      else find_root (parent(node := parent (parent node))) (parent (parent node)))"

definition union_sources ::
  "(uuid \<Rightarrow> nat) \<Rightarrow> uuid \<Rightarrow> uuid \<Rightarrow> ClusterReason \<Rightarrow> forest \<Rightarrow> forest option" where
  "union_sources position left right reason st =
     do {
       (a, p1) \<leftarrow> find_root (fo_parent st) left;
       (b, p2) \<leftarrow> find_root p1 right;
       (if a = b then Some (st\<lparr>fo_parent := p2\<rparr>)
        else
          (let (keep, dropped) = (if position a \<le> position b then (a, b) else (b, a));
               r = weaker (weaker (fo_reasons st keep) (fo_reasons st dropped)) (Some reason)
           in Some \<lparr>fo_parent = p2(dropped := keep),
                    fo_reasons = (fo_reasons st)(keep \<mapsto> (case r of None \<Rightarrow> reason | Some q \<Rightarrow> q))\<rparr>))
     }"

fun merge_by ::
  "(uuid \<Rightarrow> nat) \<Rightarrow> (SourceFingerprint \<Rightarrow> string) \<Rightarrow> ClusterReason \<Rightarrow> SourceFingerprint list
     \<Rightarrow> (string \<rightharpoonup> uuid) \<Rightarrow> forest \<Rightarrow> forest option" where
  "merge_by position key reason [] seen st = Some st"
| "merge_by position key reason (f # fs) seen st =
     (case seen (key f) of
        Some i \<Rightarrow>
          do { st' \<leftarrow> union_sources position i (fp_source_id f) reason st; merge_by position key reason fs seen st' }
      | None \<Rightarrow> merge_by position key reason fs (seen(key f \<mapsto> fp_source_id f)) st)"

fun merge_pairs ::
  "(uuid \<Rightarrow> nat) \<Rightarrow> ClusterReason \<Rightarrow> (uuid \<times> uuid) list \<Rightarrow> forest \<Rightarrow> forest option" where
  "merge_pairs position reason [] st = Some st"
| "merge_pairs position reason ((l, r) # ps) st =
     do { st' \<leftarrow> union_sources position l r reason st; merge_pairs position reason ps st' }"

section \<open>Near duplicates\<close>

definition shingles :: "string \<Rightarrow> string set" where
  "shingles text =
     (let ws = words (str_casefold text)
      in if length ws < 3 then {}
         else set (map (\<lambda>i. str_join '' '' (take 3 (drop i ws))) [0..<length ws - 2]))"

definition containment :: "string set \<Rightarrow> string set \<Rightarrow> real" where
  "containment left right =
     (let smaller = min (card left) (card right)
      in if smaller = 0 then 0 else of_nat (card (left \<inter> right)) / of_nat smaller)"

fun near_pairs :: "(uuid \<times> string set) list \<Rightarrow> (uuid \<times> uuid) list" where
  "near_pairs [] = []"
| "near_pairs (l # rest) =
     map (\<lambda>r. (fst l, fst r)) (filter (\<lambda>r. NEAR_DUPLICATE_RATIO \<le> containment (snd l) (snd r)) rest)
     @ near_pairs rest"

definition shingled :: "SourceFingerprint \<Rightarrow> uuid \<times> string set" where
  "shingled f = (fp_source_id f, shingles (fp_title f @ '' '' @ fp_text f))"

definition near_duplicates :: "SourceFingerprint list \<Rightarrow> (uuid \<times> uuid) list" where
  "near_duplicates fps =
     (if length fps > MAX_NEAR_DUPLICATE_CANDIDATES then []
      else near_pairs (filter (\<lambda>s. MIN_SHINGLES \<le> card (snd s)) (map shingled fps)))"

section \<open>Clusters\<close>

fun group_roots ::
  "SourceFingerprint list \<Rightarrow> parents \<Rightarrow> (uuid \<times> uuid list) list \<Rightarrow> (uuid \<times> uuid list) list option" where
  "group_roots [] parent groups = Some groups"
| "group_roots (f # fs) parent groups =
     do { (root, parent') \<leftarrow> find_root parent (fp_source_id f);
          group_roots fs parent' (group_add root (fp_source_id f) groups) }"

definition cluster_identity :: "(string \<Rightarrow> uuid \<Rightarrow> uuid \<Rightarrow> uuid) \<Rightarrow> uuid \<Rightarrow> uuid \<Rightarrow> uuid" where
  "cluster_identity uuid5 run_id primary = uuid5 ''5f0e3a2c-9b3d-4f61-8a2e-1d7c6b4f9a20'' run_id primary"

definition cluster_of ::
  "(string \<Rightarrow> uuid \<Rightarrow> uuid \<Rightarrow> uuid) \<Rightarrow> uuid \<Rightarrow> (uuid \<rightharpoonup> ClusterReason) \<Rightarrow> uuid \<times> uuid list \<Rightarrow> Cluster" where
  "cluster_of uuid5 run_id reasons g =
     (let primary = fst g; duplicates = filter (\<lambda>m. m \<noteq> primary) (snd g)
      in \<lparr>cu_cluster_id = cluster_identity uuid5 run_id primary, cu_primary_source_id = primary,
          cu_duplicate_source_ids = duplicates,
          cu_reason = (if duplicates \<noteq> [] then (case reasons primary of None \<Rightarrow> ExactHash | Some r \<Rightarrow> r)
                       else ExactHash)\<rparr>)"

definition fetch_order :: "SourceFingerprint list \<Rightarrow> SourceFingerprint list" where
  "fetch_order fps = sort_key (\<lambda>f. (fp_accessed_at f, fp_source_id f)) fps"

text \<open>\<open>{f.source_id: index for index, f in enumerate(ordered)}\<close>; nothing asks for another identifier.\<close>

definition position_in :: "SourceFingerprint list \<Rightarrow> uuid \<Rightarrow> nat" where
  "position_in ordered i = length (takeWhile (\<lambda>f. fp_source_id f \<noteq> i) ordered)"

definition cluster_sources ::
  "(string \<Rightarrow> uuid \<Rightarrow> uuid \<Rightarrow> uuid) \<Rightarrow> uuid \<Rightarrow> SourceFingerprint list \<Rightarrow> Cluster list option" where
  "cluster_sources uuid5 run_id fps =
     (if fps = [] then Some []
      else
        (let ordered = fetch_order fps; position = position_in ordered
         in do {
              st1 \<leftarrow> merge_by position fp_content_hash ExactHash ordered Map.empty
                       \<lparr>fo_parent = (\<lambda>i. i), fo_reasons = Map.empty\<rparr>;
              st2 \<leftarrow> merge_by position fp_canonical_url CanonicalUrl ordered Map.empty st1;
              st3 \<leftarrow> merge_pairs position NearDuplicate (near_duplicates ordered) st2;
              groups \<leftarrow> group_roots ordered (fo_parent st3) [];
              Some (sort_key (position \<circ> cu_primary_source_id)
                      (map (cluster_of uuid5 run_id (fo_reasons st3)) groups))
            }))"

section \<open>The forest\<close>

text \<open>
  What keeps walks finite: a parent is a source of the run that was fetched earlier, or the source itself.
\<close>

definition forest_ok :: "uuid set \<Rightarrow> (uuid \<Rightarrow> nat) \<Rightarrow> parents \<Rightarrow> bool" where
  "forest_ok S pos p \<longleftrightarrow> (\<forall>x \<in> S. p x \<in> S \<and> (p x = x \<or> pos (p x) < pos x))"

inductive rooted :: "parents \<Rightarrow> uuid \<Rightarrow> uuid \<Rightarrow> bool" for p where
  root: "p x = x \<Longrightarrow> rooted p x x"
| up: "p x \<noteq> x \<Longrightarrow> rooted p (p x) r \<Longrightarrow> rooted p x r"

inductive_cases rootedE: "rooted p x r"

lemma rooted_root: "rooted p x r \<Longrightarrow> p r = r"
  by (induction rule: rooted.induct)

lemma rooted_functional: "rooted p x r \<Longrightarrow> rooted p x r' \<Longrightarrow> r' = r"
  by (induction rule: rooted.induct) (auto elim: rootedE)

lemma forest_okD: "forest_ok S pos p \<Longrightarrow> x \<in> S \<Longrightarrow> p x \<in> S" "forest_ok S pos p \<Longrightarrow> x \<in> S \<Longrightarrow> p x \<noteq> x \<Longrightarrow> pos (p x) < pos x"
  by (auto simp: forest_ok_def)

lemma root_exists: "forest_ok S pos p \<Longrightarrow> x \<in> S \<Longrightarrow> \<exists>r \<in> S. rooted p x r \<and> pos r \<le> pos x"
proof (induction "pos x" arbitrary: x rule: less_induct)
  case less
  show ?case
  proof (cases "p x = x")
    case True
    then show ?thesis using less.prems by (auto intro: root)
  next
    case False
    with less.hyps[of "p x"] forest_okD[OF less.prems] less.prems(1)
    obtain r where "r \<in> S" "rooted p (p x) r" "pos r \<le> pos (p x)" by blast
    with False forest_okD(2)[OF less.prems False] show ?thesis by (meson up less_imp_le order_trans)
  qed
qed

lemma rooted_halved:
  assumes "forest_ok S pos p" "x \<in> S" "p x \<noteq> x" "rooted p y r"
  shows "rooted (p(x := p (p x))) y r"
  using assms(4)
proof (induction rule: rooted.induct)
  case (root y)
  with assms(3) show ?case by (intro rooted.root) auto
next
  case (up y r)
  show ?case
  proof (cases "y = x")
    case False
    show ?thesis by (rule rooted.up) (use up False in auto)
  next
    case True
    have lt: "pos (p x) < pos x" by (rule forest_okD(2)[OF assms(1,2,3)])
    have le: "pos (p (p x)) \<le> pos (p x)"
      using assms(1,2) unfolding forest_ok_def by (metis order.refl less_imp_le)
    have ne: "p (p x) \<noteq> x" using lt le by (metis leD)
    have "rooted (p(x := p (p x))) (p (p x)) r"
    proof (cases "p (p x) = p x")
      case True
      then show ?thesis using up.IH \<open>y = x\<close> by simp
    next
      case False
      have "rooted (p(x := p (p x))) (p x) r" using up.IH unfolding True .
      moreover have "(p(x := p (p x))) (p x) = p (p x)" using assms(3) by simp
      ultimately show ?thesis using False by (metis rooted.cases)
    qed
    moreover have "(p(x := p (p x))) x = p (p x)" by simp
    ultimately show ?thesis unfolding True using ne by (metis rooted.up)
  qed
qed

lemma rooted_halved_iff:
  assumes "forest_ok S pos p" "x \<in> S" "p x \<noteq> x" "y \<in> S"
  shows "rooted (p(x := p (p x))) y r \<longleftrightarrow> rooted p y r"
  using rooted_halved[OF assms(1-3)] root_exists[OF assms(1,4)] by (metis rooted_functional)

lemma forest_halved:
  assumes "forest_ok S pos p" "x \<in> S"
  shows "forest_ok S pos (p(x := p (p x)))"
proof -
  have "p (p x) \<in> S" "p (p x) = x \<or> pos (p (p x)) < pos x" if "p x \<noteq> x"
    using assms that unfolding forest_ok_def by (metis order.strict_trans)+
  with assms show ?thesis by (cases "p x = x") (auto simp: forest_ok_def)
qed

lemma find_root_ok:
  "forest_ok S pos p \<Longrightarrow> x \<in> S \<Longrightarrow>
     \<exists>r p'. find_root p x = Some (r, p') \<and> r \<in> S \<and> rooted p x r \<and> forest_ok S pos p'
       \<and> (\<forall>y \<in> S. \<forall>q. rooted p' y q \<longleftrightarrow> rooted p y q)"
proof (induction "pos x" arbitrary: x p rule: less_induct)
  case less
  show ?case
  proof (cases "p x = x")
    case True
    then show ?thesis using less.prems by (subst find_root.simps) (auto intro: root)
  next
    case False
    let ?p = "p(x := p (p x))" and ?x = "p (p x)"
    have px: "p x \<in> S" "pos (p x) < pos x" using forest_okD[OF less.prems] False by auto
    have x': "?x \<in> S" "pos ?x < pos x"
      using less.prems(1) px unfolding forest_ok_def by (metis order.strict_trans)+
    obtain r p' where r: "find_root ?p ?x = Some (r, p')" "r \<in> S" "rooted ?p ?x r" "forest_ok S pos p'"
      "\<forall>y \<in> S. \<forall>q. rooted p' y q \<longleftrightarrow> rooted ?p y q"
      using less.hyps[OF x'(2) forest_halved[OF less.prems] x'(1)] by blast
    note same = rooted_halved_iff[OF less.prems False]
    have "rooted p ?x r" using r(3) same[OF x'(1)] by simp
    then have "rooted p (p x) r" using up[of p "p x" r] by (cases "p (p x) = p x") auto
    then have "rooted p x r" using False up[of p x r] by blast
    moreover have "find_root p x = Some (r, p')" using False r(1) by (subst find_root.simps) simp
    ultimately show ?thesis using r same by blast
  qed
qed

lemma rooted_linked:
  assumes "p a = a" "p b = b" "a \<noteq> b" "rooted p y r"
  shows "rooted (p(b := a)) y (if r = b then a else r)"
  using assms(4)
proof (induction rule: rooted.induct)
  case (root y)
  show ?case
  proof (cases "y = b")
    case True
    then show ?thesis using assms(1,3) by (intro rooted.up[of _ y]) (auto intro: rooted.root)
  next
    case False
    then show ?thesis using root by (auto intro!: rooted.root)
  qed
next
  case (up y r)
  then have "y \<noteq> b" using assms(2) by auto
  with up show ?case by (intro rooted.up[of _ y]) auto
qed

section \<open>What belongs together\<close>

text \<open>
  The specification: two sources are the same by a rule, and two sources are linked at a strength by
  a chain of rules at least that strong.
\<close>

fun same_source :: "SourceFingerprint list \<Rightarrow> ClusterReason \<Rightarrow> SourceFingerprint \<Rightarrow> SourceFingerprint \<Rightarrow> bool" where
  "same_source fps ExactHash f g \<longleftrightarrow> fp_content_hash f = fp_content_hash g"
| "same_source fps CanonicalUrl f g \<longleftrightarrow> fp_canonical_url f = fp_canonical_url g"
| "same_source fps NearDuplicate f g \<longleftrightarrow>
     length fps \<le> MAX_NEAR_DUPLICATE_CANDIDATES
     \<and> MIN_SHINGLES \<le> card (snd (shingled f)) \<and> MIN_SHINGLES \<le> card (snd (shingled g))
     \<and> NEAR_DUPLICATE_RATIO \<le> containment (snd (shingled f)) (snd (shingled g))"

definition linked :: "SourceFingerprint list \<Rightarrow> ClusterReason \<Rightarrow> (uuid \<times> uuid) set" where
  "linked fps s =
     {(fp_source_id f, fp_source_id g) | f g. f \<in> set fps \<and> g \<in> set fps \<and> (\<exists>r. strength s \<le> strength r \<and> same_source fps r f g)}"

lemma linkedI:
  "f \<in> set fps \<Longrightarrow> g \<in> set fps \<Longrightarrow> same_source fps r f g \<Longrightarrow> strength s \<le> strength r \<Longrightarrow>
     (fp_source_id f, fp_source_id g) \<in> linked fps s"
  by (auto simp: linked_def)

lemma containment_commute: "containment a b = containment b a"
  by (simp add: containment_def Let_def min.commute Int_commute)

lemma same_source_commute: "same_source fps r f g \<longleftrightarrow> same_source fps r g f"
  by (cases r) (auto simp: containment_commute)

lemma linked_sym: "sym (linked fps s)"
  unfolding linked_def sym_def using same_source_commute by blast

lemma chain_sym: "(a, b) \<in> (linked fps s)\<^sup>* \<Longrightarrow> (b, a) \<in> (linked fps s)\<^sup>*"
  using sym_rtrancl[OF linked_sym] by (auto simp: sym_def)

lemma linked_mono: "strength s \<le> strength t \<Longrightarrow> linked fps t \<subseteq> linked fps s"
  unfolding linked_def by (blast intro: order_trans)

lemma chain_mono: "strength s \<le> strength t \<Longrightarrow> (a, b) \<in> (linked fps t)\<^sup>* \<Longrightarrow> (a, b) \<in> (linked fps s)\<^sup>*"
  using rtrancl_mono[OF linked_mono] by blast

definition ids_of :: "SourceFingerprint list \<Rightarrow> uuid set" where
  "ids_of fps = fp_source_id ` set fps"

definition fo_reason :: "forest \<Rightarrow> uuid \<Rightarrow> ClusterReason" where
  "fo_reason st r = (case fo_reasons st r of None \<Rightarrow> ExactHash | Some q \<Rightarrow> q)"

definition forest_inv :: "SourceFingerprint list \<Rightarrow> (uuid \<Rightarrow> nat) \<Rightarrow> forest \<Rightarrow> bool" where
  "forest_inv fps pos st \<longleftrightarrow>
     forest_ok (ids_of fps) pos (fo_parent st)
     \<and> (\<forall>x \<in> ids_of fps. \<forall>r. rooted (fo_parent st) x r \<longrightarrow> (x, r) \<in> (linked fps (fo_reason st r))\<^sup>*)"

definition joined :: "forest \<Rightarrow> uuid \<Rightarrow> uuid \<Rightarrow> bool" where
  "joined st x y \<longleftrightarrow> (\<exists>r. rooted (fo_parent st) x r \<and> rooted (fo_parent st) y r)"

text \<open>What every operation on the forest keeps.\<close>

definition grows :: "SourceFingerprint list \<Rightarrow> (uuid \<Rightarrow> nat) \<Rightarrow> forest \<Rightarrow> forest \<Rightarrow> bool" where
  "grows fps pos st st' \<longleftrightarrow>
     forest_inv fps pos st' \<and> (\<forall>x \<in> ids_of fps. \<forall>y \<in> ids_of fps. joined st x y \<longrightarrow> joined st' x y)"

lemma joined_refl: "forest_inv fps pos st \<Longrightarrow> x \<in> ids_of fps \<Longrightarrow> joined st x x"
  using root_exists[of "ids_of fps" pos "fo_parent st" x] by (auto simp: forest_inv_def joined_def)

lemma joined_sym: "joined st x y \<Longrightarrow> joined st y x"
  by (auto simp: joined_def)

lemma joined_trans: "joined st x y \<Longrightarrow> joined st y z \<Longrightarrow> joined st x z"
  unfolding joined_def using rooted_functional by metis

lemma strength_simps [simp]: "strength NearDuplicate = 0" "strength CanonicalUrl = 1" "strength ExactHash = 2"
  by (simp_all add: strength_def STRENGTH_def)

lemma weaker_reason:
  assumes "r = (case weaker (weaker a b) (Some q) of None \<Rightarrow> q | Some x \<Rightarrow> x)"
  shows "strength r \<le> strength q \<and> (\<forall>x. a = Some x \<longrightarrow> strength r \<le> strength x)
    \<and> (\<forall>x. b = Some x \<longrightarrow> strength r \<le> strength x)"
  using assms by (cases a; cases b) auto

lemma strength_le_2: "strength r \<le> 2"
  by (cases r) simp_all

lemma union_sources_ok:
  assumes inv: "forest_inv fps pos st" and inj: "inj_on pos (ids_of fps)"
    and l: "l \<in> ids_of fps" and r: "r \<in> ids_of fps" and lr: "(l, r) \<in> linked fps q"
  shows "\<exists>st'. union_sources pos l r q st = Some st' \<and> grows fps pos st st' \<and> joined st' l r"
proof -
  let ?S = "ids_of fps"
  have ok: "forest_ok ?S pos (fo_parent st)" using inv by (simp add: forest_inv_def)
  obtain a p1 where a: "find_root (fo_parent st) l = Some (a, p1)" "a \<in> ?S" "rooted (fo_parent st) l a"
    "forest_ok ?S pos p1" and same1: "\<forall>y \<in> ?S. \<forall>x. rooted p1 y x \<longleftrightarrow> rooted (fo_parent st) y x"
    using find_root_ok[OF ok l] by blast
  obtain b p2 where b: "find_root p1 r = Some (b, p2)" "b \<in> ?S" "rooted p1 r b"
    "forest_ok ?S pos p2" and same2: "\<forall>y \<in> ?S. \<forall>x. rooted p2 y x \<longleftrightarrow> rooted p1 y x"
    using find_root_ok[OF a(4) r] by blast
  have same: "rooted p2 y x \<longleftrightarrow> rooted (fo_parent st) y x" if "y \<in> ?S" for x y using same1 same2 that by blast
  have rb: "rooted (fo_parent st) r b" using b(3) same1 r by blast
  show ?thesis
  proof (cases "a = b")
    case True
    let ?st = "st\<lparr>fo_parent := p2\<rparr>"
    have "union_sources pos l r q st = Some ?st" using a(1) b(1) True by (simp add: union_sources_def)
    moreover have "grows fps pos st ?st"
      using inv b(4) same by (auto simp: grows_def forest_inv_def joined_def fo_reason_def)
    moreover have "joined ?st l r" using a(3) rb True same l r by (auto simp: joined_def)
    ultimately show ?thesis by blast
  next
    case False
    obtain keep d where kd: "(keep, d) = (if pos a \<le> pos b then (a, b) else (b, a))" by (metis surj_pair)
    define q' where "q' = (case weaker (weaker (fo_reasons st keep) (fo_reasons st d)) (Some q) of None \<Rightarrow> q | Some x \<Rightarrow> x)"
    let ?st = "\<lparr>fo_parent = p2(d := keep), fo_reasons = (fo_reasons st)(keep \<mapsto> q')\<rparr>"
    have step: "union_sources pos l r q st = Some ?st"
      using a(1) b(1) False by (simp add: union_sources_def kd[symmetric] q'_def)
    have k: "keep \<in> ?S" "d \<in> ?S" "keep \<noteq> d" "pos keep < pos d" "{keep, d} = {a, b}"
      using kd a(2) b(2) False inj by (auto simp: inj_on_def le_less split: if_splits)
    have roots: "p2 keep = keep" "p2 d = d"
      using k(5) rooted_root[OF a(3)] rooted_root[OF rb] rooted_root[of p2 a a] same a(2,3) b(2) rb
      by (metis doubleton_eq_iff rooted.root rooted_root)+
    have new: "rooted (p2(d := keep)) y (if x = d then keep else x)" if "rooted (fo_parent st) y x" "y \<in> ?S" for x y
      using rooted_linked[OF roots k(3)] same that by blast
    have ok': "forest_ok ?S pos (p2(d := keep))" using b(4) k by (auto simp: forest_ok_def)
    have weak: "strength q' \<le> strength q" "strength q' \<le> strength (fo_reason st keep)"
      "strength q' \<le> strength (fo_reason st d)"
      using weaker_reason[OF q'_def] strength_le_2 by (auto simp: fo_reason_def split: option.splits)
    have chains: "(x, z) \<in> (linked fps (fo_reason st z))\<^sup>*" if "x \<in> ?S" "rooted (fo_parent st) x z" for x z
      using inv that by (auto simp: forest_inv_def)
    have "(l, a) \<in> (linked fps (fo_reason st a))\<^sup>*" "(r, b) \<in> (linked fps (fo_reason st b))\<^sup>*"
      using chains l r a(3) rb by auto
    then have "(l, a) \<in> (linked fps q')\<^sup>*" "(r, b) \<in> (linked fps q')\<^sup>*"
      using k(5) weak(2,3) chain_mono by (metis doubleton_eq_iff)+
    moreover have "(l, r) \<in> (linked fps q')\<^sup>*" using lr chain_mono[OF weak(1)] by blast
    ultimately have "(a, b) \<in> (linked fps q')\<^sup>*" by (meson chain_sym rtrancl_trans)
    then have dk: "(d, keep) \<in> (linked fps q')\<^sup>*" using k(5) chain_sym by (metis doubleton_eq_iff)
    have "(x, z') \<in> (linked fps (fo_reason ?st z'))\<^sup>*" if "x \<in> ?S" "rooted (p2(d := keep)) x z'" for x z'
    proof -
      from root_exists[OF ok that(1)] obtain z where z: "rooted (fo_parent st) x z" by blast
      have z': "z' = (if z = d then keep else z)" using rooted_functional[OF new[OF z that(1)] that(2)] .
      consider "z = d" | "z = keep" | "z \<noteq> d" "z \<noteq> keep" by blast
      then show ?thesis
      proof cases
        case 1
        have "(x, d) \<in> (linked fps q')\<^sup>*" using chains[OF that(1) z] 1 chain_mono[OF weak(3)] by blast
        then have "(x, keep) \<in> (linked fps q')\<^sup>*" using dk by (rule rtrancl_trans)
        with 1 z' show ?thesis by (simp add: fo_reason_def)
      next
        case 2
        have "(x, keep) \<in> (linked fps q')\<^sup>*" using chains[OF that(1) z] 2 chain_mono[OF weak(2)] by blast
        with 2 z' k(3) show ?thesis by (simp add: fo_reason_def)
      next
        case 3
        with chains[OF that(1) z] z' show ?thesis by (simp add: fo_reason_def)
      qed
    qed
    then have "forest_inv fps pos ?st" using ok' by (simp add: forest_inv_def)
    moreover have "joined ?st x y" if "x \<in> ?S" "y \<in> ?S" "joined st x y" for x y
      using that new by (auto simp: joined_def)
    moreover have "joined ?st l r"
    proof -
      have "(if a = d then keep else a) = keep" "(if b = d then keep else b) = keep"
        using k(5) False by (auto simp: doubleton_eq_iff)
      then show ?thesis using new[OF a(3) l] new[OF rb r] by (auto simp: joined_def)
    qed
    ultimately show ?thesis using step by (auto simp: grows_def)
  qed
qed

lemma grows_refl: "forest_inv fps pos st \<Longrightarrow> grows fps pos st st"
  by (simp add: grows_def)

lemma grows_trans: "grows fps pos a b \<Longrightarrow> grows fps pos b c \<Longrightarrow> grows fps pos a c"
  by (simp add: grows_def)

lemma grows_inv: "grows fps pos a b \<Longrightarrow> forest_inv fps pos b"
  by (simp add: grows_def)

lemma grows_joined: "grows fps pos a b \<Longrightarrow> x \<in> ids_of fps \<Longrightarrow> y \<in> ids_of fps \<Longrightarrow> joined a x y \<Longrightarrow> joined b x y"
  by (simp add: grows_def)

section \<open>The phases\<close>

lemma merge_by_ok:
  assumes inj: "inj_on pos (ids_of fps)"
    and key: "\<And>f g. f \<in> set fps \<Longrightarrow> g \<in> set fps \<Longrightarrow> key f = key g \<Longrightarrow> same_source fps q f g"
  shows "forest_inv fps pos st \<Longrightarrow> set fs \<subseteq> set fps \<Longrightarrow>
     (\<forall>k i. seen k = Some i \<longrightarrow> (\<exists>f \<in> set fps. fp_source_id f = i \<and> key f = k)) \<Longrightarrow>
     \<exists>st'. merge_by pos key q fs seen st = Some st' \<and> grows fps pos st st'
       \<and> (\<forall>f \<in> set fs. \<forall>i. seen (key f) = Some i \<longrightarrow> joined st' i (fp_source_id f))
       \<and> (\<forall>f \<in> set fs. \<forall>g \<in> set fs. key f = key g \<longrightarrow> joined st' (fp_source_id f) (fp_source_id g))"
proof (induction fs arbitrary: seen st)
  case Nil
  then show ?case by (simp add: grows_refl)
next
  case (Cons f fs)
  have f: "f \<in> set fps" "fp_source_id f \<in> ids_of fps" and fs: "set fs \<subseteq> set fps"
    using Cons.prems(2) by (auto simp: ids_of_def)
  have ids: "fp_source_id g \<in> ids_of fps" if "g \<in> set fs" for g using fs that by (auto simp: ids_of_def)
  show ?case
  proof (cases "seen (key f)")
    case None
    have "\<forall>k i. (seen(key f \<mapsto> fp_source_id f)) k = Some i \<longrightarrow> (\<exists>f \<in> set fps. fp_source_id f = i \<and> key f = k)"
      using Cons.prems(3) f(1) by auto
    from Cons.IH[OF Cons.prems(1) fs this] obtain st' where st':
      "merge_by pos key q fs (seen(key f \<mapsto> fp_source_id f)) st = Some st'" "grows fps pos st st'"
      "\<forall>g \<in> set fs. \<forall>i. (seen(key f \<mapsto> fp_source_id f)) (key g) = Some i \<longrightarrow> joined st' i (fp_source_id g)"
      "\<forall>g \<in> set fs. \<forall>h \<in> set fs. key g = key h \<longrightarrow> joined st' (fp_source_id g) (fp_source_id h)"
      by blast
    have new: "joined st' (fp_source_id f) (fp_source_id g)" if "g \<in> set fs" "key f = key g" for g
      using st'(3) that by auto
    have old: "joined st' i (fp_source_id g)" if "g \<in> set fs" "seen (key g) = Some i" for g i
      using st'(3) that None by (cases "key g = key f") auto
    have "joined st' (fp_source_id f) (fp_source_id f)" by (rule joined_refl[OF grows_inv[OF st'(2)] f(2)])
    with None st' new old joined_sym show ?thesis by (intro exI[of _ st']) auto
  next
    case (Some i)
    obtain g where g: "g \<in> set fps" "fp_source_id g = i" "key g = key f" using Cons.prems(3) Some by blast
    have "(i, fp_source_id f) \<in> linked fps q" using g f(1) key[of g f] unfolding linked_def by blast
    moreover have i: "i \<in> ids_of fps" using g by (auto simp: ids_of_def)
    ultimately obtain st1 where st1: "union_sources pos i (fp_source_id f) q st = Some st1" "grows fps pos st st1"
      "joined st1 i (fp_source_id f)"
      using union_sources_ok[OF Cons.prems(1) inj _ f(2)] by blast
    from Cons.IH[OF grows_inv[OF st1(2)] fs Cons.prems(3)] obtain st' where st':
      "merge_by pos key q fs seen st1 = Some st'" "grows fps pos st1 st'"
      "\<forall>g \<in> set fs. \<forall>i. seen (key g) = Some i \<longrightarrow> joined st' i (fp_source_id g)"
      "\<forall>g \<in> set fs. \<forall>h \<in> set fs. key g = key h \<longrightarrow> joined st' (fp_source_id g) (fp_source_id h)"
      by blast
    have fi: "joined st' i (fp_source_id f)" by (rule grows_joined[OF st'(2) i f(2) st1(3)])
    have new: "joined st' (fp_source_id f) (fp_source_id g)" if "g \<in> set fs" "key f = key g" for g
      using st'(3) that Some fi joined_sym joined_trans by metis
    have "joined st' (fp_source_id f) (fp_source_id f)" by (rule joined_refl[OF grows_inv[OF st'(2)] f(2)])
    with Some st1(1) st' fi new joined_sym grows_trans[OF st1(2) st'(2)] show ?thesis
      by (intro exI[of _ st']) auto
  qed
qed

lemma merge_pairs_ok:
  assumes inj: "inj_on pos (ids_of fps)"
  shows "forest_inv fps pos st \<Longrightarrow> set ps \<subseteq> linked fps q \<Longrightarrow>
     \<exists>st'. merge_pairs pos q ps st = Some st' \<and> grows fps pos st st' \<and> (\<forall>(l, r) \<in> set ps. joined st' l r)"
proof (induction ps arbitrary: st)
  case Nil
  then show ?case by (simp add: grows_refl)
next
  case (Cons p ps)
  obtain l r where p: "p = (l, r)" by fastforce
  with Cons.prems(2) have lr: "(l, r) \<in> linked fps q" by auto
  then have lS: "l \<in> ids_of fps" and rS: "r \<in> ids_of fps" by (auto simp: linked_def ids_of_def)
  obtain st1 where st1: "union_sources pos l r q st = Some st1" "grows fps pos st st1" "joined st1 l r"
    using union_sources_ok[OF Cons.prems(1) inj lS rS lr] by blast
  obtain st' where st': "merge_pairs pos q ps st1 = Some st'" "grows fps pos st1 st'" "\<forall>(l, r) \<in> set ps. joined st' l r"
    using Cons.IH[OF grows_inv[OF st1(2)]] Cons.prems(2) by auto
  have "joined st' l r" by (rule grows_joined[OF st'(2) lS rS st1(3)])
  with p st1 st' grows_trans[OF st1(2) st'(2)] show ?case by (intro exI[of _ st']) auto
qed

text \<open>The pairwise comparison finds exactly the near duplicates, each pair in one of its orders.\<close>

lemma near_pairs_sound:
  "(a, b) \<in> set (near_pairs ss) \<Longrightarrow>
     \<exists>x \<in> set ss. \<exists>y \<in> set ss. fst x = a \<and> fst y = b \<and> NEAR_DUPLICATE_RATIO \<le> containment (snd x) (snd y)"
  by (induction ss) auto

lemma near_pairs_complete:
  "x \<in> set ss \<Longrightarrow> y \<in> set ss \<Longrightarrow> x \<noteq> y \<Longrightarrow> NEAR_DUPLICATE_RATIO \<le> containment (snd x) (snd y) \<Longrightarrow>
     (fst x, fst y) \<in> set (near_pairs ss) \<or> (fst y, fst x) \<in> set (near_pairs ss)"
proof (induction ss)
  case (Cons l rest)
  have first: "(fst l, fst r) \<in> set (near_pairs (l # rest))"
    if "r \<in> set rest" "NEAR_DUPLICATE_RATIO \<le> containment (snd l) (snd r)" for r
    using that by (cases r) (auto intro!: image_eqI[of _ _ r])
  from Cons consider "x = l" "y \<in> set rest" | "y = l" "x \<in> set rest" | "x \<in> set rest" "y \<in> set rest" by auto
  then show ?case
  proof cases
    case 1
    then show ?thesis using first Cons.prems by blast
  next
    case 2
    then show ?thesis using first Cons.prems containment_commute by metis
  next
    case 3
    with Cons show ?thesis by auto
  qed
qed simp

lemma fetch_order_set [simp]: "set (fetch_order fps) = set fps"
  by (simp add: fetch_order_def)

lemma fetch_order_length [simp]: "length (fetch_order fps) = length fps"
  by (simp add: fetch_order_def)

lemma near_duplicates_sound:
  "(a, b) \<in> set (near_duplicates (fetch_order fps)) \<Longrightarrow> (a, b) \<in> linked fps NearDuplicate"
proof -
  assume ab: "(a, b) \<in> set (near_duplicates (fetch_order fps))"
  let ?ss = "filter (\<lambda>s. MIN_SHINGLES \<le> card (snd s)) (map shingled (fetch_order fps))"
  have n: "length fps \<le> MAX_NEAR_DUPLICATE_CANDIDATES" and in_pairs: "(a, b) \<in> set (near_pairs ?ss)"
    using ab by (auto simp: near_duplicates_def split: if_splits)
  obtain f g where "f \<in> set fps" "g \<in> set fps" "fst (shingled f) = a" "fst (shingled g) = b"
    "MIN_SHINGLES \<le> card (snd (shingled f))" "MIN_SHINGLES \<le> card (snd (shingled g))"
    "NEAR_DUPLICATE_RATIO \<le> containment (snd (shingled f)) (snd (shingled g))"
    using near_pairs_sound[OF in_pairs] by auto
  moreover have "fst (shingled h) = fp_source_id h" for h by (simp add: shingled_def)
  ultimately show ?thesis using n unfolding linked_def by (fastforce intro!: exI[of _ NearDuplicate])
qed

lemma near_duplicates_complete:
  assumes "f \<in> set fps" "g \<in> set fps" "fp_source_id f \<noteq> fp_source_id g" "same_source fps NearDuplicate f g"
  shows "(fp_source_id f, fp_source_id g) \<in> set (near_duplicates (fetch_order fps))
    \<or> (fp_source_id g, fp_source_id f) \<in> set (near_duplicates (fetch_order fps))"
proof -
  let ?ss = "filter (\<lambda>s. MIN_SHINGLES \<le> card (snd s)) (map shingled (fetch_order fps))"
  have ids: "fst (shingled h) = fp_source_id h" for h by (simp add: shingled_def)
  have "shingled f \<in> set ?ss" "shingled g \<in> set ?ss" "shingled f \<noteq> shingled g"
    using assms ids by (auto, metis)
  from near_pairs_complete[OF this] assms(4) show ?thesis by (simp add: ids near_duplicates_def)
qed

section \<open>Clusters are components\<close>

lemma group_roots_ok:
  "forest_ok S pos p \<Longrightarrow> \<forall>y \<in> S. rooted p y (\<rho> y) \<Longrightarrow> fp_source_id ` set fs \<subseteq> S \<Longrightarrow>
     group_roots fs p g = Some (foldl (\<lambda>g x. group_add (\<rho> x) x g) g (map fp_source_id fs))"
proof (induction fs arbitrary: p g)
  case (Cons f fs)
  have f: "fp_source_id f \<in> S" using Cons.prems(3) by simp
  obtain r p' where r: "find_root p (fp_source_id f) = Some (r, p')" "rooted p (fp_source_id f) r"
    "forest_ok S pos p'" "\<forall>y \<in> S. \<forall>q. rooted p' y q \<longleftrightarrow> rooted p y q"
    using find_root_ok[OF Cons.prems(1) f] by blast
  have "r = \<rho> (fp_source_id f)" using Cons.prems(2) f r(2) rooted_functional by blast
  moreover have "group_roots fs p' h = Some (foldl (\<lambda>g x. group_add (\<rho> x) x g) h (map fp_source_id fs))" for h
    using Cons.prems r(4) by (intro Cons.IH[OF r(3)]) auto
  ultimately show ?case using r(1) by simp
qed simp

lemma position_less: "i \<in> ids_of fs \<Longrightarrow> position_in fs i < length fs \<and> fp_source_id (fs ! position_in fs i) = i"
proof -
  assume "i \<in> ids_of fs"
  then have "\<exists>f \<in> set fs. \<not> fp_source_id f \<noteq> i" by (auto simp: ids_of_def)
  then have "length (takeWhile (\<lambda>f. fp_source_id f \<noteq> i) fs) < length fs"
    by (induction fs) auto
  then show ?thesis using nth_length_takeWhile unfolding position_in_def by blast
qed

lemma position_inj: "inj_on (position_in fs) (ids_of fs)"
  by (metis inj_onI position_less)

lemma fetch_order_position:
  assumes "i \<in> ids_of fps" "j \<in> ids_of fps" "position_in (fetch_order fps) i \<le> position_in (fetch_order fps) j"
  shows "\<exists>f \<in> set fps. \<exists>g \<in> set fps. fp_source_id f = i \<and> fp_source_id g = j
    \<and> (fp_accessed_at f, fp_source_id f) \<le> (fp_accessed_at g, fp_source_id g)"
proof -
  let ?o = "fetch_order fps" and ?k = "\<lambda>f. (fp_accessed_at f, fp_source_id f)"
  have ij: "position_in ?o i < length ?o" "fp_source_id (?o ! position_in ?o i) = i"
    "position_in ?o j < length ?o" "fp_source_id (?o ! position_in ?o j) = j"
    using assms(1,2) position_less[of i ?o] position_less[of j ?o] by (simp_all add: ids_of_def)
  have "sorted (map ?k ?o)" unfolding fetch_order_def by (rule sorted_sort_key)
  from sorted_nth_mono[OF this assms(3)] ij have "?k (?o ! position_in ?o i) \<le> ?k (?o ! position_in ?o j)" by simp
  then show ?thesis using ij nth_mem by (metis fetch_order_set)
qed

lemma initial_forest: "forest_inv fps pos \<lparr>fo_parent = (\<lambda>i. i), fo_reasons = Map.empty\<rparr>"
  by (auto simp: forest_inv_def forest_ok_def elim: rooted.cases)

text \<open>The forest at the end of the three phases: its trees are the linked components.\<close>

lemma phases_ok:
  fixes fps
  defines "ordered \<equiv> fetch_order fps"
  defines "pos \<equiv> position_in ordered"
  shows "\<exists>st1 st2 st3.
     merge_by pos fp_content_hash ExactHash ordered Map.empty \<lparr>fo_parent = (\<lambda>i. i), fo_reasons = Map.empty\<rparr> = Some st1
     \<and> merge_by pos fp_canonical_url CanonicalUrl ordered Map.empty st1 = Some st2
     \<and> merge_pairs pos NearDuplicate (near_duplicates ordered) st2 = Some st3
     \<and> forest_inv fps pos st3
     \<and> (\<forall>x \<in> ids_of fps. \<forall>y \<in> ids_of fps. joined st3 x y \<longleftrightarrow> (x, y) \<in> (linked fps NearDuplicate)\<^sup>*)"
proof -
  have ids: "ids_of ordered = ids_of fps" by (simp add: ids_of_def ordered_def)
  have inj: "inj_on pos (ids_of fps)" using position_inj[of ordered] ids by (simp add: pos_def)
  have sub: "set ordered \<subseteq> set fps" by (simp add: ordered_def)
  obtain st1 where 1: "merge_by pos fp_content_hash ExactHash ordered Map.empty
      \<lparr>fo_parent = (\<lambda>i. i), fo_reasons = Map.empty\<rparr> = Some st1" "forest_inv fps pos st1"
    "\<forall>f \<in> set ordered. \<forall>g \<in> set ordered. fp_content_hash f = fp_content_hash g \<longrightarrow> joined st1 (fp_source_id f) (fp_source_id g)"
    using merge_by_ok[OF inj, of fp_content_hash ExactHash _ ordered Map.empty, OF _ initial_forest sub] grows_inv by auto
  obtain st2 where 2: "merge_by pos fp_canonical_url CanonicalUrl ordered Map.empty st1 = Some st2" "grows fps pos st1 st2"
    "\<forall>f \<in> set ordered. \<forall>g \<in> set ordered. fp_canonical_url f = fp_canonical_url g \<longrightarrow> joined st2 (fp_source_id f) (fp_source_id g)"
    using merge_by_ok[OF inj, of fp_canonical_url CanonicalUrl _ ordered Map.empty, OF _ 1(2) sub] by auto
  have near: "set (near_duplicates ordered) \<subseteq> linked fps NearDuplicate"
    unfolding ordered_def by (auto intro: near_duplicates_sound)
  obtain st3 where 3: "merge_pairs pos NearDuplicate (near_duplicates ordered) st2 = Some st3" "grows fps pos st2 st3"
    "\<forall>(l, r) \<in> set (near_duplicates ordered). joined st3 l r"
    using merge_pairs_ok[OF inj grows_inv[OF 2(2)] near] by blast
  have inv: "forest_inv fps pos st3" by (rule grows_inv[OF 3(2)])
  have step: "joined st3 x y" if xy: "(x, y) \<in> linked fps NearDuplicate" for x y
  proof -
    obtain f g r where fg: "x = fp_source_id f" "y = fp_source_id g" "f \<in> set fps" "g \<in> set fps" "same_source fps r f g"
      using xy by (auto simp: linked_def)
    then have in_ids: "x \<in> ids_of fps" "y \<in> ids_of fps" "f \<in> set ordered" "g \<in> set ordered"
      by (auto simp: ids_of_def ordered_def)
    show ?thesis
    proof (cases r)
      case ExactHash
      then have "joined st1 x y" using 1(3) fg in_ids by simp
      then show ?thesis using grows_joined[OF 3(2)] grows_joined[OF 2(2)] in_ids by blast
    next
      case CanonicalUrl
      then have "joined st2 x y" using 2(3) fg in_ids by simp
      then show ?thesis using grows_joined[OF 3(2)] in_ids by blast
    next
      case NearDuplicate
      show ?thesis
      proof (cases "x = y")
        case True
        then show ?thesis using joined_refl[OF inv] in_ids by simp
      next
        case False
        with near_duplicates_complete[of f fps g] fg NearDuplicate
        have "(x, y) \<in> set (near_duplicates ordered) \<or> (y, x) \<in> set (near_duplicates ordered)"
          by (simp add: ordered_def)
        then show ?thesis using 3(3) joined_sym by blast
      qed
    qed
  qed
  have "joined st3 x y" if "(x, y) \<in> (linked fps NearDuplicate)\<^sup>*" "x \<in> ids_of fps" for x y
    using that
  proof (induction rule: rtrancl_induct)
    case base
    then show ?case by (rule joined_refl[OF inv])
  next
    case (step y z)
    then show ?case using \<open>\<And>y x. (x, y) \<in> linked fps NearDuplicate \<Longrightarrow> joined st3 x y\<close> joined_trans by blast
  qed
  moreover have "(x, y) \<in> (linked fps NearDuplicate)\<^sup>*" if xy: "joined st3 x y" "x \<in> ids_of fps" "y \<in> ids_of fps" for x y
  proof -
    obtain r where "rooted (fo_parent st3) x r" "rooted (fo_parent st3) y r" using xy(1) by (auto simp: joined_def)
    then have "(x, r) \<in> (linked fps (fo_reason st3 r))\<^sup>*" "(y, r) \<in> (linked fps (fo_reason st3 r))\<^sup>*"
      using inv xy(2,3) by (auto simp: forest_inv_def)
    then have "(x, y) \<in> (linked fps (fo_reason st3 r))\<^sup>*" by (meson chain_sym rtrancl_trans)
    then show ?thesis by (rule chain_mono[rotated]) simp
  qed
  ultimately show ?thesis using 1(1) 2(1) 3(1) inv by blast
qed

end
