(* ===== verification/EvidenceProperties.thy ===== *)
theory EvidenceProperties
  imports Deduplication
begin

text \<open>What corroboration is counted in: the clusters of a run's sources.\<close>

text \<open>The clusters, as the components of the forest the phases end with.\<close>

lemma cluster_sources_components:
  assumes "fps \<noteq> []" "distinct (map fp_source_id fps)"
  shows "\<exists>st \<rho>. forest_inv fps (position_in (fetch_order fps)) st
    \<and> (\<forall>x \<in> ids_of fps. \<forall>y \<in> ids_of fps. joined st x y \<longleftrightarrow> (x, y) \<in> (linked fps NearDuplicate)\<^sup>*)
    \<and> (\<forall>x \<in> ids_of fps. rooted (fo_parent st) x (\<rho> x))
    \<and> cluster_sources uuid5 run_id fps =
        Some (sort_key (position_in (fetch_order fps) \<circ> cu_primary_source_id)
          (map (cluster_of uuid5 run_id (fo_reasons st)) (group_by \<rho> (map fp_source_id (fetch_order fps)))))"
proof -
  let ?o = "fetch_order fps" and ?pos = "position_in (fetch_order fps)"
  obtain st1 st2 st3 where st:
    "merge_by ?pos fp_content_hash ExactHash ?o Map.empty \<lparr>fo_parent = (\<lambda>i. i), fo_reasons = Map.empty\<rparr> = Some st1"
    "merge_by ?pos fp_canonical_url CanonicalUrl ?o Map.empty st1 = Some st2"
    "merge_pairs ?pos NearDuplicate (near_duplicates ?o) st2 = Some st3"
    "forest_inv fps ?pos st3"
    "\<forall>x \<in> ids_of fps. \<forall>y \<in> ids_of fps. joined st3 x y \<longleftrightarrow> (x, y) \<in> (linked fps NearDuplicate)\<^sup>*"
    using phases_ok[of fps] by blast
  have ok: "forest_ok (ids_of fps) ?pos (fo_parent st3)" using st(4) by (simp add: forest_inv_def)
  then have "\<forall>x \<in> ids_of fps. \<exists>r. rooted (fo_parent st3) x r" using root_exists by blast
  then obtain \<rho> where \<rho>: "\<forall>x \<in> ids_of fps. rooted (fo_parent st3) x (\<rho> x)" by (rule bchoice[elim_format]) blast
  have "group_roots ?o (fo_parent st3) [] = Some (group_by \<rho> (map fp_source_id ?o))"
    unfolding group_by_def by (rule group_roots_ok[OF ok \<rho>]) (simp add: ids_of_def)
  then show ?thesis using assms(1) st \<rho>
    by (intro exI[of _ st3] exI[of _ \<rho>]) (simp add: cluster_sources_def Let_def)
qed

lemma cluster_of_ids:
  "r \<in> set ms \<Longrightarrow> distinct ms \<Longrightarrow>
     set (cluster_source_ids (cluster_of uuid5 run_id reasons (r, ms))) = set ms
     \<and> distinct (cluster_source_ids (cluster_of uuid5 run_id reasons (r, ms)))"
  by (auto simp: cluster_source_ids_def cluster_of_def Let_def)

text \<open>The roots of the forest, and what a cluster made of one holds.\<close>

lemma component_roots:
  assumes inv: "forest_inv fps pos st"
    and joined: "\<forall>x \<in> ids_of fps. \<forall>y \<in> ids_of fps. joined st x y \<longleftrightarrow> (x, y) \<in> (linked fps NearDuplicate)\<^sup>*"
    and \<rho>: "\<forall>x \<in> ids_of fps. rooted (fo_parent st) x (\<rho> x)"
  shows "x \<in> ids_of fps \<Longrightarrow> \<rho> x \<in> ids_of fps \<and> pos (\<rho> x) \<le> pos x \<and> \<rho> (\<rho> x) = \<rho> x"
    and "x \<in> ids_of fps \<Longrightarrow> y \<in> ids_of fps \<Longrightarrow> \<rho> x = \<rho> y \<longleftrightarrow> (x, y) \<in> (linked fps NearDuplicate)\<^sup>*"
    and "x \<in> ids_of fps \<Longrightarrow> y \<in> ids_of fps \<Longrightarrow> \<rho> x = \<rho> y \<Longrightarrow> (x, y) \<in> (linked fps (fo_reason st (\<rho> x)))\<^sup>*"
proof -
  have ok: "forest_ok (ids_of fps) pos (fo_parent st)"
    and chain: "\<And>x r. x \<in> ids_of fps \<Longrightarrow> rooted (fo_parent st) x r \<Longrightarrow> (x, r) \<in> (linked fps (fo_reason st r))\<^sup>*"
    using inv by (auto simp: forest_inv_def)
  show "\<rho> x \<in> ids_of fps \<and> pos (\<rho> x) \<le> pos x \<and> \<rho> (\<rho> x) = \<rho> x" if "x \<in> ids_of fps"
  proof -
    from root_exists[OF ok that]
    obtain r where r: "r \<in> ids_of fps" "rooted (fo_parent st) x r" "pos r \<le> pos x" by blast
    have eq: "\<rho> x = r" using rooted_functional[OF r(2)] \<rho> that by blast
    have "rooted (fo_parent st) r r" using rooted_root[OF r(2)] by (rule rooted.root)
    from rooted_functional[OF this] \<rho> r(1) have "\<rho> r = r" by blast
    with eq r show ?thesis by simp
  qed
  show "\<rho> x = \<rho> y \<longleftrightarrow> (x, y) \<in> (linked fps NearDuplicate)\<^sup>*" if "x \<in> ids_of fps" "y \<in> ids_of fps"
  proof -
    have x: "rooted (fo_parent st) x (\<rho> x)" and y: "rooted (fo_parent st) y (\<rho> y)" using \<rho> that by auto
    have "\<rho> x = \<rho> y \<longleftrightarrow> joined st x y"
      unfolding joined_def using x y rooted_functional[OF x] rooted_functional[OF y] by metis
    then show ?thesis using joined that by blast
  qed
  show "(x, y) \<in> (linked fps (fo_reason st (\<rho> x)))\<^sup>*" if xy: "x \<in> ids_of fps" "y \<in> ids_of fps" "\<rho> x = \<rho> y"
  proof -
    have "(x, \<rho> x) \<in> (linked fps (fo_reason st (\<rho> x)))\<^sup>*" using \<rho> xy(1) by (intro chain) auto
    moreover have "(y, \<rho> x) \<in> (linked fps (fo_reason st (\<rho> x)))\<^sup>*" using \<rho> xy by (intro chain) auto
    ultimately show ?thesis using chain_sym rtrancl_trans by metis
  qed
qed

lemma cluster_of_root:
  assumes "r \<in> set (filter (\<lambda>x. \<rho> x = r) xs)" "distinct xs"
    and c_def: "c = cluster_of uuid5 run_id (fo_reasons st) (r, filter (\<lambda>x. \<rho> x = r) xs)"
  shows "set (cluster_source_ids c) = {x \<in> set xs. \<rho> x = r}" "distinct (cluster_source_ids c)"
    "cu_primary_source_id c = r"
    "x \<in> set (cluster_source_ids c) \<Longrightarrow> x \<noteq> r \<Longrightarrow> cu_reason c = fo_reason st r"
proof -
  have "distinct (filter (\<lambda>x. \<rho> x = r) xs)" using assms(2) by simp
  from cluster_of_ids[OF assms(1) this, of uuid5 run_id "fo_reasons st"]
  show m: "set (cluster_source_ids c) = {x \<in> set xs. \<rho> x = r}" and "distinct (cluster_source_ids c)"
    by (auto simp: c_def)
  show "cu_primary_source_id c = r" by (simp add: c_def cluster_of_def Let_def)
  show "cu_reason c = fo_reason st r" if "x \<in> set (cluster_source_ids c)" "x \<noteq> r"
  proof -
    have "filter (\<lambda>m. m \<noteq> r) (filter (\<lambda>x. \<rho> x = r) xs) \<noteq> []" using that m by (auto simp: filter_empty_conv)
    then show ?thesis by (simp add: c_def cluster_of_def fo_reason_def Let_def)
  qed
qed

text \<open>What is said of a cluster, and of each source in it.\<close>

definition good_member :: "SourceFingerprint list \<Rightarrow> Cluster \<Rightarrow> uuid \<Rightarrow> bool" where
  "good_member fps c x \<longleftrightarrow>
     x \<in> ids_of fps
     \<and> (\<forall>y \<in> ids_of fps. y \<in> set (cluster_source_ids c) \<longleftrightarrow> (x, y) \<in> (linked fps NearDuplicate)\<^sup>*)
     \<and> (\<forall>y \<in> set (cluster_source_ids c). (x, y) \<in> (linked fps (cu_reason c))\<^sup>*)
     \<and> (\<exists>f \<in> set fps. \<exists>g \<in> set fps. fp_source_id f = cu_primary_source_id c \<and> fp_source_id g = x
          \<and> (fp_accessed_at f, fp_source_id f) \<le> (fp_accessed_at g, fp_source_id g))"

definition good_cluster :: "SourceFingerprint list \<Rightarrow> Cluster \<Rightarrow> bool" where
  "good_cluster fps c \<longleftrightarrow> distinct (cluster_source_ids c) \<and> (\<forall>x \<in> set (cluster_source_ids c). good_member fps c x)"

text \<open>C36. Corroboration is counted in what is really one source: clustering always ends, and two sources of a
  run share a cluster exactly when a chain of sources with the same hash, the same canonical URL or nearly
  the same text joins them. Every source is in one cluster, its first copy fetched is the primary, and the
  reason reported is at most as strong as the rules that hold the cluster together.\<close>

theorem clusters_are_linked_components:
  assumes "distinct (map fp_source_id fps)"
  shows "\<exists>cs. cluster_sources uuid5 run_id fps = Some cs
    \<and> (\<forall>x \<in> ids_of fps. \<exists>!c. c \<in> set cs \<and> x \<in> set (cluster_source_ids c))
    \<and> (\<forall>c \<in> set cs. good_cluster fps c)"
proof (cases "fps = []")
  case True
  then show ?thesis by (simp add: cluster_sources_def ids_of_def)
next
  case False
  let ?pos = "position_in (fetch_order fps)" and ?ids = "map fp_source_id (fetch_order fps)"
  obtain st \<rho> where inv: "forest_inv fps ?pos st"
    and joined: "\<forall>x \<in> ids_of fps. \<forall>y \<in> ids_of fps. joined st x y \<longleftrightarrow> (x, y) \<in> (linked fps NearDuplicate)\<^sup>*"
    and \<rho>: "\<forall>x \<in> ids_of fps. rooted (fo_parent st) x (\<rho> x)"
    and cs: "cluster_sources uuid5 run_id fps = Some (sort_key (?pos \<circ> cu_primary_source_id)
          (map (cluster_of uuid5 run_id (fo_reasons st)) (group_by \<rho> ?ids)))"
    using cluster_sources_components[OF False assms] by blast
  let ?c = "\<lambda>r. cluster_of uuid5 run_id (fo_reasons st) (r, filter (\<lambda>x. \<rho> x = r) ?ids)"
  let ?cs = "sort_key (?pos \<circ> cu_primary_source_id) (map (cluster_of uuid5 run_id (fo_reasons st)) (group_by \<rho> ?ids))"
  note roots = component_roots[OF inv joined \<rho>]
  have ids: "set ?ids = ids_of fps" by (simp add: ids_of_def)
  have dist: "distinct ?ids" using assms by (simp add: distinct_map fetch_order_def)
  have set_cs: "set (sort_key (?pos \<circ> cu_primary_source_id)
      (map (cluster_of uuid5 run_id (fo_reasons st)) (group_by \<rho> ?ids))) = ?c ` \<rho> ` ids_of fps"
    unfolding ids[symmetric] by (simp only: set_sort set_map group_by_set image_image)
  have root_in: "r \<in> set (filter (\<lambda>x. \<rho> x = r) ?ids)" if "r \<in> \<rho> ` ids_of fps" for r
    using that roots(1) ids by auto
  note c = cluster_of_root[OF root_in dist refl, unfolded ids, where ?uuid5.0 = uuid5 and run_id = run_id and st = st]
  have "\<exists>!c. c \<in> ?c ` \<rho> ` ids_of fps \<and> x \<in> set (cluster_source_ids c)" if "x \<in> ids_of fps" for x
  proof (rule ex1I[of _ "?c (\<rho> x)"])
    have r: "\<rho> x \<in> \<rho> ` ids_of fps" using that by (rule imageI)
    have "x \<in> set (cluster_source_ids (?c (\<rho> x)))" unfolding c(1)[OF r] using that by simp
    with r show "?c (\<rho> x) \<in> ?c ` \<rho> ` ids_of fps \<and> x \<in> set (cluster_source_ids (?c (\<rho> x)))" by blast
  next
    fix cl assume cl: "cl \<in> ?c ` \<rho> ` ids_of fps \<and> x \<in> set (cluster_source_ids cl)"
    then obtain r where r: "r \<in> \<rho> ` ids_of fps" "cl = ?c r" by blast
    from cl have "x \<in> {y \<in> ids_of fps. \<rho> y = r}" unfolding r(2) c(1)[OF r(1)] by (rule conjunct2)
    then have "\<rho> x = r" by blast
    then show "cl = ?c (\<rho> x)" by (simp only: r(2))
  qed
  moreover have "good_cluster fps cl" if cl: "cl \<in> ?c ` \<rho> ` ids_of fps" for cl
  proof -
    obtain r where r: "r \<in> \<rho> ` ids_of fps" "cl = ?c r" using cl by blast
    have "good_member fps (?c r) x" if x: "x \<in> set (cluster_source_ids (?c r))" for x
    proof -
      have x': "x \<in> ids_of fps" "\<rho> x = r" using x[unfolded c(1)[OF r(1)]] by blast+
      have "y \<in> set (cluster_source_ids (?c r)) \<longleftrightarrow> (x, y) \<in> (linked fps NearDuplicate)\<^sup>*" if "y \<in> ids_of fps" for y
      proof -
        have "y \<in> set (cluster_source_ids (?c r)) \<longleftrightarrow> \<rho> x = \<rho> y" unfolding c(1)[OF r(1)] x'(2) using that by blast
        also have "\<dots> \<longleftrightarrow> (x, y) \<in> (linked fps NearDuplicate)\<^sup>*" by (rule roots(2)[OF x'(1) that])
        finally show ?thesis .
      qed
      moreover have "(x, y) \<in> (linked fps (cu_reason (?c r)))\<^sup>*" if "y \<in> set (cluster_source_ids (?c r))" for y
      proof (cases "x = y")
        case False
        have y: "y \<in> ids_of fps" "\<rho> x = \<rho> y" using that[unfolded c(1)[OF r(1)]] x'(2) by blast+
        from False have "x \<noteq> r \<or> y \<noteq> r" by blast
        then have "cu_reason (?c r) = fo_reason st r" using c(4)[OF r(1) x] c(4)[OF r(1) that] by blast
        with roots(3)[OF x'(1) y] show ?thesis by (simp only: x'(2))
      qed simp
      moreover have "\<exists>f \<in> set fps. \<exists>g \<in> set fps. fp_source_id f = r \<and> fp_source_id g = x
          \<and> (fp_accessed_at f, fp_source_id f) \<le> (fp_accessed_at g, fp_source_id g)"
        by (rule fetch_order_position[OF _ x'(1)]) (use roots(1)[OF x'(1), unfolded x'(2)] in blast)+
      ultimately show ?thesis using x'(1) c(3)[OF r(1)] by (simp add: good_member_def)
    qed
    then show ?thesis unfolding r(2) good_cluster_def using c(2)[OF r(1)] by blast
  qed
  ultimately have "(\<forall>x \<in> ids_of fps. \<exists>!c. c \<in> set ?cs \<and> x \<in> set (cluster_source_ids c)) \<and> (\<forall>c \<in> set ?cs. good_cluster fps c)"
    unfolding set_cs by (intro conjI ballI)
  then show ?thesis unfolding cs by blast
qed

text \<open>A page fetched twice, once under a tracked address, and another page.\<close>

definition fetched :: "SourceFingerprint list" where
  "fetched =
     [\<lparr>fp_source_id = 2, fp_canonical_url = ''https://a.example/x'', fp_content_hash = ''h1'', fp_title = ''X'',
       fp_text = ''x'', fp_accessed_at = 20\<rparr>,
      \<lparr>fp_source_id = 1, fp_canonical_url = ''https://a.example/y'', fp_content_hash = ''h1'', fp_title = ''X'',
       fp_text = ''x'', fp_accessed_at = 10\<rparr>,
      \<lparr>fp_source_id = 3, fp_canonical_url = ''https://b.example/z'', fp_content_hash = ''h2'', fp_title = ''Z'',
       fp_text = ''z'', fp_accessed_at = 30\<rparr>]"

lemma clusters_are_linked_components_witness:
  "\<exists>cs. cluster_sources (\<lambda>n u i. i) 7 fetched = Some cs \<and> (\<exists>c \<in> set cs. {1, 2} \<subseteq> set (cluster_source_ids c))"
proof -
  obtain cs where cs: "cluster_sources (\<lambda>n u i. i) 7 fetched = Some cs"
    "\<forall>x \<in> ids_of fetched. \<exists>!c. c \<in> set cs \<and> x \<in> set (cluster_source_ids c)" "\<forall>c \<in> set cs. good_cluster fetched c"
    using clusters_are_linked_components[of fetched "\<lambda>n u i. i" 7] by (auto simp: fetched_def)
  have i: "1 \<in> ids_of fetched" "2 \<in> ids_of fetched" by (simp_all add: fetched_def ids_of_def)
  obtain c where c: "c \<in> set cs" "1 \<in> set (cluster_source_ids c)" using cs(2) i(1) by blast
  have "(1, 2) \<in> linked fetched NearDuplicate"
    using linkedI[of "fetched ! 1" fetched "fetched ! 0" ExactHash NearDuplicate] by (simp add: fetched_def)
  with cs(3) c i(2) have "2 \<in> set (cluster_source_ids c)" unfolding good_cluster_def good_member_def by blast
  with cs(1) c show ?thesis by blast
qed

end
