(* ===== verification/Chunking.thy ===== *)
theory Chunking
  imports Enums Texts
begin

text \<open>
  \<open>app/retrieval/chunking.py\<close>, with the page spans of \<open>app/retrieval/parsed.py\<close>: a document split into
  chunks that are exact slices of its text.  The two splitters and the tokenizer, which are a library's,
  are parameters: functions from a text to the texts they split it into, and to a number of tokens.
\<close>

section \<open>Values\<close>

record PageSpan =
  pg_number :: int
  pg_start :: nat
  pg_end :: nat

record Chunk =
  ck_index :: nat
  ck_start :: nat
  ck_end :: nat
  ck_text :: string
  ck_token_count :: nat
  ck_page_start :: "int option"
  ck_page_end :: "int option"
  ck_section :: "string option"

record Section =
  sc_start :: nat
  sc_end :: nat
  sc_label :: "string option"

record Chunker =
  cr_size :: int
  cr_overlap :: int
  cr_max_chunks :: int

datatype chunk_error = DocumentTooLarge | OffsetMismatch

definition chunker :: "int \<Rightarrow> int \<Rightarrow> int \<Rightarrow> Chunker option" where
  "chunker chunk_size overlap max_chunks =
     (if \<not> (0 \<le> overlap \<and> overlap < chunk_size) \<or> max_chunks < 1 then None
      else Some \<lparr>cr_size = chunk_size, cr_overlap = overlap, cr_max_chunks = max_chunks\<rparr>)"

definition MAX_SECTION_CHARS :: nat where "MAX_SECTION_CHARS = 300"

text \<open>Python's \<open>text[start:end]\<close>, \<open>find\<close> and \<open>rfind\<close>.\<close>

definition slice :: "'a list \<Rightarrow> nat \<Rightarrow> nat \<Rightarrow> 'a list" where
  "slice xs start finish = take (finish - start) (drop start xs)"

definition occurs_at :: "string \<Rightarrow> string \<Rightarrow> nat \<Rightarrow> bool" where
  "occurs_at haystack piece i \<longleftrightarrow> take (length piece) (drop i haystack) = piece"

definition str_find :: "string \<Rightarrow> string \<Rightarrow> nat \<Rightarrow> nat option" where
  "str_find haystack piece lo =
     List.find (occurs_at haystack piece) [lo..<Suc (length haystack) - length piece]"

definition str_rfind :: "string \<Rightarrow> string \<Rightarrow> nat \<Rightarrow> nat \<Rightarrow> nat option" where
  "str_rfind haystack piece lo hi =
     List.find (occurs_at haystack piece) (rev [lo..<Suc (min hi (length haystack)) - length piece])"

definition is_blank :: "string \<Rightarrow> bool" where
  "is_blank s \<longleftrightarrow> list_all is_space s"

section \<open>Placing the pieces\<close>

definition next_text :: "string \<Rightarrow> nat \<Rightarrow> nat" where
  "next_text text index = index + length (takeWhile is_space (drop index text))"

text \<open>The last occurrence in the window, or else the next one past it.\<close>

definition place :: "string \<Rightarrow> nat \<Rightarrow> nat \<Rightarrow> string \<Rightarrow> nat option" where
  "place haystack lowest highest piece =
     (case str_rfind haystack piece lowest (highest + length piece) of
        Some i \<Rightarrow> Some i | None \<Rightarrow> str_find haystack piece lowest)"

fun align_from :: "string \<Rightarrow> nat \<Rightarrow> nat \<Rightarrow> string list \<Rightarrow> (nat \<times> nat) list option" where
  "align_from haystack lowest highest [] = Some []"
| "align_from haystack lowest highest (piece # pieces) =
     (case place haystack lowest highest piece of
        None \<Rightarrow> None
      | Some start \<Rightarrow>
          (let finish = start + length piece
           in map_option (\<lambda>spans. (start, finish) # spans)
                (align_from haystack start (next_text haystack finish) pieces)))"

definition align :: "string \<Rightarrow> string list \<Rightarrow> (nat \<times> nat) list option" where
  "align haystack pieces = align_from haystack 0 (next_text haystack 0) pieces"

section \<open>Sections\<close>

definition is_gap :: "char \<Rightarrow> bool" where
  "is_gap c \<longleftrightarrow> c = CHR '' '' \<or> (of_char c :: nat) = 9"

text \<open>What may close a heading: gaps, a closing sequence of hashes, gaps.\<close>

definition heading_tail :: "string \<Rightarrow> bool" where
  "heading_tail s \<longleftrightarrow> dropWhile is_gap (dropWhile (\<lambda>c. c = CHR ''#'') (dropWhile is_gap s)) = []"

text \<open>
  The regular expression \<open>_HEADING\<close> on one line: one to six hashes, at least one gap, the shortest
  non-empty title after which only a closing sequence follows.  A line of hashes and gaps only has
  its last gap for a title, if it has two.
\<close>

definition heading :: "string \<Rightarrow> (nat \<times> string) option" where
  "heading line =
     (let level = length (takeWhile (\<lambda>c. c = CHR ''#'') line); rest = drop level line;
          gaps = length (takeWhile is_gap rest); body = drop gaps rest
      in if level = 0 \<or> 6 < level \<or> gaps = 0 then None
         else if body = [] then (if gaps < 2 then None else Some (level, [last rest]))
         else map_option (\<lambda>n. (level, take n body))
                (List.find (\<lambda>n. heading_tail (drop n body)) [1..<Suc (length body)]))"

definition first_line :: "string \<Rightarrow> string" where
  "first_line content = takeWhile (\<lambda>c. (of_char c :: nat) \<noteq> 10) (dropWhile is_space content)"

text \<open>The open headings, the innermost first.\<close>

fun section_labels :: "(nat \<times> string) list \<Rightarrow> string list \<Rightarrow> string option list" where
  "section_labels stack [] = []"
| "section_labels stack (content # contents) =
     (let stack' = (case heading (first_line content) of
                      None \<Rightarrow> stack
                    | Some (level, title) \<Rightarrow> (level, title) # dropWhile (\<lambda>(l, _). level \<le> l) stack);
          label = take MAX_SECTION_CHARS (str_join '' > '' (map snd (rev stack')))
      in (if label = [] then None else Some label) # section_labels stack' contents)"

definition sections ::
  "(string \<Rightarrow> string list) \<Rightarrow> string \<Rightarrow> DocumentFormat \<Rightarrow> Section list" where
  "sections markdown_nodes text fmt =
     (let whole = [\<lparr>sc_start = 0, sc_end = length text, sc_label = None\<rparr>]
      in if fmt \<noteq> DocumentFormat.MARKDOWN then whole
         else
           (let contents = filter (\<lambda>c. \<not> is_blank c) (markdown_nodes text)
            in case align text contents of
                 None \<Rightarrow> whole
               | Some spans \<Rightarrow>
                   (let secs = map (\<lambda>((s, e), label). \<lparr>sc_start = s, sc_end = e, sc_label = label\<rparr>)
                                 (zip spans (section_labels [] contents))
                    in if secs = [] then whole else secs)))"

section \<open>Chunks\<close>

fun keep_spans :: "nat option \<Rightarrow> (nat \<times> nat) list \<Rightarrow> (nat \<times> nat) list" where
  "keep_spans kept [] = []"
| "keep_spans kept ((start, finish) # spans) =
     (if (case kept of None \<Rightarrow> False | Some e \<Rightarrow> finish \<le> e) then keep_spans kept spans
      else (start, finish) # keep_spans (Some finish) spans)"

definition split_section ::
  "(string \<Rightarrow> string list) \<Rightarrow> string \<Rightarrow> Section \<Rightarrow> chunk_error + (nat \<times> nat) list" where
  "split_section splitter text sec =
     (let body = slice text (sc_start sec) (sc_end sec);
          pieces = filter (\<lambda>p. \<not> is_blank p) (splitter body)
      in case align body pieces of
           None \<Rightarrow> Inl OffsetMismatch
         | Some spans \<Rightarrow> Inr (map (\<lambda>(s, e). (sc_start sec + s, sc_start sec + e)) (keep_spans None spans)))"

text \<open>\<open>bisect.bisect_right(xs, x, lo, hi)\<close>.\<close>

function bisect_right :: "nat list \<Rightarrow> nat \<Rightarrow> nat \<Rightarrow> nat \<Rightarrow> nat" where
  "bisect_right xs x lo hi =
     (if lo < hi then
        (let mid = (lo + hi) div 2
         in if x < xs ! mid then bisect_right xs x lo mid else bisect_right xs x (mid + 1) hi)
      else lo)"
  by pat_completeness auto
termination by (relation "measure (\<lambda>(xs, x, lo, hi). hi - lo)") auto

declare bisect_right.simps [simp del]

definition locate :: "PageSpan list \<Rightarrow> nat \<Rightarrow> nat \<Rightarrow> nat \<times> nat" where
  "locate pages start finish =
     (let starts = map pg_start pages; n = length pages;
          first = bisect_right starts start 0 n - 1;
          first = (if pg_end (pages ! first) \<le> start \<and> first + 1 < n then first + 1 else first);
          final = max first (bisect_right starts (finish - 1) 0 n - 1)
      in (first, final))"

definition page_numbers :: "PageSpan list \<Rightarrow> nat \<Rightarrow> nat \<Rightarrow> int option \<times> int option" where
  "page_numbers pages start finish =
     (if pages = [] then (None, None)
      else (let (first, final) = locate pages start finish
            in (Some (pg_number (pages ! first)), Some (pg_number (pages ! final)))))"

fun add_spans ::
  "(string \<Rightarrow> nat) \<Rightarrow> Chunker \<Rightarrow> PageSpan list \<Rightarrow> string \<Rightarrow> string option \<Rightarrow> (nat \<times> nat) list \<Rightarrow> Chunk list
     \<Rightarrow> chunk_error + Chunk list" where
  "add_spans count cr pages text label [] chunks = Inr chunks"
| "add_spans count cr pages text label ((start, finish) # spans) chunks =
     (if int (length chunks) \<ge> cr_max_chunks cr then Inl DocumentTooLarge
      else
        (let piece = slice text start finish; (page_start, page_end) = page_numbers pages start finish
         in add_spans count cr pages text label spans
              (chunks @ [\<lparr>ck_index = length chunks, ck_start = start, ck_end = finish, ck_text = piece,
                          ck_token_count = count piece, ck_page_start = page_start, ck_page_end = page_end,
                          ck_section = label\<rparr>])))"

fun add_sections ::
  "(string \<Rightarrow> string list) \<Rightarrow> (string \<Rightarrow> nat) \<Rightarrow> Chunker \<Rightarrow> PageSpan list \<Rightarrow> string \<Rightarrow> Section list \<Rightarrow> Chunk list
     \<Rightarrow> chunk_error + Chunk list" where
  "add_sections splitter count cr pages text [] chunks = Inr chunks"
| "add_sections splitter count cr pages text (sec # secs) chunks =
     (case split_section splitter text sec of
        Inl e \<Rightarrow> Inl e
      | Inr spans \<Rightarrow>
          (case add_spans count cr pages text (sc_label sec) spans chunks of
             Inl e \<Rightarrow> Inl e
           | Inr chunks' \<Rightarrow> add_sections splitter count cr pages text secs chunks'))"

text \<open>Whether the check passes; when it does not, it raises \<open>OffsetMismatch\<close>.\<close>

fun verify_from :: "string \<Rightarrow> nat \<Rightarrow> Chunk list \<Rightarrow> bool" where
  "verify_from text covered_to [] = is_blank (drop covered_to text)"
| "verify_from text covered_to (c # cs) =
     (if slice text (ck_start c) (ck_end c) \<noteq> ck_text c then False
      else if ck_start c > covered_to \<and> \<not> is_blank (slice text covered_to (ck_start c)) then False
      else verify_from text (max covered_to (ck_end c)) cs)"

definition verify_coverage :: "string \<Rightarrow> Chunk list \<Rightarrow> bool" where
  "verify_coverage text chunks = verify_from text 0 chunks"

definition chunk ::
  "(string \<Rightarrow> string list) \<Rightarrow> (string \<Rightarrow> string list) \<Rightarrow> (string \<Rightarrow> nat) \<Rightarrow> Chunker \<Rightarrow> string \<Rightarrow> DocumentFormat
     \<Rightarrow> PageSpan list \<Rightarrow> chunk_error + Chunk list" where
  "chunk markdown_nodes splitter count cr text fmt pages =
     (case add_sections splitter count cr pages text (sections markdown_nodes text fmt) [] of
        Inl e \<Rightarrow> Inl e
      | Inr chunks \<Rightarrow> if verify_coverage text chunks then Inr chunks else Inl OffsetMismatch)"

text \<open>\<open>_pages\<close> of \<open>parsed.py\<close>: the spans a reader reported, refused unless ordered, non-empty and inside.\<close>

fun pages_from :: "nat \<Rightarrow> nat \<Rightarrow> (int \<times> int \<times> int) list \<Rightarrow> PageSpan list option" where
  "pages_from text_length previous_end [] = Some []"
| "pages_from text_length previous_end ((number, start, finish) # entries) =
     (if \<not> (int previous_end \<le> start \<and> start < finish \<and> finish \<le> int text_length) \<or> number < 1 then None
      else map_option (\<lambda>ps. \<lparr>pg_number = number, pg_start = nat start, pg_end = nat finish\<rparr> # ps)
             (pages_from text_length (nat finish) entries))"

section \<open>Slices and placements\<close>

lemma length_slice: "finish \<le> length xs \<Longrightarrow> length (slice xs start finish) = finish - start"
  by (simp add: slice_def)

lemma slice_slice: "b \<le> d - c \<Longrightarrow> slice (slice xs c d) a b = slice xs (c + a) (c + b)"
  by (simp add: slice_def drop_take add.commute)

lemma occurs_at_bound: "occurs_at h p i \<Longrightarrow> p \<noteq> [] \<Longrightarrow> i + length p \<le> length h"
proof -
  assume "occurs_at h p i" "p \<noteq> []"
  then have "min (length h - i) (length p) = length p" and p: "0 < length p"
    by (simp_all add: occurs_at_def flip: length_drop length_take)
  then have "length p \<le> length h - i" by (metis min.cobounded1)
  with p show ?thesis by linarith
qed

lemma find_in: "List.find P xs = Some x \<Longrightarrow> x \<in> set xs \<and> P x"
  by (auto simp: find_Some_iff)

lemma place_occurs: "place h lo hi p = Some s \<Longrightarrow> occurs_at h p s \<and> lo \<le> s"
  by (auto simp: place_def str_rfind_def str_find_def dest!: find_in split: option.splits)

text \<open>Every span aligned is where its piece is, no earlier than the one before it.\<close>

lemma align_from_occurs:
  "align_from h lowest highest pieces = Some spans \<Longrightarrow> \<forall>p \<in> set pieces. p \<noteq> [] \<Longrightarrow>
     length spans = length pieces \<and> (\<forall>(s, e) \<in> set spans. lowest \<le> s \<and> s < e \<and> e \<le> length h)"
proof (induction h lowest highest pieces arbitrary: spans rule: align_from.induct)
  case (2 h lowest highest piece pieces)
  obtain s rest where s: "place h lowest highest piece = Some s"
    "align_from h s (next_text h (s + length piece)) pieces = Some rest" "spans = (s, s + length piece) # rest"
    using 2(2) by (auto simp: Let_def split: option.splits)
  note at = place_occurs[OF s(1)]
  have "s + length piece \<le> length h" using occurs_at_bound at 2(3) by simp
  moreover have "length rest = length pieces \<and> (\<forall>(a, b) \<in> set rest. s \<le> a \<and> a < b \<and> b \<le> length h)"
    using 2(1)[OF s(1) refl s(2)] 2(3) by simp
  ultimately show ?case using s(3) at 2(3) by fastforce
qed simp

section \<open>Chunks are slices\<close>

definition span_ok :: "string \<Rightarrow> nat \<times> nat \<Rightarrow> bool" where
  "span_ok text sp \<longleftrightarrow> fst sp < snd sp \<and> snd sp \<le> length text"

definition section_ok :: "string \<Rightarrow> Section \<Rightarrow> bool" where
  "section_ok text sec \<longleftrightarrow> sc_start sec \<le> sc_end sec \<and> sc_end sec \<le> length text"

definition chunk_ok :: "string \<Rightarrow> PageSpan list \<Rightarrow> nat \<Rightarrow> Chunk \<Rightarrow> bool" where
  "chunk_ok text pages i c \<longleftrightarrow>
     ck_index c = i \<and> ck_start c < ck_end c \<and> ck_end c \<le> length text
     \<and> ck_text c = slice text (ck_start c) (ck_end c)
     \<and> (ck_page_start c, ck_page_end c) = page_numbers pages (ck_start c) (ck_end c)"

definition chunks_ok :: "string \<Rightarrow> PageSpan list \<Rightarrow> int \<Rightarrow> Chunk list \<Rightarrow> bool" where
  "chunks_ok text pages m cs \<longleftrightarrow> int (length cs) \<le> m \<and> (\<forall>i < length cs. chunk_ok text pages i (cs ! i))"

lemma align_spans_ok:
  assumes "align h pieces = Some spans" "\<forall>p \<in> set pieces. \<not> is_blank p"
  shows "length spans = length pieces \<and> list_all (span_ok h) spans"
proof -
  have "\<forall>p \<in> set pieces. p \<noteq> []" using assms(2) by (auto simp: is_blank_def)
  from align_from_occurs[OF assms(1)[unfolded align_def] this] show ?thesis by (auto simp: list_all_iff span_ok_def)
qed

lemma sections_ok: "list_all (section_ok text) (sections md text fmt)"
proof -
  let ?cs = "filter (\<lambda>c. \<not> is_blank c) (md text)"
  have "list_all (section_ok text) (map (\<lambda>((s, e), label). \<lparr>sc_start = s, sc_end = e, sc_label = label\<rparr>) (zip spans ls))"
    if "align text ?cs = Some spans" for spans ls
    using align_spans_ok[OF that] by (auto simp: list_all_iff section_ok_def span_ok_def dest!: set_zip_leftD)
  moreover have "section_ok text \<lparr>sc_start = 0, sc_end = length text, sc_label = None\<rparr>" by (simp add: section_ok_def)
  ultimately show ?thesis by (auto simp: sections_def Let_def split: option.split)
qed

lemma keep_spans_subset: "set (keep_spans kept spans) \<subseteq> set spans"
  by (induction kept spans rule: keep_spans.induct) auto

lemma split_section_ok:
  assumes "section_ok text sec" "split_section splitter text sec = Inr spans"
  shows "list_all (span_ok text) spans"
proof -
  let ?body = "slice text (sc_start sec) (sc_end sec)"
  obtain sp where sp: "align ?body (filter (\<lambda>p. \<not> is_blank p) (splitter ?body)) = Some sp"
    "spans = map (\<lambda>(s, e). (sc_start sec + s, sc_start sec + e)) (keep_spans None sp)"
    using assms(2) by (auto simp: split_section_def Let_def split: option.splits)
  have len: "length ?body = sc_end sec - sc_start sec" using assms(1) by (simp add: section_ok_def length_slice)
  have "list_all (span_ok ?body) sp" using align_spans_ok[OF sp(1)] by simp
  then have "\<forall>x \<in> set (keep_spans None sp). span_ok ?body x" using keep_spans_subset by (auto simp: list_all_iff)
  then show ?thesis using assms(1) len by (fastforce simp: sp(2) list_all_iff span_ok_def section_ok_def)
qed

lemma add_spans_ok:
  "add_spans count cr pages text label spans chunks = Inr chunks' \<Longrightarrow> list_all (span_ok text) spans \<Longrightarrow>
     chunks_ok text pages (cr_max_chunks cr) chunks \<Longrightarrow> chunks_ok text pages (cr_max_chunks cr) chunks'"
proof (induction count cr pages "text" label spans chunks rule: add_spans.induct)
  case (2 count cr pages body label start finish spans chunks)
  obtain ps pe where p: "page_numbers pages start finish = (ps, pe)" by fastforce
  let ?c = "\<lparr>ck_index = length chunks, ck_start = start, ck_end = finish, ck_text = slice body start finish,
    ck_token_count = count (slice body start finish), ck_page_start = ps, ck_page_end = pe, ck_section = label\<rparr>"
  have room: "\<not> cr_max_chunks cr \<le> int (length chunks)" using 2(2) by (auto split: if_splits)
  have "chunk_ok body pages (length chunks) ?c" using 2(3) p by (simp add: chunk_ok_def span_ok_def)
  then have "chunks_ok body pages (cr_max_chunks cr) (chunks @ [?c])"
    using 2(4) room by (auto simp: chunks_ok_def nth_append less_Suc_eq)
  moreover have "add_spans count cr pages body label spans (chunks @ [?c]) = Inr chunks'"
    using 2(2) room p by (simp add: Let_def)
  ultimately show ?case using 2(1)[OF room refl p[symmetric]] 2(3) by simp
qed simp

lemma add_sections_ok:
  "add_sections splitter count cr pages body secs chunks = Inr chunks' \<Longrightarrow> list_all (section_ok body) secs \<Longrightarrow>
     chunks_ok body pages (cr_max_chunks cr) chunks \<Longrightarrow> chunks_ok body pages (cr_max_chunks cr) chunks'"
proof (induction splitter count cr pages body secs chunks rule: add_sections.induct)
  case (2 splitter count cr pages body sec secs chunks)
  obtain spans mid where step: "split_section splitter body sec = Inr spans"
    "add_spans count cr pages body (sc_label sec) spans chunks = Inr mid"
    "add_sections splitter count cr pages body secs mid = Inr chunks'"
    using 2(2) by (auto split: sum.splits)
  have "list_all (span_ok body) spans" using split_section_ok[OF _ step(1)] 2(3) by simp
  with add_spans_ok[OF step(2)] 2(4) have "chunks_ok body pages (cr_max_chunks cr) mid" by blast
  with 2(1)[OF step] 2(3) show ?case by simp
qed simp

section \<open>Nothing but space is left out\<close>

lemma blank_slice:
  assumes "is_blank (slice text a b)" "a \<le> k" "k < b" "k < length text"
  shows "is_space (text ! k)"
proof -
  have "slice text a b ! (k - a) = text ! k" "k - a < length (slice text a b)" using assms(2-4) by (auto simp: slice_def)
  with assms(1) show ?thesis by (metis is_blank_def list_all_length)
qed

lemma blank_drop: "is_blank (drop a text) \<Longrightarrow> a \<le> k \<Longrightarrow> k < length text \<Longrightarrow> is_space (text ! k)"
  using blank_slice[of "text" a "length text" k] by (simp add: slice_def)

lemma verify_from_covers:
  "verify_from text c chunks \<Longrightarrow> c \<le> k \<Longrightarrow> k < length text \<Longrightarrow> \<not> is_space (text ! k) \<Longrightarrow>
     \<exists>ch \<in> set chunks. ck_start ch \<le> k \<and> k < ck_end ch"
proof (induction "text" c chunks rule: verify_from.induct)
  case (1 body c)
  then show ?case using blank_drop by auto
next
  case (2 body c ch chs)
  have v: "ck_start ch > c \<longrightarrow> is_blank (slice body c (ck_start ch))" "verify_from body (max c (ck_end ch)) chs"
    "slice body (ck_start ch) (ck_end ch) = ck_text ch"
    using 2(2) by (auto split: if_splits)
  have start: "ck_start ch \<le> k" using v(1) blank_slice[of body c "ck_start ch" k] 2(3,4,5) by (meson le_less_trans not_le)
  show ?case
  proof (cases "k < ck_end ch")
    case True
    with start show ?thesis by auto
  next
    case False
    then have "\<exists>ch \<in> set chs. ck_start ch \<le> k \<and> k < ck_end ch"
      using 2 v by (intro 2(1)) auto
    then show ?thesis by auto
  qed
qed

lemma chunk_covers:
  assumes "chunk md splitter count cr text fmt pages = Inr chunks" "1 \<le> cr_max_chunks cr"
  shows "chunks_ok text pages (cr_max_chunks cr) chunks"
    and "k < length text \<Longrightarrow> \<not> is_space (text ! k) \<Longrightarrow> \<exists>c \<in> set chunks. ck_start c \<le> k \<and> k < ck_end c"
proof -
  have c: "add_sections splitter count cr pages text (sections md text fmt) [] = Inr chunks" "verify_coverage text chunks"
    using assms(1) by (auto simp: chunk_def split: sum.splits if_splits)
  show "chunks_ok text pages (cr_max_chunks cr) chunks"
    using add_sections_ok[OF c(1) sections_ok] assms(2) by (simp add: chunks_ok_def)
  show "\<exists>c \<in> set chunks. ck_start c \<le> k \<and> k < ck_end c" if "k < length text" "\<not> is_space (text ! k)"
    using verify_from_covers[OF c(2)[unfolded verify_coverage_def]] that by blast
qed

section \<open>Pages\<close>

lemma bisect_right_spec:
  "sorted xs \<Longrightarrow> lo \<le> hi \<Longrightarrow> hi \<le> length xs \<Longrightarrow> \<forall>j < lo. xs ! j \<le> x \<Longrightarrow> \<forall>j. hi \<le> j \<and> j < length xs \<longrightarrow> x < xs ! j \<Longrightarrow>
     bisect_right xs x lo hi \<le> hi \<and> (\<forall>j < bisect_right xs x lo hi. xs ! j \<le> x)
     \<and> (\<forall>j. bisect_right xs x lo hi \<le> j \<and> j < length xs \<longrightarrow> x < xs ! j)"
proof (induction xs x lo hi rule: bisect_right.induct)
  case (1 xs x lo hi)
  show ?case
  proof (cases "lo < hi")
    case False
    then show ?thesis using 1(3-7) by (subst (1 2 3) bisect_right.simps) simp
  next
    case True
    let ?mid = "(lo + hi) div 2"
    have mid: "lo \<le> ?mid" "?mid < hi" "?mid < length xs" using True 1(5) by auto
    show ?thesis
    proof (cases "x < xs ! ?mid")
      case gt: True
      have "\<forall>j. ?mid \<le> j \<and> j < length xs \<longrightarrow> x < xs ! j"
        using gt sorted_nth_mono[OF 1(3)] by (meson order.strict_trans2)
      from 1(1)[OF True refl gt 1(3) mid(1) _ 1(6) this] mid
      show ?thesis using True gt by (subst (1 2 3) bisect_right.simps) auto
    next
      case le: False
      have "\<forall>j < ?mid + 1. xs ! j \<le> x"
        using le sorted_nth_mono[OF 1(3) _ mid(3)] by (metis Suc_eq_plus1 less_Suc_eq_le not_le order_trans)
      from 1(2)[OF True refl le 1(3) _ 1(5) this 1(7)] mid
      show ?thesis using True le by (subst (1 2 3) bisect_right.simps) auto
    qed
  qed
qed

definition pages_ok :: "PageSpan list \<Rightarrow> bool" where
  "pages_ok pages \<longleftrightarrow> sorted_wrt (\<lambda>p q. pg_end p \<le> pg_start q) pages \<and> (\<forall>p \<in> set pages. pg_start p < pg_end p)"

lemma pages_from_ok:
  "pages_from n prev entries = Some pages \<Longrightarrow> pages_ok pages \<and> (\<forall>p \<in> set pages. prev \<le> pg_start p)"
proof (induction n prev entries arbitrary: pages rule: pages_from.induct)
  case (2 n prev number start finish entries)
  obtain ps where ps: "pages_from n (nat finish) entries = Some ps" "int prev \<le> start" "start < finish"
    "pages = \<lparr>pg_number = number, pg_start = nat start, pg_end = nat finish\<rparr> # ps"
    using 2(2) by (auto split: if_splits)
  have "pages_ok ps \<and> (\<forall>p \<in> set ps. nat finish \<le> pg_start p)"
    using 2(1)[OF _ ps(1)] 2(2) by (auto split: if_splits)
  then show ?case using ps(2-4) by (auto simp: pages_ok_def)
qed (simp add: pages_ok_def)

lemma page_starts_sorted: "pages_ok pages \<Longrightarrow> sorted (map pg_start pages)"
proof (induction pages)
  case (Cons p ps)
  then have "\<forall>q \<in> set ps. pg_start p \<le> pg_start q" by (fastforce simp: pages_ok_def)
  with Cons show ?case by (simp add: pages_ok_def)
qed simp

lemma locate_touched:
  assumes ok: "pages_ok pages" and i: "i < length pages" "start < pg_end (pages ! i)" "pg_start (pages ! i) < finish"
    and sf: "start < finish"
  defines "r \<equiv> locate pages start finish"
  shows "fst r \<le> i \<and> i \<le> snd r \<and> fst r < length pages \<and> snd r < length pages"
proof -
  let ?s = "map pg_start pages" and ?n = "length pages"
  let ?b = "bisect_right ?s start 0 ?n" and ?b' = "bisect_right ?s (finish - 1) 0 ?n"
  have b: "?b \<le> ?n" "\<forall>j < ?b. ?s ! j \<le> start" "\<forall>j. ?b' \<le> j \<and> j < length ?s \<longrightarrow> finish - 1 < ?s ! j" "?b' \<le> ?n"
    using bisect_right_spec[OF page_starts_sorted[OF ok], of 0 ?n] by simp_all
  have ends: "pg_end (pages ! j) \<le> pg_start (pages ! k)" if "j < k" "k < ?n" for j k
    using ok that by (simp add: pages_ok_def sorted_wrt_iff_nth_less)
  have low: "?b - 1 \<le> i"
  proof (rule ccontr)
    assume "\<not> ?b - 1 \<le> i"
    then have "i < ?b - 1" "?b - 1 < ?b" "?b - 1 < ?n" using b(1) by auto
    with ends[of i "?b - 1"] b(2) i(2) show False by (metis leD le_trans nth_map)
  qed
  have high: "i \<le> ?b' - 1"
  proof -
    have "i < ?b'"
    proof (rule ccontr)
      assume "\<not> i < ?b'"
      then have "finish - 1 < ?s ! i" using b(3) i(1) by simp
      with i(1,3) show False by simp
    qed
    then show ?thesis by simp
  qed
  have "\<not> pg_end (pages ! (?b - 1)) \<le> start \<or> ?b - 1 \<noteq> i" using i(2) by auto
  then show ?thesis using low high i(1) b(1,4) by (auto simp: r_def locate_def Let_def)
qed

text \<open>The pages a chunk shares a character with.\<close>

definition touched_pages :: "PageSpan list \<Rightarrow> nat \<Rightarrow> nat \<Rightarrow> PageSpan list" where
  "touched_pages pages start finish = filter (\<lambda>p. pg_start p < finish \<and> start < pg_end p) pages"

lemma locate_touches:
  assumes ok: "pages_ok pages" and i: "i < length pages" "start < pg_end (pages ! i)" "pg_start (pages ! i) < finish"
    and sf: "start < finish"
  defines "r \<equiv> locate pages start finish"
  shows "start < pg_end (pages ! fst r) \<and> pg_start (pages ! fst r) < finish"
    and "start < pg_end (pages ! snd r) \<and> pg_start (pages ! snd r) < finish"
proof -
  let ?s = "map pg_start pages" and ?n = "length pages"
  let ?b = "bisect_right ?s start 0 ?n" and ?b' = "bisect_right ?s (finish - 1) 0 ?n"
  note at = locate_touched[OF assms(1-5), folded r_def]
  have b: "\<forall>j. ?b \<le> j \<and> j < ?n \<longrightarrow> start < ?s ! j" "\<forall>j < ?b'. ?s ! j \<le> finish - 1" "?b' \<le> ?n"
    using bisect_right_spec[OF page_starts_sorted[OF ok], of 0 ?n] by simp_all
  have ends: "pg_end (pages ! j) \<le> pg_start (pages ! k)" if "j < k" "k < ?n" for j k
    using ok that by (simp add: pages_ok_def sorted_wrt_iff_nth_less)
  have size: "pg_start (pages ! j) < pg_end (pages ! j)" if "j < ?n" for j
    using ok that by (simp add: pages_ok_def)
  have r: "fst r = (if pg_end (pages ! (?b - 1)) \<le> start \<and> ?b - 1 + 1 < ?n then ?b - 1 + 1 else ?b - 1)"
    "snd r = max (fst r) (?b' - 1)"
    by (auto simp: r_def locate_def Let_def)
  show "start < pg_end (pages ! fst r) \<and> pg_start (pages ! fst r) < finish"
  proof (cases "fst r = i")
    case False
    then have lt: "fst r < i" "fst r < ?n" using at by auto
    have "start < pg_end (pages ! fst r)"
    proof (cases "pg_end (pages ! (?b - 1)) \<le> start \<and> ?b - 1 + 1 < ?n")
      case True
      then have "start < ?s ! fst r" using b(1) r(1) lt(2) by auto
      with size[OF lt(2)] lt(2) show ?thesis by simp
    next
      case False
      with r(1) lt i(1) show ?thesis by auto
    qed
    moreover have "pg_start (pages ! fst r) < finish"
      using size[OF lt(2)] ends[OF lt(1) i(1)] i(3) by linarith
    ultimately show ?thesis ..
  qed (use i in auto)
  show "start < pg_end (pages ! snd r) \<and> pg_start (pages ! snd r) < finish"
  proof (cases "snd r = i")
    case False
    then have gt: "i < snd r" "fst r \<le> i" using at by auto
    then have eq: "snd r = ?b' - 1" using r(2) by (metis max_def not_le)
    have "?b' - 1 < ?b'" using gt(1) eq by simp
    then have "pg_start (pages ! snd r) \<le> finish - 1" "snd r < ?n" using b(2,3) eq by auto
    then show ?thesis using sf gt(1) ends[of i "snd r"] size[of "snd r"] i(2) by linarith
  qed (use i in auto)
qed

lemma hd_filter_nth:
  assumes "f < length xs" "P (xs ! f)" "\<forall>j < f. \<not> P (xs ! j)"
  shows "hd (filter P xs) = xs ! f"
proof -
  have "xs = take f xs @ xs ! f # drop (Suc f) xs" using assms(1) by (rule id_take_nth_drop)
  moreover have "filter P (take f xs) = []"
    using assms(1,3) by (auto simp: filter_empty_conv in_set_conv_nth)
  ultimately have "filter P xs = xs ! f # filter P (drop (Suc f) xs)"
    using assms(2) by (metis append_Nil filter.simps(2) filter_append)
  then show ?thesis by simp
qed

lemma last_filter_nth:
  assumes "l < length xs" "P (xs ! l)" "\<forall>j. l < j \<and> j < length xs \<longrightarrow> \<not> P (xs ! j)"
  shows "last (filter P xs) = xs ! l"
proof -
  have "xs = take l xs @ xs ! l # drop (Suc l) xs" using assms(1) by (rule id_take_nth_drop)
  moreover have "filter P (drop (Suc l) xs) = []"
    using assms(3) by (auto simp: filter_empty_conv in_set_conv_nth)
  ultimately have "filter P xs = filter P (take l xs) @ [xs ! l]"
    using assms(2) by (metis filter.simps(2) filter_append)
  then show ?thesis by simp
qed

lemma page_numbers_touched:
  assumes "pages_ok pages" "start < finish" "touched_pages pages start finish \<noteq> []"
  shows "page_numbers pages start finish
    = (Some (pg_number (hd (touched_pages pages start finish))), Some (pg_number (last (touched_pages pages start finish))))"
proof -
  let ?r = "locate pages start finish" and ?P = "\<lambda>p. pg_start p < finish \<and> start < pg_end p"
  obtain i where i: "i < length pages" "?P (pages ! i)"
    using assms(3) by (auto simp: touched_pages_def filter_empty_conv in_set_conv_nth)
  have within: "fst ?r \<le> j \<and> j \<le> snd ?r" if "j < length pages" "?P (pages ! j)" for j
    using locate_touched[OF assms(1) that(1) _ _ assms(2)] that(2) by blast
  have P: "?P (pages ! fst ?r)" "?P (pages ! snd ?r)" "fst ?r < length pages" "snd ?r < length pages"
    using locate_touches[OF assms(1) i(1) _ _ assms(2)] locate_touched[OF assms(1) i(1) _ _ assms(2)] i(2) by blast+
  have "hd (touched_pages pages start finish) = pages ! fst ?r"
    unfolding touched_pages_def
  proof (rule hd_filter_nth[where P = ?P, OF P(3,1)], intro allI impI notI)
    fix j assume "j < fst ?r" "?P (pages ! j)"
    with within[of j] P(3) show False by simp
  qed
  moreover have "last (touched_pages pages start finish) = pages ! snd ?r"
    unfolding touched_pages_def
  proof (rule last_filter_nth[where P = ?P, OF P(4,2)], intro allI impI notI)
    fix j assume "snd ?r < j \<and> j < length pages" "?P (pages ! j)"
    with within[of j] show False by simp
  qed
  moreover have "pages \<noteq> []" using i(1) by auto
  ultimately show ?thesis by (simp add: page_numbers_def split_beta)
qed

end
