(* ===== verification/Ranking.thy ===== *)
theory Ranking
  imports Enums "HOL-Library.Product_Lexorder"
begin

text \<open>
  How a retrieval call ranks chunks: \<open>app/retrieval/fusion.py\<close> (reciprocal rank fusion), \<open>rerank.py\<close> (maximal
  marginal relevance), \<open>query.py\<close> (the plan), \<open>results.py\<close> and \<open>retriever.py\<close>.  What the two arms find in the
  database is a parameter.
\<close>

section \<open>Values\<close>

datatype RetrievalStrategy = DENSE | LEXICAL | HYBRID

record ChunkView =
  cv_id :: uuid
  cv_document_id :: uuid
  cv_source_id :: uuid
  cv_source_type :: SourceType
  cv_chunk_index :: int
  cv_text :: string
  cv_token_count :: int
  cv_char_start :: int
  cv_char_end :: int
  cv_page_start :: "int option"
  cv_page_end :: "int option"
  cv_section :: "string option"
  cv_format :: "DocumentFormat option"
  cv_language :: "string option"
  cv_embedded :: bool

record ScoredChunk =
  sh_chunk :: ChunkView
  sh_score :: real

definition hit_id :: "ScoredChunk \<Rightarrow> uuid" where
  "hit_id h = cv_id (sh_chunk h)"

record FusedChunk =
  fu_hit :: ScoredChunk
  fu_score :: real
  fu_ranks :: "RetrievalStrategy \<rightharpoonup> nat"
  fu_scores :: "RetrievalStrategy \<rightharpoonup> real"

record RetrievedChunk =
  rt_chunk :: ChunkView
  rt_score :: real
  rt_fusion_score :: real
  rt_dense_rank :: "nat option"
  rt_dense_score :: "real option"
  rt_lexical_rank :: "nat option"
  rt_lexical_score :: "real option"
  rt_rerank_score :: "real option"

definition found_by :: "RetrievedChunk \<Rightarrow> RetrievalStrategy list" where
  "found_by c =
     map fst (filter (\<lambda>(s, r). r \<noteq> None) [(DENSE, rt_dense_rank c), (LEXICAL, rt_lexical_rank c)])"

section \<open>Fusion\<close>

definition DEFAULT_RRF_K :: int where "DEFAULT_RRF_K = 60"

text \<open>The four dictionaries of the loop have the same keys, so they are one, of the entry so far.\<close>

type_synonym fusion = "(uuid \<times> FusedChunk) list"

definition fuse_hit :: "RetrievalStrategy \<Rightarrow> real \<Rightarrow> int \<Rightarrow> nat \<Rightarrow> ScoredChunk \<Rightarrow> fusion \<Rightarrow> fusion" where
  "fuse_hit strategy weight k position hit st =
     (let e = (case map_of st (hit_id hit) of
                 None \<Rightarrow> \<lparr>fu_hit = hit, fu_score = 0, fu_ranks = Map.empty, fu_scores = Map.empty\<rparr>
               | Some e \<Rightarrow> e);
          better = (case fu_ranks e strategy of None \<Rightarrow> True | Some r \<Rightarrow> position < r)
      in AList.update (hit_id hit)
           (e\<lparr>fu_ranks := (if better then (fu_ranks e)(strategy \<mapsto> position) else fu_ranks e),
              fu_scores := (fu_scores e)(strategy \<mapsto> sh_score hit),
              fu_score := fu_score e + weight / of_int (k + int position)\<rparr>) st)"

fun fuse_arm :: "RetrievalStrategy \<Rightarrow> real \<Rightarrow> int \<Rightarrow> nat \<Rightarrow> ScoredChunk list \<Rightarrow> fusion \<Rightarrow> fusion" where
  "fuse_arm strategy weight k position [] st = st"
| "fuse_arm strategy weight k position (hit # hits) st =
     fuse_arm strategy weight k (position + 1) hits (fuse_hit strategy weight k position hit st)"

definition weight_of :: "(RetrievalStrategy \<rightharpoonup> real) option \<Rightarrow> RetrievalStrategy \<Rightarrow> real" where
  "weight_of weights strategy =
     (case weights of None \<Rightarrow> 1 | Some w \<Rightarrow> (case w strategy of None \<Rightarrow> 1 | Some x \<Rightarrow> x))"

fun fuse_all ::
  "(RetrievalStrategy \<rightharpoonup> real) option \<Rightarrow> int \<Rightarrow> (RetrievalStrategy \<times> ScoredChunk list) list \<Rightarrow> fusion \<Rightarrow> fusion" where
  "fuse_all weights k [] st = st"
| "fuse_all weights k ((strategy, ranked) # rankings) st =
     fuse_all weights k rankings
       (if weight_of weights strategy \<le> 0 then st
        else fuse_arm strategy (weight_of weights strategy) k 1 ranked st)"

definition fused_id :: "FusedChunk \<Rightarrow> uuid" where
  "fused_id f = hit_id (fu_hit f)"

definition reciprocal_rank_fusion ::
  "(RetrievalStrategy \<times> ScoredChunk list) list \<Rightarrow> (RetrievalStrategy \<rightharpoonup> real) option \<Rightarrow> int \<Rightarrow> FusedChunk list option" where
  "reciprocal_rank_fusion rankings weights k =
     (if k < 1 then None
      else Some (sort_key (\<lambda>f. (- fu_score f, fused_id f)) (map snd (fuse_all weights k rankings []))))"

section \<open>Reranking\<close>

definition STOPWORDS :: "string list" where
  "STOPWORDS =
     [''a'', ''an'', ''and'', ''are'', ''as'', ''at'', ''be'', ''by'', ''for'', ''from'', ''has'', ''have'', ''in'',
      ''is'', ''it'', ''its'', ''of'', ''on'', ''or'', ''that'', ''the'', ''to'', ''was'', ''were'', ''will'', ''with'']"

definition SIMILARITY_FLOOR :: real where "SIMILARITY_FLOOR = 0.1"

text \<open>The runs the pattern \<open>[a-z0-9]+\<close> finds.\<close>

fun runs_from :: "string \<Rightarrow> string \<Rightarrow> string list" where
  "runs_from w [] = (if w = [] then [] else [w])"
| "runs_from w (c # s) =
     (if is_lower c \<or> is_digit c then runs_from (w @ [c]) s
      else if w = [] then runs_from [] s else w # runs_from [] s)"

definition tokenize :: "string \<Rightarrow> string set" where
  "tokenize s = set (filter (\<lambda>w. w \<notin> set STOPWORDS) (runs_from [] (str_lower s)))"

definition jaccard :: "string set \<Rightarrow> string set \<Rightarrow> real" where
  "jaccard left right =
     (if left = {} \<or> right = {} then 0 else of_nat (card (left \<inter> right)) / of_nat (card (left \<union> right)))"

definition mmr :: "real \<Rightarrow> real option" where
  "mmr lambda = (if \<not> (0 \<le> lambda \<and> lambda \<le> 1) then None else Some lambda)"

definition relevance_of :: "real list \<Rightarrow> real list" where
  "relevance_of scores =
     (let high = Max (set scores); low = Min (set scores)
      in map (\<lambda>s. if high - low = 0 then 1 else (s - low) / (high - low)) scores)"

definition marginal :: "real \<Rightarrow> real list \<Rightarrow> real list \<Rightarrow> nat \<Rightarrow> real" where
  "marginal lambda relevance penalty i = lambda * relevance ! i - (1 - lambda) * penalty ! i"

definition penalise :: "string set list \<Rightarrow> nat \<Rightarrow> nat list \<Rightarrow> real list \<Rightarrow> real list" where
  "penalise tokens best remaining penalty =
     foldl (\<lambda>p i. let similarity = jaccard (tokens ! i) (tokens ! best)
                  in if similarity \<ge> SIMILARITY_FLOOR \<and> similarity > p ! i then p[i := similarity] else p)
       penalty remaining"

text \<open>\<open>max(remaining, key=lambda index: (marginal(index), -index))\<close>.\<close>

definition best_of :: "(nat \<Rightarrow> real) \<Rightarrow> nat list \<Rightarrow> nat" where
  "best_of value xs = arg_min_list (\<lambda>i. (- value i, i)) xs"

lemma best_of_in: "xs \<noteq> [] \<Longrightarrow> best_of value xs \<in> set xs"
  unfolding best_of_def by (rule arg_min_list_in)

function mmr_loop ::
  "real \<Rightarrow> real list \<Rightarrow> string set list \<Rightarrow> int \<Rightarrow> nat list \<Rightarrow> nat list \<Rightarrow> real list \<Rightarrow> nat list \<times> real list" where
  "mmr_loop lambda relevance tokens limit remaining chosen penalty =
     (if remaining \<noteq> [] \<and> int (length chosen) < limit then
        (let best = best_of (marginal lambda relevance penalty) remaining; remaining' = remove1 best remaining
         in mmr_loop lambda relevance tokens limit remaining' (chosen @ [best])
              (penalise tokens best remaining' penalty))
      else (chosen, penalty))"
  by auto
termination
  by (relation "measure (\<lambda>(l, r, t, n, remaining, c, p). length remaining)")
     (auto simp: length_remove1 best_of_in)

declare mmr_loop.simps [simp del]

definition mmr_rerank :: "real \<Rightarrow> RetrievedChunk list \<Rightarrow> int \<Rightarrow> RetrievedChunk list" where
  "mmr_rerank lambda candidates limit =
     (if limit < 1 \<or> candidates = [] then []
      else
        (let relevance = relevance_of (map rt_score candidates);
             tokens = map (tokenize \<circ> cv_text \<circ> rt_chunk) candidates;
             (chosen, penalty) = mmr_loop lambda relevance tokens limit [0..<length candidates] []
                                   (replicate (length candidates) 0)
         in map (\<lambda>i. let m = marginal lambda relevance penalty i
                     in (candidates ! i)\<lparr>rt_score := m, rt_rerank_score := Some m\<rparr>) chosen))"

definition no_rerank :: "RetrievedChunk list \<Rightarrow> int \<Rightarrow> RetrievedChunk list" where
  "no_rerank candidates limit =
     take (nat (if limit < 0 then int (length candidates) + limit else limit)) candidates"

section \<open>Plans\<close>

definition MAX_RESULTS :: int where "MAX_RESULTS = 50"
definition MAX_CANDIDATES :: int where "MAX_CANDIDATES = 200"
definition MAX_QUERY_CHARS :: nat where "MAX_QUERY_CHARS = 2000"

record RetrievalPlan =
  pn_strategy :: RetrievalStrategy
  pn_limit :: int
  pn_candidates :: int
  pn_rrf_k :: int
  pn_dense_weight :: real
  pn_lexical_weight :: real
  pn_rerank :: bool

definition RetrievalPlan_ok :: "RetrievalPlan \<Rightarrow> bool" where
  "RetrievalPlan_ok p \<longleftrightarrow>
     1 \<le> pn_limit p \<and> pn_limit p \<le> MAX_RESULTS \<and> 1 \<le> pn_candidates p \<and> pn_candidates p \<le> MAX_CANDIDATES
     \<and> 1 \<le> pn_rrf_k p \<and> pn_rrf_k p \<le> 1000
     \<and> 0 \<le> pn_dense_weight p \<and> pn_dense_weight p \<le> 100 \<and> 0 \<le> pn_lexical_weight p \<and> pn_lexical_weight p \<le> 100
     \<and> \<not> pn_candidates p < pn_limit p
     \<and> \<not> (pn_strategy p = HYBRID \<and> pn_dense_weight p = 0 \<and> pn_lexical_weight p = 0)"

definition default_plan :: RetrievalPlan where
  "default_plan =
     \<lparr>pn_strategy = HYBRID, pn_limit = 10, pn_candidates = 50, pn_rrf_k = 60, pn_dense_weight = 1,
      pn_lexical_weight = 1, pn_rerank = True\<rparr>"

definition wants_dense :: "RetrievalPlan \<Rightarrow> bool" where
  "wants_dense p \<longleftrightarrow> pn_strategy p \<in> {DENSE, HYBRID} \<and> pn_dense_weight p > 0"

definition wants_lexical :: "RetrievalPlan \<Rightarrow> bool" where
  "wants_lexical p \<longleftrightarrow> pn_strategy p \<in> {LEXICAL, HYBRID} \<and> pn_lexical_weight p > 0"

definition query_text :: "string \<Rightarrow> string option" where
  "query_text s =
     (let t = str_strip s in if 1 \<le> length t \<and> length t \<le> MAX_QUERY_CHARS then Some t else None)"

text \<open>\<open>retrieve_with_filters\<close>: the default plan, rebuilt and validated again when the caller sets a limit.\<close>

definition plan_for :: "RetrievalPlan \<Rightarrow> int option \<Rightarrow> RetrievalPlan option" where
  "plan_for dflt limit =
     (case limit of
        None \<Rightarrow> Some dflt
      | Some l \<Rightarrow>
          (let p = dflt\<lparr>pn_limit := l, pn_candidates := max (pn_candidates dflt) l\<rparr>
           in if RetrievalPlan_ok p then Some p else None))"

section \<open>Retrieval\<close>

record ArmOutcome =
  ao_strategy :: RetrievalStrategy
  ao_ran :: bool
  ao_returned :: nat
  ao_skipped_reason :: "string option"

record RetrievalResult =
  rl_strategy :: RetrievalStrategy
  rl_chunks :: "RetrievedChunk list"
  rl_arms :: "ArmOutcome list"
  rl_candidates :: nat
  rl_reranked :: bool

definition skipped :: "RetrievalStrategy \<Rightarrow> string \<Rightarrow> ArmOutcome" where
  "skipped s reason = \<lparr>ao_strategy = s, ao_ran = False, ao_returned = 0, ao_skipped_reason = Some reason\<rparr>"

definition ran_arm :: "RetrievalStrategy \<Rightarrow> ScoredChunk list \<Rightarrow> ScoredChunk list \<times> ArmOutcome" where
  "ran_arm s hits = (hits, \<lparr>ao_strategy = s, ao_ran = True, ao_returned = length hits, ao_skipped_reason = None\<rparr>)"

definition WEIGHT_ZERO :: string where
  "WEIGHT_ZERO = ''This arm's fusion weight is zero.''"

definition NO_EMBEDDER :: string where
  "NO_EMBEDDER = ''No embedding model is configured, so nothing can be searched by meaning.''"

definition dense_arm ::
  "(string \<Rightarrow> RetrievalPlan \<Rightarrow> ScoredChunk list) option \<Rightarrow> string \<Rightarrow> RetrievalPlan
     \<Rightarrow> ScoredChunk list \<times> ArmOutcome" where
  "dense_arm search query p =
     (if \<not> wants_dense p
      then ([], skipped DENSE (if pn_dense_weight p \<le> 0 then WEIGHT_ZERO else ''This plan is lexical only.''))
      else case search of None \<Rightarrow> ([], skipped DENSE NO_EMBEDDER) | Some dense \<Rightarrow> ran_arm DENSE (dense query p))"

definition lexical_arm ::
  "(string \<Rightarrow> RetrievalPlan \<Rightarrow> ScoredChunk list) \<Rightarrow> string \<Rightarrow> RetrievalPlan
     \<Rightarrow> ScoredChunk list \<times> ArmOutcome" where
  "lexical_arm search query p =
     (if \<not> wants_lexical p
      then ([], skipped LEXICAL (if pn_lexical_weight p \<le> 0 then WEIGHT_ZERO else ''This plan is dense only.''))
      else ran_arm LEXICAL (search query p))"

definition as_retrieved :: "FusedChunk \<Rightarrow> RetrievedChunk" where
  "as_retrieved f =
     \<lparr>rt_chunk = sh_chunk (fu_hit f), rt_score = fu_score f, rt_fusion_score = fu_score f,
      rt_dense_rank = fu_ranks f DENSE, rt_dense_score = fu_scores f DENSE,
      rt_lexical_rank = fu_ranks f LEXICAL, rt_lexical_score = fu_scores f LEXICAL, rt_rerank_score = None\<rparr>"

text \<open>
  The two searches of the index and the reranker are parameters, the query is validated first, and the
  searches never see a plan that was not: \<open>None\<close> is the validation error of the query.
\<close>

definition retrieve_hybrid ::
  "(string \<Rightarrow> RetrievedChunk list \<Rightarrow> int \<Rightarrow> RetrievedChunk list)
     \<Rightarrow> (string \<Rightarrow> RetrievalPlan \<Rightarrow> ScoredChunk list) option \<Rightarrow> (string \<Rightarrow> RetrievalPlan \<Rightarrow> ScoredChunk list)
     \<Rightarrow> string \<Rightarrow> RetrievalPlan \<Rightarrow> RetrievalResult option" where
  "retrieve_hybrid reranker dense_search lexical_search raw p =
     (case query_text raw of
        None \<Rightarrow> None
      | Some query \<Rightarrow>
          (let (dense, dense_out) = dense_arm dense_search query p;
               (lexical, lexical_out) = lexical_arm lexical_search query p;
               rankings = (if ao_ran dense_out then [(DENSE, dense)] else [])
                          @ (if ao_ran lexical_out then [(LEXICAL, lexical)] else []);
               weights = [DENSE \<mapsto> pn_dense_weight p, LEXICAL \<mapsto> pn_lexical_weight p]
           in map_option
                (\<lambda>fused. let candidates = map as_retrieved fused;
                             ranked = (if pn_rerank p then reranker query else no_rerank) candidates (pn_limit p)
                         in \<lparr>rl_strategy = pn_strategy p, rl_chunks = ranked, rl_arms = [dense_out, lexical_out],
                             rl_candidates = length candidates, rl_reranked = pn_rerank p\<rparr>)
                (reciprocal_rank_fusion rankings (Some weights) (pn_rrf_k p))))"

section \<open>What fusion computes\<close>

text \<open>The specification: the rank of a chunk in an arm, and the sum over the arms that count.\<close>

definition rank_in :: "ScoredChunk list \<Rightarrow> uuid \<Rightarrow> nat option" where
  "rank_in hits i =
     (if i \<in> set (map hit_id hits) then Some (length (takeWhile (\<lambda>h. hit_id h \<noteq> i) hits) + 1) else None)"

fun rrf_score ::
  "(RetrievalStrategy \<rightharpoonup> real) option \<Rightarrow> int \<Rightarrow> (RetrievalStrategy \<times> ScoredChunk list) list \<Rightarrow> uuid \<Rightarrow> real" where
  "rrf_score weights k [] i = 0"
| "rrf_score weights k ((s, hits) # rankings) i =
     (case rank_in hits i of
        Some r \<Rightarrow> (if weight_of weights s > 0 then weight_of weights s / of_int (k + int r) else 0)
      | None \<Rightarrow> 0) + rrf_score weights k rankings i"

definition counted :: "(RetrievalStrategy \<rightharpoonup> real) option \<Rightarrow> (RetrievalStrategy \<times> ScoredChunk list) list
    \<Rightarrow> (RetrievalStrategy \<times> ScoredChunk list) list" where
  "counted weights rankings = filter (\<lambda>(s, hits). weight_of weights s > 0) rankings"

definition arm_ok :: "RetrievalStrategy \<times> ScoredChunk list \<Rightarrow> bool" where
  "arm_ok a \<longleftrightarrow> distinct (map hit_id (snd a))"

text \<open>What the dictionaries hold of one chunk.\<close>

definition entry_score :: "fusion \<Rightarrow> uuid \<Rightarrow> real" where
  "entry_score st i = (case map_of st i of None \<Rightarrow> 0 | Some e \<Rightarrow> fu_score e)"

definition entry_rank :: "fusion \<Rightarrow> RetrievalStrategy \<Rightarrow> uuid \<Rightarrow> nat option" where
  "entry_rank st s i = (case map_of st i of None \<Rightarrow> None | Some e \<Rightarrow> fu_ranks e s)"

definition fusion_ok :: "fusion \<Rightarrow> bool" where
  "fusion_ok st \<longleftrightarrow> distinct (map fst st) \<and> (\<forall>(i, e) \<in> set st. fused_id e = i)"

lemma entry_nil [simp]: "entry_score [] i = 0" "entry_rank [] s i = None"
  by (simp_all add: entry_score_def entry_rank_def)

lemma in_update: "(a, b) \<in> set (AList.update k v al) \<Longrightarrow> a = k \<and> b = v \<or> (a, b) \<in> set al"
  by (induction al) (auto split: if_splits)

lemma fuse_hit_facts:
  assumes "fusion_ok st"
  shows "fusion_ok (fuse_hit s w k n h st)"
    and "fst ` set (fuse_hit s w k n h st) = insert (hit_id h) (fst ` set st)"
    and "entry_score (fuse_hit s w k n h st) i = entry_score st i + (if i = hit_id h then w / of_int (k + int n) else 0)"
    and "entry_rank (fuse_hit s w k n h st) t i =
      (if i = hit_id h \<and> t = s
       then (case entry_rank st s i of None \<Rightarrow> Some n | Some r \<Rightarrow> Some (min r n)) else entry_rank st t i)"
proof -
  obtain e' where e': "fuse_hit s w k n h st = AList.update (hit_id h) e' st"
    and id: "fused_id e' = hit_id h"
    and score: "fu_score e' = entry_score st (hit_id h) + w / of_int (k + int n)"
    and ranks: "fu_ranks e' t = (if t = s then (case entry_rank st s (hit_id h) of None \<Rightarrow> Some n | Some r \<Rightarrow> Some (min r n))
                               else entry_rank st t (hit_id h))" for t
  proof -
    let ?e = "case map_of st (hit_id h) of
                None \<Rightarrow> \<lparr>fu_hit = h, fu_score = 0, fu_ranks = Map.empty, fu_scores = Map.empty\<rparr> | Some e \<Rightarrow> e"
    have i: "fused_id ?e = hit_id h"
      using assms by (auto simp: fusion_ok_def fused_id_def dest!: map_of_SomeD split: option.split)
    show ?thesis
      by (rule that[OF fuse_hit_def[unfolded Let_def]])
         (use i in \<open>auto simp: fused_id_def entry_score_def entry_rank_def min_def split: option.splits\<close>)
  qed
  show "fusion_ok (fuse_hit s w k n h st)"
    using assms id unfolding e' fusion_ok_def
    by (auto simp: distinct_update dest!: in_update)
  show "fst ` set (fuse_hit s w k n h st) = insert (hit_id h) (fst ` set st)"
    unfolding e' by (simp add: dom_map_of_conv_image_fst[symmetric] update_conv')
  show "entry_score (fuse_hit s w k n h st) i = entry_score st i + (if i = hit_id h then w / of_int (k + int n) else 0)"
    unfolding e' using score by (simp add: entry_score_def update_conv')
  show "entry_rank (fuse_hit s w k n h st) t i =
      (if i = hit_id h \<and> t = s
       then (case entry_rank st s i of None \<Rightarrow> Some n | Some r \<Rightarrow> Some (min r n)) else entry_rank st t i)"
    unfolding e' using ranks[of t] by (auto simp: entry_rank_def update_conv')
qed

lemma rank_in_Cons:
  "rank_in (h # hs) i = (if hit_id h = i then Some 1 else map_option Suc (rank_in hs i))"
  by (auto simp: rank_in_def)

lemma fuse_arm_facts:
  assumes "fusion_ok st" "distinct (map hit_id hits)" "\<forall>i. entry_rank st s i = None"
  shows "fusion_ok (fuse_arm s w k n hits st) \<and> fst ` set (fuse_arm s w k n hits st) = hit_id ` set hits \<union> fst ` set st
    \<and> (\<forall>i. entry_score (fuse_arm s w k n hits st) i
         = entry_score st i + (case rank_in hits i of None \<Rightarrow> 0 | Some r \<Rightarrow> w / of_int (k + int (r + n - 1))))
    \<and> (\<forall>i t. entry_rank (fuse_arm s w k n hits st) t i
         = (if t = s then (case rank_in hits i of None \<Rightarrow> None | Some r \<Rightarrow> Some (r + n - 1)) else entry_rank st t i))"
proof -
  have "fusion_ok (fuse_arm s w k n hits st) \<and> fst ` set (fuse_arm s w k n hits st) = hit_id ` set hits \<union> fst ` set st
    \<and> (\<forall>i. entry_score (fuse_arm s w k n hits st) i
         = entry_score st i + (case rank_in hits i of None \<Rightarrow> 0 | Some r \<Rightarrow> w / of_int (k + int (r + n - 1))))
    \<and> (\<forall>i t. entry_rank (fuse_arm s w k n hits st) t i
         = (if t = s then (case rank_in hits i of None \<Rightarrow> entry_rank st s i | Some r \<Rightarrow> Some (r + n - 1)) else entry_rank st t i))"
    if "fusion_ok st" "distinct (map hit_id hits)" "\<forall>h \<in> set hits. entry_rank st s (hit_id h) = None" for n st
    using that
  proof (induction hits arbitrary: n st)
    case Nil
    then show ?case by (simp add: rank_in_def)
  next
    case (Cons h hits)
    let ?st = "fuse_hit s w k n h st"
    note f = fuse_hit_facts[OF Cons.prems(1), of s w k n h]
    have fresh: "\<forall>g \<in> set hits. entry_rank ?st s (hit_id g) = None"
    proof
      fix g assume g: "g \<in> set hits"
      then have "hit_id g \<noteq> hit_id h" using Cons.prems(2) by (auto simp: image_iff)
      with g Cons.prems(3) f(4) show "entry_rank ?st s (hit_id g) = None" by simp
    qed
    note ih = Cons.IH[OF f(1) _ fresh, of "n + 1"]
    have gone: "rank_in hits (hit_id h) = None" using Cons.prems(2) by (auto simp: rank_in_def)
    have r1: "r \<ge> 1" if "rank_in hits i = Some r" for i r using that by (auto simp: rank_in_def split: if_splits)
    have shift: "Suc r + n - 1 = r + (n + 1) - 1" for r by simp
    show ?case
      using ih Cons.prems(2,3) f(2,3,4) gone
      by (auto simp: rank_in_Cons split: option.splits)
  qed
  from this[OF assms(1,2)] assms(3) show ?thesis by (auto split: option.split)
qed

lemma counted_Cons:
  "counted weights ((s, hits) # rankings) =
     (if weight_of weights s > 0 then (s, hits) # counted weights rankings else counted weights rankings)"
  by (simp add: counted_def)

lemma fuse_all_facts:
  "fusion_ok st \<Longrightarrow> distinct (map fst rankings) \<Longrightarrow> \<forall>a \<in> set rankings. arm_ok a \<Longrightarrow>
     \<forall>s \<in> fst ` set rankings. \<forall>i. entry_rank st s i = None \<Longrightarrow>
     fusion_ok (fuse_all weights k rankings st)
     \<and> fst ` set (fuse_all weights k rankings st) = fst ` set st \<union> (\<Union>(s, hits) \<in> set (counted weights rankings). hit_id ` set hits)
     \<and> (\<forall>i. entry_score (fuse_all weights k rankings st) i = entry_score st i + rrf_score weights k rankings i)
     \<and> (\<forall>s i. entry_rank (fuse_all weights k rankings st) s i
          = (case map_of (counted weights rankings) s of None \<Rightarrow> entry_rank st s i | Some hits \<Rightarrow> rank_in hits i))"
proof (induction weights k rankings st rule: fuse_all.induct)
  case (1 weights k st)
  then show ?case by (simp add: counted_def)
next
  case (2 weights k s hits rankings st)
  show ?case
  proof (cases "weight_of weights s \<le> 0")
    case True
    have score: "rrf_score weights k ((s, hits) # rankings) i = rrf_score weights k rankings i" for i
      using True by (auto split: option.split)
    show ?thesis using 2 True score by (simp add: counted_Cons del: rrf_score.simps)
  next
    case False
    let ?w = "weight_of weights s"
    let ?st = "fuse_arm s ?w k 1 hits st"
    have arm: "distinct (map hit_id hits)" "\<forall>i. entry_rank st s i = None" using 2(4,5) by (auto simp: arm_ok_def)
    note f = fuse_arm_facts[OF 2(2) arm, of ?w k 1]
    have s_new: "s \<notin> fst ` set rankings" using 2(3) by auto
    have "\<forall>t \<in> fst ` set rankings. \<forall>i. entry_rank ?st t i = None" using f s_new 2(5) by (auto split: prod.splits)
    with 2(1)[unfolded if_not_P[OF False]] 2(3,4) f
    have ih: "fusion_ok (fuse_all weights k rankings ?st)
     \<and> fst ` set (fuse_all weights k rankings ?st) = fst ` set ?st \<union> (\<Union>(s, hits) \<in> set (counted weights rankings). hit_id ` set hits)
     \<and> (\<forall>i. entry_score (fuse_all weights k rankings ?st) i = entry_score ?st i + rrf_score weights k rankings i)
     \<and> (\<forall>s i. entry_rank (fuse_all weights k rankings ?st) s i
          = (case map_of (counted weights rankings) s of None \<Rightarrow> entry_rank ?st s i | Some hits \<Rightarrow> rank_in hits i))"
      by simp
    have none: "map_of (counted weights rankings) s = None"
      using s_new by (force simp: counted_def map_of_eq_None_iff)
    have step: "fuse_all weights k ((s, hits) # rankings) st = fuse_all weights k rankings ?st" using False by simp
    have score: "rrf_score weights k ((s, hits) # rankings) i
        = (case rank_in hits i of None \<Rightarrow> 0 | Some r \<Rightarrow> ?w / of_int (k + int r)) + rrf_score weights k rankings i" for i
      using False by (auto split: option.split)
    show ?thesis unfolding step score
      using ih f False none by (auto simp: counted_Cons split: option.splits)
  qed
qed

end
