(* ===== verification/RankingReference.thy ===== *)
theory RankingReference
  imports Ranking
begin

text \<open>
  The reference of the reranker: maximal marginal relevance as its formula says, with the redundancy of a
  candidate recomputed against everything chosen so far; and the proof that the incremental loop of
  \<open>rerank.py\<close> computes it.
\<close>

definition redundancy :: "string set list \<Rightarrow> nat list \<Rightarrow> nat \<Rightarrow> real" where
  "redundancy tokens chosen i =
     foldl max 0 (filter (\<lambda>s. SIMILARITY_FLOOR \<le> s) (map (\<lambda>c. jaccard (tokens ! i) (tokens ! c)) chosen))"

definition mmr_value :: "real \<Rightarrow> real list \<Rightarrow> string set list \<Rightarrow> nat list \<Rightarrow> nat \<Rightarrow> real" where
  "mmr_value lambda relevance tokens chosen i =
     lambda * relevance ! i - (1 - lambda) * redundancy tokens chosen i"

fun mmr_pick :: "real \<Rightarrow> real list \<Rightarrow> string set list \<Rightarrow> nat \<Rightarrow> nat list \<Rightarrow> nat list \<Rightarrow> (nat \<times> real) list" where
  "mmr_pick lambda relevance tokens 0 remaining chosen = []"
| "mmr_pick lambda relevance tokens (Suc n) remaining chosen =
     (if remaining = [] then []
      else
        (let best = best_of (mmr_value lambda relevance tokens chosen) remaining
         in (best, mmr_value lambda relevance tokens chosen best)
            # mmr_pick lambda relevance tokens n (remove1 best remaining) (chosen @ [best])))"

lemma best_of_cong:
  assumes ne: "xs \<noteq> []" and eq: "\<And>i. i \<in> set xs \<Longrightarrow> f i = g i"
  shows "best_of f xs = best_of g xs"
proof -
  have "arg_min_list (\<lambda>i. (- f i, i)) xs = arg_min_list (\<lambda>i. (- g i, i)) xs"
    using ne eq
  proof (induction "\<lambda>i. (- f i, i)" xs rule: arg_min_list.induct)
    case (2 x y zs)
    have "arg_min_list (\<lambda>i. (- g i, i)) (y # zs) \<in> set (y # zs)" by (intro arg_min_list_in) simp
    with 2 show ?case by (auto simp: Let_def)
  qed auto
  then show ?thesis by (simp add: best_of_def)
qed

text \<open>The chosen one has the best value, and the earliest place among those with it.\<close>

lemma best_of_best: "i \<in> set xs \<Longrightarrow> f i < f (best_of f xs) \<or> f i = f (best_of f xs) \<and> best_of f xs \<le> i"
proof -
  assume i: "i \<in> set xs"
  then have "xs \<noteq> []" by auto
  then have "(- f (best_of f xs), best_of f xs) = Min ((\<lambda>i. (- f i, i)) ` set xs)"
    unfolding best_of_def by (rule f_arg_min_list_f)
  also have "\<dots> \<le> (- f i, i)" using i by (intro Min_le) auto
  finally show ?thesis by auto
qed

lemma penalise_facts:
  "distinct remaining \<Longrightarrow> \<forall>i \<in> set remaining. i < length penalty \<Longrightarrow>
     length (penalise tokens b remaining penalty) = length penalty
     \<and> (\<forall>i. penalise tokens b remaining penalty ! i =
          (if i \<in> set remaining \<and> SIMILARITY_FLOOR \<le> jaccard (tokens ! i) (tokens ! b)
           then max (penalty ! i) (jaccard (tokens ! i) (tokens ! b)) else penalty ! i))"
proof (induction remaining arbitrary: penalty)
  case Nil
  then show ?case by (simp add: penalise_def)
next
  case (Cons j remaining)
  let ?s = "jaccard (tokens ! j) (tokens ! b)"
  define q where "q = (if SIMILARITY_FLOOR \<le> ?s \<and> ?s > penalty ! j then penalty[j := ?s] else penalty)"
  have step: "penalise tokens b (j # remaining) penalty = penalise tokens b remaining q"
    by (simp add: penalise_def q_def Let_def)
  have q: "length q = length penalty"
    "\<And>i. q ! i = (if i = j \<and> SIMILARITY_FLOOR \<le> ?s then max (penalty ! i) ?s else penalty ! i)"
    using Cons.prems(2) by (auto simp: q_def max_def nth_list_update)
  from Cons.IH[of q] Cons.prems show ?case unfolding step by (auto simp: q)
qed

lemma redundancy_snoc:
  "redundancy tokens (chosen @ [b]) i =
     (if SIMILARITY_FLOOR \<le> jaccard (tokens ! i) (tokens ! b)
      then max (redundancy tokens chosen i) (jaccard (tokens ! i) (tokens ! b)) else redundancy tokens chosen i)"
  by (simp add: redundancy_def)

lemma mmr_pick_facts:
  "distinct remaining \<Longrightarrow>
     distinct (map fst (mmr_pick lambda relevance tokens n remaining chosen))
     \<and> fst ` set (mmr_pick lambda relevance tokens n remaining chosen) \<subseteq> set remaining
     \<and> length (mmr_pick lambda relevance tokens n remaining chosen) = min n (length remaining)"
proof (induction lambda relevance tokens n remaining chosen rule: mmr_pick.induct)
  case (2 lambda relevance tokens n remaining chosen)
  show ?case
  proof (cases "remaining = []")
    case False
    let ?b = "best_of (mmr_value lambda relevance tokens chosen) remaining"
    have b: "?b \<in> set remaining" by (rule best_of_in[OF False])
    have "distinct (remove1 ?b remaining)" using 2(2) by simp
    moreover have "length remaining = Suc (length (remove1 ?b remaining))"
      using b False by (simp add: length_remove1)
    ultimately show ?thesis using 2(1)[OF False refl] b 2(2) False by (auto simp: Let_def)
  qed simp
qed simp

lemma mmr_loop_picks:
  assumes "distinct remaining" "\<forall>i \<in> set remaining. i < length penalty"
    and "\<forall>i \<in> set remaining. penalty ! i = redundancy tokens chosen i"
  shows "\<exists>penalty'. mmr_loop lambda relevance tokens limit remaining chosen penalty
      = (chosen @ map fst (mmr_pick lambda relevance tokens (nat (limit - int (length chosen))) remaining chosen), penalty')
    \<and> (\<forall>(i, m) \<in> set (mmr_pick lambda relevance tokens (nat (limit - int (length chosen))) remaining chosen).
         marginal lambda relevance penalty' i = m)
    \<and> (\<forall>i. i \<notin> set remaining \<longrightarrow> penalty' ! i = penalty ! i)"
  using assms
proof (induction "length remaining" arbitrary: remaining chosen penalty)
  case 0
  then show ?case by (cases "nat (limit - int (length chosen))") (subst mmr_loop.simps; simp)+
next
  case (Suc m)
  then have ne: "remaining \<noteq> []" by auto
  show ?case
  proof (cases "int (length chosen) < limit")
    case False
    then show ?thesis by (subst mmr_loop.simps) simp
  next
    case True
    let ?b = "best_of (mmr_value lambda relevance tokens chosen) remaining"
    let ?r = "remove1 ?b remaining"
    let ?p = "penalise tokens ?b ?r penalty"
    have b: "?b \<in> set remaining" by (rule best_of_in[OF ne])
    have "best_of (marginal lambda relevance penalty) remaining = ?b"
      by (rule best_of_cong[OF ne]) (use Suc.prems(3) in \<open>simp add: marginal_def mmr_value_def\<close>)
    then have step: "mmr_loop lambda relevance tokens limit remaining chosen penalty
        = mmr_loop lambda relevance tokens limit ?r (chosen @ [?b]) ?p"
      using ne True by (subst mmr_loop.simps) (simp add: Let_def)
    have r: "distinct ?r" "set ?r = set remaining - {?b}" using Suc.prems(1) by (simp_all add: set_remove1_eq)
    have pen: "length ?p = length penalty"
      "\<And>i. ?p ! i = (if i \<in> set ?r \<and> SIMILARITY_FLOOR \<le> jaccard (tokens ! i) (tokens ! ?b)
           then max (penalty ! i) (jaccard (tokens ! i) (tokens ! ?b)) else penalty ! i)"
      using penalise_facts[OF r(1), of penalty tokens ?b] Suc.prems(2) r(2) by auto
    have n: "nat (limit - int (length chosen)) = Suc (nat (limit - int (length (chosen @ [?b]))))" using True by simp
    let ?picks = "mmr_pick lambda relevance tokens (nat (limit - int (length (chosen @ [?b])))) ?r (chosen @ [?b])"
    have picks: "mmr_pick lambda relevance tokens (nat (limit - int (length chosen))) remaining chosen
        = (?b, mmr_value lambda relevance tokens chosen ?b) # ?picks"
      unfolding n using ne by (simp add: Let_def)
    have "m = length ?r" using Suc.hyps(2) b by (simp add: length_remove1)
    moreover have "\<forall>i \<in> set ?r. i < length ?p" using Suc.prems(2) r(2) pen(1) by auto
    moreover have "\<forall>i \<in> set ?r. ?p ! i = redundancy tokens (chosen @ [?b]) i"
      using Suc.prems(3) r(2) pen(2) by (auto simp: redundancy_snoc)
    ultimately obtain p' where p': "mmr_loop lambda relevance tokens limit ?r (chosen @ [?b]) ?p
        = ((chosen @ [?b]) @ map fst ?picks, p')" "\<forall>(i, m) \<in> set ?picks. marginal lambda relevance p' i = m"
      "\<forall>i. i \<notin> set ?r \<longrightarrow> p' ! i = ?p ! i"
      using Suc.hyps(1)[of ?r ?p "chosen @ [?b]"] r(1) by blast
    have "p' ! ?b = penalty ! ?b" using p'(3) r(2) pen(2) by simp
    then have "marginal lambda relevance p' ?b = mmr_value lambda relevance tokens chosen ?b"
      using Suc.prems(3) b by (simp add: marginal_def mmr_value_def)
    moreover have "p' ! i = penalty ! i" if "i \<notin> set remaining" for i using p'(3) r(2) pen(2) that by simp
    ultimately show ?thesis unfolding step picks using p'(1,2) by auto
  qed
qed

end
