(* ===== verification/RetrievalProperties.thy ===== *)
theory RetrievalProperties
  imports Chunking RankingReference
begin

text \<open>What a document is cut into, and how the chunks found are ranked.\<close>

text \<open>C37. A document that is chunked at all is chunked faithfully, whatever the two splitters do: every chunk is the
  exact slice of the text its offsets name, the chunks are numbered in order and at most as many as
  allowed, no character but white space is left out of all of them, and the pages a chunk names are
  exactly the first and the last of the pages it shares a character with, when there is one (a
  document without pages has none named).\<close>

theorem chunks_cover_document:
  assumes "chunk md splitter count cr body fmt pages = Inr chunks" "chunker chunk_size overlap m = Some cr"
    and "pages_from (length body) 0 entries = Some pages"
  shows "int (length chunks) \<le> m
    \<and> (\<forall>i < length chunks. let c = chunks ! i in
         ck_index c = i \<and> ck_start c < ck_end c \<and> ck_end c \<le> length body \<and> ck_text c = slice body (ck_start c) (ck_end c))
    \<and> (\<forall>k < length body. \<not> is_space (body ! k) \<longrightarrow> (\<exists>c \<in> set chunks. ck_start c \<le> k \<and> k < ck_end c))
    \<and> (\<forall>c \<in> set chunks. let touched = touched_pages pages (ck_start c) (ck_end c) in
         touched \<noteq> [] \<longrightarrow> ck_page_start c = Some (pg_number (hd touched)) \<and> ck_page_end c = Some (pg_number (last touched)))
    \<and> (pages = [] \<longrightarrow> (\<forall>c \<in> set chunks. ck_page_start c = None \<and> ck_page_end c = None))"
proof -
  have m: "1 \<le> cr_max_chunks cr" "cr_max_chunks cr = m" using assms(2) by (auto simp: chunker_def split: if_splits)
  note ok = chunk_covers(1)[OF assms(1) m(1)] and covers = chunk_covers(2)[OF assms(1) m(1)]
  have chunk_at: "chunk_ok body pages i (chunks ! i)" if "i < length chunks" for i
    using ok that by (simp add: chunks_ok_def)
  have chunk_in: "\<exists>j. chunk_ok body pages j c" if "c \<in> set chunks" for c
    using that chunk_at by (metis in_set_conv_nth)
  have pages: "pages_ok pages" using pages_from_ok[OF assms(3)] by blast
  have "ck_page_start c = Some (pg_number (hd (touched_pages pages (ck_start c) (ck_end c))))
      \<and> ck_page_end c = Some (pg_number (last (touched_pages pages (ck_start c) (ck_end c))))"
    if "c \<in> set chunks" "touched_pages pages (ck_start c) (ck_end c) \<noteq> []" for c
    using chunk_in[OF that(1)] page_numbers_touched[OF pages _ that(2)] by (auto simp: chunk_ok_def)
  moreover have "ck_page_start c = None \<and> ck_page_end c = None" if "pages = []" "c \<in> set chunks" for c
    using chunk_in[OF that(2)] that(1) by (auto simp: chunk_ok_def page_numbers_def)
  moreover have "let c = chunks ! i in
      ck_index c = i \<and> ck_start c < ck_end c \<and> ck_end c \<le> length body \<and> ck_text c = slice body (ck_start c) (ck_end c)"
    if "i < length chunks" for i
    using chunk_at[OF that] by (simp add: chunk_ok_def Let_def)
  ultimately show ?thesis using ok m(2) covers unfolding chunks_ok_def Let_def by blast
qed

text \<open>Two overlapping chunks over a page break.\<close>

lemma chunks_cover_document_witness:
  "\<exists>chunks. chunk (\<lambda>t. [t]) (\<lambda>t. [''ab cd'', ''cd ef'']) length \<lparr>cr_size = 512, cr_overlap = 64, cr_max_chunks = 9\<rparr>
       ''ab cd ef'' DocumentFormat.PDF [\<lparr>pg_number = 1, pg_start = 0, pg_end = 5\<rparr>, \<lparr>pg_number = 2, pg_start = 6, pg_end = 8\<rparr>]
     = Inr chunks \<and> (\<exists>c \<in> set chunks. ck_start c \<le> 7 \<and> 7 < ck_end c)"
proof -
  let ?pages = "[\<lparr>pg_number = 1, pg_start = 0, pg_end = 5\<rparr>, \<lparr>pg_number = 2, pg_start = 6, pg_end = 8\<rparr>]"
  have pages: "pages_from (length ''ab cd ef'') 0 [(1, 0, 5), (2, 6, 8)] = Some ?pages" by simp
  have cr: "chunker 512 64 9 = Some \<lparr>cr_size = 512, cr_overlap = 64, cr_max_chunks = 9\<rparr>" by (simp add: chunker_def)
  have "case chunk (\<lambda>t. [t]) (\<lambda>t. [''ab cd'', ''cd ef'']) length \<lparr>cr_size = 512, cr_overlap = 64, cr_max_chunks = 9\<rparr>
       ''ab cd ef'' DocumentFormat.PDF ?pages of Inl e \<Rightarrow> False | Inr chunks \<Rightarrow> True"
    by code_simp
  then obtain chunks where c: "chunk (\<lambda>t. [t]) (\<lambda>t. [''ab cd'', ''cd ef'']) length
      \<lparr>cr_size = 512, cr_overlap = 64, cr_max_chunks = 9\<rparr> ''ab cd ef'' DocumentFormat.PDF ?pages = Inr chunks"
    by (auto split: sum.splits)
  have "\<not> is_space (''ab cd ef'' ! 7)" "7 < length ''ab cd ef''" by (simp_all add: is_space_def)
  with chunks_cover_document[OF c cr pages] c show ?thesis by blast
qed

lemma rrf_facts:
  assumes "1 \<le> k" "distinct (map fst rankings)" "\<forall>(s, hits) \<in> set rankings. distinct (map hit_id hits)"
  shows "\<exists>fused. reciprocal_rank_fusion rankings weights k = Some fused
    \<and> distinct (map fused_id fused)
    \<and> fused_id ` set fused = (\<Union>(s, hits) \<in> set (counted weights rankings). hit_id ` set hits)
    \<and> sorted (map (\<lambda>f. (- fu_score f, fused_id f)) fused)
    \<and> (\<forall>f \<in> set fused. fu_score f = rrf_score weights k rankings (fused_id f)
         \<and> (\<forall>s. fu_ranks f s = (case map_of (counted weights rankings) s of None \<Rightarrow> None | Some hits \<Rightarrow> rank_in hits (fused_id f))))"
proof -
  let ?st = "fuse_all weights k rankings []"
  let ?fused = "sort_key (\<lambda>f. (- fu_score f, fused_id f)) (map snd ?st)"
  have "fusion_ok []" "\<forall>a \<in> set rankings. arm_ok a" using assms(3) by (auto simp: fusion_ok_def arm_ok_def)
  note facts = fuse_all_facts[OF this(1) assms(2) this(2), of weights k]
  have ok: "distinct (map fst ?st)" "\<And>i e. (i, e) \<in> set ?st \<Longrightarrow> fused_id e = i"
    using facts by (auto simp: fusion_ok_def)
  have ids: "map fused_id (map snd ?st) = map fst ?st" using ok(2) by auto
  have at: "map_of ?st (fused_id f) = Some f" if "f \<in> snd ` set ?st" for f
    using that ok by auto
  have "fu_score f = rrf_score weights k rankings (fused_id f)" if "f \<in> snd ` set ?st" for f
  proof -
    have "entry_score ?st (fused_id f) = rrf_score weights k rankings (fused_id f)"
      using facts by simp
    then show ?thesis using at[OF that] by (simp add: entry_score_def)
  qed
  moreover have "fu_ranks f s = (case map_of (counted weights rankings) s of None \<Rightarrow> None | Some hits \<Rightarrow> rank_in hits (fused_id f))"
    if "f \<in> snd ` set ?st" for f s
  proof -
    have "entry_rank ?st s (fused_id f)
        = (case map_of (counted weights rankings) s of None \<Rightarrow> None | Some hits \<Rightarrow> rank_in hits (fused_id f))"
      using facts by (simp split: option.split)
    then show ?thesis using at[OF that] by (simp add: entry_rank_def)
  qed
  moreover have "fused_id ` snd ` set ?st = (\<Union>(s, hits) \<in> set (counted weights rankings). hit_id ` set hits)"
  proof -
    have "fused_id ` snd ` set ?st = fst ` set ?st" using arg_cong[OF ids, of set] by (simp add: image_image)
    then show ?thesis using facts by simp
  qed
  moreover have "distinct (map fused_id (sort_key (\<lambda>f. (- fu_score f, fused_id f)) (map snd ?st)))"
  proof -
    have "distinct (map fused_id (map snd ?st))" unfolding ids by (rule ok(1))
    then show ?thesis by (simp only: distinct_map[of fused_id] distinct_sort set_sort)
  qed
  moreover have "reciprocal_rank_fusion rankings weights k = Some ?fused"
    using assms(1) by (simp add: reciprocal_rank_fusion_def)
  moreover have "set ?fused = snd ` set ?st" by (simp only: set_sort set_map)
  moreover have "sorted (map (\<lambda>f. (- fu_score f, fused_id f)) ?fused)" by (rule sorted_sort_key)
  ultimately show ?thesis by (intro exI[of _ ?fused]) metis
qed

text \<open>Fusion is reciprocal rank fusion: each chunk an arm of positive weight found appears once, with the sum over
  those arms of the weight over \<open>k\<close> plus its rank there and with its rank in each of them, best first and ties by
  identifier, so that fusing the same rankings twice gives the same order.\<close>

theorem fusion_is_rrf:
  assumes "1 \<le> k" "distinct (map fst rankings)" "\<forall>(s, hits) \<in> set rankings. distinct (map hit_id hits)"
  shows "\<exists>fused. reciprocal_rank_fusion rankings weights k = Some fused
    \<and> distinct (map fused_id fused)
    \<and> fused_id ` set fused = (\<Union>(s, hits) \<in> set (counted weights rankings). hit_id ` set hits)
    \<and> sorted (map (\<lambda>f. (- fu_score f, fused_id f)) fused)
    \<and> (\<forall>f \<in> set fused. fu_score f = rrf_score weights k rankings (fused_id f)
         \<and> (\<forall>s. fu_ranks f s = (case map_of (counted weights rankings) s of None \<Rightarrow> None | Some hits \<Rightarrow> rank_in hits (fused_id f))))"
  by (rule rrf_facts[OF assms])

text \<open>One chunk found by both arms, one by each alone.\<close>

definition view :: "uuid \<Rightarrow> string \<Rightarrow> ChunkView" where
  "view i body =
     \<lparr>cv_id = i, cv_document_id = 1, cv_source_id = 1, cv_source_type = SourceType.WEB, cv_chunk_index = 0, cv_text = body,
      cv_token_count = 1, cv_char_start = 0, cv_char_end = 1, cv_page_start = None, cv_page_end = None, cv_section = None,
      cv_format = None, cv_language = None, cv_embedded = True\<rparr>"

definition hit :: "uuid \<Rightarrow> ScoredChunk" where
  "hit i = \<lparr>sh_chunk = view i ''x'', sh_score = 1\<rparr>"

lemma fusion_is_rrf_witness:
  "\<exists>fused. reciprocal_rank_fusion [(DENSE, [hit 1, hit 2]), (LEXICAL, [hit 2, hit 3])] None 60 = Some fused
    \<and> (\<exists>f \<in> set fused. fused_id f = 2 \<and> fu_score f = 1 / 62 + 1 / 61)"
proof -
  let ?r = "[(DENSE, [hit 1, hit 2]), (LEXICAL, [hit 2, hit 3])]"
  obtain fused where f: "reciprocal_rank_fusion ?r None 60 = Some fused"
    "fused_id ` set fused = (\<Union>(s, hits) \<in> set (counted None ?r). hit_id ` set hits)"
    "\<forall>f \<in> set fused. fu_score f = rrf_score None 60 ?r (fused_id f)"
    using fusion_is_rrf[of 60 ?r None] by (auto simp: hit_id_def hit_def view_def)
  have "2 \<in> fused_id ` set fused" unfolding f(2) by (simp add: counted_def weight_of_def hit_id_def hit_def view_def)
  then obtain g where g: "g \<in> set fused" "fused_id g = 2" by auto
  have "rrf_score None 60 ?r 2 = 1 / 62 + 1 / 61"
    by (simp add: rank_in_def weight_of_def hit_id_def hit_def view_def)
  with f(1,3) g show ?thesis by auto
qed

lemma mmr_rerank_picks:
  "let relevance = relevance_of (map rt_score candidates); tokens = map (tokenize \<circ> cv_text \<circ> rt_chunk) candidates;
       picks = mmr_pick lambda relevance tokens (nat limit) [0..<length candidates] []
   in mmr_rerank lambda candidates limit
        = map (\<lambda>(i, m). (candidates ! i)\<lparr>rt_score := m, rt_rerank_score := Some m\<rparr>) picks
      \<and> distinct (map fst picks) \<and> length picks = min (nat limit) (length candidates)"
proof -
  let ?rel = "relevance_of (map rt_score candidates)" and ?tok = "map (tokenize \<circ> cv_text \<circ> rt_chunk) candidates"
  let ?picks = "mmr_pick lambda ?rel ?tok (nat limit) [0..<length candidates] []"
  have facts: "distinct (map fst ?picks)" "length ?picks = min (nat limit) (length candidates)"
    using mmr_pick_facts[of "[0..<length candidates]" lambda ?rel ?tok "nat limit" "[]"] by simp_all
  have "mmr_rerank lambda candidates limit
      = map (\<lambda>(i, m). (candidates ! i)\<lparr>rt_score := m, rt_rerank_score := Some m\<rparr>) ?picks"
  proof (cases "limit < 1 \<or> candidates = []")
    case True
    then have "?picks = []" using facts(2) by auto
    then show ?thesis using True by (simp add: mmr_rerank_def)
  next
    case False
    obtain p' where p': "mmr_loop lambda ?rel ?tok limit [0..<length candidates] [] (replicate (length candidates) 0)
        = (map fst ?picks, p')" "\<forall>(i, m) \<in> set ?picks. marginal lambda ?rel p' i = m"
      using mmr_loop_picks[of "[0..<length candidates]" "replicate (length candidates) 0" ?tok "[]" lambda ?rel limit]
      by (auto simp: redundancy_def)
    then show ?thesis using False by (auto simp: mmr_rerank_def Let_def)
  qed
  with facts show ?thesis by (simp add: Let_def)
qed

text \<open>C38. The reranker's incremental loop is maximal marginal relevance: it chooses at most the number asked for, each
  candidate at most once, and its \<open>n\<close>-th choice and the score it reports are those of the formula with the
  redundancy recomputed against everything chosen before.\<close>

theorem reranker_is_mmr:
  "let relevance = relevance_of (map rt_score candidates); tokens = map (tokenize \<circ> cv_text \<circ> rt_chunk) candidates;
       picks = mmr_pick lambda relevance tokens (nat limit) [0..<length candidates] []
   in mmr_rerank lambda candidates limit
        = map (\<lambda>(i, m). (candidates ! i)\<lparr>rt_score := m, rt_rerank_score := Some m\<rparr>) picks
      \<and> distinct (map fst picks) \<and> length picks = min (nat limit) (length candidates)"
  by (rule mmr_rerank_picks)

section \<open>Hybrid retrieval\<close>

text \<open>Both rerankers return some of the candidates, each at most once.\<close>

definition selects :: "RetrievedChunk list \<Rightarrow> int \<Rightarrow> RetrievedChunk list \<Rightarrow> bool" where
  "selects candidates limit chunks \<longleftrightarrow> length chunks = min (nat limit) (length candidates)
     \<and> (\<exists>is. distinct is \<and> set is \<subseteq> {..<length candidates}
          \<and> list_all2 (\<lambda>c i. rt_chunk c = rt_chunk (candidates ! i) \<and> rt_dense_rank c = rt_dense_rank (candidates ! i)
               \<and> rt_lexical_rank c = rt_lexical_rank (candidates ! i)) chunks is)"

lemma no_rerank_selects: "0 \<le> limit \<Longrightarrow> selects candidates limit (no_rerank candidates limit)"
  unfolding selects_def
  by (intro conjI exI[of _ "take (nat limit) [0..<length candidates]"])
     (auto simp: no_rerank_def list_all2_conv_all_nth dest: in_set_takeD)

lemma mmr_rerank_selects: "selects candidates limit (mmr_rerank lambda candidates limit)"
proof -
  let ?picks = "mmr_pick lambda (relevance_of (map rt_score candidates))
     (map (tokenize \<circ> cv_text \<circ> rt_chunk) candidates) (nat limit) [0..<length candidates] []"
  have "distinct (map fst ?picks)" "fst ` set ?picks \<subseteq> {..<length candidates}" "length ?picks = min (nat limit) (length candidates)"
    using mmr_pick_facts[of "[0..<length candidates]"] by (auto simp: atLeast0LessThan)
  moreover have "mmr_rerank lambda candidates limit
      = map (\<lambda>(i, m). (candidates ! i)\<lparr>rt_score := m, rt_rerank_score := Some m\<rparr>) ?picks"
    using mmr_rerank_picks[where lambda = lambda and candidates = candidates and limit = limit] by (simp add: Let_def)
  ultimately show ?thesis
    unfolding selects_def
    by (intro conjI exI[of _ "map fst ?picks"]) (auto simp: list_all2_conv_all_nth case_prod_beta)
qed

lemma selects_facts:
  assumes "selects candidates limit chunks" "distinct (map (cv_id \<circ> rt_chunk) candidates)"
    and "\<forall>c \<in> set candidates. rt_dense_rank c = f (cv_id (rt_chunk c)) \<and> rt_lexical_rank c = g (cv_id (rt_chunk c))"
  shows "distinct (map (cv_id \<circ> rt_chunk) chunks)
    \<and> (\<forall>c \<in> set chunks. cv_id (rt_chunk c) \<in> (cv_id \<circ> rt_chunk) ` set candidates
         \<and> rt_dense_rank c = f (cv_id (rt_chunk c)) \<and> rt_lexical_rank c = g (cv_id (rt_chunk c)))"
proof -
  obtain "is" where i: "distinct is" "set is \<subseteq> {..<length candidates}" "length chunks = length is"
    "\<And>n. n < length is \<Longrightarrow> rt_chunk (chunks ! n) = rt_chunk (candidates ! (is ! n))
        \<and> rt_dense_rank (chunks ! n) = rt_dense_rank (candidates ! (is ! n))
        \<and> rt_lexical_rank (chunks ! n) = rt_lexical_rank (candidates ! (is ! n))"
    using assms(1) by (auto simp: selects_def list_all2_conv_all_nth)
  have bound: "is ! n < length candidates" if "n < length is" for n using that i(2) nth_mem by blast
  have "map (cv_id \<circ> rt_chunk) chunks = map (\<lambda>j. map (cv_id \<circ> rt_chunk) candidates ! j) is"
    using i(3,4) bound by (intro nth_equalityI) auto
  moreover have "distinct (map (\<lambda>j. map (cv_id \<circ> rt_chunk) candidates ! j) is)"
    unfolding distinct_map[of _ "is"] using i(1,2) assms(2) by (auto intro!: inj_on_nth)
  moreover have "cv_id (rt_chunk c) \<in> (cv_id \<circ> rt_chunk) ` set candidates
      \<and> rt_dense_rank c = f (cv_id (rt_chunk c)) \<and> rt_lexical_rank c = g (cv_id (rt_chunk c))"
    if c: "c \<in> set chunks" for c
  proof -
    obtain n where n: "n < length is" "c = chunks ! n" using c i(3) by (auto simp: in_set_conv_nth)
    have "candidates ! (is ! n) \<in> set candidates" using bound[OF n(1)] by simp
    then show ?thesis using i(4)[OF n(1)] assms(3) n(2) by auto
  qed
  ultimately show ?thesis by simp
qed

lemma arm_facts:
  assumes "RetrievalPlan_ok p"
  shows "ao_ran (snd (dense_arm search q p)) \<Longrightarrow> pn_dense_weight p > 0"
    and "ao_ran (snd (lexical_arm lsearch q p)) \<Longrightarrow> pn_lexical_weight p > 0"
    and "\<not> ao_ran (snd (dense_arm search q p)) \<Longrightarrow> fst (dense_arm search q p) = []"
    and "\<not> ao_ran (snd (lexical_arm lsearch q p)) \<Longrightarrow> fst (lexical_arm lsearch q p) = []"
  by (auto simp: dense_arm_def lexical_arm_def ran_arm_def skipped_def wants_dense_def wants_lexical_def
        split: if_splits option.splits)

text \<open>A hybrid retrieval of a validated query answers with as many of the fused candidates as the plan allows, no
  chunk twice. Every chunk was found by an arm that ran, carries its rank in each arm, and counts once
  among the candidates however many arms found it; an arm that did not run says why.\<close>

theorem hybrid_answers:
  assumes p: "RetrievalPlan_ok p" and q: "query_text raw = Some q"
    and d: "distinct (map hit_id (fst (dense_arm dense q p)))" and l: "distinct (map hit_id (fst (lexical_arm lexical q p)))"
  shows "\<exists>r. retrieve_hybrid (\<lambda>_. mmr_rerank lambda) dense lexical raw p = Some r
    \<and> rl_candidates r = card (hit_id ` set (fst (dense_arm dense q p) @ fst (lexical_arm lexical q p)))
    \<and> int (length (rl_chunks r)) = min (pn_limit p) (int (rl_candidates r))
    \<and> distinct (map (cv_id \<circ> rt_chunk) (rl_chunks r))
    \<and> (\<forall>c \<in> set (rl_chunks r). found_by c \<noteq> []
         \<and> rt_dense_rank c = rank_in (fst (dense_arm dense q p)) (cv_id (rt_chunk c))
         \<and> rt_lexical_rank c = rank_in (fst (lexical_arm lexical q p)) (cv_id (rt_chunk c)))
    \<and> (\<forall>a \<in> set (rl_arms r). ao_ran a \<longleftrightarrow> ao_skipped_reason a = None)"
proof -
  let ?d = "dense_arm dense q p" and ?l = "lexical_arm lexical q p"
  let ?rankings = "(if ao_ran (snd ?d) then [(DENSE, fst ?d)] else []) @ (if ao_ran (snd ?l) then [(LEXICAL, fst ?l)] else [])"
  let ?w = "Some [DENSE \<mapsto> pn_dense_weight p, LEXICAL \<mapsto> pn_lexical_weight p]"
  note arms = arm_facts[OF p]
  have counted: "counted ?w ?rankings = ?rankings"
    using arms(1,2) by (auto simp: counted_def weight_of_def)
  have k: "1 \<le> pn_rrf_k p" and lim: "0 \<le> pn_limit p" using p by (simp_all add: RetrievalPlan_ok_def)
  have r: "distinct (map fst ?rankings)" "\<forall>(s, hits) \<in> set ?rankings. distinct (map hit_id hits)" using d l by auto
  obtain fused where fused: "reciprocal_rank_fusion ?rankings ?w (pn_rrf_k p) = Some fused \<and> distinct (map fused_id fused)
    \<and> fused_id ` set fused = (\<Union>(s, hits) \<in> set ?rankings. hit_id ` set hits)
    \<and> sorted (map (\<lambda>f. (- fu_score f, fused_id f)) fused)
    \<and> (\<forall>f \<in> set fused. fu_score f = rrf_score ?w (pn_rrf_k p) ?rankings (fused_id f)
       \<and> (\<forall>s. fu_ranks f s = (case map_of ?rankings s of None \<Rightarrow> None | Some hits \<Rightarrow> rank_in hits (fused_id f))))"
    using rrf_facts[OF k r, of ?w] unfolding counted by (rule exE)
  note f = fused[THEN conjunct1] fused[THEN conjunct2, THEN conjunct1] fused[THEN conjunct2, THEN conjunct2, THEN conjunct1]
  have f4: "fu_ranks f s = (case map_of ?rankings s of None \<Rightarrow> None | Some hits \<Rightarrow> rank_in hits (fused_id f))"
    if "f \<in> set fused" for f s using fused that by blast
  have ids: "fused_id ` set fused = hit_id ` set (fst ?d @ fst ?l)" unfolding f(3) using arms(3,4) by auto
  have ranks: "\<forall>f \<in> set fused. fu_ranks f DENSE = rank_in (fst ?d) (fused_id f) \<and> fu_ranks f LEXICAL = rank_in (fst ?l) (fused_id f)"
    using arms(3,4) by (auto simp: f4 rank_in_def)
  let ?cands = "map as_retrieved fused"
  let ?chunks = "(if pn_rerank p then mmr_rerank lambda else no_rerank) ?cands (pn_limit p)"
  have cid: "cv_id (rt_chunk (as_retrieved f)) = fused_id f" for f by (simp add: as_retrieved_def fused_id_def hit_id_def)
  have sel: "selects ?cands (pn_limit p) ?chunks" using mmr_rerank_selects no_rerank_selects[OF lim] by simp
  have dist: "distinct (map (cv_id \<circ> rt_chunk) ?cands)" using f(2) by (simp add: comp_def cid)
  have cand: "\<forall>c \<in> set ?cands. rt_dense_rank c = rank_in (fst ?d) (cv_id (rt_chunk c))
      \<and> rt_lexical_rank c = rank_in (fst ?l) (cv_id (rt_chunk c))"
    using ranks by (auto simp: cid) (auto simp: as_retrieved_def)
  have image: "(cv_id \<circ> rt_chunk) ` set ?cands = fused_id ` set fused" by (simp add: image_image cid)
  note chunks = selects_facts[OF sel dist cand, unfolded image, THEN conjunct1]
    selects_facts[OF sel dist cand, unfolded image, THEN conjunct2]
  have found: "\<forall>c \<in> set ?chunks. found_by c \<noteq> []"
    using chunks(2) ids by (auto simp: found_by_def rank_in_def split: if_splits)
  have len: "int (length ?chunks) = min (pn_limit p) (int (length fused))"
    using sel lim by (auto simp: selects_def)
  have card: "length fused = card (hit_id ` set (fst ?d @ fst ?l))"
    using f(2) ids by (metis distinct_card length_map set_map)
  have out: "\<forall>a \<in> {snd ?d, snd ?l}. ao_ran a \<longleftrightarrow> ao_skipped_reason a = None"
    by (auto simp: dense_arm_def lexical_arm_def ran_arm_def skipped_def split: option.splits)
  have "retrieve_hybrid (\<lambda>_. mmr_rerank lambda) dense lexical raw p
      = Some \<lparr>rl_strategy = pn_strategy p, rl_chunks = ?chunks, rl_arms = [snd ?d, snd ?l],
          rl_candidates = length fused, rl_reranked = pn_rerank p\<rparr>"
    using f(1) by (simp add: retrieve_hybrid_def q case_prod_beta Let_def)
  with chunks found len card out show ?thesis by simp
qed

text \<open>The default plan without an embedding model: the lexical arm alone answers.\<close>

lemma hybrid_answers_witness:
  "\<exists>r. retrieve_hybrid (\<lambda>_. mmr_rerank 0.7) None (\<lambda>_ _. [hit 4, hit 5]) '' storage '' default_plan = Some r
     \<and> length (rl_chunks r) = 2"
proof -
  have q: "query_text '' storage '' = Some ''storage''" by code_simp
  have p: "RetrievalPlan_ok default_plan" by (simp add: RetrievalPlan_ok_def default_plan_def MAX_RESULTS_def MAX_CANDIDATES_def)
  have arms: "fst (dense_arm None ''storage'' default_plan) = []"
    "fst (lexical_arm (\<lambda>_ _. [hit 4, hit 5]) ''storage'' default_plan) = [hit 4, hit 5]"
    by (simp_all add: dense_arm_def lexical_arm_def wants_dense_def wants_lexical_def default_plan_def ran_arm_def)
  have ids: "map hit_id [hit 4, hit 5] = [4, 5]" by (simp add: hit_id_def hit_def view_def)
  then have card: "card (hit_id ` set [hit 4, hit 5]) = 2" by (simp flip: set_map) 
  show ?thesis
    using hybrid_answers[OF p q, where dense = None and lexical = "\<lambda>_ _. [hit 4, hit 5]" and lambda = "0.7"]
    unfolding arms using ids card by (auto simp: default_plan_def)
qed

end
