(* ===== verification/IpAddresses.thy ===== *)
theory IpAddresses
  imports Texts "HOL-Library.Word"
begin

text \<open>
  The addresses of the SSRF guard in \<open>app/sources/urls.py\<close>: the part of Python's \<open>ipaddress\<close> it uses (the
  address types, their parser, the tables of special networks of CPython 3.12), which addresses it blocks,
  and the historical \<open>inet_aton\<close> grammar it reads a host by.
\<close>

section \<open>Addresses and networks\<close>

text \<open>A version 6 address may carry the identifier of its zone.\<close>

datatype IpAddress = V4 "32 word" | V6 "128 word" "string option"

type_synonym 'l network = "'l word \<times> nat"

definition in_net :: "'l::len word \<Rightarrow> 'l network \<Rightarrow> bool" where
  "in_net a net \<longleftrightarrow> drop_bit (LENGTH('l) - snd net) a = drop_bit (LENGTH('l) - snd net) (fst net)"

definition quad :: "int \<Rightarrow> int \<Rightarrow> int \<Rightarrow> int \<Rightarrow> 32 word" where
  "quad a b c d = of_int (((a * 256 + b) * 256 + c) * 256 + d)"

text \<open>An address by its leading hextets, the others zero.\<close>

definition join_hextets :: "int list \<Rightarrow> int" where
  "join_hextets hs = foldl (\<lambda>n h. n * 65536 + h) 0 hs"

definition hextets :: "int list \<Rightarrow> 128 word" where
  "hextets hs = of_int (join_hextets hs * 65536 ^ (8 - length hs))"

subsection \<open>Version 4\<close>

definition V4_PRIVATE :: "32 network list" where
  "V4_PRIVATE =
     [(quad 0 0 0 0, 8), (quad 10 0 0 0, 8), (quad 127 0 0 0, 8), (quad 169 254 0 0, 16), (quad 172 16 0 0, 12),
      (quad 192 0 0 0, 24), (quad 192 0 0 170, 31), (quad 192 0 2 0, 24), (quad 192 168 0 0, 16),
      (quad 198 18 0 0, 15), (quad 198 51 100 0, 24), (quad 203 0 113 0, 24), (quad 240 0 0 0, 4),
      (quad 255 255 255 255, 32)]"

definition V4_PRIVATE_EXCEPTIONS :: "32 network list" where
  "V4_PRIVATE_EXCEPTIONS = [(quad 192 0 0 9, 32), (quad 192 0 0 10, 32)]"

definition v4_is_private :: "32 word \<Rightarrow> bool" where
  "v4_is_private a \<longleftrightarrow> list_ex (in_net a) V4_PRIVATE \<and> list_all (\<lambda>n. \<not> in_net a n) V4_PRIVATE_EXCEPTIONS"

definition v4_is_loopback :: "32 word \<Rightarrow> bool" where "v4_is_loopback a \<longleftrightarrow> in_net a (quad 127 0 0 0, 8)"
definition v4_is_link_local :: "32 word \<Rightarrow> bool" where "v4_is_link_local a \<longleftrightarrow> in_net a (quad 169 254 0 0, 16)"
definition v4_is_multicast :: "32 word \<Rightarrow> bool" where "v4_is_multicast a \<longleftrightarrow> in_net a (quad 224 0 0 0, 4)"
definition v4_is_reserved :: "32 word \<Rightarrow> bool" where "v4_is_reserved a \<longleftrightarrow> in_net a (quad 240 0 0 0, 4)"
definition v4_is_unspecified :: "32 word \<Rightarrow> bool" where "v4_is_unspecified a \<longleftrightarrow> a = quad 0 0 0 0"

subsection \<open>Version 6\<close>

definition V6_PRIVATE :: "128 network list" where
  "V6_PRIVATE =
     [(1, 128), (0, 128), (hextets [0, 0, 0, 0, 0, 0xFFFF], 96), (hextets [0x64, 0xFF9B, 1], 48),
      (hextets [0x100], 64), (hextets [0x2001], 23), (hextets [0x2001, 0xDB8], 32), (hextets [0x2002], 16),
      (hextets [0xFC00], 7), (hextets [0xFE80], 10)]"

definition V6_PRIVATE_EXCEPTIONS :: "128 network list" where
  "V6_PRIVATE_EXCEPTIONS =
     [(hextets [0x2001, 1, 0, 0, 0, 0, 0, 1], 128), (hextets [0x2001, 1, 0, 0, 0, 0, 0, 2], 128),
      (hextets [0x2001, 3], 32), (hextets [0x2001, 4, 0x112], 48), (hextets [0x2001, 0x20], 28),
      (hextets [0x2001, 0x30], 28)]"

definition V6_RESERVED :: "128 network list" where
  "V6_RESERVED =
     [(0, 8), (hextets [0x100], 8), (hextets [0x200], 7), (hextets [0x400], 6), (hextets [0x800], 5),
      (hextets [0x1000], 4), (hextets [0x4000], 3), (hextets [0x6000], 3), (hextets [0x8000], 3),
      (hextets [0xA000], 3), (hextets [0xC000], 3), (hextets [0xE000], 4), (hextets [0xF000], 5),
      (hextets [0xF800], 6), (hextets [0xFE00], 9)]"

text \<open>The version 4 address wrapped in \<open>::ffff:0:0/96\<close>.\<close>

definition ipv4_mapped :: "128 word \<Rightarrow> 32 word option" where
  "ipv4_mapped a = (if drop_bit 32 a = 0xFFFF then Some (ucast a) else None)"

definition v6_is_private :: "128 word \<Rightarrow> bool" where
  "v6_is_private a \<longleftrightarrow>
     (case ipv4_mapped a of
        Some m \<Rightarrow> v4_is_private m
      | None \<Rightarrow> list_ex (in_net a) V6_PRIVATE \<and> list_all (\<lambda>n. \<not> in_net a n) V6_PRIVATE_EXCEPTIONS)"

definition v6_is_loopback :: "128 word \<Rightarrow> bool" where "v6_is_loopback a \<longleftrightarrow> a = 1"
definition v6_is_link_local :: "128 word \<Rightarrow> bool" where "v6_is_link_local a \<longleftrightarrow> in_net a (hextets [0xFE80], 10)"
definition v6_is_multicast :: "128 word \<Rightarrow> bool" where "v6_is_multicast a \<longleftrightarrow> in_net a (hextets [0xFF00], 8)"
definition v6_is_reserved :: "128 word \<Rightarrow> bool" where "v6_is_reserved a \<longleftrightarrow> list_ex (in_net a) V6_RESERVED"
definition v6_is_unspecified :: "128 word \<Rightarrow> bool" where "v6_is_unspecified a \<longleftrightarrow> a = 0"

section \<open>What is blocked\<close>

text \<open>\<open>_EXTRA_BLOCKED_NETWORKS\<close>; an address is in no network of the other version.\<close>

definition EXTRA_BLOCKED_V4 :: "32 network list" where
  "EXTRA_BLOCKED_V4 =
     [(quad 169 254 169 254, 32), (quad 100 64 0 0, 10), (quad 192 0 0 0, 24), (quad 198 18 0 0, 15)]"

definition EXTRA_BLOCKED_V6 :: "128 network list" where
  "EXTRA_BLOCKED_V6 = [(hextets [0, 0, 0, 0, 0, 0xFFFF], 96)]"

definition unwrap_mapped :: "IpAddress \<Rightarrow> IpAddress" where
  "unwrap_mapped a =
     (case a of V4 w \<Rightarrow> V4 w | V6 w z \<Rightarrow> (case ipv4_mapped w of None \<Rightarrow> V6 w z | Some m \<Rightarrow> V4 m))"

definition is_blocked_address :: "IpAddress \<Rightarrow> bool" where
  "is_blocked_address address \<longleftrightarrow>
     (case unwrap_mapped address of
        V4 a \<Rightarrow> v4_is_private a \<or> v4_is_loopback a \<or> v4_is_link_local a \<or> v4_is_multicast a \<or> v4_is_reserved a
                \<or> v4_is_unspecified a \<or> list_ex (in_net a) EXTRA_BLOCKED_V4
      | V6 a z \<Rightarrow> v6_is_private a \<or> v6_is_loopback a \<or> v6_is_link_local a \<or> v6_is_multicast a \<or> v6_is_reserved a
                \<or> v6_is_unspecified a \<or> list_ex (in_net a) EXTRA_BLOCKED_V6)"

section \<open>Reading addresses\<close>

definition digit_value :: "char \<Rightarrow> int option" where
  "digit_value c =
     (let n = (of_char c :: int)
      in if is_digit c then Some (n - 48)
         else if is_lower c then Some (n - 87)
         else if is_upper c then Some (n - 55)
         else None)"

definition digit_below :: "int \<Rightarrow> char \<Rightarrow> bool" where
  "digit_below base c \<longleftrightarrow> (case digit_value c of None \<Rightarrow> False | Some d \<Rightarrow> d < base)"

definition number :: "int \<Rightarrow> string \<Rightarrow> int" where
  "number base s = foldl (\<lambda>n c. n * base + the (digit_value c)) 0 s"

text \<open>\<open>ipaddress._parse_octet\<close>: decimal, at most three digits, no leading zero.\<close>

definition strict_octet :: "string \<Rightarrow> int option" where
  "strict_octet s =
     (if s = [] \<or> \<not> list_all is_digit s \<or> length s > 3 \<or> (s \<noteq> ''0'' \<and> hd s = CHR ''0'') \<or> number 10 s > 255 then None
      else Some (number 10 s))"

definition parse_ipv4 :: "string \<Rightarrow> 32 word option" where
  "parse_ipv4 s =
     (case map strict_octet (split_on (CHR ''.'') s) of
        [Some a, Some b, Some c, Some d] \<Rightarrow> Some (quad a b c d)
      | _ \<Rightarrow> None)"

text \<open>A part of a version 6 address: text, or the half of a version 4 suffix, as a number.\<close>

definition parse_hextet :: "string + int \<Rightarrow> int option" where
  "parse_hextet p =
     (case p of
        Inr n \<Rightarrow> Some n
      | Inl s \<Rightarrow> if s = [] \<or> \<not> list_all (digit_below 16) s \<or> length s > 4 then None else Some (number 16 s))"

definition ipv6_parts :: "string \<Rightarrow> (string + int) list option" where
  "ipv6_parts s =
     (let parts = split_on (CHR '':'') s
      in if length parts < 3 then None
         else if CHR ''.'' \<in> set (last parts)
         then map_option (\<lambda>a. map Inl (butlast parts) @ [Inr (uint (drop_bit 16 a)), Inr (uint (take_bit 16 a))])
                (parse_ipv4 (last parts))
         else Some (map Inl parts))"

text \<open>The interior positions where nothing stands between two colons.\<close>

definition skips :: "(string + int) list \<Rightarrow> nat list" where
  "skips parts = filter (\<lambda>i. parts ! i = Inl []) [1..<length parts - 1]"

text \<open>How many parts stand before and after the run of zeroes, and how long it is.\<close>

definition ipv6_layout :: "(string + int) list \<Rightarrow> (nat \<times> nat \<times> nat) option" where
  "ipv6_layout parts =
     (case skips parts of
        [] \<Rightarrow> if length parts \<noteq> 8 \<or> hd parts = Inl [] \<or> last parts = Inl [] then None else Some (8, 0, 0)
      | [i] \<Rightarrow>
          (let hi = (if hd parts = Inl [] then i - 1 else i);
               after = length parts - i - 1;
               lo = (if last parts = Inl [] then after - 1 else after)
           in if hd parts = Inl [] \<and> hi \<noteq> 0 \<or> last parts = Inl [] \<and> lo \<noteq> 0 \<or> 8 < hi + lo + 1 then None
              else Some (hi, 8 - (hi + lo), lo))
      | _ \<Rightarrow> None)"

fun all_some :: "'a option list \<Rightarrow> 'a list option" where
  "all_some [] = Some []"
| "all_some (x # xs) = (case x of None \<Rightarrow> None | Some v \<Rightarrow> map_option ((#) v) (all_some xs))"

definition parse_ipv6_number :: "string \<Rightarrow> 128 word option" where
  "parse_ipv6_number s =
     (case ipv6_parts s of
        None \<Rightarrow> None
      | Some parts \<Rightarrow>
          if length parts > 9 then None
          else
            (case ipv6_layout parts of
               None \<Rightarrow> None
             | Some (hi, skipped, lo) \<Rightarrow>
                 map_option (\<lambda>ns. of_int (join_hextets ns))
                   (all_some (map parse_hextet (take hi parts @ replicate skipped (Inr 0) @ drop (length parts - lo) parts)))))"

definition parse_ipv6 :: "string \<Rightarrow> IpAddress option" where
  "parse_ipv6 s =
     (let (addr, zoned, zone) = partition_at (CHR ''%'') s
      in if CHR ''/'' \<in> set s \<or> zoned \<and> (zone = [] \<or> CHR ''%'' \<in> set zone) then None
         else map_option (\<lambda>a. V6 a (if zoned then Some zone else None)) (parse_ipv6_number addr))"

definition ip_address :: "string \<Rightarrow> IpAddress option" where
  "ip_address s = (case parse_ipv4 s of Some a \<Rightarrow> Some (V4 a) | None \<Rightarrow> parse_ipv6 s)"

section \<open>The \<open>inet_aton\<close> grammar\<close>

text \<open>
  Python's \<open>int(s, base)\<close> of a text that begins with a digit: white space around it, the prefix of the base,
  digits with single underscores between them.
\<close>

fun digit_run :: "int \<Rightarrow> int \<Rightarrow> bool \<Rightarrow> string \<Rightarrow> int option" where
  "digit_run base acc ok [] = (if ok then Some acc else None)"
| "digit_run base acc ok (c # s) =
     (if c = CHR ''_'' then (if ok then digit_run base acc False s else None)
      else case digit_value c of
        None \<Rightarrow> None
      | Some d \<Rightarrow> if d < base then digit_run base (acc * base + d) True s else None)"

text \<open>The character of a digit, in lower case, and reading digits back.\<close>

definition digit_of :: "nat \<Rightarrow> char" where
  "digit_of d = char_of (if d < 10 then 48 + d else 87 + d)"

lemma of_char_int: "(of_char c :: int) = int (of_char c)"
  by (simp add: of_nat_of_char)

lemma digit_of_facts:
  assumes "d < 16"
  shows "digit_value (digit_of d) = Some (int d)" "lower_char (digit_of d) = digit_of d" "\<not> is_space (digit_of d)"
    "is_digit (digit_of d) \<longleftrightarrow> d < 10" "digit_of d = CHR ''0'' \<longleftrightarrow> d = 0"
    "digit_of d \<notin> set ''.[]:_xo''" "digit_of d \<notin> set ''{}-+Xur''"
proof -
  have "list_all (\<lambda>d. digit_value (digit_of d) = Some (int d) \<and> lower_char (digit_of d) = digit_of d
      \<and> \<not> is_space (digit_of d) \<and> (is_digit (digit_of d) \<longleftrightarrow> d < 10) \<and> (digit_of d = CHR ''0'' \<longleftrightarrow> d = 0)
      \<and> digit_of d \<notin> set ''.[]:_xo'' \<and> digit_of d \<notin> set ''{}-+Xur'') [0..<16]"
    by (simp add: upt_rec digit_of_def digit_value_def is_digit_def is_lower_def is_upper_def lower_char_def is_space_def char_of_eq_iff of_char_int)
  then show "digit_value (digit_of d) = Some (int d)" "lower_char (digit_of d) = digit_of d" "\<not> is_space (digit_of d)"
    "is_digit (digit_of d) \<longleftrightarrow> d < 10" "digit_of d = CHR ''0'' \<longleftrightarrow> d = 0" "digit_of d \<notin> set ''.[]:_xo''"
    "digit_of d \<notin> set ''{}-+Xur''"
    using assms by (simp_all add: list_all_iff)
qed

lemma digit_run_digits:
  assumes "\<forall>c \<in> set s. \<exists>d < b. c = digit_of d" "b \<le> 16" "s \<noteq> [] \<or> ok"
  shows "digit_run (int b) acc ok s = Some (foldl (\<lambda>a c. a * int b + the (digit_value c)) acc s)"
  using assms
proof (induction s arbitrary: acc ok)
  case (Cons c s)
  obtain d where d: "d < b" "c = digit_of d" using Cons.prems by auto
  have "c \<noteq> CHR ''_''" "digit_value c = Some (int d)" using digit_of_facts(1,6)[of d] d Cons.prems(2) by auto
  then show ?case using Cons.IH[of True "acc * int b + int d"] Cons.prems d by simp
qed simp

definition py_int :: "int \<Rightarrow> string \<Rightarrow> int option" where
  "py_int base s =
     (let t = str_strip s;
          prefixed = (base = 16 \<and> starts_with ''0x'' t \<or> base = 8 \<and> starts_with ''0o'' t);
          body = (if prefixed then drop 2 t else t)
      in digit_run base 0 False (if prefixed \<and> starts_with ''_'' body then tl body else body))"

definition parse_octet :: "string \<Rightarrow> int option" where
  "parse_octet part =
     (let lowered = str_lower part
      in if part = [] then None
         else if starts_with ''0x'' lowered then py_int 16 lowered
         else if starts_with ''0'' lowered \<and> length lowered > 1 then py_int 8 lowered
         else if \<not> list_all is_digit lowered then None
         else py_int 10 lowered)"

definition strip_brackets :: "string \<Rightarrow> string" where
  "strip_brackets s =
     (let brackets = (\<lambda>c. c \<in> {CHR ''['', CHR '']''})
      in rev (dropWhile brackets (rev (dropWhile brackets s))))"

text \<open>The numbers of the parts: the last one absorbs the bytes the others do not name.\<close>

definition inet_number :: "int list \<Rightarrow> 32 word option" where
  "inet_number values =
     (let leading = butlast values; final = last values; remaining_bytes = 4 - length leading
      in if final \<ge> 2 ^ (8 * remaining_bytes) then None
         else if list_ex (\<lambda>v. v > 255) leading then None
         else Some (of_int (foldl (\<lambda>n v. n * 256 + v) 0 leading * 2 ^ (8 * remaining_bytes) + final)))"

definition as_ip_literal :: "string \<Rightarrow> IpAddress option" where
  "as_ip_literal host =
     (let stripped = strip_brackets host
      in case ip_address stripped of
           Some a \<Rightarrow> Some a
         | None \<Rightarrow>
             (let parts = split_on (CHR ''.'') stripped
              in if length parts > 4 then None
                 else case all_some (map parse_octet parts) of
                   None \<Rightarrow> None
                 | Some values \<Rightarrow> map_option V4 (inet_number values)))"

end
