(* ===== verification/Urls.thy ===== *)
theory Urls
  imports IpAddresses
begin

text \<open>
  \<open>app/sources/urls.py\<close>: reading a URL with \<open>urllib.parse.urlsplit\<close>, the policy on its parts, the resolution of its
  host and the check of every address.  The resolver of the machine is a parameter, a function from host and port to
  the texts of the addresses it answers with; \<open>None\<close> is its \<open>gaierror\<close>.
\<close>

section \<open>Splitting a URL\<close>

text \<open>
  \<open>urlsplit\<close> of CPython 3.12 on texts of the first 256 code points, for which the NFKC check of the network location
  never fails.  \<open>None\<close> is its \<open>ValueError\<close>.
\<close>

record SplitResult =
  us_scheme :: string
  us_netloc :: string
  us_path :: string
  us_query :: string
  us_fragment :: string

definition is_c0_or_space :: "char \<Rightarrow> bool" where
  "is_c0_or_space c \<longleftrightarrow> (of_char c :: nat) \<le> 32"

definition is_alpha :: "char \<Rightarrow> bool" where
  "is_alpha c \<longleftrightarrow> is_lower c \<or> is_upper c"

definition is_alnum :: "char \<Rightarrow> bool" where
  "is_alnum c \<longleftrightarrow> is_alpha c \<or> is_digit c"

definition scheme_char :: "char \<Rightarrow> bool" where
  "scheme_char c \<longleftrightarrow> is_alnum c \<or> c \<in> set ''+-.''"

text \<open>Leading control characters and spaces go, and tabs and line breaks everywhere.\<close>

definition clean_url :: "string \<Rightarrow> string" where
  "clean_url url = filter (\<lambda>c. (of_char c :: nat) \<notin> {9, 10, 13}) (dropWhile is_c0_or_space url)"

definition split_scheme :: "string \<Rightarrow> string \<times> string" where
  "split_scheme url =
     (let (front, found, rest) = partition_at (CHR '':'') url
      in if found \<and> front \<noteq> [] \<and> is_alpha (hd front) \<and> list_all scheme_char front then (str_lower front, rest)
         else ([], url))"

definition split_netloc :: "string \<Rightarrow> string \<times> string" where
  "split_netloc url =
     (if starts_with ''//'' url
      then (takeWhile (\<lambda>c. c \<notin> set ''/?#'') (drop 2 url), dropWhile (\<lambda>c. c \<notin> set ''/?#'') (drop 2 url))
      else ([], url))"

text \<open>\<open>_check_bracketed_host\<close>: a later version, \<open>v\<close> hex digits \<open>.\<close> anything, or a version 6 address.\<close>

definition bracketed_ok :: "string \<Rightarrow> bool" where
  "bracketed_ok host \<longleftrightarrow>
     (if starts_with ''v'' host
      then (let (version, dot, rest) = partition_at (CHR ''.'') (tl host)
            in version \<noteq> [] \<and> list_all (digit_below 16) version \<and> dot \<and> rest \<noteq> [])
      else (case ip_address host of Some (V6 a z) \<Rightarrow> True | _ \<Rightarrow> False))"

definition netloc_ok :: "string \<Rightarrow> bool" where
  "netloc_ok netloc \<longleftrightarrow>
     (CHR ''['' \<in> set netloc \<longleftrightarrow> CHR '']'' \<in> set netloc)
     \<and> (CHR ''['' \<in> set netloc \<longrightarrow>
          bracketed_ok (fst (partition_at (CHR '']'') (snd (snd (partition_at (CHR ''['') netloc))))))"

definition urlsplit :: "string \<Rightarrow> SplitResult option" where
  "urlsplit raw =
     (let (scheme, rest) = split_scheme (clean_url raw);
          (netloc, rest) = split_netloc rest;
          (rest, _, fragment) = partition_at (CHR ''#'') rest;
          (path, _, query) = partition_at (CHR ''?'') rest
      in if netloc_ok netloc
         then Some \<lparr>us_scheme = scheme, us_netloc = netloc, us_path = path, us_query = query, us_fragment = fragment\<rparr>
         else None)"

text \<open>\<open>netloc.rpartition('@')\<close>.\<close>

definition after_at :: "string \<Rightarrow> string" where
  "after_at netloc = rev (takeWhile (\<lambda>c. c \<noteq> CHR ''@'') (rev netloc))"

definition userinfo :: "string \<Rightarrow> string option" where
  "userinfo netloc =
     (if CHR ''@'' \<in> set netloc then Some (take (length netloc - length (after_at netloc) - 1) netloc) else None)"

text \<open>\<open>parts.username or parts.password\<close>: whether either is there and not empty.\<close>

definition has_credentials :: "SplitResult \<Rightarrow> bool" where
  "has_credentials parts \<longleftrightarrow>
     (case userinfo (us_netloc parts) of
        None \<Rightarrow> False
      | Some info \<Rightarrow> (let (username, _, password) = partition_at (CHR '':'') info in username \<noteq> [] \<or> password \<noteq> []))"

definition hostinfo :: "SplitResult \<Rightarrow> string \<times> string" where
  "hostinfo parts =
     (let info = after_at (us_netloc parts); (_, bracket, bracketed) = partition_at (CHR ''['') info
      in if bracket
         then (let (host, _, rest) = partition_at (CHR '']'') bracketed in (host, snd (snd (partition_at (CHR '':'') rest))))
         else (let (host, _, port) = partition_at (CHR '':'') info in (host, port)))"

text \<open>\<open>parts.hostname or ""\<close>: lower case, but for the zone of an address.\<close>

definition hostname :: "SplitResult \<Rightarrow> string" where
  "hostname parts =
     (let (host, percent, zone) = partition_at (CHR ''%'') (fst (hostinfo parts))
      in str_lower host @ (if percent then ''%'' @ zone else []))"

text \<open>\<open>parts.port\<close>: \<open>None\<close> is its \<open>ValueError\<close>, \<open>Some None\<close> that there is none.\<close>

definition url_port :: "SplitResult \<Rightarrow> int option option" where
  "url_port parts =
     (let port = snd (hostinfo parts)
      in if port = [] then Some None
         else if list_all is_digit port \<and> number 10 port \<le> 65535 then Some (Some (number 10 port))
         else None)"

section \<open>The policy\<close>

definition ALLOWED_SCHEMES :: "string set" where "ALLOWED_SCHEMES = {''http'', ''https''}"

definition BLOCKED_PORTS :: "int set" where
  "BLOCKED_PORTS = {22, 23, 25, 110, 143, 465, 587, 1433, 3306, 3389, 5432, 6379, 9200, 11211, 27017}"

definition DEFAULT_PORTS :: "string \<rightharpoonup> int" where
  "DEFAULT_PORTS = [''http'' \<mapsto> 80, ''https'' \<mapsto> 443]"

definition BLOCKED_HOSTNAMES :: "string set" where
  "BLOCKED_HOSTNAMES =
     {''localhost'', ''localhost.localdomain'', ''ip6-localhost'', ''ip6-loopback'', ''metadata'',
      ''metadata.google.internal'', ''instance-data''}"

datatype refusal =
  SchemeNotAllowed | CredentialsInUrl | MissingHost | InvalidPort | PortNotAllowed | BlockedHostname
| DomainBlocked | DomainNotAllowed | BlockedAddress | InvalidHostname | DnsResolutionFailed | DnsResolutionEmpty
| PeerAddressNotApproved

text \<open>What \<open>validate_url\<close> raises: a refusal, or the \<open>ValueError\<close> of \<open>urlsplit\<close>, which it does not catch.\<close>

datatype url_error = UrlRefused refusal | MalformedUrl

record ValidatedUrl =
  vu_url :: string
  vu_scheme :: string
  vu_host :: string
  vu_port :: int
  vu_addresses :: "IpAddress list"

definition permits :: "ValidatedUrl \<Rightarrow> string \<Rightarrow> bool" where
  "permits v peer = (case ip_address peer of None \<Rightarrow> False | Some resolved \<Rightarrow> resolved \<in> set (vu_addresses v))"

definition matches_domain :: "string \<Rightarrow> string \<Rightarrow> bool" where
  "matches_domain host domain \<longleftrightarrow> host = domain \<or> ends_with (''.'' @ domain) host"

definition check_domain_policy :: "string \<Rightarrow> string set option \<Rightarrow> string set \<Rightarrow> refusal option" where
  "check_domain_policy host allowed_domains blocked_domains =
     (if \<exists>b \<in> blocked_domains. matches_domain host b then Some DomainBlocked
      else case allowed_domains of
        None \<Rightarrow> None
      | Some allowed \<Rightarrow> if \<exists>a \<in> allowed. matches_domain host a then None else Some DomainNotAllowed)"

text \<open>
  The expression \<open>_LABEL\<close>: letters, digits and inner hyphens, at most 63.  Its \<open>$\<close> also matches before a final line
  break, which no host of \<open>urlsplit\<close> has.
\<close>

definition label_ok :: "string \<Rightarrow> bool" where
  "label_ok l \<longleftrightarrow>
     l \<noteq> [] \<and> length l \<le> 63 \<and> is_alnum (hd l) \<and> is_alnum (last l) \<and> list_all (\<lambda>c. is_alnum c \<or> c = CHR ''-'') l"

definition is_plausible_hostname :: "string \<Rightarrow> bool" where
  "is_plausible_hostname host \<longleftrightarrow>
     length host \<le> 253 \<and> CHR ''.'' \<in> set host \<and> list_all label_ok (split_on (CHR ''.'') host)"

type_synonym dns_resolver = "string \<Rightarrow> int \<Rightarrow> string list option"

text \<open>Every address the resolver answers with, once.\<close>

definition resolve_host :: "dns_resolver \<Rightarrow> string \<Rightarrow> int \<Rightarrow> refusal + IpAddress list" where
  "resolve_host getaddrinfo host port =
     (case getaddrinfo host port of
        None \<Rightarrow> Inl DnsResolutionFailed
      | Some infos \<Rightarrow>
          (let addresses = dict_fromkeys (List.map_filter ip_address infos)
           in if addresses = [] then Inl DnsResolutionEmpty else Inr addresses))"

definition host_addresses :: "dns_resolver \<Rightarrow> string \<Rightarrow> int \<Rightarrow> refusal + IpAddress list" where
  "host_addresses getaddrinfo host port =
     (case as_ip_literal host of
        Some literal \<Rightarrow> if is_blocked_address literal then Inl BlockedAddress else Inr [literal]
      | None \<Rightarrow>
          if \<not> is_plausible_hostname host then Inl InvalidHostname
          else (case resolve_host getaddrinfo host port of
                  Inl e \<Rightarrow> Inl e
                | Inr addresses \<Rightarrow>
                    if list_ex is_blocked_address addresses then Inl BlockedAddress else Inr addresses))"

definition rstrip_dots :: "string \<Rightarrow> string" where
  "rstrip_dots s = rev (dropWhile (\<lambda>c. c = CHR ''.'') (rev s))"

text \<open>\<open>urlunsplit\<close> of a URL with a scheme and a network location, without its fragment.\<close>

definition unsplit :: "SplitResult \<Rightarrow> string" where
  "unsplit parts =
     (let path = (if us_path parts = [] then ''/'' else us_path parts)
      in str_lower (us_scheme parts) @ ''://'' @ us_netloc parts @ path
         @ (if us_query parts = [] then [] else ''?'' @ us_query parts))"

definition validate_url ::
  "dns_resolver \<Rightarrow> string set option \<Rightarrow> string set \<Rightarrow> string \<Rightarrow> url_error + ValidatedUrl" where
  "validate_url getaddrinfo allowed_domains blocked_domains raw =
     (case urlsplit (str_strip raw) of
        None \<Rightarrow> Inl MalformedUrl
      | Some parts \<Rightarrow>
          (let host = str_lower (rstrip_dots (str_strip (hostname parts))) in
           if us_scheme parts \<notin> ALLOWED_SCHEMES then Inl (UrlRefused SchemeNotAllowed)
           else if has_credentials parts then Inl (UrlRefused CredentialsInUrl)
           else if host = [] then Inl (UrlRefused MissingHost)
           else
             (case url_port parts of
                None \<Rightarrow> Inl (UrlRefused InvalidPort)
              | Some given \<Rightarrow>
                  (let port = (case given of
                                 Some p \<Rightarrow> if p = 0 then the (DEFAULT_PORTS (us_scheme parts)) else p
                               | None \<Rightarrow> the (DEFAULT_PORTS (us_scheme parts)))
                   in if port \<in> BLOCKED_PORTS then Inl (UrlRefused PortNotAllowed)
                      else if host \<in> BLOCKED_HOSTNAMES \<or> ends_with ''.localhost'' host \<or> ends_with ''.internal'' host
                      then Inl (UrlRefused BlockedHostname)
                      else
                        (case check_domain_policy host allowed_domains blocked_domains of
                           Some e \<Rightarrow> Inl (UrlRefused e)
                         | None \<Rightarrow>
                             (case host_addresses getaddrinfo host port of
                                Inl e \<Rightarrow> Inl (UrlRefused e)
                              | Inr addresses \<Rightarrow>
                                  Inr \<lparr>vu_url = unsplit parts, vu_scheme = us_scheme parts, vu_host = host,
                                       vu_port = port, vu_addresses = addresses\<rparr>))))))"

section \<open>The registrable domain\<close>

definition registrable_domain :: "string \<Rightarrow> string" where
  "registrable_domain host =
     (let labels = split_on (CHR ''.'') (str_lower (rstrip_dots host)); n = length labels
      in if n \<le> 2 then str_join ''.'' labels
         else if length (last labels) = 2 \<and> length (labels ! (n - 2)) \<le> 3 then str_join ''.'' (drop (n - 3) labels)
         else str_join ''.'' (drop (n - 2) labels))"

end
