(* ===== verification/SafeFetch.thy ===== *)
theory SafeFetch
  imports Urls "HOL-Library.AList"
begin

text \<open>
  \<open>app/sources/http.py\<close>, the one outbound HTTP client: the loop over redirects, the check of the connected peer and the cap
  on the body.  What resolvers and servers answer is a parameter and may differ from hop to hop; so is the joining of a
  redirect's location to the URL that gave it (\<open>httpx.URL.join\<close>), whose \<open>None\<close> is its exception.
\<close>

section \<open>What the wire gives\<close>

text \<open>
  An answer: the peer the transport reports, if it reports one, the status, the headers under their names in lower
  case, and the pieces of the body with the failure that ends them early, if one does.
\<close>

datatype transport_error = TimedOut | ConnectionFailed

record Answer =
  an_peer :: "string option"
  an_status :: int
  an_headers :: "(string \<times> string) list"
  an_body :: "string list"
  an_broken :: "transport_error option"

datatype exchange = Failed transport_error | Answered Answer

datatype fetch_error =
  NotFetchable url_error | FetchTimeout | UpstreamUnavailable | UpstreamRateLimited "string option"
| UpstreamRejected | ResponseTooLarge | TooManyRedirects | InvalidRedirect | MalformedLength

record 'j Request =
  rq_method :: string
  rq_url :: ValidatedUrl
  rq_headers :: "(string \<times> string) list"
  rq_json :: "'j option"

record HttpResponse =
  hr_url :: string
  hr_final_url :: string
  hr_status_code :: int
  hr_headers :: "(string \<times> string) list"
  hr_content :: string
  hr_redirects :: "string list"

record SafeHttpClient =
  hc_max_bytes :: nat
  hc_max_redirects :: nat
  hc_allowed_domains :: "string set option"
  hc_blocked_domains :: "string set"

section \<open>One hop\<close>

definition transport_failure :: "transport_error \<Rightarrow> fetch_error" where
  "transport_failure e = (case e of TimedOut \<Rightarrow> FetchTimeout | ConnectionFailed \<Rightarrow> UpstreamUnavailable)"

text \<open>Whether the peer check lets an answer through; a transport that reports no peer is let through.\<close>

definition verify_peer :: "Answer \<Rightarrow> ValidatedUrl \<Rightarrow> bool" where
  "verify_peer a validated = (case an_peer a of None \<Rightarrow> True | Some peer \<Rightarrow> permits validated peer)"

text \<open>
  The declared length.  \<open>str.isdigit\<close> also holds of the three superscript digits of Latin-1, and Python's \<open>int\<close> raises on
  them and on more than 4300 digits.
\<close>

definition py_isdigit :: "string \<Rightarrow> bool" where
  "py_isdigit s \<longleftrightarrow> s \<noteq> [] \<and> list_all (\<lambda>c. is_digit c \<or> (of_char c :: nat) \<in> {178, 179, 185}) s"

definition declared_length :: "Answer \<Rightarrow> fetch_error + int option" where
  "declared_length a =
     (case map_of (an_headers a) ''content-length'' of
        None \<Rightarrow> Inr None
      | Some declared \<Rightarrow>
          if \<not> py_isdigit declared then Inr None
          else if list_all is_digit declared \<and> length declared \<le> 4300 then Inr (Some (number 10 declared))
          else Inl MalformedLength)"

text \<open>The pieces read, the last of which may be the one that passes the cap, and what becomes of them.\<close>

fun read_body :: "nat \<Rightarrow> nat \<Rightarrow> transport_error option \<Rightarrow> string list \<Rightarrow> string list \<times> (fetch_error + string)" where
  "read_body max_bytes so_far broken [] = ([], case broken of None \<Rightarrow> Inr [] | Some e \<Rightarrow> Inl (transport_failure e))"
| "read_body max_bytes so_far broken (piece # pieces) =
     (let so_far = so_far + length piece
      in if so_far > max_bytes then ([piece], Inl ResponseTooLarge)
         else (let (got, r) = read_body max_bytes so_far broken pieces in (piece # got, map_sum id (\<lambda>b. piece @ b) r)))"

definition request ::
  "nat \<Rightarrow> ValidatedUrl \<Rightarrow> exchange \<Rightarrow> string list \<times> (fetch_error + Answer \<times> string)" where
  "request max_bytes validated exchange =
     (case exchange of
        Failed e \<Rightarrow> ([], Inl (transport_failure e))
      | Answered a \<Rightarrow>
          if \<not> verify_peer a validated then ([], Inl (NotFetchable (UrlRefused PeerAddressNotApproved)))
          else
            (case declared_length a of
               Inl e \<Rightarrow> ([], Inl e)
             | Inr declared \<Rightarrow>
                 if (case declared of None \<Rightarrow> False | Some n \<Rightarrow> n > int max_bytes) then ([], Inl ResponseTooLarge)
                 else (let (got, r) = read_body max_bytes 0 (an_broken a) (an_body a)
                       in (got, map_sum id (\<lambda>body. (a, body)) r))))"

definition RETRYABLE_STATUSES :: "int set" where "RETRYABLE_STATUSES = {408, 425, 429, 500, 502, 503, 504}"

text \<open>The error of a status, if it is one; the text of \<open>Retry-After\<close> is kept as it came.\<close>

definition raise_for_status :: "Answer \<Rightarrow> fetch_error option" where
  "raise_for_status a =
     (let status = an_status a
      in if status < 400 then None
         else if status = 429 then Some (UpstreamRateLimited (map_of (an_headers a) ''retry-after''))
         else if status \<in> RETRYABLE_STATUSES \<or> status \<ge> 500 then Some UpstreamUnavailable
         else Some UpstreamRejected)"

definition REDIRECTS :: "int set" where "REDIRECTS = {301, 302, 303, 307, 308}"

section \<open>The loop\<close>

text \<open>A hop as it happened: the request sent, what came back, and the pieces of the body that were read.\<close>

record 'j hop =
  hp_request :: "'j Request"
  hp_exchange :: exchange
  hp_read :: "string list"

text \<open>\<open>left\<close> is \<open>max_redirects - hop\<close>.\<close>

fun send_from ::
  "SafeHttpClient \<Rightarrow> (nat \<Rightarrow> dns_resolver) \<Rightarrow> (nat \<Rightarrow> 'j Request \<Rightarrow> exchange) \<Rightarrow> (string \<Rightarrow> string \<Rightarrow> string option)
     \<Rightarrow> string \<Rightarrow> (string \<times> string) list \<Rightarrow> nat \<Rightarrow> nat \<Rightarrow> nat \<Rightarrow> string \<Rightarrow> 'j option \<Rightarrow> string \<Rightarrow> string list
     \<Rightarrow> 'j hop list \<times> (fetch_error + HttpResponse)" where
  "send_from cl dns wire join url headers max_bytes hop left meth json current redirects =
     (case validate_url (dns hop) (hc_allowed_domains cl) (hc_blocked_domains cl) current of
        Inl e \<Rightarrow> ([], Inl (NotFetchable e))
      | Inr validated \<Rightarrow>
          (let rq = \<lparr>rq_method = meth, rq_url = validated, rq_headers = headers, rq_json = json\<rparr>;
               exchange = wire hop rq;
               (got, result) = request max_bytes validated exchange;
               log = [\<lparr>hp_request = rq, hp_exchange = exchange, hp_read = got\<rparr>]
           in case result of
                Inl e \<Rightarrow> (log, Inl e)
              | Inr (answer, body) \<Rightarrow>
                  if an_status answer \<in> REDIRECTS then
                    (case map_of (an_headers answer) ''location'' of
                       None \<Rightarrow> (log, Inl TooManyRedirects)
                     | Some location \<Rightarrow>
                         if location = [] then (log, Inl TooManyRedirects)
                         else
                           (case join (vu_url validated) location of
                              None \<Rightarrow> (log, Inl InvalidRedirect)
                            | Some next \<Rightarrow>
                                (case left of
                                   0 \<Rightarrow> (log, Inl TooManyRedirects)
                                 | Suc left' \<Rightarrow>
                                     (let (rest, r) = send_from cl dns wire join url headers max_bytes (hop + 1) left'
                                                        ''GET'' None next (redirects @ [next])
                                      in (log @ rest, r)))))
                  else
                    (case raise_for_status answer of
                       Some e \<Rightarrow> (log, Inl e)
                     | None \<Rightarrow>
                         (log, Inr \<lparr>hr_url = url, hr_final_url = vu_url validated, hr_status_code = an_status answer,
                                     hr_headers = an_headers answer, hr_content = body, hr_redirects = redirects\<rparr>))))"

declare send_from.simps [simp del]

definition send ::
  "SafeHttpClient \<Rightarrow> (nat \<Rightarrow> dns_resolver) \<Rightarrow> (nat \<Rightarrow> 'j Request \<Rightarrow> exchange) \<Rightarrow> (string \<Rightarrow> string \<Rightarrow> string option)
     \<Rightarrow> string \<Rightarrow> string \<Rightarrow> (string \<times> string) list \<Rightarrow> nat option \<Rightarrow> 'j option
     \<Rightarrow> 'j hop list \<times> (fetch_error + HttpResponse)" where
  "send cl dns wire join meth url headers max_bytes json =
     (let cap = (case max_bytes of Some n \<Rightarrow> if n = 0 then hc_max_bytes cl else n | None \<Rightarrow> hc_max_bytes cl)
      in send_from cl dns wire join url headers cap 0 (hc_max_redirects cl) meth json url [])"

definition get ::
  "SafeHttpClient \<Rightarrow> (nat \<Rightarrow> dns_resolver) \<Rightarrow> (nat \<Rightarrow> 'j Request \<Rightarrow> exchange) \<Rightarrow> (string \<Rightarrow> string \<Rightarrow> string option)
     \<Rightarrow> string \<Rightarrow> (string \<times> string) list \<Rightarrow> nat option \<Rightarrow> 'j hop list \<times> (fetch_error + HttpResponse)" where
  "get cl dns wire join url headers max_bytes = send cl dns wire join ''GET'' url headers max_bytes None"

text \<open>\<open>a | b\<close> on dictionaries: the entries of \<open>b\<close> win.\<close>

definition merged :: "(string \<times> string) list \<Rightarrow> (string \<times> string) list \<Rightarrow> (string \<times> string) list" where
  "merged a b = foldl (\<lambda>d (k, v). AList.update k v d) a b"

text \<open>Whether the parse of the answer fails is the JSON parser's business: \<open>parse_json\<close> gives \<open>None\<close> then.\<close>

definition parsed ::
  "(HttpResponse \<Rightarrow> 'v option) \<Rightarrow> fetch_error + HttpResponse \<Rightarrow> fetch_error + 'v" where
  "parsed parse_json r =
     (case r of Inl e \<Rightarrow> Inl e
              | Inr resp \<Rightarrow> (case parse_json resp of None \<Rightarrow> Inl UpstreamRejected | Some v \<Rightarrow> Inr v))"

definition post_json ::
  "(HttpResponse \<Rightarrow> 'v option) \<Rightarrow> SafeHttpClient \<Rightarrow> (nat \<Rightarrow> dns_resolver) \<Rightarrow> (nat \<Rightarrow> 'j Request \<Rightarrow> exchange)
     \<Rightarrow> (string \<Rightarrow> string \<Rightarrow> string option) \<Rightarrow> string \<Rightarrow> 'j \<Rightarrow> (string \<times> string) list
     \<Rightarrow> 'j hop list \<times> (fetch_error + 'v)" where
  "post_json parse_json cl dns wire join url payload headers =
     (let (log, r) = send cl dns wire join ''POST'' url
            (merged [(''Content-Type'', ''application/json''), (''Accept'', ''application/json'')] headers) None (Some payload)
      in (log, parsed parse_json r))"

definition get_json ::
  "(HttpResponse \<Rightarrow> 'v option) \<Rightarrow> SafeHttpClient \<Rightarrow> (nat \<Rightarrow> dns_resolver) \<Rightarrow> (nat \<Rightarrow> 'j Request \<Rightarrow> exchange)
     \<Rightarrow> (string \<Rightarrow> string \<Rightarrow> string option) \<Rightarrow> string \<Rightarrow> (string \<times> string) list
     \<Rightarrow> 'j hop list \<times> (fetch_error + 'v)" where
  "get_json parse_json cl dns wire join url headers =
     (let (log, r) = get cl dns wire join url (merged [(''Accept'', ''application/json'')] headers) None
      in (log, parsed parse_json r))"

section \<open>The type of a response\<close>

definition content_type :: "HttpResponse \<Rightarrow> string" where
  "content_type r =
     (let raw = (case map_of (hr_headers r) ''content-type'' of None \<Rightarrow> [] | Some v \<Rightarrow> v)
      in str_lower (str_strip (fst (partition_at (CHR '';'') raw))))"

definition strip_quotes :: "string \<Rightarrow> string" where
  "strip_quotes s =
     (let quote = (\<lambda>c. (of_char c :: nat) \<in> {34, 39}) in rev (dropWhile quote (rev (dropWhile quote s))))"

definition charset_of_part :: "string \<Rightarrow> string option" where
  "charset_of_part part =
     (let (key, _, v) = partition_at (CHR ''='') (str_strip part)
      in if str_lower key = ''charset'' then Some (strip_quotes v) else None)"

text \<open>The first \<open>charset\<close> parameter decides, even when it is empty.\<close>

definition charset :: "HttpResponse \<Rightarrow> string option" where
  "charset r =
     (let raw = (case map_of (hr_headers r) ''content-type'' of None \<Rightarrow> [] | Some v \<Rightarrow> v)
      in case List.map_filter charset_of_part (tl (split_on (CHR '';'') raw)) of
           [] \<Rightarrow> None
         | c # _ \<Rightarrow> if c = [] then None else Some c)"

end
