(* ===== verification/FetchProperties.thy ===== *)
theory FetchProperties
  imports SafeFetch
begin

text \<open>What the guard of the fetcher guarantees: of one URL, of one fetch with all its redirects, and of addresses.\<close>

section \<open>A validated URL\<close>

text \<open>What may be requested: the parts within the policy, and addresses of the host, none of them blocked.\<close>

definition address_of :: "dns_resolver \<Rightarrow> string \<Rightarrow> int \<Rightarrow> IpAddress \<Rightarrow> bool" where
  "address_of getaddrinfo host port a \<longleftrightarrow>
     as_ip_literal host = Some a
     \<or> as_ip_literal host = None \<and> (\<exists>infos. getaddrinfo host port = Some infos \<and> Some a \<in> ip_address ` set infos)"

definition approved :: "dns_resolver \<Rightarrow> string set option \<Rightarrow> string set \<Rightarrow> ValidatedUrl \<Rightarrow> bool" where
  "approved getaddrinfo allowed blocked v \<longleftrightarrow>
     vu_scheme v \<in> ALLOWED_SCHEMES \<and> vu_host v \<noteq> [] \<and> vu_port v \<notin> BLOCKED_PORTS \<and> vu_host v \<notin> BLOCKED_HOSTNAMES
     \<and> check_domain_policy (vu_host v) allowed blocked = None
     \<and> vu_addresses v \<noteq> []
     \<and> (\<forall>a \<in> set (vu_addresses v). \<not> is_blocked_address a \<and> address_of getaddrinfo (vu_host v) (vu_port v) a)"

lemma host_addresses_sound:
  assumes "host_addresses g host port = Inr as"
  shows "as \<noteq> [] \<and> (\<forall>a \<in> set as. \<not> is_blocked_address a \<and> address_of g host port a)"
  using assms
  by (auto simp: host_addresses_def resolve_host_def address_of_def list_ex_iff Let_def List.map_filter_def image_iff
        split: option.splits if_splits sum.splits) force+

lemma validate_url_sound:
  assumes "validate_url g allowed blocked raw = Inr v"
  shows "approved g allowed blocked v"
proof -
  obtain parts where "urlsplit (str_strip raw) = Some parts" "vu_scheme v = us_scheme parts"
    "us_scheme parts \<in> ALLOWED_SCHEMES" "vu_host v \<noteq> []" "vu_port v \<notin> BLOCKED_PORTS" "vu_host v \<notin> BLOCKED_HOSTNAMES"
    "check_domain_policy (vu_host v) allowed blocked = None" "host_addresses g (vu_host v) (vu_port v) = Inr (vu_addresses v)"
    using assms by (auto simp: validate_url_def Let_def split: option.splits if_splits sum.splits)
  then show ?thesis using host_addresses_sound[of g "vu_host v" "vu_port v"] by (simp add: approved_def)
qed

section \<open>A fetch\<close>

definition peer_approved :: "exchange \<Rightarrow> ValidatedUrl \<Rightarrow> bool" where
  "peer_approved e v \<longleftrightarrow> (\<exists>a. e = Answered a \<and> (\<forall>peer. an_peer a = Some peer \<longrightarrow> permits v peer))"

text \<open>Within the cap a body is read whole; past it, by at most the piece that passed it.\<close>

lemma read_body_facts:
  "n \<le> m \<Longrightarrow> read_body m n broken pieces = (got, r) \<Longrightarrow>
     (\<forall>body. r = Inr body \<longrightarrow> broken = None \<and> got = pieces \<and> body = concat pieces \<and> n + length body \<le> m)
     \<and> n + length (concat (butlast got)) \<le> m"
proof (induction m n broken pieces arbitrary: got r rule: read_body.induct)
  case (2 m n broken piece pieces)
  show ?case
  proof (cases "n + length piece > m")
    case False
    obtain got' r' where rest: "read_body m (n + length piece) broken pieces = (got', r')" by fastforce
    then have "got = piece # got'" "r = map_sum id (\<lambda>b. piece @ b) r'" using 2(3) False by simp_all
    moreover have "(\<forall>body. r' = Inr body \<longrightarrow> broken = None \<and> got' = pieces \<and> body = concat pieces \<and> n + length piece + length body \<le> m)
        \<and> n + length piece + length (concat (butlast got')) \<le> m"
      using 2(1)[OF refl False _ rest] False by simp
    ultimately show ?thesis using 2(2) by (cases r'; cases got') auto
  qed (use 2 in auto)
qed (auto split: option.splits)

lemma request_facts:
  assumes "request m v e = (got, r)"
  shows "(got \<noteq> [] \<longrightarrow> peer_approved e v)
    \<and> length (concat (butlast got)) \<le> m
    \<and> (\<forall>a body. r = Inr (a, body) \<longrightarrow> e = Answered a \<and> peer_approved e v \<and> an_broken a = None \<and> got = an_body a
         \<and> body = concat (an_body a) \<and> length body \<le> m)"
proof (cases e)
  case (Answered a)
  then show ?thesis
  proof (cases "verify_peer a v")
    case True
    then have "peer_approved e v" using Answered by (auto simp: peer_approved_def verify_peer_def split: option.splits)
    moreover obtain got' r' where "read_body m 0 (an_broken a) (an_body a) = (got', r')" by fastforce
    moreover note read_body_facts[OF le0 this]
    ultimately show ?thesis using assms Answered True
      by (cases r') (auto simp: request_def split: sum.splits if_splits)
  qed (use assms in \<open>auto simp: request_def\<close>)
qed (use assms in \<open>auto simp: request_def\<close>)

text \<open>One hop of a fetch under the guard, and the log of a whole fetch, the hops counted from \<open>n\<close>.\<close>

definition hop_ok ::
  "SafeHttpClient \<Rightarrow> (nat \<Rightarrow> dns_resolver) \<Rightarrow> (nat \<Rightarrow> 'j Request \<Rightarrow> exchange) \<Rightarrow> nat \<Rightarrow> nat \<Rightarrow> 'j hop \<Rightarrow> bool" where
  "hop_ok cl dns wire cap i h \<longleftrightarrow>
     approved (dns i) (hc_allowed_domains cl) (hc_blocked_domains cl) (rq_url (hp_request h))
     \<and> hp_exchange h = wire i (hp_request h)
     \<and> (hp_read h \<noteq> [] \<longrightarrow> peer_approved (hp_exchange h) (rq_url (hp_request h)))
     \<and> length (concat (butlast (hp_read h))) \<le> cap"

definition log_ok ::
  "SafeHttpClient \<Rightarrow> (nat \<Rightarrow> dns_resolver) \<Rightarrow> (nat \<Rightarrow> 'j Request \<Rightarrow> exchange) \<Rightarrow> nat \<Rightarrow> nat \<Rightarrow> 'j hop list \<Rightarrow> bool" where
  "log_ok cl dns wire cap n trail \<longleftrightarrow>
     (\<forall>i < length trail. hop_ok cl dns wire cap (n + i) (trail ! i)
        \<and> (0 < i \<longrightarrow> rq_method (hp_request (trail ! i)) = ''GET'' \<and> rq_json (hp_request (trail ! i)) = None))"

lemma log_ok_Cons:
  assumes "hop_ok cl dns wire cap n h" "log_ok cl dns wire cap (n + 1) trail"
    and "trail \<noteq> [] \<Longrightarrow> rq_method (hp_request (hd trail)) = ''GET'' \<and> rq_json (hp_request (hd trail)) = None"
  shows "log_ok cl dns wire cap n (h # trail)"
  unfolding log_ok_def
proof (intro allI impI)
  fix i assume i: "i < length (h # trail)"
  show "hop_ok cl dns wire cap (n + i) ((h # trail) ! i)
      \<and> (0 < i \<longrightarrow> rq_method (hp_request ((h # trail) ! i)) = ''GET'' \<and> rq_json (hp_request ((h # trail) ! i)) = None)"
  proof (cases i)
    case 0
    then show ?thesis using assms(1) by simp
  next
    case (Suc j)
    then show ?thesis using assms(2,3) i by (cases j) (auto simp: log_ok_def hd_conv_nth)
  qed
qed

text \<open>What a fetch that answers returns is what the last hop read.\<close>

definition response_of :: "nat \<Rightarrow> 'j hop list \<Rightarrow> HttpResponse \<Rightarrow> bool" where
  "response_of cap trail resp \<longleftrightarrow>
     trail \<noteq> [] \<and> hr_final_url resp = vu_url (rq_url (hp_request (last trail)))
     \<and> (\<exists>a. hp_exchange (last trail) = Answered a \<and> an_broken a = None \<and> hp_read (last trail) = an_body a
          \<and> hr_content resp = concat (an_body a) \<and> hr_status_code resp = an_status a \<and> hr_headers resp = an_headers a)
     \<and> length (hr_content resp) \<le> cap
     \<and> hr_status_code resp < 400 \<and> hr_status_code resp \<notin> REDIRECTS
     \<and> peer_approved (hp_exchange (last trail)) (rq_url (hp_request (last trail)))
     \<and> length (hr_redirects resp) + 1 = length trail"

text \<open>The three ways a step of the loop goes: nothing is sent, the hop is the last one, or a redirect is followed.\<close>

lemma send_from_cases:
  assumes "send_from cl dns wire join url headers cap n left meth json current redirects = (trail, r)"
  obtains (refused) e where "trail = []" "r = Inl e"
  | (final) h where "trail = [h]" "hop_ok cl dns wire cap n h" "rq_method (hp_request h) = meth" "rq_json (hp_request h) = json"
      "rq_headers (hp_request h) = headers"
      "\<forall>resp. r = Inr resp \<longrightarrow> response_of cap [h] (resp\<lparr>hr_redirects := []\<rparr>) \<and> hr_redirects resp = redirects \<and> hr_url resp = url"
  | (follow) h left' nxt rest where "trail = h # rest" "left = Suc left'" "hop_ok cl dns wire cap n h"
      "rq_method (hp_request h) = meth" "rq_json (hp_request h) = json" "rq_headers (hp_request h) = headers"
      "send_from cl dns wire join url headers cap (n + 1) left' ''GET'' None nxt (redirects @ [nxt]) = (rest, r)"
proof (cases "validate_url (dns n) (hc_allowed_domains cl) (hc_blocked_domains cl) current")
  case (Inl e)
  then show ?thesis using assms refused[of "NotFetchable e"] by (simp add: send_from.simps)
next
  case (Inr v)
  let ?rq = "\<lparr>rq_method = meth, rq_url = v, rq_headers = headers, rq_json = json\<rparr>"
  obtain got result where req: "request cap v (wire n ?rq) = (got, result)" by fastforce
  let ?h = "\<lparr>hp_request = ?rq, hp_exchange = wire n ?rq, hp_read = got\<rparr>"
  have hop: "hop_ok cl dns wire cap n ?h"
    using validate_url_sound[OF Inr] request_facts[OF req] by (simp add: hop_ok_def)
  note step = assms[unfolded send_from.simps[of cl dns wire join url headers cap n left], simplified Inr req sum.case Let_def prod.case]
  show ?thesis
  proof (cases result)
    case (Inl e)
    then show ?thesis using step hop final[of ?h] by auto
  next
    case result: (Inr ab)
    obtain a body where ab: "ab = (a, body)" by fastforce
    have a: "wire n ?rq = Answered a" "peer_approved (wire n ?rq) v" "an_broken a = None" "got = an_body a"
      "body = concat (an_body a)" "length body \<le> cap"
      using request_facts[OF req] result ab by auto
    note step = step[unfolded result ab sum.case prod.case]
    show ?thesis
    proof (cases "an_status a \<in> REDIRECTS")
      case True
      then consider e where "trail = [?h]" "r = Inl e"
        | left' nxt rest where "trail = ?h # rest" "left = Suc left'"
          "send_from cl dns wire join url headers cap (n + 1) left' ''GET'' None nxt (redirects @ [nxt]) = (rest, r)"
        using step by (auto split: option.splits if_splits nat.splits prod.splits)
      then show ?thesis using hop final[of ?h] follow[of ?h] by cases auto
    next
      case False
      then consider e where "trail = [?h]" "r = Inl e"
        | "raise_for_status a = None" "trail = [?h]"
          "r = Inr \<lparr>hr_url = url, hr_final_url = vu_url v, hr_status_code = an_status a,
                   hr_headers = an_headers a, hr_content = body, hr_redirects = redirects\<rparr>"
        using step by (auto split: option.splits)
      then show ?thesis
        using hop final[of ?h] a False
        by cases (auto simp: response_of_def raise_for_status_def Let_def split: if_splits)
    qed
  qed
qed

lemma send_from_ok:
  assumes "send_from cl dns wire join url headers cap n left meth json current redirects = (trail, r)"
  shows "log_ok cl dns wire cap n trail \<and> length trail \<le> left + 1
    \<and> (trail \<noteq> [] \<longrightarrow> rq_method (hp_request (hd trail)) = meth \<and> rq_json (hp_request (hd trail)) = json)
    \<and> (\<forall>h \<in> set trail. rq_headers (hp_request h) = headers)
    \<and> (\<forall>resp. r = Inr resp \<longrightarrow> length redirects \<le> length (hr_redirects resp) \<and> hr_url resp = url
         \<and> response_of cap trail (resp\<lparr>hr_redirects := drop (length redirects) (hr_redirects resp)\<rparr>))"
  using assms
proof (induction left arbitrary: n meth json current redirects trail r rule: nat_less_induct)
  case (1 left n meth json current redirects trail r)
  from 1(2) show ?case
  proof (cases rule: send_from_cases)
    case (refused e)
    then show ?thesis by (simp add: log_ok_def)
  next
    case (final h)
    then show ?thesis by (auto simp: log_ok_def)
  next
    case (follow h left' nxt rest)
    have IH: "log_ok cl dns wire cap (n + 1) rest \<and> length rest \<le> left' + 1
      \<and> (rest \<noteq> [] \<longrightarrow> rq_method (hp_request (hd rest)) = ''GET'' \<and> rq_json (hp_request (hd rest)) = None)
      \<and> (\<forall>h \<in> set rest. rq_headers (hp_request h) = headers)
      \<and> (\<forall>resp. r = Inr resp \<longrightarrow> length (redirects @ [nxt]) \<le> length (hr_redirects resp) \<and> hr_url resp = url
           \<and> response_of cap rest (resp\<lparr>hr_redirects := drop (length (redirects @ [nxt])) (hr_redirects resp)\<rparr>))"
      using 1(1)[rule_format, OF _ follow(7)] follow(2) by simp
    then have "log_ok cl dns wire cap n trail" using follow(1,3) log_ok_Cons by blast
    moreover have "response_of cap trail (resp\<lparr>hr_redirects := drop (length redirects) (hr_redirects resp)\<rparr>)"
      if "r = Inr resp" for resp
      using IH that follow(1) by (auto simp: response_of_def)
    ultimately show ?thesis using IH follow by auto
  qed
qed

text \<open>
  The caller's headers go with every hop, whatever host it leads to: a credential among them, as the search and repository
  tools pass, is sent to the target of a redirect.
\<close>

lemma headers_follow_redirects:
  assumes "send cl dns wire join meth url headers max_bytes json = (trail, r)"
  shows "\<forall>h \<in> set trail. rq_headers (hp_request h) = headers"
proof -
  obtain cap where "send_from cl dns wire join url headers cap 0 (hc_max_redirects cl) meth json url [] = (trail, r)"
    using assms by (simp add: send_def Let_def)
  from send_from_ok[OF this] show ?thesis by blast
qed

text \<open>A URL \<open>urlsplit\<close> cannot read is not refused but raises.\<close>

lemma unreadable_url_raises: "validate_url getaddrinfo allowed blocked ''http://[::1'' = Inl MalformedUrl"
proof -
  have "urlsplit (str_strip ''http://[::1'') = None" by code_simp
  then show ?thesis by (simp add: validate_url_def)
qed

section \<open>Properties\<close>

text \<open>C32. Whatever resolvers and servers answer, and however they change between hops, the fetcher requests only URLs within
  the policy at addresses of their host none of which is blocked, at most one per allowed redirect and one more,
  reads no byte of a body before the connected peer is found among those addresses (where the transport
  reports it), reads past its cap by at most one piece, sends a body with the first request only, and returns
  only a successful answer from the last URL it validated: with the status and the headers that came, and with
  the whole body that came, every piece of it, of a connection that did not break, and within the cap.\<close>

theorem fetch_is_guarded:
  assumes "send cl dns wire join meth url headers max_bytes json = (trail, r)"
    and "cap = (case max_bytes of Some n \<Rightarrow> if n = 0 then hc_max_bytes cl else n | None \<Rightarrow> hc_max_bytes cl)"
  shows "length trail \<le> hc_max_redirects cl + 1
    \<and> (\<forall>i < length trail. let h = trail ! i; v = rq_url (hp_request h) in
         vu_scheme v \<in> ALLOWED_SCHEMES \<and> vu_port v \<notin> BLOCKED_PORTS \<and> vu_host v \<notin> BLOCKED_HOSTNAMES
         \<and> check_domain_policy (vu_host v) (hc_allowed_domains cl) (hc_blocked_domains cl) = None
         \<and> vu_addresses v \<noteq> []
         \<and> (\<forall>a \<in> set (vu_addresses v). \<not> is_blocked_address a \<and> address_of (dns i) (vu_host v) (vu_port v) a)
         \<and> hp_exchange h = wire i (hp_request h)
         \<and> (hp_read h \<noteq> [] \<longrightarrow> (\<exists>a. hp_exchange h = Answered a \<and> (\<forall>peer. an_peer a = Some peer \<longrightarrow> permits v peer)))
         \<and> length (concat (butlast (hp_read h))) \<le> cap
         \<and> (i > 0 \<longrightarrow> rq_method (hp_request h) = ''GET'' \<and> rq_json (hp_request h) = None))
    \<and> (\<forall>resp. r = Inr resp \<longrightarrow>
         trail \<noteq> [] \<and> hr_url resp = url \<and> hr_final_url resp = vu_url (rq_url (hp_request (last trail)))
         \<and> (\<exists>a. hp_exchange (last trail) = Answered a \<and> an_broken a = None \<and> hp_read (last trail) = an_body a
              \<and> hr_content resp = concat (an_body a) \<and> hr_status_code resp = an_status a \<and> hr_headers resp = an_headers a)
         \<and> length (hr_content resp) \<le> cap
         \<and> hr_status_code resp < 400 \<and> hr_status_code resp \<notin> REDIRECTS \<and> length (hr_redirects resp) + 1 = length trail)"
proof -
  have "send_from cl dns wire join url headers cap 0 (hc_max_redirects cl) meth json url [] = (trail, r)"
    using assms by (simp add: send_def)
  from send_from_ok[OF this] have facts: "log_ok cl dns wire cap 0 trail" "length trail \<le> hc_max_redirects cl + 1"
    "\<forall>resp. r = Inr resp \<longrightarrow> hr_url resp = url \<and> response_of cap trail resp" by auto
  have hops: "hop_ok cl dns wire cap i (trail ! i)
      \<and> (0 < i \<longrightarrow> rq_method (hp_request (trail ! i)) = ''GET'' \<and> rq_json (hp_request (trail ! i)) = None)"
    if "i < length trail" for i using facts(1) that by (simp add: log_ok_def)
  note hop = hops[unfolded hop_ok_def approved_def peer_approved_def]
  show ?thesis
    unfolding Let_def
  proof (intro conjI)
    show "length trail \<le> hc_max_redirects cl + 1" by (rule facts(2))
  qed ((intro allI impI, drule hop, elim conjE, intro conjI, assumption+), (intro allI impI, drule facts(3)[unfolded response_of_def, rule_format], elim conjE, intro conjI, assumption+))
qed

text \<open>A redirect from a public site to the metadata service of a cloud.\<close>

definition rebinding_client :: SafeHttpClient where
  "rebinding_client = \<lparr>hc_max_bytes = 100, hc_max_redirects = 5, hc_allowed_domains = None, hc_blocked_domains = {}\<rparr>"

definition redirect_to_metadata :: "nat \<Rightarrow> unit Request \<Rightarrow> exchange" where
  "redirect_to_metadata hop rq =
     Answered \<lparr>an_peer = Some ''8.8.8.8'', an_status = 302, an_headers = [(''location'', ''http://169.254.169.254/'')],
               an_body = [''moved''], an_broken = None\<rparr>"

lemma fetch_is_guarded_witness:
  "\<exists>trail. send rebinding_client (\<lambda>_ _ _. Some [''8.8.8.8'']) redirect_to_metadata (\<lambda>_ l. Some l) ''GET'' ''http://a.com/'' []
       None None = (trail, Inl (NotFetchable (UrlRefused BlockedAddress)))
     \<and> length trail = 1 \<and> (\<forall>h \<in> set trail. \<forall>a \<in> set (vu_addresses (rq_url (hp_request h))). \<not> is_blocked_address a)"
proof -
  let ?s = "send rebinding_client (\<lambda>_ _ _. Some [''8.8.8.8'']) redirect_to_metadata (\<lambda>_ l. Some l) ''GET'' ''http://a.com/'' []
       None None"
  obtain trail r where s: "?s = (trail, r)" by fastforce
  have "snd ?s = Inl (NotFetchable (UrlRefused BlockedAddress))" "length (fst ?s) = 1" by code_simp+
  with s fetch_is_guarded[OF s refl] show ?thesis by (auto simp: Let_def in_set_conv_nth)
qed

end
