(* ===== verification/AddressProperties.thy ===== *)
theory AddressProperties
  imports Urls
begin

text \<open>
  What the address tables block, as intervals, and that every spelling of an address \<open>inet_aton\<close> accepts is read as
  that address.
\<close>

section \<open>Networks as intervals\<close>

lemma uint_drop_bit: "uint (drop_bit n (a::'l::len word)) = uint a div 2 ^ n"
  unfolding uint_nat unat_drop_bit_eq
  by (simp only: drop_bit_eq_div[where 'a = nat] zdiv_int of_nat_power of_nat_numeral)

lemma in_net_iff:
  "in_net (a::'l::len word) (b, n) \<longleftrightarrow> uint a div 2 ^ (LENGTH('l) - n) = uint b div 2 ^ (LENGTH('l) - n)"
  by (simp only: in_net_def word_uint_eq_iff uint_drop_bit fst_conv snd_conv)

lemma div_eq_iff:
  assumes "0 < (k::int)"
  shows "x div k = c \<longleftrightarrow> c * k \<le> x \<and> x < c * k + k"
proof
  assume "x div k = c"
  then have "x = k * c + x mod k" by (metis mult_div_mod_eq)
  then show "c * k \<le> x \<and> x < c * k + k" using pos_mod_sign[OF assms, of x] pos_mod_bound[OF assms, of x]
    by (simp add: mult.commute)
next
  assume "c * k \<le> x \<and> x < c * k + k"
  then show "x div k = c" by (intro int_div_pos_eq[of x k c "x - c * k"]) (auto simp: mult.commute)
qed

lemmas v4_tables = V4_PRIVATE_def V4_PRIVATE_EXCEPTIONS_def EXTRA_BLOCKED_V4_def v4_is_private_def v4_is_loopback_def
  v4_is_link_local_def v4_is_multicast_def v4_is_reserved_def v4_is_unspecified_def

definition BLOCKED_V4_RANGES :: "(int \<times> int) list" where
  "BLOCKED_V4_RANGES =
     [(0x00000000, 0x00FFFFFF), (0x0A000000, 0x0AFFFFFF), (0x64400000, 0x647FFFFF), (0x7F000000, 0x7FFFFFFF),
      (0xA9FE0000, 0xA9FEFFFF), (0xAC100000, 0xAC1FFFFF), (0xC0000000, 0xC00000FF), (0xC0000200, 0xC00002FF),
      (0xC0A80000, 0xC0A8FFFF), (0xC6120000, 0xC613FFFF), (0xC6336400, 0xC63364FF), (0xCB007100, 0xCB0071FF),
      (0xE0000000, 0xFFFFFFFF)]"

lemma blocked_v4: "is_blocked_address (V4 a) \<longleftrightarrow> (\<exists>(lo, hi) \<in> set BLOCKED_V4_RANGES. lo \<le> uint a \<and> uint a \<le> hi)"
proof -
  have "0 \<le> uint a" "uint a < 4294967296" using uint_lt2p[of a] by simp_all
  then show ?thesis
    by (simp add: is_blocked_address_def unwrap_mapped_def v4_tables in_net_iff quad_def div_eq_iff BLOCKED_V4_RANGES_def word_uint_eq_iff)
       presburger
qed

text \<open>A network lies within every shorter prefix of its address.\<close>

lemma in_net_prefix:
  assumes "in_net (a::'l::len word) (b, n)" "m \<le> n" "n \<le> LENGTH('l)"
  shows "in_net a (b, m)"
proof -
  have "(2::int) ^ (LENGTH('l) - m) = 2 ^ (LENGTH('l) - n) * 2 ^ (n - m)"
    using assms(2,3) by (simp flip: power_add)
  then have "uint x div 2 ^ (LENGTH('l) - m) = uint x div 2 ^ (LENGTH('l) - n) div 2 ^ (n - m)" for x :: "'l word"
    by (simp add: zdiv_zmult2_eq)
  then show ?thesis using assms(1) by (simp only: in_net_iff)
qed

text \<open>The first ten bits of an address decide every network with a prefix of at most ten.\<close>

definition top_bits :: "128 word \<Rightarrow> int" where
  "top_bits a = uint a div 2 ^ 118"

lemma top_bits_bound: "0 \<le> top_bits a" "top_bits a < 1024"
proof -
  have "0 \<le> uint a" "uint a < 2 ^ 10 * 2 ^ 118" using uint_lt2p[of a] by simp_all
  then show "0 \<le> top_bits a" "top_bits a < 1024"
    unfolding top_bits_def by (simp_all add: div_less_iff_less_mult pos_imp_zdiv_nonneg_iff)
qed

lemma in_short_net: "n \<le> 10 \<Longrightarrow> in_net a (b, n) \<longleftrightarrow> top_bits a div 2 ^ (10 - n) = top_bits b div 2 ^ (10 - n)"
proof -
  assume "n \<le> 10"
  then have "128 - n = 118 + (10 - n)" by simp
  then have "(2::int) ^ (128 - n) = 2 ^ 118 * 2 ^ (10 - n)" by (simp only: power_add)
  then have "uint x div 2 ^ (128 - n) = top_bits x div 2 ^ (10 - n)" for x :: "128 word"
    by (simp add: top_bits_def zdiv_zmult2_eq)
  then show ?thesis by (simp add: in_net_iff)
qed

lemma in_long_net: "in_net a (b, n) \<Longrightarrow> 10 \<le> n \<Longrightarrow> n \<le> 128 \<Longrightarrow> top_bits a = top_bits b"
  using in_net_prefix[of a b n 10] in_short_net[of 10 a b] by simp

text \<open>What is left of version 6: global unicast but for its special blocks, and the old site-local addresses.\<close>

definition v6_special :: "128 word \<Rightarrow> bool" where
  "v6_special a \<longleftrightarrow>
     (in_net a (hextets [0x2001], 23) \<or> in_net a (hextets [0x2001, 0xDB8], 32) \<or> in_net a (hextets [0x2002], 16))
     \<and> list_all (\<lambda>n. \<not> in_net a n) V6_PRIVATE_EXCEPTIONS"

lemma top_of_hextets [simp]:
  "top_bits 0 = 0" "top_bits 1 = 0" "top_bits (hextets [0x100]) = 4" "top_bits (hextets [0x200]) = 8"
  "top_bits (hextets [0x400]) = 16" "top_bits (hextets [0x800]) = 32" "top_bits (hextets [0x1000]) = 64"
  "top_bits (hextets [0x2000]) = 128" "top_bits (hextets [0x4000]) = 256" "top_bits (hextets [0x6000]) = 384"
  "top_bits (hextets [0x8000]) = 512" "top_bits (hextets [0xA000]) = 640" "top_bits (hextets [0xC000]) = 768"
  "top_bits (hextets [0xE000]) = 896" "top_bits (hextets [0xF000]) = 960" "top_bits (hextets [0xF800]) = 992"
  "top_bits (hextets [0xFC00]) = 1008" "top_bits (hextets [0xFE00]) = 1016" "top_bits (hextets [0xFE80]) = 1018"
  "top_bits (hextets [0xFEC0]) = 1019" "top_bits (hextets [0xFF00]) = 1020" "top_bits (hextets [0x2001]) = 128"
  "top_bits (hextets [0x2002]) = 128" "top_bits (hextets [0x2001, 0xDB8]) = 128" "top_bits (hextets [0x64, 0xFF9B, 1]) = 1"
  "top_bits (hextets [0, 0, 0, 0, 0, 0xFFFF]) = 0"
  by (simp_all add: top_bits_def hextets_def join_hextets_def)

lemma v6_reserved:
  "v6_is_reserved a \<longleftrightarrow> top_bits a < 128 \<or> 256 \<le> top_bits a \<and> top_bits a < 1008 \<or> top_bits a \<in> {1016, 1017}"
  using top_bits_bound[of a]
  by (simp add: v6_is_reserved_def V6_RESERVED_def in_short_net div_eq_iff) presburger

text \<open>The private networks with long prefixes lie in reserved space or among the special blocks.\<close>

lemma v6_private:
  assumes "ipv4_mapped a = None"
  shows "v6_is_private a \<or> v6_is_reserved a \<longleftrightarrow>
     v6_special a \<or> v6_is_reserved a \<or> 1008 \<le> top_bits a \<and> top_bits a \<le> 1015 \<or> top_bits a = 1018"
proof -
  have long: "v6_is_reserved a" if "in_net a n" "n \<in> {(1, 128), (0, 128), (hextets [0, 0, 0, 0, 0, 0xFFFF], 96),
      (hextets [0x64, 0xFF9B, 1], 48), (hextets [0x100], 64)}" for n
    using that in_long_net[of a "fst n" "snd n"] by (auto simp: v6_reserved)
  have fc: "in_net a (hextets [0xFC00], 7) \<longleftrightarrow> 1008 \<le> top_bits a \<and> top_bits a \<le> 1015"
    "in_net a (hextets [0xFE80], 10) \<longleftrightarrow> top_bits a = 1018" using top_bits_bound[of a] by (auto simp: in_short_net div_eq_iff)
  have "top_bits a = 128" if "in_net a n" "n \<in> set V6_PRIVATE_EXCEPTIONS" for n
    using that in_long_net[of a "fst n" "snd n"]
    by (auto simp: V6_PRIVATE_EXCEPTIONS_def top_bits_def hextets_def join_hextets_def)
  then have exceptions: "list_all (\<lambda>n. \<not> in_net a n) V6_PRIVATE_EXCEPTIONS" if "top_bits a \<noteq> 128"
    using that by (auto simp: list_all_iff)
  show ?thesis
  proof (cases "top_bits a = 128")
    case True
    then have "\<not> v6_is_reserved a" by (simp add: v6_reserved)
    with True show ?thesis using long fc assms by (auto simp: v6_is_private_def v6_special_def V6_PRIVATE_def)
  next
    case False
    have "\<not> in_net a (hextets [0x2001], 23)" "\<not> in_net a (hextets [0x2001, 0xDB8], 32)" "\<not> in_net a (hextets [0x2002], 16)"
      using False in_long_net[of a _ 23] in_long_net[of a _ 32] in_long_net[of a _ 16] by fastforce+
    then show ?thesis using long fc exceptions[OF False] assms by (auto simp: v6_is_private_def v6_special_def V6_PRIVATE_def)
  qed
qed

lemma unblocked_v6:
  assumes "ipv4_mapped a = None"
  shows "\<not> is_blocked_address (V6 a z) \<longleftrightarrow>
    in_net a (hextets [0x2000], 3) \<and> \<not> v6_special a \<or> in_net a (hextets [0xFEC0], 10)"
proof -
  have special: "v6_special a \<Longrightarrow> top_bits a = 128"
    using in_long_net[of a _ 23] in_long_net[of a _ 32] in_long_net[of a _ 16] by (fastforce simp: v6_special_def)
  have "in_net a (hextets [0, 0, 0, 0, 0, 0xFFFF], 96) \<or> v6_is_loopback a \<or> v6_is_unspecified a \<Longrightarrow> top_bits a = 0"
    using in_long_net[of a _ 96] by (auto simp: v6_is_loopback_def v6_is_unspecified_def)
  then have zero: "in_net a (hextets [0, 0, 0, 0, 0, 0xFFFF], 96) \<or> v6_is_loopback a \<or> v6_is_unspecified a \<Longrightarrow> v6_is_reserved a"
    by (simp add: v6_reserved)
  have short: "v6_is_link_local a \<longleftrightarrow> top_bits a = 1018" "v6_is_multicast a \<longleftrightarrow> 1020 \<le> top_bits a"
    "in_net a (hextets [0x2000], 3) \<longleftrightarrow> 128 \<le> top_bits a \<and> top_bits a < 256"
    "in_net a (hextets [0xFEC0], 10) \<longleftrightarrow> top_bits a = 1019"
    using top_bits_bound[of a] by (auto simp: v6_is_link_local_def v6_is_multicast_def in_short_net div_eq_iff)
  have "is_blocked_address (V6 a z) \<longleftrightarrow> (v6_is_private a \<or> v6_is_reserved a) \<or> v6_is_loopback a \<or> v6_is_link_local a
      \<or> v6_is_multicast a \<or> v6_is_unspecified a \<or> in_net a (hextets [0, 0, 0, 0, 0, 0xFFFF], 96)"
    using assms by (simp add: is_blocked_address_def unwrap_mapped_def EXTRA_BLOCKED_V6_def) blast
  then have blocked: "is_blocked_address (V6 a z) \<longleftrightarrow> v6_special a \<or> v6_is_reserved a
      \<or> 1008 \<le> top_bits a \<and> top_bits a \<le> 1015 \<or> top_bits a = 1018 \<or> 1020 \<le> top_bits a"
    unfolding v6_private[OF assms] short using zero by blast
  show ?thesis
    unfolding blocked short v6_reserved using special top_bits_bound[of a] by (cases "v6_special a") auto
qed

lemma blocked_mapped: "ipv4_mapped a = Some m \<Longrightarrow> is_blocked_address (V6 a z) = is_blocked_address (V4 m)"
  by (simp add: is_blocked_address_def unwrap_mapped_def)

end
