(* ===== verification/AddressSpellings.thy ===== *)
theory AddressSpellings
  imports Urls
begin

text \<open>
  The spellings of a version 4 address that \<open>inet_aton\<close> accepts, as a specification: one to four numbers, each
  decimal, octal or hexadecimal, the last of which stands for the remaining bytes; and that the guard reads each back.
\<close>

section \<open>Spelling\<close>

datatype radix = Decimal | Octal | Hexadecimal

function digits_in :: "nat \<Rightarrow> nat \<Rightarrow> string" where
  "digits_in b n = (if b < 2 \<or> n < b then [digit_of n] else digits_in b (n div b) @ [digit_of (n mod b)])"
  by auto
termination by (relation "measure snd") auto

declare digits_in.simps [simp del]

definition spell :: "radix \<Rightarrow> nat \<Rightarrow> string" where
  "spell r n =
     (case r of Decimal \<Rightarrow> digits_in 10 n | Octal \<Rightarrow> ''0'' @ digits_in 8 n | Hexadecimal \<Rightarrow> ''0x'' @ digits_in 16 n)"

definition spelling :: "(radix \<times> nat) list \<Rightarrow> string" where
  "spelling parts = str_join ''.'' (map (\<lambda>(r, n). spell r n) parts)"

definition inet_ok :: "nat list \<Rightarrow> bool" where
  "inet_ok ns \<longleftrightarrow> ns \<noteq> [] \<and> length ns \<le> 4 \<and> (\<forall>n \<in> set (butlast ns). n < 256) \<and> last ns < 256 ^ (5 - length ns)"

definition inet_value :: "nat list \<Rightarrow> nat" where
  "inet_value ns = foldl (\<lambda>a n. a * 256 + n) 0 (butlast ns) * 256 ^ (5 - length ns) + last ns"

section \<open>Digits\<close>

lemma digits_in_digits: "2 \<le> b \<Longrightarrow> c \<in> set (digits_in b n) \<Longrightarrow> \<exists>d < b. c = digit_of d"
proof (induction b n rule: digits_in.induct)
  case (1 b n)
  show ?case
  proof (cases "n < b")
    case False
    then have "digits_in b n = digits_in b (n div b) @ [digit_of (n mod b)]" using 1(2) by (simp add: digits_in.simps[of b n])
    then have "c \<in> set (digits_in b (n div b)) \<or> c = digit_of (n mod b)" using 1(3) by auto
    moreover have "n mod b < b" using 1(2) by simp
    moreover have "c \<in> set (digits_in b (n div b)) \<Longrightarrow> ?thesis" using 1(1,2) False by simp
    ultimately show ?thesis by blast
  qed (use 1 in \<open>auto simp: digits_in.simps[of b n]\<close>)
qed

lemma digits_in_nonempty [simp]: "digits_in b n \<noteq> []"
  by (subst digits_in.simps) simp

text \<open>A leading zero is the number zero.\<close>

lemma digits_in_leading_zero: "2 \<le> b \<Longrightarrow> b \<le> 16 \<Longrightarrow> hd (digits_in b n) = CHR ''0'' \<Longrightarrow> digits_in b n = ''0''"
proof (induction b n rule: digits_in.induct)
  case (1 b n)
  show ?case
  proof (cases "n < b")
    case True
    then have "digits_in b n = [digit_of n]" by (simp add: digits_in.simps[of b n])
    then show ?thesis using 1(4) by simp
  next
    case False
    then have eq: "digits_in b n = digits_in b (n div b) @ [digit_of (n mod b)]" using 1(2) by (simp add: digits_in.simps[of b n])
    then have "digits_in b (n div b) = ''0''" using 1 False by simp
    moreover have "n div b \<noteq> 0" using False 1(2) by (simp add: div_eq_0_iff)
    moreover have "digits_in b (n div b) = ''0'' \<Longrightarrow> n div b = 0"
    proof -
      assume z: "digits_in b (n div b) = ''0''"
      have "n div b < b"
      proof (rule ccontr)
        assume "\<not> n div b < b"
        then have "digits_in b (n div b) = digits_in b (n div b div b) @ [digit_of (n div b mod b)]"
          using 1(2) by (simp add: digits_in.simps[of b "n div b"])
        then show False using z digits_in_nonempty[of b "n div b div b"] by (cases "digits_in b (n div b div b)") auto
      qed
      then show "n div b = 0" using z digit_of_facts(5)[of "n div b"] 1(2,3) by (simp add: digits_in.simps[of b "n div b"])
    qed
    ultimately show ?thesis by simp
  qed
qed

lemma foldl_digits: "2 \<le> b \<Longrightarrow> b \<le> 16 \<Longrightarrow>
   foldl (\<lambda>a c. a * int b + the (digit_value c)) 0 (digits_in b n) = int n"
proof (induction b n rule: digits_in.induct)
  case (1 b n)
  show ?case
  proof (cases "n < b")
    case True
    then show ?thesis using 1(2,3) digit_of_facts(1)[of n] by (simp add: digits_in.simps[of b n])
  next
    case False
    have "n mod b < 16" using 1(2,3) by (meson le_trans less_le_trans mod_less_divisor zero_less_numeral not_less)
    then show ?thesis using 1 False digit_of_facts(1)[of "n mod b"]
      by (simp add: digits_in.simps[of b n] zdiv_int zmod_int flip: of_nat_mult of_nat_add)
  qed
qed

section \<open>Reading a spelling back\<close>

lemma number_digits: "2 \<le> b \<Longrightarrow> b \<le> 16 \<Longrightarrow> number (int b) (digits_in b n) = int n"
  by (simp add: number_def foldl_digits)

lemma digit_run_number: "2 \<le> b \<Longrightarrow> b \<le> 16 \<Longrightarrow> digit_run (int b) 0 False (digits_in b n) = Some (int n)"
  using digit_run_digits[of "digits_in b n" b False 0] digits_in_digits[of b] by (simp add: foldl_digits)

text \<open>The characters of a spelling: digits in lower case, and the letter of the hexadecimal prefix.\<close>

definition spell_char :: "char \<Rightarrow> bool" where
  "spell_char c \<longleftrightarrow> c = CHR ''x'' \<or> (\<exists>d < 16. c = digit_of d)"

lemma spell_chars: "c \<in> set (spell r n) \<Longrightarrow> spell_char c"
proof -
  have zero: "spell_char CHR ''0''" using digit_of_facts(5)[of 0] by (auto simp: spell_char_def intro!: exI[of _ 0])
  have "spell_char c" if digit: "c \<in> set (digits_in b n)" and b: "2 \<le> b" "b \<le> 16" for b
  proof -
    obtain d where "d < b" "c = digit_of d" using digits_in_digits[OF b(1) digit] by blast
    moreover from this b(2) have "d < 16" by simp
    ultimately show ?thesis unfolding spell_char_def by blast
  qed
  then show "c \<in> set (spell r n) \<Longrightarrow> spell_char c"
    using zero by (auto simp: spell_def spell_char_def split: radix.splits)
qed

lemma spell_char_facts:
  assumes "spell_char c"
  shows "lower_char c = c" "\<not> is_space c" "c \<notin> set ''.[]:_o''"
  using assms digit_of_facts by (auto simp: spell_char_def lower_char_def is_space_def)

lemma str_lower_spell: "str_lower (spell r n) = spell r n"
  unfolding str_lower_def by (rule map_idI) (use spell_chars spell_char_facts in blast)

lemma str_strip_spell: "str_strip (spell r n) = spell r n"
  using spell_chars spell_char_facts(2) by (intro str_strip_id) blast

lemma second_no_prefix: "c \<notin> set ''.[]:_xo'' \<Longrightarrow> \<not> starts_with ''0x'' (CHR ''0'' # c # s) \<and> \<not> starts_with ''0o'' (CHR ''0'' # c # s)"
  by (auto simp: starts_with_def)

lemma parse_octet_spell: "parse_octet (spell r n) = Some (int n)"
proof (cases r)
  case Decimal
  obtain c s where ds: "digits_in 10 n = c # s" by (cases "digits_in 10 n") auto
  have digits: "list_all is_digit (digits_in 10 n)"
    using digits_in_digits[of 10] digit_of_facts(4) by (fastforce simp: list_all_iff)
  have "\<not> (starts_with ''0'' (digits_in 10 n) \<and> length (digits_in 10 n) > 1)" "\<not> starts_with ''0x'' (digits_in 10 n)"
    using digits_in_leading_zero[of 10 n] ds by (auto simp: starts_with_def)
  then show ?thesis
    using Decimal digits digit_run_number[of 10 n] str_lower_spell[of Decimal n] str_strip_spell[of Decimal n]
    by (auto simp: parse_octet_def py_int_def spell_def Let_def)
next
  case Octal
  obtain c s where ds: "digits_in 8 n = c # s" by (cases "digits_in 8 n") auto
  obtain d where "c = digit_of d" "d < 16" using digits_in_digits[of 8 c n] ds by auto
  then have c: "c \<notin> set ''.[]:_xo''" using digit_of_facts(6) by blast
  have zero: "digit_value CHR ''0'' = Some 0" "\<exists>d < 8. CHR ''0'' = digit_of d"
    using digit_of_facts(1,5)[of 0] by (auto intro: exI[of _ 0])
  then have "\<forall>c \<in> set (CHR ''0'' # digits_in 8 n). \<exists>d < 8. c = digit_of d" using digits_in_digits[of 8] by simp
  from digit_run_digits[OF this, of False 0] have "digit_run 8 0 False (CHR ''0'' # digits_in 8 n) = Some (int n)"
    using foldl_digits[of 8 n] zero(1) by simp
  then show ?thesis
    using Octal second_no_prefix[OF c] ds str_lower_spell[of Octal n] str_strip_spell[of Octal n]
    by (simp add: parse_octet_def py_int_def spell_def Let_def starts_with_def)
next
  case Hexadecimal
  obtain c s where ds: "digits_in 16 n = c # s" by (cases "digits_in 16 n") auto
  obtain d where "c = digit_of d" "d < 16" using digits_in_digits[of 16 c n] ds by auto
  then have "\<not> starts_with ''_'' (digits_in 16 n)" using digit_of_facts(6) ds by (auto simp: starts_with_def)
  then show ?thesis
    using Hexadecimal digit_run_number[of 16 n] str_lower_spell[of Hexadecimal n] str_strip_spell[of Hexadecimal n]
    by (simp add: parse_octet_def py_int_def spell_def Let_def starts_with_def)
qed

lemma split_on_join:
  "ws \<noteq> [] \<Longrightarrow> \<forall>w \<in> set ws. c \<notin> set w \<Longrightarrow> split_on c (str_join [c] ws) = ws"
proof (induction ws rule: induct_list012)
  case (3 v w ws)
  then show ?case by (simp add: split_on_append[of c v] split_on_no)
qed (auto simp: split_on_no)

lemma spelling_chars:
  assumes "c \<in> set (spelling parts)"
  shows "spell_char c \<or> c = CHR ''.''"
proof -
  have "c \<in> set (str_join ''.'' ws) \<Longrightarrow> c = CHR ''.'' \<or> (\<exists>w \<in> set ws. c \<in> set w)" for ws
    by (induction ws rule: induct_list012) auto
  then show ?thesis using assms spell_chars by (fastforce simp: spelling_def)
qed

lemma split_spelling: "parts \<noteq> [] \<Longrightarrow> split_on CHR ''.'' (spelling parts) = map (\<lambda>(r, n). spell r n) parts"
  unfolding spelling_def by (rule split_on_join) (use spell_chars spell_char_facts(3) in fastforce)+

lemma strip_brackets_spelling: "strip_brackets (spelling parts) = spelling parts"
proof -
  have "c \<noteq> CHR ''['' \<and> c \<noteq> CHR '']''" if "c \<in> set (spelling parts)" for c
    using spelling_chars[OF that] spell_char_facts(3)[of c] by auto
  then have "dropWhile (\<lambda>c. c \<in> {CHR ''['', CHR '']''}) xs = xs" if "set xs \<subseteq> set (spelling parts)" for xs
    using that by (cases xs) auto
  then show ?thesis by (simp add: strip_brackets_def Let_def)
qed

text \<open>A strict octet among the spellings is a decimal one, of its own number.\<close>

lemma strict_octet_spell: "strict_octet (spell r n) = Some m \<Longrightarrow> m = int n \<and> n \<le> 255"
proof (cases r)
  case Decimal
  then show "strict_octet (spell r n) = Some m \<Longrightarrow> m = int n \<and> n \<le> 255"
    using number_digits[of 10 n] by (auto simp: strict_octet_def spell_def split: if_splits)
next
  case Octal
  then show "strict_octet (spell r n) = Some m \<Longrightarrow> m = int n \<and> n \<le> 255"
    by (auto simp: strict_octet_def spell_def split: if_splits)
next
  case Hexadecimal
  then show "strict_octet (spell r n) = Some m \<Longrightarrow> m = int n \<and> n \<le> 255"
    by (auto simp: strict_octet_def spell_def is_digit_def split: if_splits)
qed

lemma parse_ipv4_spelling:
  assumes "parts \<noteq> []" "parse_ipv4 (spelling parts) = Some a"
  shows "length parts = 4 \<and> a = of_nat (inet_value (map snd parts))"
proof -
  obtain p q s t where four: "map (strict_octet \<circ> (\<lambda>(r, n). spell r n)) parts = [Some p, Some q, Some s, Some t]"
    "a = quad p q s t"
    using assms by (auto simp: parse_ipv4_def split_spelling split: list.splits option.splits)
  then obtain u v w x where parts: "parts = [u, v, w, x]"
    by (auto simp: map_eq_Cons_conv)
  have "p = int (snd u)" "q = int (snd v)" "s = int (snd w)" "t = int (snd x)"
    using four(1) unfolding parts by (auto simp: case_prod_beta dest!: strict_octet_spell)
  then show ?thesis using four(2) parts by (simp add: inet_value_def quad_def)
qed

lemma parse_ipv6_spelling: "parse_ipv6 (spelling parts) = None"
proof -
  have "c \<noteq> CHR '':''" if "c \<in> set (spelling parts)" for c using spelling_chars[OF that] spell_char_facts(3)[of c] by auto
  then have "CHR '':'' \<notin> set (takeWhile P (spelling parts))" for P by (auto dest: set_takeWhileD)
  then show ?thesis
    by (simp add: parse_ipv6_def partition_at_def parse_ipv6_number_def ipv6_parts_def split_on_no Let_def)
qed

text \<open>Every spelling is read as its address.\<close>

lemma all_some_map: "all_some (map (\<lambda>x. Some (f x)) xs) = Some (map f xs)"
  by (induction xs) auto

lemma inet_number_value:
  assumes "inet_ok ns"
  shows "inet_number (map int ns) = Some (of_nat (inet_value ns))"
proof -
  have len: "4 - length (butlast ns) = 5 - length ns" using assms by (cases ns) (auto simp: inet_ok_def)
  have fold: "foldl (\<lambda>n v. n * 256 + v) (int a) (map int xs) = int (foldl (\<lambda>a n. a * 256 + n) a xs)" for a xs
  proof (induction xs arbitrary: a)
    case (Cons x xs)
    show ?case using Cons[of "a * 256 + x"] by simp
  qed simp
  have pow: "(256::'a::semiring_1) ^ k = 2 ^ (8 * k)" for k by (simp add: power_mult)
  have final: "last (map int ns) = int (last ns)" using assms by (simp add: last_map inet_ok_def)
  have small: "last ns < 2 ^ (8 * (5 - length ns))" "\<not> list_ex (\<lambda>v. v > 255) (map int (butlast ns))"
    using assms by (auto simp: inet_ok_def pow list_ex_iff)
  then have "int (last ns) < 2 ^ (8 * (5 - length ns))" by (metis of_nat_less_iff of_nat_numeral of_nat_power)
  moreover have "int (foldl (\<lambda>a n. a * 256 + n) 0 (butlast ns)) * 2 ^ (8 * (5 - length ns)) + int (last ns) = int (inet_value ns)"
    by (simp add: inet_value_def pow)
  ultimately show ?thesis
    using small(2) fold[of 0 "butlast ns", simplified] len
    by (simp only: inet_number_def Let_def final map_butlast[symmetric] length_map not_le[symmetric] if_False of_nat_0 of_int_of_nat_eq)
qed

lemma as_ip_literal_spelling:
  assumes "inet_ok (map snd parts)"
  shows "as_ip_literal (spelling parts) = Some (V4 (of_nat (inet_value (map snd parts))))"
proof -
  have ne: "parts \<noteq> []" "length parts \<le> 4" using assms by (auto simp: inet_ok_def)
  show ?thesis
  proof (cases "parse_ipv4 (spelling parts)")
    case (Some a)
    then show ?thesis using parse_ipv4_spelling[OF ne(1) Some]
      by (simp add: as_ip_literal_def strip_brackets_spelling ip_address_def Let_def)
  next
    case None
    have "map parse_octet (split_on CHR ''.'' (spelling parts)) = map (\<lambda>x. Some (int (snd x))) parts"
      using ne(1) by (simp add: split_spelling case_prod_beta parse_octet_spell)
    then have "all_some (map parse_octet (split_on CHR ''.'' (spelling parts))) = Some (map int (map snd parts))"
      by (simp only: all_some_map map_map comp_def)
    then show ?thesis
      using None ne inet_number_value[OF assms]
      by (simp add: as_ip_literal_def strip_brackets_spelling ip_address_def parse_ipv6_spelling split_spelling Let_def)
  qed
qed

end
