(* ===== verification/UrlProperties.thy ===== *)
theory UrlProperties
  imports AddressProperties AddressSpellings
begin

text \<open>Properties of the URL guard: what it blocks, how it reads a literal host, and that the URL it passes on names that host.\<close>

section \<open>A URL put together\<close>

definition url_char :: "char \<Rightarrow> bool" where
  "url_char c \<longleftrightarrow> (of_char c :: nat) \<notin> {9, 10, 13}"

lemma span_append:
  "\<forall>c \<in> set xs. P c \<Longrightarrow> ys = [] \<or> \<not> P (hd ys) \<Longrightarrow> takeWhile P (xs @ ys) = xs \<and> dropWhile P (xs @ ys) = ys"
  by (cases ys) (auto simp: takeWhile_append2 dropWhile_append2)

lemma clean_url_eq: "clean_url url = filter url_char (dropWhile is_c0_or_space url)"
  unfolding clean_url_def url_char_def[abs_def] ..

lemma clean_http:
  assumes "scheme \<in> ALLOWED_SCHEMES" "list_all url_char netloc"
  shows "clean_url (scheme @ ''://'' @ netloc @ rest) = scheme @ ''://'' @ netloc @ filter url_char rest"
proof -
  have "filter url_char netloc = netloc" using assms(2) by (simp add: list_all_iff)
  then show ?thesis
    using assms(1) by (auto simp: clean_url_eq ALLOWED_SCHEMES_def is_c0_or_space_def) (simp_all add: url_char_def)
qed

lemma split_http:
  assumes "scheme \<in> ALLOWED_SCHEMES" "list_all url_char netloc" "list_all (\<lambda>c. c \<notin> set ''/?#'') netloc"
    and "rest = [] \<or> hd rest \<in> set ''/?#''"
  shows "urlsplit (scheme @ ''://'' @ netloc @ rest) =
    (let (rest, _, fragment) = partition_at (CHR ''#'') (filter url_char rest); (path, _, query) = partition_at (CHR ''?'') rest
     in if netloc_ok netloc
        then Some \<lparr>us_scheme = scheme, us_netloc = netloc, us_path = path, us_query = query, us_fragment = fragment\<rparr>
        else None)"
proof -
  let ?r = "filter url_char rest"
  have head: "?r = [] \<or> hd ?r \<in> set ''/?#''" using assms(4) by (cases rest) (auto simp: url_char_def)
  have scheme: "split_scheme (scheme @ ''://'' @ netloc @ ?r) = (scheme, ''//'' @ netloc @ ?r)"
    using assms(1) by (auto simp: ALLOWED_SCHEMES_def split_scheme_def partition_at_def is_alpha_def is_lower_def scheme_char_def
          is_alnum_def str_lower_def lower_char_def)
  have "\<forall>c \<in> set netloc. c \<notin> set ''/?#''" using assms(3) by (simp only: list_all_iff)
  note span_append[OF this, of ?r]
  then have netloc: "split_netloc (''//'' @ netloc @ ?r) = (netloc, ?r)"
    using head by (simp only: split_netloc_def starts_with_def not_not) simp
  show ?thesis
    unfolding urlsplit_def clean_http[OF assms(1,2)] scheme Let_def prod.case netloc by (simp split: prod.split)
qed

section \<open>The URL passed on\<close>

lemma partition_at_simps [simp]:
  "partition_at c [] = ([], False, [])"
  "partition_at c (x # xs) = (if x = c then ([], True, xs) else (let (f, b, r) = partition_at c xs in (x # f, b, r)))"
  by (auto simp: partition_at_def Let_def)

lemma partition_at_facts:
  "partition_at c s = (front, found, back) \<Longrightarrow>
     c \<notin> set front \<and> set front \<subseteq> set s \<and> set back \<subseteq> set s \<and> (found \<longrightarrow> s = front @ c # back)
     \<and> (\<not> found \<longrightarrow> front = s \<and> back = [])"
proof (induction s arbitrary: front)
  case (Cons x xs)
  show ?case
  proof (cases "x = c")
    case False
    obtain f b r where xs: "partition_at c xs = (f, b, r)" by (cases "partition_at c xs") auto
    then have "front = x # f" "found = b" "back = r" using Cons.prems False by simp_all
    with Cons.IH xs False show ?thesis by auto
  qed (use Cons.prems in auto)
qed simp

lemma partition_at_cut: "c \<notin> set front \<Longrightarrow> partition_at c (front @ c # back) = (front, True, back)"
  by (induction front) auto

lemma partition_at_none: "c \<notin> set s \<Longrightarrow> partition_at c s = (s, False, [])"
  by (induction s) auto

text \<open>What the parts of a URL cannot contain.\<close>

definition parts_ok :: "SplitResult \<Rightarrow> bool" where
  "parts_ok p \<longleftrightarrow>
     list_all url_char (us_netloc p) \<and> list_all (\<lambda>c. c \<notin> set ''/?#'') (us_netloc p) \<and> netloc_ok (us_netloc p)
     \<and> list_all url_char (us_path p) \<and> list_all url_char (us_query p)
     \<and> CHR ''?'' \<notin> set (us_path p) \<and> CHR ''#'' \<notin> set (us_path p) \<and> CHR ''#'' \<notin> set (us_query p)
     \<and> (us_netloc p \<noteq> [] \<longrightarrow> us_path p = [] \<or> hd (us_path p) = CHR ''/'')"

lemma span_facts:
  "set (takeWhile P xs) \<subseteq> set xs \<and> set (dropWhile P xs) \<subseteq> set xs \<and> (\<forall>c \<in> set (takeWhile P xs). P c)
     \<and> (dropWhile P xs = [] \<or> \<not> P (hd (dropWhile P xs)))"
  using hd_dropWhile[of P xs] by (auto dest: set_takeWhileD set_dropWhileD)

lemma split_netloc_facts:
  assumes "split_netloc s = (netloc, rest)"
  shows "set netloc \<subseteq> set s \<and> set rest \<subseteq> set s \<and> (\<forall>c \<in> set netloc. c \<notin> set ''/?#'')
    \<and> (netloc = [] \<or> rest = [] \<or> hd rest \<in> set ''/?#'')"
proof (cases "starts_with ''//'' s")
  case True
  then have eq: "netloc = takeWhile (\<lambda>c. c \<notin> set ''/?#'') (drop 2 s)" "rest = dropWhile (\<lambda>c. c \<notin> set ''/?#'') (drop 2 s)"
    using assms unfolding split_netloc_def by (simp_all only: if_True prod.inject)
  show ?thesis
    using span_facts[of "\<lambda>c. c \<notin> set ''/?#''" "drop 2 s"] set_drop_subset[of 2 s] unfolding eq not_not by blast
next
  case False
  then have "netloc = []" "rest = s" using assms unfolding split_netloc_def by (simp_all only: if_False prod.inject)
  then show ?thesis by simp
qed

lemma urlsplit_parts_ok:
  assumes "urlsplit raw = Some p"
  shows "parts_ok p"
proof -
  obtain scheme rest0 where s: "split_scheme (clean_url raw) = (scheme, rest0)" by fastforce
  obtain netloc rest1 where n: "split_netloc rest0 = (netloc, rest1)" by fastforce
  obtain rest2 hf fragment where f: "partition_at CHR ''#'' rest1 = (rest2, hf, fragment)" by (cases "partition_at CHR ''#'' rest1") auto
  obtain path qf query where q: "partition_at CHR ''?'' rest2 = (path, qf, query)" by (cases "partition_at CHR ''?'' rest2") auto
  have p: "netloc_ok netloc" "p = \<lparr>us_scheme = scheme, us_netloc = netloc, us_path = path, us_query = query, us_fragment = fragment\<rparr>"
    using assms by (auto simp: urlsplit_def s n f q split: if_splits)
  have "set rest0 \<subseteq> set (clean_url raw)" using s partition_at_facts[of "CHR '':''" "clean_url raw"]
    by (auto simp: split_scheme_def Let_def split: prod.splits if_splits)
  moreover have "c \<in> set (clean_url raw) \<Longrightarrow> url_char c" for c by (auto simp: clean_url_eq)
  ultimately have rest0: "c \<in> set rest0 \<Longrightarrow> url_char c" for c by auto
  note nn = split_netloc_facts[OF n, THEN conjunct1] split_netloc_facts[OF n, THEN conjunct2, THEN conjunct1]
    split_netloc_facts[OF n, THEN conjunct2, THEN conjunct2, THEN conjunct1]
    split_netloc_facts[OF n, THEN conjunct2, THEN conjunct2, THEN conjunct2]
  have rest: "list_all url_char netloc" "list_all url_char rest1" unfolding list_all_iff using nn(1,2) rest0 by blast+
  have delims: "list_all (\<lambda>c. c \<notin> set ''/?#'') netloc" unfolding list_all_iff by (rule nn(3))
  note ff = partition_at_facts[OF f] and qq = partition_at_facts[OF q]
  have "netloc \<noteq> [] \<longrightarrow> path = [] \<or> hd path = CHR ''/''"
  proof (rule impI, rule ccontr)
    assume "netloc \<noteq> []" and path: "\<not> (path = [] \<or> hd path = CHR ''/'')"
    then have ne: "netloc \<noteq> []" "path \<noteq> []" by simp_all
    have "rest2 = path @ (if qf then CHR ''?'' # query else [])" using qq by auto
    moreover have "rest1 = rest2 @ (if hf then CHR ''#'' # fragment else [])" using partition_at_facts[OF f] by auto
    ultimately have "rest1 \<noteq> []" "hd rest1 = hd path" using ne(2) by simp_all
    then have "hd path \<in> {CHR ''/'', CHR ''?'', CHR ''#''}" using nn(4) ne(1) by simp
    moreover have "\<forall>c \<in> set path. c \<noteq> CHR ''?'' \<and> c \<noteq> CHR ''#''" using ff qq by auto
    then have "hd path \<noteq> CHR ''?'' \<and> hd path \<noteq> CHR ''#''" using hd_in_set[OF ne(2)] by (rule bspec)
    ultimately show False using path by simp
  qed
  then show ?thesis using rest delims ff qq p by (auto simp: parts_ok_def list_all_iff subset_iff)
qed

text \<open>The URL made of the parts splits into them again.\<close>

lemma urlsplit_unsplit:
  assumes p: "parts_ok p" and scheme: "us_scheme p \<in> ALLOWED_SCHEMES" and netloc: "us_netloc p \<noteq> []"
  shows "urlsplit (unsplit p) = Some (p\<lparr>us_path := (if us_path p = [] then ''/'' else us_path p), us_fragment := []\<rparr>)"
proof -
  let ?path = "if us_path p = [] then ''/'' else us_path p"
  let ?rest = "?path @ (if us_query p = [] then [] else ''?'' @ us_query p)"
  have lower: "str_lower (us_scheme p) = us_scheme p"
    using scheme by (auto simp: ALLOWED_SCHEMES_def str_lower_def lower_char_def)
  have rest: "hd ?rest \<in> set ''/?#''" using p netloc by (cases "us_path p") (auto simp: parts_ok_def)
  have clean: "filter url_char ?rest = ?rest"
    using p by (auto simp: parts_ok_def list_all_iff url_char_def)
  have "CHR ''#'' \<notin> set ?rest" using p by (auto simp: parts_ok_def)
  then have no_fragment: "partition_at CHR ''#'' ?rest = (?rest, False, [])" by (rule partition_at_none)
  have query: "partition_at CHR ''?'' ?rest = (?path, us_query p \<noteq> [], us_query p)"
    using p partition_at_cut[of "CHR ''?''" ?path "us_query p"] partition_at_none[of "CHR ''?''" ?path] by (auto simp: parts_ok_def)
  have "urlsplit (us_scheme p @ ''://'' @ us_netloc p @ ?rest)
      = Some (p\<lparr>us_path := ?path, us_fragment := []\<rparr>)"
    using split_http[of "us_scheme p" "us_netloc p" ?rest] scheme p rest
    by (simp only: clean no_fragment query parts_ok_def Let_def prod.case simp_thms if_True) (cases p, simp)
  then show ?thesis by (simp only: unsplit_def lower Let_def append_assoc)
qed

section \<open>Properties\<close>

text \<open>C35. The URL handed to the transport is one the guard has read: splitting it again gives the host whose addresses were
  checked, no credentials, and the port that was checked, so that the two readings of a URL cannot differ.\<close>

theorem requested_url_names_validated_host:
  assumes "validate_url getaddrinfo allowed blocked raw = Inr v"
  shows "\<exists>parts. urlsplit (vu_url v) = Some parts \<and> us_scheme parts = vu_scheme v \<and> \<not> has_credentials parts
    \<and> str_lower (rstrip_dots (str_strip (hostname parts))) = vu_host v \<and> us_fragment parts = []
    \<and> (url_port parts = Some (Some (vu_port v))
       \<or> url_port parts \<in> {Some None, Some (Some 0)} \<and> DEFAULT_PORTS (vu_scheme v) = Some (vu_port v))"
proof -
  obtain p where split: "urlsplit (str_strip raw) = Some p" using assms by (auto simp: validate_url_def split: option.splits)
  have p: "us_scheme p \<in> ALLOWED_SCHEMES" "\<not> has_credentials p" "str_lower (rstrip_dots (str_strip (hostname p))) = vu_host v"
    "vu_host v \<noteq> []" "vu_url v = unsplit p" "vu_scheme v = us_scheme p" "url_port p \<noteq> None"
    "vu_port v = (case the (url_port p) of
         Some q \<Rightarrow> if q = 0 then the (DEFAULT_PORTS (us_scheme p)) else q | None \<Rightarrow> the (DEFAULT_PORTS (us_scheme p)))"
    using assms split by (auto simp: validate_url_def Let_def split: option.splits if_splits sum.splits)
  have ne: "us_netloc p \<noteq> []"
    using p(3,4) by (auto simp: hostname_def hostinfo_def after_at_def partition_at_def Let_def str_strip_def rstrip_dots_def str_lower_def)
  have "DEFAULT_PORTS (us_scheme p) = Some (the (DEFAULT_PORTS (us_scheme p)))"
    using p(1) by (auto simp: ALLOWED_SCHEMES_def DEFAULT_PORTS_def)
  then have "url_port p = Some (Some (vu_port v))
      \<or> url_port p \<in> {Some None, Some (Some 0)} \<and> DEFAULT_PORTS (vu_scheme v) = Some (vu_port v)"
    using p(6,7,8) by (auto split: option.splits if_splits)
  moreover have "hostinfo (p\<lparr>us_path := path, us_fragment := []\<rparr>) = hostinfo p" for path by (simp add: hostinfo_def)
  ultimately show ?thesis
    using urlsplit_unsplit[OF urlsplit_parts_ok[OF split] p(1) ne] p
    by (auto simp: has_credentials_def hostname_def url_port_def)
qed

lemma requested_url_names_validated_host_witness:
  "\<exists>parts. urlsplit ''https://A.com:8443/x?y'' = Some parts \<and> str_lower (rstrip_dots (str_strip (hostname parts))) = ''a.com''"
proof -
  have "validate_url (\<lambda>_ _. Some [''8.8.8.8'']) None {} '' https://A.com:8443/x?y#z ''
      = Inr \<lparr>vu_url = ''https://A.com:8443/x?y'', vu_scheme = ''https'', vu_host = ''a.com'', vu_port = 8443,
             vu_addresses = [V4 (quad 8 8 8 8)]\<rparr>" by code_simp
  from requested_url_names_validated_host[OF this] show ?thesis by auto
qed

text \<open>C33. The guard blocks exactly this: of version 4, the thirteen intervals of special addresses, among them every
  private, loopback, link-local, metadata, multicast and reserved one; of version 6, an address that wraps a
  version 4 address as that address, and otherwise everything but global unicast outside the special blocks
  and the old site-local addresses \<open>fec0::/10\<close>.\<close>

theorem guard_blocks_exactly:
  "(is_blocked_address (V4 a) \<longleftrightarrow> (\<exists>(lo, hi) \<in> set BLOCKED_V4_RANGES. lo \<le> uint a \<and> uint a \<le> hi))
   \<and> (is_blocked_address (V6 b z) \<longleftrightarrow>
     (case ipv4_mapped b of
        Some m \<Rightarrow> is_blocked_address (V4 m)
      | None \<Rightarrow> \<not> (in_net b (hextets [0x2000], 3) \<and> \<not> v6_special b \<or> in_net b (hextets [0xFEC0], 10))))"
proof (rule conjI[OF blocked_v4])
  show "is_blocked_address (V6 b z) \<longleftrightarrow>
     (case ipv4_mapped b of
        Some m \<Rightarrow> is_blocked_address (V4 m)
      | None \<Rightarrow> \<not> (in_net b (hextets [0x2000], 3) \<and> \<not> v6_special b \<or> in_net b (hextets [0xFEC0], 10)))"
    using unblocked_v6[of b z] blocked_mapped[of b _ z] by (auto split: option.split)
qed

section \<open>Literal hosts\<close>

lemma str_strip_keeps_front:
  assumes "\<not> is_space a" "\<not> is_space c"
  shows "str_strip (a # p @ c # rest) = a # p @ c # rev (dropWhile is_space (rev rest))"
proof -
  have "dropWhile is_space (rev rest @ c # rev (a # p)) = dropWhile is_space (rev rest) @ c # rev (a # p)"
    using assms(2) by (simp add: dropWhile_append)
  then show ?thesis using assms(1) by (simp add: str_strip_def)
qed

lemma spell_last: "\<exists>c s. spell r n = s @ [c] \<and> c \<noteq> CHR ''.''"
proof -
  have "spell r n \<noteq> []" by (cases r) (simp_all add: spell_def)
  then obtain s c where "spell r n = s @ [c]" by (metis rev_exhaust)
  then show ?thesis using spell_chars[of c r n] spell_char_facts(3)[of c] by auto
qed

lemma str_join_snoc: "ws \<noteq> [] \<Longrightarrow> str_join sep (ws @ [w]) = str_join sep ws @ sep @ w"
  by (induction ws rule: induct_list012) auto

lemma spelling_facts:
  assumes "parts \<noteq> []"
  shows "spelling parts \<noteq> []" "rstrip_dots (spelling parts) = spelling parts"
    "\<forall>c \<in> set (spelling parts). lower_char c = c \<and> \<not> is_space c \<and> url_char c \<and> c \<notin> set ''/?#@:[]%lmn''"
proof -
  obtain front r n where p: "parts = front @ [(r, n)]" using assms by (metis rev_exhaust surj_pair)
  obtain s c where last: "spell r n = s @ [c]" "c \<noteq> CHR ''.''" using spell_last by blast
  have "\<exists>t. spelling parts = t @ [c]"
    using last(1) str_join_snoc[of "map (\<lambda>(r, n). spell r n) front"] by (cases front) (auto simp: spelling_def p)
  then show "spelling parts \<noteq> []" "rstrip_dots (spelling parts) = spelling parts"
    using last(2) by (auto simp: rstrip_dots_def)
  have "list_all (\<lambda>d. url_char (digit_of d) \<and> digit_of d \<notin> set ''/?#@:[]%lmn'') [0..<16]"
    by (simp add: upt_rec digit_of_def url_char_def char_of_eq_iff)
  then have digit: "url_char (digit_of d) \<and> digit_of d \<notin> set ''/?#@:[]%lmn''" if "d < 16" for d
    using that by (simp add: list_all_iff)
  have char: "lower_char c = c \<and> \<not> is_space c \<and> url_char c \<and> c \<notin> set ''/?#@:[]%lmn''" if c: "spell_char c" for c
  proof -
    consider "c = CHR ''x''" | d where "d < 16" "c = digit_of d" using c unfolding spell_char_def by blast
    then have "url_char c \<and> c \<notin> set ''/?#@:[]%lmn''"
    proof cases
      case 1
      then show ?thesis by (simp add: url_char_def)
    next
      case (2 d)
      show ?thesis unfolding 2(2) by (rule digit[OF 2(1)])
    qed
    with spell_char_facts(1,2)[OF c] show ?thesis by (simp only: simp_thms)
  qed
  show "\<forall>c \<in> set (spelling parts). lower_char c = c \<and> \<not> is_space c \<and> url_char c \<and> c \<notin> set ''/?#@:[]%lmn''"
  proof
    fix c assume "c \<in> set (spelling parts)"
    then consider "spell_char c" | "c = CHR ''.''" using spelling_chars by metis
    then show "lower_char c = c \<and> \<not> is_space c \<and> url_char c \<and> c \<notin> set ''/?#@:[]%lmn''"
    proof cases
      case 1
      then show ?thesis by (rule char)
    next
      case 2
      then show ?thesis by (simp add: url_char_def lower_char_def is_space_def)
    qed
  qed
qed

lemma blocked_names_have_letters:
  assumes "\<forall>c \<in> set host. c \<notin> set ''/?#@:[]%lmn''"
  shows "host \<notin> BLOCKED_HOSTNAMES \<and> \<not> ends_with ''.localhost'' host \<and> \<not> ends_with ''.internal'' host"
proof -
  have letters: "CHR ''l'' \<notin> set host" "CHR ''m'' \<notin> set host" "CHR ''n'' \<notin> set host" using assms by auto
  have "set s \<subseteq> set host" if "ends_with s host" for s
  proof -
    have "rev s = take (length s) (rev host)" using that by (simp add: ends_with_def starts_with_def)
    then have "set (rev s) \<subseteq> set (rev host)" by (metis set_take_subset)
    then show ?thesis by simp
  qed
  then have "\<not> ends_with s host" if "CHR ''l'' \<in> set s" for s using that letters(1) by blast
  moreover have "host \<notin> BLOCKED_HOSTNAMES" using letters by (auto simp: BLOCKED_HOSTNAMES_def)
  ultimately show ?thesis by simp
qed

text \<open>C34. However an address is spelled as a host, decimal, octal or hexadecimal in each of one to four parts, the guard
  judges the address and not its spelling: a blocked one is refused and any other is the only address approved,
  in either case without asking the resolver.\<close>

theorem spelled_address_is_judged:
  assumes "inet_ok (map snd parts)" "scheme \<in> {''http'', ''https''}"
  shows "let address = V4 (of_nat (inet_value (map snd parts)));
             result = validate_url getaddrinfo None {} (scheme @ ''://'' @ spelling parts @ ''/'' @ rest)
         in if is_blocked_address address then result = Inl (UrlRefused BlockedAddress)
            else \<exists>v. result = Inr v \<and> vu_host v = spelling parts \<and> vu_addresses v = [address]"
proof -
  let ?host = "spelling parts" and ?address = "V4 (of_nat (inet_value (map snd parts)))"
  have ne: "parts \<noteq> []" using assms(1) by (auto simp: inet_ok_def)
  note host = spelling_facts[OF ne]
  have scheme: "scheme \<in> ALLOWED_SCHEMES" using assms(2) by (simp add: ALLOWED_SCHEMES_def)
  obtain rest' where strip: "str_strip (scheme @ ''://'' @ ?host @ ''/'' @ rest) = scheme @ ''://'' @ ?host @ ''/'' @ rest'"
    using assms(2) str_strip_keeps_front[of "CHR ''h''" "CHR ''/''" "tl scheme @ ''://'' @ ?host" rest]
    by (auto simp: is_space_def)
  have netloc: "list_all url_char ?host" "list_all (\<lambda>c. c \<notin> set ''/?#'') ?host" "netloc_ok ?host"
    using host(3) by (auto simp: list_all_iff netloc_ok_def)
  obtain p where p: "urlsplit (scheme @ ''://'' @ ?host @ ''/'' @ rest') = Some p" "us_scheme p = scheme" "us_netloc p = ?host"
    using split_http[OF scheme netloc(1,2), of "''/'' @ rest'"] netloc(3) by (auto simp: Let_def split: prod.splits)
  have no_at: "CHR ''@'' \<notin> set ?host" "CHR '':'' \<notin> set ?host" "CHR ''['' \<notin> set ?host" "CHR ''%'' \<notin> set ?host"
    using host(3) by auto
  have "takeWhile (\<lambda>c. c \<noteq> CHR ''@'') (rev ?host) = rev ?host"
    by (rule takeWhile_eq_all_conv[THEN iffD2]) (use no_at(1) in auto)
  then have "after_at ?host = ?host" unfolding after_at_def by (simp only: rev_rev_ident)
  then have info: "hostinfo p = (?host, [])" using p(3) no_at by (simp add: hostinfo_def partition_at_none)
  have lower: "str_lower ?host = ?host" unfolding str_lower_def by (rule map_idI) (use host(3) in blast)
  then have name: "str_lower (rstrip_dots (str_strip (hostname p))) = ?host"
    using info no_at host str_strip_id[of ?host] by (simp add: hostname_def partition_at_none)
  have parts: "\<not> has_credentials p" "url_port p = Some None"
    using p(3) no_at info by (simp_all add: has_credentials_def userinfo_def url_port_def)
  have policy: "check_domain_policy ?host None {} = None" by (simp add: check_domain_policy_def)
  have port: "the (DEFAULT_PORTS scheme) \<notin> BLOCKED_PORTS" using assms(2) by (auto simp: DEFAULT_PORTS_def BLOCKED_PORTS_def)
  have addresses: "host_addresses getaddrinfo ?host q = (if is_blocked_address ?address then Inl BlockedAddress else Inr [?address])" for q
    by (simp add: host_addresses_def as_ip_literal_spelling[OF assms(1)])
  have "\<forall>c \<in> set ?host. c \<notin> set ''/?#@:[]%lmn''" using host(3) by blast
  note names = blocked_names_have_letters[OF this]
  have "validate_url getaddrinfo None {} (scheme @ ''://'' @ ?host @ ''/'' @ rest)
      = (if is_blocked_address ?address then Inl (UrlRefused BlockedAddress)
         else Inr \<lparr>vu_url = unsplit p, vu_scheme = scheme, vu_host = ?host, vu_port = the (DEFAULT_PORTS scheme),
                   vu_addresses = [?address]\<rparr>)"
    unfolding validate_url_def strip p(1)
    using names port scheme by (simp add: p(2) name parts policy addresses host(1) Let_def)
  then show ?thesis by (simp only: Let_def) simp
qed

text \<open>The loopback address as one decimal number.\<close>

lemma spelled_address_is_judged_witness:
  "validate_url (\<lambda>_ _. None) None {} ''http://2130706433/'' = Inl (UrlRefused BlockedAddress)"
proof -
  have "is_blocked_address (V4 (of_nat (inet_value [2130706433])))" 
    by (simp add: blocked_v4 BLOCKED_V4_RANGES_def inet_value_def)
  moreover have "spelling [(Decimal, 2130706433)] = ''2130706433''"
    by (simp add: spelling_def spell_def digits_in.simps digit_of_def char_of_eq_iff)
  ultimately show ?thesis
    using spelled_address_is_judged[of "[(Decimal, 2130706433)]" "''http''" "\<lambda>_ _. None" "[]"] by (simp add: inet_ok_def)
qed

end
