(* ===== verification/AuthTokens.thy ===== *)
theory AuthTokens
  imports IpAddresses
begin

text \<open>
  \<open>app.auth.tokens\<close>, \<open>app.auth.revocation\<close>, \<open>app.auth.transactions\<close> and \<open>app.auth.redirects\<close>: the access token
  as the claims it carries, the index of revoked sessions, the half-finished sign-ins, and the guard on where a sign-in
  may lead.  Signing and checking a JWT are \<open>joserfc\<close>: three functions in a record.
\<close>

section \<open>The text of a UUID\<close>

text \<open>\<open>str(UUID)\<close>: thirty-two hexadecimal digits in five groups.\<close>

fun hex_digits :: "nat \<Rightarrow> nat \<Rightarrow> string" where
  "hex_digits 0 n = []"
| "hex_digits (Suc k) n = hex_digits k (n div 16) @ [digit_of (n mod 16)]"

definition uuid_text :: "uuid \<Rightarrow> string" where
  "uuid_text u =
     (let h = hex_digits 32 u
      in str_join ''-'' [take 8 h, take 4 (drop 8 h), take 4 (drop 12 h), take 4 (drop 16 h), drop 20 h])"

text \<open>\<open>s.replace(p, "")\<close> and \<open>UUID(s)\<close>.  No minus sign reaches \<open>int\<close>, for the hyphens are gone.\<close>

fun remove_all :: "string \<Rightarrow> string \<Rightarrow> string" where
  "remove_all p [] = []"
| "remove_all p (c # s) =
     (if p \<noteq> [] \<and> starts_with p (c # s) then remove_all p (drop (length p - 1) s) else c # remove_all p s)"

definition braces :: "char \<Rightarrow> bool" where
  "braces c \<longleftrightarrow> c = CHR ''{'' \<or> c = CHR ''}''"

definition hex_int :: "string \<Rightarrow> int option" where
  "hex_int s =
     (let t = str_strip s;
          unsigned = (if starts_with ''+'' t then tl t else t);
          prefixed = (starts_with ''0x'' unsigned \<or> starts_with ''0X'' unsigned);
          body = (if prefixed then drop 2 unsigned else unsigned)
      in digit_run 16 0 False (if prefixed \<and> starts_with ''_'' body then tl body else body))"

definition uuid_of_text :: "string \<Rightarrow> uuid option" where
  "uuid_of_text s =
     (let t = remove_all ''uuid:'' (remove_all ''urn:'' s);
          u = rev (dropWhile braces (rev (dropWhile braces t)));
          h = filter (\<lambda>c. c \<noteq> CHR ''-'') u
      in if length h \<noteq> 32 then None else map_option nat (hex_int h))"

section \<open>Access tokens\<close>

text \<open>A JSON value of a claim: text, a number, or anything else, of which only its \<open>str\<close> is read.\<close>

datatype claim_value = ClaimText string | ClaimNumber int | ClaimOther string

type_synonym claims = "(string \<times> claim_value) list"

fun claim_str :: "claim_value \<Rightarrow> string" where
  "claim_str (ClaimText s) = s"
| "claim_str (ClaimNumber n) = show_int n"
| "claim_str (ClaimOther s) = s"

definition claim_or :: "string \<Rightarrow> string \<Rightarrow> claims \<Rightarrow> string" where
  "claim_or k d cs = (case map_of cs k of None \<Rightarrow> d | Some c \<Rightarrow> claim_str c)"

text \<open>
  \<open>jwt.encode\<close> and \<open>jwt.decode\<close> under this deployment's key, and \<open>JWTClaimsRegistry.validate\<close>, which is given
  its clock in seconds, the leeway, the issuer and the audience.
\<close>

record joserfc =
  jwt_encode :: "claims \<Rightarrow> string"
  jwt_decode :: "string \<Rightarrow> claims option"
  registry_valid :: "int \<Rightarrow> int \<Rightarrow> string \<Rightarrow> string \<Rightarrow> claims \<Rightarrow> bool"

record TokenIssuer =
  ti_issuer :: string
  ti_audience :: string
  ti_access_ttl :: int

definition CLOCK_SKEW_SECONDS :: int where "CLOCK_SKEW_SECONDS = 10"
definition MAX_TOKEN_LENGTH :: nat where "MAX_TOKEN_LENGTH = 8192"

record AccessClaims =
  ac_user_id :: uuid
  ac_session_id :: uuid
  ac_token_id :: string
  ac_email :: string
  ac_role :: string
  ac_provider :: string
  ac_issued_at :: datetime
  ac_expires_at :: datetime

text \<open>\<open>timedelta(seconds=s)\<close> and \<open>int(t.timestamp())\<close>.\<close>

definition seconds :: "int \<Rightarrow> int" where "seconds s = s * 1000000"
definition timestamp :: "datetime \<Rightarrow> int" where "timestamp t = t div 1000000"

definition access_claims ::
  "TokenIssuer \<Rightarrow> uuid \<Rightarrow> uuid \<Rightarrow> string \<Rightarrow> string \<Rightarrow> string \<Rightarrow> string \<Rightarrow> datetime \<Rightarrow> claims" where
  "access_claims ti user_id session_id jti email role provider now =
     [(''iss'', ClaimText (ti_issuer ti)), (''aud'', ClaimText (ti_audience ti)),
      (''sub'', ClaimText (uuid_text user_id)), (''sid'', ClaimText (uuid_text session_id)), (''jti'', ClaimText jti),
      (''iat'', ClaimNumber (timestamp now)), (''nbf'', ClaimNumber (timestamp now)),
      (''exp'', ClaimNumber (timestamp (now + seconds (ti_access_ttl ti)))),
      (''email'', ClaimText email), (''role'', ClaimText role), (''provider'', ClaimText provider)]"

definition issue_access_token ::
  "joserfc \<Rightarrow> TokenIssuer \<Rightarrow> uuid \<Rightarrow> uuid \<Rightarrow> string \<Rightarrow> string \<Rightarrow> string \<Rightarrow> string \<Rightarrow> datetime \<Rightarrow> string \<times> datetime" where
  "issue_access_token j ti user_id session_id jti email role provider now =
     (jwt_encode j (access_claims ti user_id session_id jti email role provider now), now + seconds (ti_access_ttl ti))"

text \<open>
  Every refusal is the same \<open>Unauthenticated\<close>.  The registry reads the clock of the library, not the \<open>now\<close> the
  method is given and ignores; so \<open>clock\<close> here is the time of day.  A number past the registry is a \<open>TypeError\<close> of
  \<open>int\<close> only where \<open>exp\<close> is not one.
\<close>

datatype token_error = Unauthenticated | TokenTypeError

definition verify_access_token :: "joserfc \<Rightarrow> TokenIssuer \<Rightarrow> datetime \<Rightarrow> string \<Rightarrow> token_error + AccessClaims" where
  "verify_access_token j ti clock token =
     (if token = [] \<or> length token > MAX_TOKEN_LENGTH then Inl Unauthenticated
      else case jwt_decode j token of
        None \<Rightarrow> Inl Unauthenticated
      | Some cs \<Rightarrow>
          if \<not> registry_valid j (timestamp clock) CLOCK_SKEW_SECONDS (ti_issuer ti) (ti_audience ti) cs
          then Inl Unauthenticated
          else case (map_of cs ''sub'', map_of cs ''sid'') of
            (Some sub, Some sid) \<Rightarrow>
              (case (uuid_of_text (claim_str sub), uuid_of_text (claim_str sid)) of
                 (Some user_id, Some session_id) \<Rightarrow>
                   (case map_of cs ''exp'' of
                      Some (ClaimNumber e) \<Rightarrow>
                        Inr \<lparr>ac_user_id = user_id, ac_session_id = session_id, ac_token_id = claim_or ''jti'' [] cs,
                             ac_email = claim_or ''email'' [] cs, ac_role = claim_or ''role'' ''user'' cs,
                             ac_provider = claim_or ''provider'' ''local'' cs,
                             ac_issued_at = (case map_of cs ''iat'' of Some (ClaimNumber i) \<Rightarrow> seconds i
                                             | _ \<Rightarrow> seconds e - seconds (ti_access_ttl ti)),
                             ac_expires_at = seconds e\<rparr>
                    | _ \<Rightarrow> Inl TokenTypeError)
               | _ \<Rightarrow> Inl Unauthenticated)
          | _ \<Rightarrow> Inl Unauthenticated)"

section \<open>The index of revoked sessions\<close>

definition revocation_ttl_seconds :: "int \<Rightarrow> int" where
  "revocation_ttl_seconds access_token_ttl_seconds = access_token_ttl_seconds + 60"

text \<open>The dictionary of the process: swept on every write, an expired entry dropped when it is read.\<close>

type_synonym revocation_entries = "(uuid \<times> datetime) list"

definition memory_revoke :: "datetime \<Rightarrow> uuid \<Rightarrow> int \<Rightarrow> revocation_entries \<Rightarrow> revocation_entries" where
  "memory_revoke now session_id ttl es = AList.update session_id (now + seconds ttl) (filter (\<lambda>(sid, until). until > now) es)"

definition memory_is_revoked :: "datetime \<Rightarrow> uuid \<Rightarrow> revocation_entries \<Rightarrow> bool \<times> revocation_entries" where
  "memory_is_revoked now session_id es =
     (case map_of es session_id of
        None \<Rightarrow> (False, es)
      | Some expires_at \<Rightarrow> if expires_at \<le> now then (False, AList.delete session_id es) else (True, es))"

text \<open>Redis: \<open>SET key "1" EX ttl\<close> and \<open>EXISTS key\<close>.  A server that cannot be reached counts as "not revoked".\<close>

definition redis_revoke :: "datetime \<Rightarrow> uuid \<Rightarrow> int \<Rightarrow> revocation_entries \<Rightarrow> revocation_entries" where
  "redis_revoke now session_id ttl es = AList.update session_id (now + seconds (max 1 ttl)) es"

definition redis_is_revoked :: "bool \<Rightarrow> datetime \<Rightarrow> uuid \<Rightarrow> revocation_entries \<Rightarrow> bool" where
  "redis_is_revoked reachable now session_id es =
     (reachable \<and> (case map_of es session_id of None \<Rightarrow> False | Some expires_at \<Rightarrow> now < expires_at))"

text \<open>Which of the two a deployment has.\<close>

datatype revocation_index = InMemoryIndex revocation_entries | RedisIndex revocation_entries

fun index_revoke :: "datetime \<Rightarrow> uuid \<Rightarrow> int \<Rightarrow> revocation_index \<Rightarrow> revocation_index" where
  "index_revoke now sid ttl (InMemoryIndex es) = InMemoryIndex (memory_revoke now sid ttl es)"
| "index_revoke now sid ttl (RedisIndex es) = RedisIndex (redis_revoke now sid ttl es)"

fun index_is_revoked :: "datetime \<Rightarrow> uuid \<Rightarrow> revocation_index \<Rightarrow> bool \<times> revocation_index" where
  "index_is_revoked now sid (InMemoryIndex es) = (case memory_is_revoked now sid es of (b, es') \<Rightarrow> (b, InMemoryIndex es'))"
| "index_is_revoked now sid (RedisIndex es) = (redis_is_revoked True now sid es, RedisIndex es)"

fun index_emptied :: "revocation_index \<Rightarrow> revocation_index" where
  "index_emptied (InMemoryIndex es) = InMemoryIndex []"
| "index_emptied (RedisIndex es) = RedisIndex []"

section \<open>What a sign-in may lead to\<close>

definition DEFAULT_DESTINATION :: string where "DEFAULT_DESTINATION = ''/dashboard''"
definition MAX_DESTINATION_LENGTH :: nat where "MAX_DESTINATION_LENGTH = 512"

definition control_char :: "char \<Rightarrow> bool" where
  "control_char c \<longleftrightarrow> (of_char c :: nat) < 32 \<or> (of_char c :: nat) = 127"

definition safe_destination :: "string option \<Rightarrow> string \<Rightarrow> string" where
  "safe_destination requested fallback =
     (case requested of
        None \<Rightarrow> fallback
      | Some s \<Rightarrow>
          if s = [] then fallback
          else if length s > MAX_DESTINATION_LENGTH then fallback
          else if \<not> starts_with ''/'' s then fallback
          else if starts_with ''//'' s \<or> starts_with [CHR ''/'', char_of (92 :: nat)] s then fallback
          else if char_of (92 :: nat) \<in> set s then fallback
          else if list_ex control_char s then fallback
          else s)"

section \<open>Half-finished sign-ins\<close>

record PendingAuthorization =
  pa_provider :: string
  pa_connection :: string
  pa_state :: string
  pa_nonce :: string
  pa_code_verifier :: string
  pa_redirect_uri :: string
  pa_destination :: string

type_synonym transactions = "(string \<times> PendingAuthorization \<times> datetime) list"

definition txn_put :: "datetime \<Rightarrow> string \<Rightarrow> PendingAuthorization \<Rightarrow> int \<Rightarrow> transactions \<Rightarrow> transactions" where
  "txn_put now handle txn ttl es = AList.update handle (txn, now + seconds ttl) (filter (\<lambda>(k, v). snd v > now) es)"

definition txn_take :: "datetime \<Rightarrow> string \<Rightarrow> transactions \<Rightarrow> PendingAuthorization option \<times> transactions" where
  "txn_take now handle es =
     (case map_of es handle of
        None \<Rightarrow> (None, es)
      | Some (txn, expires_at) \<Rightarrow> (if expires_at > now then Some txn else None, AList.delete handle es))"

section \<open>Lemmas\<close>

lemma timestamp_mono: "a \<le> b \<Longrightarrow> timestamp a \<le> timestamp b"
  by (simp add: timestamp_def zdiv_mono1)

lemma timestamp_seconds [simp]: "timestamp (t + seconds s) = timestamp t + s"
  by (simp add: timestamp_def seconds_def)

subsection \<open>Reading back the text of a UUID\<close>

lemma length_hex_digits [simp]: "length (hex_digits k n) = k"
  by (induction k arbitrary: n) auto

lemma set_hex_digits: "c \<in> set (hex_digits k n) \<Longrightarrow> \<exists>d < 16. c = digit_of d"
proof (induction k arbitrary: n)
  case (Suc k)
  then consider "c \<in> set (hex_digits k (n div 16))" | "c = digit_of (n mod 16)" by auto
  then show ?case
  proof cases
    case 2
    moreover have "n mod 16 < 16" by simp
    ultimately show ?thesis by blast
  qed (rule Suc.IH)
qed simp

lemma foldl_hex_digits:
  "foldl (\<lambda>a c. a * 16 + the (digit_value c)) 0 (hex_digits k n) = int (n mod 16 ^ k)"
proof (induction k arbitrary: n)
  case (Suc k)
  have "n mod 16 ^ Suc k = 16 * (n div 16 mod 16 ^ k) + n mod 16"
    using mod_mult2_eq[of n 16 "16 ^ k"] by simp
  then show ?case using Suc.IH[of "n div 16"] digit_of_facts(1)[of "n mod 16"] by simp
qed simp

lemma remove_all_none: "p \<noteq> [] \<Longrightarrow> hd p \<notin> set s \<Longrightarrow> remove_all p s = s"
  by (induction s) (auto simp: starts_with_def neq_Nil_conv)

lemma dropWhile_none: "\<forall>c \<in> set s. \<not> p c \<Longrightarrow> dropWhile p s = s"
  by (cases s) auto

definition text_char :: "char \<Rightarrow> bool" where
  "text_char c \<longleftrightarrow> c = CHR ''-'' \<or> (\<exists>d < 16. c = digit_of d)"

lemma text_char_facts:
  assumes "text_char c"
  shows "c \<noteq> CHR ''u''" "\<not> braces c"
proof -
  have "c = CHR ''-'' \<or> c \<notin> set ''{}-+Xur''" using assms digit_of_facts(7) unfolding text_char_def by blast
  then show "c \<noteq> CHR ''u''" "\<not> braces c" by (auto simp: braces_def)
qed

lemma uuid_text_chars: "\<forall>c \<in> set (uuid_text u). text_char c"
  by (auto simp: uuid_text_def Let_def text_char_def dest!: in_set_takeD in_set_dropD set_hex_digits)

lemma hyphens_removed: "filter (\<lambda>c. c \<noteq> CHR ''-'') (uuid_text u) = hex_digits 32 u"
proof -
  define h where "h = hex_digits 32 u"
  have "c \<noteq> CHR ''-''" if "c \<in> set h" for c
  proof -
    obtain d where d: "d < 16" "c = digit_of d" using set_hex_digits \<open>c \<in> set h\<close> unfolding h_def by blast
    show ?thesis using digit_of_facts(7)[OF d(1)] d(2) by auto
  qed
  then have part: "filter (\<lambda>c. c \<noteq> CHR ''-'') xs = xs" if "set xs \<subseteq> set h" for xs using that by (auto simp: filter_id_conv)
  have "take 8 h @ take 4 (drop 8 h) @ take 4 (drop 12 h) @ take 4 (drop 16 h) @ drop 20 h = h"
    using append_take_drop_id[of 8 h] append_take_drop_id[of 4 "drop 8 h"] append_take_drop_id[of 4 "drop 12 h"]
      append_take_drop_id[of 4 "drop 16 h"] by simp
  moreover have "filter (\<lambda>c. c \<noteq> CHR ''-'') (uuid_text u)
      = take 8 h @ take 4 (drop 8 h) @ take 4 (drop 12 h) @ take 4 (drop 16 h) @ drop 20 h"
    by (simp add: uuid_text_def Let_def h_def[symmetric] part order_trans[OF set_take_subset set_drop_subset]
        set_take_subset set_drop_subset)
  ultimately show ?thesis by (simp add: h_def)
qed

lemma starts_with_chars: "starts_with p s \<Longrightarrow> c \<in> set p \<Longrightarrow> c \<in> set s"
  unfolding starts_with_def by (metis set_take_subset subsetD)

lemma hex_int_digits:
  assumes "0 < k"
  shows "hex_int (hex_digits k n) = Some (int (n mod 16 ^ k))"
proof -
  let ?h = "hex_digits k n"
  have digits: "\<forall>c \<in> set ?h. \<exists>d < 16. c = digit_of d" using set_hex_digits by blast
  have facts: "c \<notin> set ''{}-+Xur'' \<and> c \<notin> set ''.[]:_xo'' \<and> \<not> is_space c" if "c \<in> set ?h" for c
  proof -
    obtain d where d: "d < 16" "c = digit_of d" using set_hex_digits \<open>c \<in> set ?h\<close> by blast
    show ?thesis using digit_of_facts(3,6,7)[OF d(1)] d(2) by blast
  qed
  then have space: "\<forall>c \<in> set ?h. \<not> is_space c" by blast
  have nonempty: "?h \<noteq> []" using assms by (cases k) auto
  have "\<not> starts_with ''+'' ?h" "\<not> starts_with ''0x'' ?h" "\<not> starts_with ''0X'' ?h"
    using facts[of "CHR ''+''"] facts[of "CHR ''x''"] facts[of "CHR ''X''"]
      starts_with_chars[of "''+''" ?h "CHR ''+''"] starts_with_chars[of "''0x''" ?h "CHR ''x''"]
      starts_with_chars[of "''0X''" ?h "CHR ''X''"] by auto
  then show ?thesis
    using digit_run_digits[of ?h 16 False 0] digits nonempty foldl_hex_digits[of k n]
    by (simp add: hex_int_def Let_def str_strip_id[OF space])
qed

lemma uuid_round_trip: "u < 2 ^ 128 \<Longrightarrow> uuid_of_text (uuid_text u) = Some u"
proof -
  assume u: "u < 2 ^ 128"
  let ?t = "uuid_text u"
  have "CHR ''u'' \<notin> set ?t" using uuid_text_chars text_char_facts(1) by blast
  then have "remove_all ''uuid:'' (remove_all ''urn:'' ?t) = ?t" by (simp add: remove_all_none)
  moreover have "rev (dropWhile braces (rev (dropWhile braces ?t))) = ?t"
    using uuid_text_chars text_char_facts(2) by (simp add: dropWhile_none)
  ultimately show ?thesis
    using u hex_int_digits[of 32 u] by (simp add: uuid_of_text_def Let_def hyphens_removed)
qed

subsection \<open>What an index promises\<close>

text \<open>
  The protocol \<open>RevocationStore\<close>: a revocation is remembered for its time to live, and neither the revocation of
  another session nor a read makes the index forget one that has not expired.
\<close>

locale revocation_store =
  fixes revoke :: "datetime \<Rightarrow> uuid \<Rightarrow> int \<Rightarrow> 'i \<Rightarrow> 'i"
    and revoked :: "datetime \<Rightarrow> uuid \<Rightarrow> 'i \<Rightarrow> bool"
    and asked :: "datetime \<Rightarrow> uuid \<Rightarrow> 'i \<Rightarrow> 'i"
  assumes remembers: "1 \<le> ttl \<Longrightarrow> t < now + seconds ttl \<Longrightarrow> revoked t sid (revoke now sid ttl i)"
    and keeps: "sid' \<noteq> sid \<Longrightarrow> now \<le> t \<Longrightarrow> revoked t sid i \<Longrightarrow> revoked t sid (revoke now sid' ttl i)"
    and asked_keeps: "now \<le> t \<Longrightarrow> revoked t sid i \<Longrightarrow> revoked t sid (asked now sid' i)"
begin

lemma covered_revoke:
  assumes "\<forall>t. clock \<le> t \<and> t < until \<longrightarrow> revoked t sid i" "clock \<le> now" "until \<le> now + seconds ttl" "1 \<le> ttl"
  shows "\<forall>t. now \<le> t \<and> t < until \<longrightarrow> revoked t sid (revoke now sid' ttl i)"
proof (intro allI impI)
  fix t assume t: "now \<le> t \<and> t < until"
  show "revoked t sid (revoke now sid' ttl i)"
    using assms t remembers[of ttl t now sid i] keeps[of sid' sid now t i ttl] by (cases "sid' = sid") auto
qed

lemma covered_asked:
  assumes "\<forall>t. clock \<le> t \<and> t < until \<longrightarrow> revoked t sid i" "clock \<le> now"
  shows "\<forall>t. now \<le> t \<and> t < until \<longrightarrow> revoked t sid (asked now sid' i)"
  using assms asked_keeps by (meson order_trans)

end

lemma map_of_filter_kept: "map_of es k = Some v \<Longrightarrow> P (k, v) \<Longrightarrow> map_of (filter P es) k = Some v"
  by (induction es) (auto split: if_splits)

interpretation memory_index: revocation_store memory_revoke "\<lambda>t sid es. fst (memory_is_revoked t sid es)"
  "\<lambda>t sid es. snd (memory_is_revoked t sid es)"
proof
  show "fst (memory_is_revoked t sid (memory_revoke now sid ttl i))" if "1 \<le> ttl" "t < now + seconds ttl" for ttl t now sid i
    using that by (simp add: memory_is_revoked_def memory_revoke_def update_conv)
  show "fst (memory_is_revoked t sid (memory_revoke now sid' ttl i))"
    if "sid' \<noteq> sid" "now \<le> t" "fst (memory_is_revoked t sid i)" for sid' sid now t i ttl
    using that map_of_filter_kept[of i sid _ "\<lambda>(sid, until). now < until"]
    by (auto simp: memory_is_revoked_def memory_revoke_def update_conv split: option.splits if_splits)
  show "fst (memory_is_revoked t sid (snd (memory_is_revoked now sid' i)))"
    if "now \<le> t" "fst (memory_is_revoked t sid i)" for now t sid i sid'
    using that by (auto simp: memory_is_revoked_def delete_conv split: option.splits if_splits)
qed

interpretation redis_index: revocation_store redis_revoke "redis_is_revoked True" "\<lambda>t sid es. es"
proof
  show "redis_is_revoked True t sid (redis_revoke now sid ttl i)" if "1 \<le> ttl" "t < now + seconds ttl" for ttl t now sid i
    using that by (simp add: redis_is_revoked_def redis_revoke_def update_conv max_def)
  show "redis_is_revoked True t sid (redis_revoke now sid' ttl i)"
    if "sid' \<noteq> sid" "now \<le> t" "redis_is_revoked True t sid i" for sid' sid now t i ttl
    using that by (simp add: redis_is_revoked_def redis_revoke_def update_conv)
qed

interpretation either_index: revocation_store index_revoke "\<lambda>t sid i. fst (index_is_revoked t sid i)"
  "\<lambda>t sid i. snd (index_is_revoked t sid i)"
proof
  show "fst (index_is_revoked t sid (index_revoke now sid ttl i))" if "1 \<le> ttl" "t < now + seconds ttl" for ttl t now sid i
    using that memory_index.remembers redis_index.remembers by (cases i) (simp_all add: case_prod_beta)
  show "fst (index_is_revoked t sid (index_revoke now sid' ttl i))"
    if "sid' \<noteq> sid" "now \<le> t" "fst (index_is_revoked t sid i)" for sid' sid now t i ttl
    using that memory_index.keeps redis_index.keeps by (cases i) (simp_all add: case_prod_beta)
  show "fst (index_is_revoked t sid (snd (index_is_revoked now sid' i)))"
    if "now \<le> t" "fst (index_is_revoked t sid i)" for now t sid i sid'
    using that memory_index.asked_keeps by (cases i) (simp_all add: case_prod_beta)
qed

end
