(* ===== verification/AuthStore.thy ===== *)
theory AuthStore
  imports AuthTokens
begin

text \<open>
  The tables of accounts and sessions, \<open>app.db.models.user\<close>, and the statements of their repositories.  A table is
  the list of its rows in the order of insertion.  A statement sees the whole table at once, as one SQL statement does;
  an insert that breaks a unique constraint yields \<open>None\<close>, for the \<open>IntegrityError\<close> the flush raises.  Ids the
  database or \<open>uuid4\<close> draws are arguments.
\<close>

section \<open>Rows\<close>

record UserRow =
  ur_id :: uuid
  ur_email :: string
  ur_password_hash :: "string option"
  ur_name :: string
  ur_role :: string
  ur_last_login_at :: "datetime option"

record IdentityRow =
  ir_id :: uuid
  ir_user_id :: uuid
  ir_provider :: string
  ir_subject :: string
  ir_connection :: "string option"
  ir_email :: "string option"
  ir_last_used_at :: "datetime option"

record SessionRow =
  sr_id :: uuid
  sr_user_id :: uuid
  sr_provider :: string
  sr_user_agent :: string
  sr_ip :: "string option"
  sr_created_at :: datetime
  sr_expires_at :: datetime
  sr_revoked_at :: "datetime option"

record RefreshTokenRow =
  rt_id :: uuid
  rt_session_id :: uuid
  rt_token_hash :: string
  rt_family_id :: uuid
  rt_expires_at :: datetime
  rt_used_at :: "datetime option"
  rt_revoked_at :: "datetime option"

section \<open>Statements\<close>

text \<open>\<open>UPDATE ... SET ... WHERE p\<close> with its \<open>rowcount\<close>, and \<open>SELECT ... WHERE p\<close> of at most one row.\<close>

definition updated :: "('r \<Rightarrow> bool) \<Rightarrow> ('r \<Rightarrow> 'r) \<Rightarrow> 'r list \<Rightarrow> 'r list" where
  "updated p f rows = map (\<lambda>r. if p r then f r else r) rows"

definition affected :: "('r \<Rightarrow> bool) \<Rightarrow> 'r list \<Rightarrow> nat" where
  "affected p rows = length (filter p rows)"

definition one_or_none :: "('r \<Rightarrow> bool) \<Rightarrow> 'r list \<Rightarrow> 'r option" where
  "one_or_none p rows = List.find p rows"

section \<open>Refresh tokens\<close>

definition token_create ::
  "uuid \<Rightarrow> uuid \<Rightarrow> string \<Rightarrow> uuid \<Rightarrow> datetime \<Rightarrow> RefreshTokenRow list \<Rightarrow> RefreshTokenRow list option" where
  "token_create row_id session_id token_hash family_id expires_at rows =
     (if list_ex (\<lambda>r. rt_id r = row_id \<or> rt_token_hash r = token_hash) rows then None
      else Some (rows @ [\<lparr>rt_id = row_id, rt_session_id = session_id, rt_token_hash = token_hash,
                          rt_family_id = family_id, rt_expires_at = expires_at, rt_used_at = None,
                          rt_revoked_at = None\<rparr>]))"

definition token_find :: "string \<Rightarrow> RefreshTokenRow list \<Rightarrow> RefreshTokenRow option" where
  "token_find token_hash rows = one_or_none (\<lambda>r. rt_token_hash r = token_hash) rows"

definition unused :: "uuid \<Rightarrow> RefreshTokenRow \<Rightarrow> bool" where
  "unused token_id r \<longleftrightarrow> rt_id r = token_id \<and> rt_used_at r = None"

definition mark_used :: "uuid \<Rightarrow> datetime \<Rightarrow> RefreshTokenRow list \<Rightarrow> bool \<times> RefreshTokenRow list" where
  "mark_used token_id now rows =
     (affected (unused token_id) rows > 0, updated (unused token_id) (\<lambda>r. r\<lparr>rt_used_at := Some now\<rparr>) rows)"

definition revoke_family :: "uuid \<Rightarrow> datetime \<Rightarrow> RefreshTokenRow list \<Rightarrow> RefreshTokenRow list" where
  "revoke_family family_id now rows =
     updated (\<lambda>r. rt_family_id r = family_id \<and> rt_revoked_at r = None) (\<lambda>r. r\<lparr>rt_revoked_at := Some now\<rparr>) rows"

definition revoke_for_session :: "uuid \<Rightarrow> datetime \<Rightarrow> RefreshTokenRow list \<Rightarrow> RefreshTokenRow list" where
  "revoke_for_session session_id now rows =
     updated (\<lambda>r. rt_session_id r = session_id \<and> rt_revoked_at r = None) (\<lambda>r. r\<lparr>rt_revoked_at := Some now\<rparr>) rows"

section \<open>Sessions\<close>

definition MAX_LISTED_SESSIONS :: nat where "MAX_LISTED_SESSIONS = 50"

definition session_create ::
  "uuid \<Rightarrow> uuid \<Rightarrow> datetime \<Rightarrow> string \<Rightarrow> string option \<Rightarrow> string \<Rightarrow> datetime \<Rightarrow> SessionRow list
     \<Rightarrow> (SessionRow \<times> SessionRow list) option" where
  "session_create row_id user_id expires_at user_agent ip provider now rows =
     (if list_ex (\<lambda>r. sr_id r = row_id) rows then None
      else let row = \<lparr>sr_id = row_id, sr_user_id = user_id, sr_provider = provider, sr_user_agent = user_agent,
                      sr_ip = ip, sr_created_at = now, sr_expires_at = expires_at, sr_revoked_at = None\<rparr>
           in Some (row, rows @ [row]))"

definition session_live :: "datetime \<Rightarrow> SessionRow \<Rightarrow> bool" where
  "session_live now r \<longleftrightarrow> sr_revoked_at r = None \<and> sr_expires_at r > now"

definition find_active :: "uuid \<Rightarrow> datetime \<Rightarrow> SessionRow list \<Rightarrow> SessionRow option" where
  "find_active session_id now rows = one_or_none (\<lambda>r. sr_id r = session_id \<and> session_live now r) rows"

text \<open>\<open>ORDER BY created_at DESC\<close>; rows of the same instant keep the order of insertion, one of those SQL allows.\<close>

definition newest :: "uuid \<Rightarrow> datetime \<Rightarrow> SessionRow list \<Rightarrow> SessionRow list" where
  "newest user_id now rows =
     sort_key (\<lambda>r. - sr_created_at r) (filter (\<lambda>r. sr_user_id r = user_id \<and> session_live now r) rows)"

definition list_active :: "uuid \<Rightarrow> datetime \<Rightarrow> SessionRow list \<Rightarrow> SessionRow list" where
  "list_active user_id now rows = take MAX_LISTED_SESSIONS (newest user_id now rows)"

definition owned_unrevoked :: "uuid \<Rightarrow> uuid \<Rightarrow> SessionRow \<Rightarrow> bool" where
  "owned_unrevoked session_id user_id r \<longleftrightarrow> sr_id r = session_id \<and> sr_user_id r = user_id \<and> sr_revoked_at r = None"

definition session_revoke :: "uuid \<Rightarrow> uuid \<Rightarrow> datetime \<Rightarrow> SessionRow list \<Rightarrow> bool \<times> SessionRow list" where
  "session_revoke session_id user_id now rows =
     (affected (owned_unrevoked session_id user_id) rows > 0,
      updated (owned_unrevoked session_id user_id) (\<lambda>r. r\<lparr>sr_revoked_at := Some now\<rparr>) rows)"

definition revoke_unscoped :: "uuid \<Rightarrow> datetime \<Rightarrow> SessionRow list \<Rightarrow> SessionRow list" where
  "revoke_unscoped session_id now rows =
     updated (\<lambda>r. sr_id r = session_id \<and> sr_revoked_at r = None) (\<lambda>r. r\<lparr>sr_revoked_at := Some now\<rparr>) rows"

definition session_revoke_all :: "uuid \<Rightarrow> datetime \<Rightarrow> uuid option \<Rightarrow> SessionRow list \<Rightarrow> SessionRow list" where
  "session_revoke_all user_id now keep rows =
     updated (\<lambda>r. sr_user_id r = user_id \<and> sr_revoked_at r = None \<and> keep \<noteq> Some (sr_id r))
       (\<lambda>r. r\<lparr>sr_revoked_at := Some now\<rparr>) rows"

definition count_active :: "uuid \<Rightarrow> datetime \<Rightarrow> SessionRow list \<Rightarrow> nat" where
  "count_active user_id now rows = affected (\<lambda>r. sr_user_id r = user_id \<and> session_live now r) rows"

definition revoke_beyond :: "uuid \<Rightarrow> nat \<Rightarrow> datetime \<Rightarrow> SessionRow list \<Rightarrow> SessionRow list" where
  "revoke_beyond user_id keeping now rows =
     (let keepers = map sr_id (take keeping (newest user_id now rows))
      in updated (\<lambda>r. sr_user_id r = user_id \<and> sr_revoked_at r = None \<and> sr_id r \<notin> set keepers)
           (\<lambda>r. r\<lparr>sr_revoked_at := Some now\<rparr>) rows)"

text \<open>\<open>delete_expired\<close>, over the refresh tokens that hang off the rows as well (\<open>ON DELETE CASCADE\<close>).\<close>

definition delete_expired ::
  "datetime \<Rightarrow> nat \<Rightarrow> SessionRow list \<Rightarrow> RefreshTokenRow list \<Rightarrow> SessionRow list \<times> RefreshTokenRow list" where
  "delete_expired earliest limit rows tokens =
     (let doomed = map sr_id (take limit (filter (\<lambda>r. sr_expires_at r < earliest) rows))
      in (filter (\<lambda>r. sr_id r \<notin> set doomed) rows, filter (\<lambda>t. rt_session_id t \<notin> set doomed) tokens))"

section \<open>Users and identities\<close>

text \<open>The e-mail column is \<open>citext\<close>: addresses are compared without case.\<close>

definition citext_eq :: "string \<Rightarrow> string \<Rightarrow> bool" where
  "citext_eq a b \<longleftrightarrow> str_lower a = str_lower b"

definition user_get :: "uuid \<Rightarrow> UserRow list \<Rightarrow> UserRow option" where
  "user_get user_id rows = one_or_none (\<lambda>r. ur_id r = user_id) rows"

definition user_get_by_email :: "string \<Rightarrow> UserRow list \<Rightarrow> UserRow option" where
  "user_get_by_email email rows = one_or_none (\<lambda>r. citext_eq (ur_email r) email) rows"

definition user_create ::
  "uuid \<Rightarrow> string \<Rightarrow> string option \<Rightarrow> string \<Rightarrow> UserRow list \<Rightarrow> (UserRow \<times> UserRow list) option" where
  "user_create row_id email password_hash name rows =
     (if list_ex (\<lambda>r. ur_id r = row_id \<or> citext_eq (ur_email r) email) rows then None
      else let row = \<lparr>ur_id = row_id, ur_email = email, ur_password_hash = password_hash, ur_name = name,
                      ur_role = ''user'', ur_last_login_at = None\<rparr>
           in Some (row, rows @ [row]))"

definition set_password_hash :: "uuid \<Rightarrow> string \<Rightarrow> UserRow list \<Rightarrow> UserRow list" where
  "set_password_hash user_id password_hash rows =
     updated (\<lambda>r. ur_id r = user_id) (\<lambda>r. r\<lparr>ur_password_hash := Some password_hash\<rparr>) rows"

definition record_login :: "uuid \<Rightarrow> datetime \<Rightarrow> UserRow list \<Rightarrow> UserRow list" where
  "record_login user_id now rows = updated (\<lambda>r. ur_id r = user_id) (\<lambda>r. r\<lparr>ur_last_login_at := Some now\<rparr>) rows"

definition MAX_LISTED_IDENTITIES :: nat where "MAX_LISTED_IDENTITIES = 50"

definition identity_find :: "string \<Rightarrow> string \<Rightarrow> IdentityRow list \<Rightarrow> IdentityRow option" where
  "identity_find provider subject rows = one_or_none (\<lambda>r. ir_provider r = provider \<and> ir_subject r = subject) rows"

definition identity_link ::
  "uuid \<Rightarrow> uuid \<Rightarrow> string \<Rightarrow> string \<Rightarrow> string option \<Rightarrow> string option \<Rightarrow> datetime \<Rightarrow> IdentityRow list
     \<Rightarrow> IdentityRow list option" where
  "identity_link row_id user_id provider subject connection email now rows =
     (if list_ex (\<lambda>r. ir_id r = row_id \<or> (ir_provider r = provider \<and> ir_subject r = subject)) rows then None
      else Some (rows @ [\<lparr>ir_id = row_id, ir_user_id = user_id, ir_provider = provider, ir_subject = subject,
                          ir_connection = connection, ir_email = email, ir_last_used_at = Some now\<rparr>]))"

definition identity_touch :: "uuid \<Rightarrow> datetime \<Rightarrow> IdentityRow list \<Rightarrow> IdentityRow list" where
  "identity_touch identity_id now rows =
     updated (\<lambda>r. ir_id r = identity_id) (\<lambda>r. r\<lparr>ir_last_used_at := Some now\<rparr>) rows"

definition count_for_user :: "uuid \<Rightarrow> IdentityRow list \<Rightarrow> nat" where
  "count_for_user user_id rows = affected (\<lambda>r. ir_user_id r = user_id) rows"

definition identity_unlink :: "uuid \<Rightarrow> uuid \<Rightarrow> IdentityRow list \<Rightarrow> bool \<times> IdentityRow list" where
  "identity_unlink identity_id user_id rows =
     (case one_or_none (\<lambda>r. ir_id r = identity_id) rows of
        None \<Rightarrow> (False, rows)
      | Some row \<Rightarrow> if ir_user_id row \<noteq> user_id then (False, rows)
                    else (True, filter (\<lambda>r. ir_id r \<noteq> identity_id) rows))"

end
