(* ===== verification/AuthSessions.thy ===== *)
theory AuthSessions
  imports AuthStore
begin

text \<open>
  \<open>app.auth.sessions\<close>: starting, renewing, verifying and revoking sessions, and \<open>app.auth.principal\<close>, which
  resolves the caller of a request.  A renewal first reads the row of its token and then works with that snapshot, so
  the two halves are separate operations between which other requests may run; from the conditional update on, the
  row it has locked keeps a competing renewal waiting, and the rest of the request is one step.
\<close>

section \<open>The service\<close>

record SessionPolicy =
  sp_ttl_seconds :: int
  sp_max_per_user :: nat

record SessionService =
  ss_policy :: SessionPolicy
  ss_issuer :: TokenIssuer
  ss_jose :: joserfc
  ss_hash :: "string \<Rightarrow> string"
  ss_access_ttl :: int

text \<open>\<open>get_session_service\<close>: the issuer and the service are given the same lifetime.\<close>

definition get_session_service :: "joserfc \<Rightarrow> (string \<Rightarrow> string) \<Rightarrow> int \<Rightarrow> nat \<Rightarrow> int \<Rightarrow> string \<Rightarrow> SessionService" where
  "get_session_service j sha256 session_ttl max_sessions access_ttl app_base_url =
     \<lparr>ss_policy = \<lparr>sp_ttl_seconds = session_ttl, sp_max_per_user = max_sessions\<rparr>,
      ss_issuer = \<lparr>ti_issuer = app_base_url, ti_audience = app_base_url, ti_access_ttl = access_ttl\<rparr>,
      ss_jose = j, ss_hash = sha256, ss_access_ttl = access_ttl\<rparr>"

text \<open>What one request draws at random: ids, and the texts of \<open>token_urlsafe\<close>.\<close>

record Draws =
  dr_session_id :: uuid
  dr_family_id :: uuid
  dr_token_row_id :: uuid
  dr_refresh_token :: string
  dr_jti :: string

record IssuedTokens =
  it_access_token :: string
  it_access_expires_at :: datetime
  it_refresh_token :: string
  it_refresh_expires_at :: datetime
  it_session_id :: uuid

record AuthDb =
  db_users :: "UserRow list"
  db_sessions :: "SessionRow list"
  db_tokens :: "RefreshTokenRow list"

definition mint ::
  "SessionService \<Rightarrow> Draws \<Rightarrow> SessionRow \<Rightarrow> string \<Rightarrow> string \<Rightarrow> string \<Rightarrow> uuid \<Rightarrow> datetime \<Rightarrow> AuthDb
     \<Rightarrow> (IssuedTokens \<times> AuthDb) option" where
  "mint svc dr session email role provider family_id now db =
     (let (access_token, access_expires_at) =
            issue_access_token (ss_jose svc) (ss_issuer svc) (sr_user_id session) (sr_id session) (dr_jti dr)
              email role provider now
      in case token_create (dr_token_row_id dr) (sr_id session) (ss_hash svc (dr_refresh_token dr)) family_id
                (sr_expires_at session) (db_tokens db) of
           None \<Rightarrow> None
         | Some tokens \<Rightarrow>
             Some (\<lparr>it_access_token = access_token, it_access_expires_at = access_expires_at,
                    it_refresh_token = dr_refresh_token dr, it_refresh_expires_at = sr_expires_at session,
                    it_session_id = sr_id session\<rparr>,
                   db\<lparr>db_tokens := tokens\<rparr>))"

definition start ::
  "SessionService \<Rightarrow> Draws \<Rightarrow> uuid \<Rightarrow> string \<Rightarrow> string \<Rightarrow> string \<Rightarrow> string \<Rightarrow> string option \<Rightarrow> datetime \<Rightarrow> AuthDb
     \<Rightarrow> (IssuedTokens \<times> AuthDb) option" where
  "start svc dr user_id email role provider user_agent ip now db =
     (let sessions = (if sp_max_per_user (ss_policy svc) > 0
                      then revoke_beyond user_id (sp_max_per_user (ss_policy svc) - 1) now (db_sessions db)
                      else db_sessions db);
          expires_at = now + seconds (sp_ttl_seconds (ss_policy svc))
      in case session_create (dr_session_id dr) user_id expires_at (take 400 user_agent) ip provider now sessions of
           None \<Rightarrow> None
         | Some (row, sessions') \<Rightarrow>
             mint svc dr row email role provider (dr_family_id dr) now (db\<lparr>db_sessions := sessions'\<rparr>))"

text \<open>\<open>DurableRevocation.revoke_family\<close>, a transaction of its own, which may fail and is then only logged.\<close>

definition durable_revoke_family :: "bool \<Rightarrow> uuid \<Rightarrow> uuid \<Rightarrow> datetime \<Rightarrow> AuthDb \<Rightarrow> AuthDb" where
  "durable_revoke_family commits family_id session_id now db =
     (if commits
      then db\<lparr>db_tokens := revoke_family family_id now (db_tokens db),
              db_sessions := revoke_unscoped session_id now (db_sessions db)\<rparr>
      else db)"

text \<open>
  A renewal past the lookup.  The endpoint answers every refusal with a response it returns, so its transaction
  commits; only the error of a broken constraint rolls it back.
\<close>

datatype refresh_outcome = Renewed IssuedTokens SessionRow | RefreshRefused | RefreshCrashed

definition refresh_with ::
  "SessionService \<Rightarrow> Draws \<Rightarrow> bool \<Rightarrow> datetime \<Rightarrow> datetime \<Rightarrow> RefreshTokenRow option \<Rightarrow> AuthDb \<times> revocation_index
     \<Rightarrow> refresh_outcome \<times> AuthDb \<times> revocation_index" where
  "refresh_with svc dr durable_commits clock now found st =
     (let (db, idx) = st in
      case found of
        None \<Rightarrow> (RefreshRefused, db, idx)
      | Some row \<Rightarrow>
          if rt_used_at row \<noteq> None
          then (RefreshRefused, durable_revoke_family durable_commits (rt_family_id row) (rt_session_id row) now db,
                index_revoke clock (rt_session_id row) (revocation_ttl_seconds (ss_access_ttl svc)) idx)
          else if rt_revoked_at row \<noteq> None \<or> rt_expires_at row \<le> now then (RefreshRefused, db, idx)
          else
            let (won, tokens) = mark_used (rt_id row) now (db_tokens db);
                db' = db\<lparr>db_tokens := tokens\<rparr>
            in if \<not> won then (RefreshRefused, db', idx)
               else case find_active (rt_session_id row) now (db_sessions db') of
                 None \<Rightarrow> (RefreshRefused, db', idx)
               | Some session \<Rightarrow>
                   (case user_get (sr_user_id session) (db_users db') of
                      None \<Rightarrow> (RefreshRefused, db', idx)
                    | Some user \<Rightarrow>
                        (case mint svc dr session (ur_email user) (ur_role user) (sr_provider session)
                                (rt_family_id row) now db' of
                           None \<Rightarrow> (RefreshCrashed, db, idx)
                         | Some (issued, db'') \<Rightarrow> (Renewed issued session, db'', idx))))"

definition verify :: "SessionService \<Rightarrow> datetime \<Rightarrow> string \<Rightarrow> revocation_index \<Rightarrow> (token_error + AccessClaims) \<times> revocation_index" where
  "verify svc clock access_token idx =
     (case verify_access_token (ss_jose svc) (ss_issuer svc) clock access_token of
        Inl e \<Rightarrow> (Inl e, idx)
      | Inr claims \<Rightarrow>
          (case index_is_revoked clock (ac_session_id claims) idx of
             (gone, idx') \<Rightarrow> (if gone then Inl Unauthenticated else Inr claims, idx')))"

definition revoke ::
  "SessionService \<Rightarrow> uuid \<Rightarrow> uuid \<Rightarrow> datetime \<Rightarrow> AuthDb \<times> revocation_index \<Rightarrow> bool \<times> AuthDb \<times> revocation_index" where
  "revoke svc session_id user_id now st =
     (let (db, idx) = st;
          (revoked, sessions) = session_revoke session_id user_id now (db_sessions db)
      in if \<not> revoked then (False, db, idx)
         else (True, db\<lparr>db_sessions := sessions, db_tokens := revoke_for_session session_id now (db_tokens db)\<rparr>,
               index_revoke now session_id (revocation_ttl_seconds (ss_access_ttl svc)) idx))"

definition revoke_one ::
  "SessionService \<Rightarrow> uuid \<Rightarrow> uuid option \<Rightarrow> datetime \<Rightarrow> SessionRow \<Rightarrow> nat \<times> AuthDb \<times> revocation_index
     \<Rightarrow> nat \<times> AuthDb \<times> revocation_index" where
  "revoke_one svc user_id keep now row acc =
     (if keep = Some (sr_id row) then acc
      else case revoke svc (sr_id row) user_id now (snd acc) of
        (revoked, st) \<Rightarrow> (if revoked then fst acc + 1 else fst acc, st))"

definition revoke_others ::
  "SessionService \<Rightarrow> uuid \<Rightarrow> uuid option \<Rightarrow> datetime \<Rightarrow> AuthDb \<times> revocation_index \<Rightarrow> nat \<times> AuthDb \<times> revocation_index" where
  "revoke_others svc user_id keep now st =
     fold (revoke_one svc user_id keep now) (list_active user_id now (db_sessions (fst st))) (0, st)"

section \<open>Who is asking\<close>

record Principal =
  pr_id :: uuid
  pr_email :: string
  pr_role :: string

definition is_admin :: "Principal \<Rightarrow> bool" where "is_admin p \<longleftrightarrow> pr_role p = ''admin''"

text \<open>\<open>UUID("00000000-0000-4000-8000-000000000001")\<close>.\<close>

definition DEV_USER_ID :: uuid where "DEV_USER_ID = 0x00000000000040008000000000000001"
definition DEV_PRINCIPAL :: Principal where
  "DEV_PRINCIPAL = \<lparr>pr_id = DEV_USER_ID, pr_email = ''analyst@aether.dev'', pr_role = ''user''\<rparr>"
definition DEVELOPMENT_ENVIRONMENTS :: "string list" where "DEVELOPMENT_ENVIRONMENTS = [''local'', ''test'']"

record PrincipalSettings =
  ps_app_env :: string
  ps_dev_identity_enabled :: bool

definition development_identity_allowed :: "PrincipalSettings \<Rightarrow> bool" where
  "development_identity_allowed s \<longleftrightarrow> ps_app_env s \<in> set DEVELOPMENT_ENVIRONMENTS \<and> ps_dev_identity_enabled s"

text \<open>An empty header is no header.\<close>

definition resolve_development_principal :: "PrincipalSettings \<Rightarrow> string \<Rightarrow> token_error + Principal" where
  "resolve_development_principal s user_header =
     (if \<not> development_identity_allowed s then Inl Unauthenticated
      else if user_header \<noteq> []
      then (case uuid_of_text user_header of
              None \<Rightarrow> Inl Unauthenticated
            | Some u \<Rightarrow> Inr \<lparr>pr_id = u, pr_email = user_header @ ''@aether.dev'', pr_role = ''user''\<rparr>)
      else Inr DEV_PRINCIPAL)"

text \<open>
  \<open>authenticate\<close>: the outcome is an error, nobody, or a principal and its session.  The index may drop an expired
  entry on the way.
\<close>

type_synonym authenticated = "Principal \<times> uuid option"

definition authenticate ::
  "PrincipalSettings \<Rightarrow> SessionService \<Rightarrow> UserRow list \<Rightarrow> string \<Rightarrow> string \<Rightarrow> datetime \<Rightarrow> revocation_index
     \<Rightarrow> (token_error + authenticated option) \<times> revocation_index" where
  "authenticate s svc users cookie_token user_header clock idx =
     (if user_header \<noteq> [] \<and> development_identity_allowed s
      then (case resolve_development_principal s user_header of
              Inl e \<Rightarrow> (Inl e, idx)
            | Inr p \<Rightarrow> (Inr (Some (p, None)), idx))
      else if cookie_token \<noteq> []
      then (case verify svc clock cookie_token idx of
              (Inl Unauthenticated, idx') \<Rightarrow> (Inr None, idx')
            | (Inl TokenTypeError, idx') \<Rightarrow> (Inl TokenTypeError, idx')
            | (Inr claims, idx') \<Rightarrow>
                (case user_get (ac_user_id claims) users of
                   None \<Rightarrow> (Inr None, idx')
                 | Some user \<Rightarrow>
                     (Inr (Some (\<lparr>pr_id = ur_id user, pr_email = ur_email user, pr_role = ur_role user\<rparr>,
                                 Some (ac_session_id claims))), idx')))
      else if development_identity_allowed s then (Inr (Some (DEV_PRINCIPAL, None)), idx)
      else (Inr None, idx))"

section \<open>Requests over time\<close>

text \<open>
  The deployment as its sessions see it: the database, the index, the clock, renewals between their two halves, the
  access tokens handed out with the claims signed into them, and the hashes of the refresh tokens exchanged so far.
\<close>

record World =
  w_db :: AuthDb
  w_index :: revocation_index
  w_clock :: datetime
  w_pending :: "(nat \<times> datetime \<times> string \<times> RefreshTokenRow option) list"
  w_issued :: "(uuid \<times> string \<times> claims) list"
  w_exchanged :: "string list"

datatype auth_request =
  Wait nat
| SignIn uuid string string "string option" Draws
| BeginRefresh nat string
| FinishRefresh nat Draws bool
| SignOut uuid uuid
| SignOutOthers uuid "uuid option"
| Ask string
| EmptyIndex

text \<open>The claims a token for this user and session carries.\<close>

definition claims_for :: "SessionService \<Rightarrow> Draws \<Rightarrow> uuid \<Rightarrow> UserRow \<Rightarrow> string \<Rightarrow> datetime \<Rightarrow> claims" where
  "claims_for svc dr session_id user provider now =
     access_claims (ss_issuer svc) (ur_id user) session_id (dr_jti dr) (ur_email user) (ur_role user) provider now"

fun serve :: "SessionService \<Rightarrow> auth_request \<Rightarrow> World \<Rightarrow> World" where
  "serve svc (Wait d) w = w\<lparr>w_clock := w_clock w + int d\<rparr>"
| "serve svc (SignIn user_id provider user_agent ip dr) w =
     (case user_get user_id (db_users (w_db w)) of
        None \<Rightarrow> w
      | Some user \<Rightarrow>
          (case start svc dr (ur_id user) (ur_email user) (ur_role user) provider user_agent ip (w_clock w) (w_db w) of
             None \<Rightarrow> w
           | Some (issued, db) \<Rightarrow>
               w\<lparr>w_db := db,
                 w_issued := (it_session_id issued, it_access_token issued,
                              claims_for svc dr (it_session_id issued) user provider (w_clock w)) # w_issued w\<rparr>))"
| "serve svc (BeginRefresh k token) w =
     w\<lparr>w_pending := AList.update k (w_clock w, ss_hash svc token, token_find (ss_hash svc token) (db_tokens (w_db w)))
                     (w_pending w)\<rparr>"
| "serve svc (FinishRefresh k dr durable_commits) w =
     (case map_of (w_pending w) k of
        None \<Rightarrow> w
      | Some (now, token_hash, found) \<Rightarrow>
          (let w' = w\<lparr>w_pending := AList.delete k (w_pending w)\<rparr> in
           case refresh_with svc dr durable_commits (w_clock w) now found (w_db w, w_index w) of
             (Renewed issued session, db, idx) \<Rightarrow>
               (case user_get (sr_user_id session) (db_users db) of
                  None \<Rightarrow> w'
                | Some user \<Rightarrow>
                    w'\<lparr>w_db := db, w_index := idx,
                       w_issued := (sr_id session, it_access_token issued,
                          claims_for svc dr (sr_id session) user (sr_provider session) now) # w_issued w,
                       w_exchanged := token_hash # w_exchanged w\<rparr>)
           | (_, db, idx) \<Rightarrow> w'\<lparr>w_db := db, w_index := idx\<rparr>))"
| "serve svc (SignOut session_id user_id) w =
     (case revoke svc session_id user_id (w_clock w) (w_db w, w_index w) of
        (_, db, idx) \<Rightarrow> w\<lparr>w_db := db, w_index := idx\<rparr>)"
| "serve svc (SignOutOthers user_id keep) w =
     (case revoke_others svc user_id keep (w_clock w) (w_db w, w_index w) of
        (_, db, idx) \<Rightarrow> w\<lparr>w_db := db, w_index := idx\<rparr>)"
| "serve svc (Ask token) w = w\<lparr>w_index := snd (verify svc (w_clock w) token (w_index w))\<rparr>"
| "serve svc EmptyIndex w = w\<lparr>w_index := index_emptied (w_index w)\<rparr>"

definition serve_all :: "SessionService \<Rightarrow> auth_request list \<Rightarrow> World \<Rightarrow> World" where
  "serve_all svc rs w = fold (serve svc) rs w"

definition first_world :: "UserRow list \<Rightarrow> revocation_index \<Rightarrow> datetime \<Rightarrow> World" where
  "first_world users idx clock =
     \<lparr>w_db = \<lparr>db_users = users, db_sessions = [], db_tokens = []\<rparr>, w_index = idx, w_clock = clock, w_pending = [],
      w_issued = [], w_exchanged = []\<rparr>"

end
