(* ===== verification/SessionProperties.thy ===== *)
theory SessionProperties
  imports AuthSessions
begin

text \<open>
  What a deployment keeps to, whatever requests it is sent and however renewals interleave with them: a refresh token is
  exchanged once, nobody holds more sessions than the ceiling, and a session that was signed out, or whose refresh
  token was presented twice, is refused from then on.
\<close>

section \<open>Tables\<close>

lemma map_updated: "(\<And>r. g (f r) = g r) \<Longrightarrow> map g (updated p f rows) = map g rows"
  by (simp add: updated_def)

lemma set_updated: "r' \<in> set (updated p f rows) \<longleftrightarrow> (\<exists>r \<in> set rows. r' = (if p r then f r else r))"
  by (auto simp: updated_def)

lemma one_or_none_Some: "one_or_none p rows = Some r \<Longrightarrow> r \<in> set rows \<and> p r"
  by (auto simp: one_or_none_def find_Some_iff)

lemma affected_pos: "0 < affected p rows \<longleftrightarrow> (\<exists>r \<in> set rows. p r)"
  by (auto simp: affected_def filter_empty_conv)

lemma token_create_Some:
  "token_create i s h fam e rows = Some rows' \<longleftrightarrow>
     i \<notin> rt_id ` set rows \<and> h \<notin> rt_token_hash ` set rows
     \<and> rows' = rows @ [\<lparr>rt_id = i, rt_session_id = s, rt_token_hash = h, rt_family_id = fam, rt_expires_at = e,
                       rt_used_at = None, rt_revoked_at = None\<rparr>]"
  by (auto simp: token_create_def list_ex_iff)

lemma session_create_Some:
  "session_create i u e ua ip p now rows = Some (row, rows') \<longleftrightarrow>
     i \<notin> sr_id ` set rows \<and> rows' = rows @ [row]
     \<and> row = \<lparr>sr_id = i, sr_user_id = u, sr_provider = p, sr_user_agent = ua, sr_ip = ip, sr_created_at = now,
              sr_expires_at = e, sr_revoked_at = None\<rparr>"
  by (auto simp: session_create_def list_ex_iff Let_def)

text \<open>A session that is over: its row is there, and says when it was revoked.\<close>

definition over :: "uuid \<Rightarrow> SessionRow list \<Rightarrow> bool" where
  "over sid rows \<longleftrightarrow> sid \<in> sr_id ` set rows \<and> (\<forall>r \<in> set rows. sr_id r = sid \<longrightarrow> sr_revoked_at r \<noteq> None)"

lemma ids_revoked [simp]: "map sr_id (updated p (\<lambda>r. r\<lparr>sr_revoked_at := v\<rparr>) rows) = map sr_id rows"
  by (simp add: map_updated)

lemma id_set_revoked [simp]: "sr_id ` set (updated p (\<lambda>r. r\<lparr>sr_revoked_at := v\<rparr>) rows) = sr_id ` set rows"
  by (metis ids_revoked list.set_map)

lemma over_updated: "over sid rows \<Longrightarrow> over sid (updated p (\<lambda>r. r\<lparr>sr_revoked_at := Some now\<rparr>) rows)"
  by (auto simp: over_def set_updated)

lemma over_beyond: "over sid rows \<Longrightarrow> over sid (revoke_beyond u k now rows)"
  by (simp add: revoke_beyond_def Let_def over_updated)

lemma ids_beyond [simp]: "map sr_id (revoke_beyond u k now rows) = map sr_id rows"
  by (simp add: revoke_beyond_def Let_def map_updated)

lemma id_set_beyond [simp]: "sr_id ` set (revoke_beyond u k now rows) = sr_id ` set rows"
  by (metis ids_beyond list.set_map)

lemma find_active_not_over: "find_active sid now rows = Some r \<Longrightarrow> sr_id r = sid \<and> r \<in> set rows \<and> \<not> over sid rows"
  unfolding find_active_def over_def session_live_def by (drule one_or_none_Some) auto

section \<open>Operations\<close>

lemma mint_facts:
  assumes "mint svc dr session email role provider fam now db = Some (issued, db')"
  shows "it_session_id issued = sr_id session"
    "it_access_token issued = jwt_encode (ss_jose svc) (access_claims (ss_issuer svc) (sr_user_id session) (sr_id session)
       (dr_jti dr) email role provider now)"
    "db_sessions db' = db_sessions db" "db_users db' = db_users db"
    "\<exists>row. db_tokens db' = db_tokens db @ [row] \<and> rt_id row \<notin> rt_id ` set (db_tokens db)
       \<and> rt_token_hash row \<notin> rt_token_hash ` set (db_tokens db) \<and> rt_session_id row = sr_id session"
  using assms by (auto simp: mint_def issue_access_token_def token_create_Some split: option.splits)

lemma start_facts:
  assumes "start svc dr u email role provider ua ip now db = Some (issued, db')"
  shows "it_session_id issued \<notin> sr_id ` set (db_sessions db)"
    "it_access_token issued = jwt_encode (ss_jose svc) (access_claims (ss_issuer svc) u (it_session_id issued)
       (dr_jti dr) email role provider now)"
    "db_users db' = db_users db"
    "\<exists>row. db_tokens db' = db_tokens db @ [row] \<and> rt_id row \<notin> rt_id ` set (db_tokens db)
       \<and> rt_token_hash row \<notin> rt_token_hash ` set (db_tokens db) \<and> rt_session_id row = it_session_id issued"
    "\<exists>row. db_sessions db' = (if sp_max_per_user (ss_policy svc) > 0
         then revoke_beyond u (sp_max_per_user (ss_policy svc) - 1) now (db_sessions db) else db_sessions db) @ [row]
       \<and> sr_id row = it_session_id issued \<and> sr_user_id row = u \<and> sr_revoked_at row = None"
proof -
  let ?ss = "if sp_max_per_user (ss_policy svc) > 0
         then revoke_beyond u (sp_max_per_user (ss_policy svc) - 1) now (db_sessions db) else db_sessions db"
  obtain row ss' where c: "session_create (dr_session_id dr) u (now + seconds (sp_ttl_seconds (ss_policy svc)))
      (take 400 ua) ip provider now ?ss = Some (row, ss')"
    and m: "mint svc dr row email role provider (dr_family_id dr) now (db\<lparr>db_sessions := ss'\<rparr>) = Some (issued, db')"
    using assms by (auto simp: start_def Let_def split: option.splits)
  note row = c[unfolded session_create_Some] and facts = mint_facts[OF m]
  have "sr_id ` set ?ss = sr_id ` set (db_sessions db)" by simp
  then show "it_session_id issued \<notin> sr_id ` set (db_sessions db)"
    and "it_access_token issued = jwt_encode (ss_jose svc) (access_claims (ss_issuer svc) u (it_session_id issued)
       (dr_jti dr) email role provider now)"
    and "db_users db' = db_users db"
    and "\<exists>row. db_tokens db' = db_tokens db @ [row] \<and> rt_id row \<notin> rt_id ` set (db_tokens db)
       \<and> rt_token_hash row \<notin> rt_token_hash ` set (db_tokens db) \<and> rt_session_id row = it_session_id issued"
    and "\<exists>row. db_sessions db' = ?ss @ [row] \<and> sr_id row = it_session_id issued \<and> sr_user_id row = u
       \<and> sr_revoked_at row = None"
    using row facts by auto
qed

text \<open>A renewal past the lookup, by how it ends.\<close>

lemma refresh_cases:
  assumes "refresh_with svc dr durable clock now found (db, idx) = (outcome, db', idx')"
  obtains (idle) "db' = db" "idx' = idx" "\<And>i s. outcome \<noteq> Renewed i s"
  | (reuse) row where "found = Some row" "rt_used_at row \<noteq> None" "outcome = RefreshRefused"
      "db' = durable_revoke_family durable (rt_family_id row) (rt_session_id row) now db"
      "idx' = index_revoke clock (rt_session_id row) (revocation_ttl_seconds (ss_access_ttl svc)) idx"
  | (consumed) row where "found = Some row" "outcome = RefreshRefused" "idx' = idx"
      "db' = db\<lparr>db_tokens := snd (mark_used (rt_id row) now (db_tokens db))\<rparr>"
  | (renewed) row session user issued where "found = Some row" "rt_used_at row = None"
      "outcome = Renewed issued session" "idx' = idx"
      "fst (mark_used (rt_id row) now (db_tokens db))" "find_active (rt_session_id row) now (db_sessions db) = Some session"
      "user_get (sr_user_id session) (db_users db) = Some user"
      "mint svc dr session (ur_email user) (ur_role user) (sr_provider session) (rt_family_id row) now
         (db\<lparr>db_tokens := snd (mark_used (rt_id row) now (db_tokens db))\<rparr>) = Some (issued, db')"
proof -
  show ?thesis
  proof (cases found)
    case None
    then show ?thesis using assms idle by (simp add: refresh_with_def)
  next
    case (Some row)
    obtain won tokens where m: "mark_used (rt_id row) now (db_tokens db) = (won, tokens)" by (cases "mark_used (rt_id row) now (db_tokens db)")
    show ?thesis
      using assms Some m idle reuse[OF Some] consumed[OF Some] renewed[OF Some]
      by (auto simp: refresh_with_def Let_def split: if_splits option.splits)
  qed
qed

section \<open>How the tables change\<close>

text \<open>No request deletes a row, changes the identity of one, or forgets that a token was used or a session revoked.\<close>

definition same_token :: "RefreshTokenRow \<Rightarrow> RefreshTokenRow \<Rightarrow> bool" where
  "same_token r r' \<longleftrightarrow> rt_id r' = rt_id r \<and> rt_token_hash r' = rt_token_hash r \<and> rt_session_id r' = rt_session_id r
     \<and> (rt_used_at r \<noteq> None \<longrightarrow> rt_used_at r' \<noteq> None)"

definition kept :: "RefreshTokenRow list \<Rightarrow> RefreshTokenRow list \<Rightarrow> bool" where
  "kept ts ts' \<longleftrightarrow> (\<forall>r \<in> set ts. \<exists>r' \<in> set ts'. same_token r r')"

definition tables_ok :: "AuthDb \<Rightarrow> bool" where
  "tables_ok db \<longleftrightarrow> distinct (map rt_id (db_tokens db)) \<and> distinct (map rt_token_hash (db_tokens db))
     \<and> distinct (map sr_id (db_sessions db)) \<and> rt_session_id ` set (db_tokens db) \<subseteq> sr_id ` set (db_sessions db)"

definition evolves :: "AuthDb \<Rightarrow> AuthDb \<Rightarrow> bool" where
  "evolves db db' \<longleftrightarrow> kept (db_tokens db) (db_tokens db') \<and> (\<forall>sid. over sid (db_sessions db) \<longrightarrow> over sid (db_sessions db'))
     \<and> sr_id ` set (db_sessions db) \<subseteq> sr_id ` set (db_sessions db') \<and> (tables_ok db \<longrightarrow> tables_ok db')"

lemma kept_refl: "kept ts ts" by (auto simp: kept_def same_token_def)

lemma kept_trans: "kept ts us \<Longrightarrow> kept us vs \<Longrightarrow> kept ts vs"
  unfolding kept_def same_token_def by (metis (no_types, lifting))

lemma kept_append: "kept ts us \<Longrightarrow> kept ts (us @ vs)"
  by (auto simp: kept_def)

lemma kept_updated:
  assumes "\<And>r. same_token r (f r)"
  shows "kept ts (updated p f ts)"
  unfolding kept_def
proof
  fix r assume "r \<in> set ts"
  then have "(if p r then f r else r) \<in> set (updated p f ts)" by (auto simp: updated_def)
  moreover have "same_token r (if p r then f r else r)" using assms by (simp add: same_token_def)
  ultimately show "\<exists>r' \<in> set (updated p f ts). same_token r r'" by blast
qed

lemma evolves_refl [simp]: "evolves db db" by (simp add: evolves_def kept_refl)

lemma evolves_trans: "evolves a b \<Longrightarrow> evolves b c \<Longrightarrow> evolves a c"
  unfolding evolves_def using kept_trans by (meson order_trans)

lemma evolves_tokens:
  assumes "\<And>r. same_token r (f r)"
  shows "evolves db (db\<lparr>db_tokens := updated p f (db_tokens db)\<rparr>)"
proof -
  have eqs: "map g (updated p f ts) = map g ts" if "g \<in> {rt_id, rt_session_id}" for g ts
    using that assms by (auto simp: same_token_def intro: map_updated)
  have hash: "map rt_token_hash (updated p f ts) = map rt_token_hash ts" for ts
    using assms by (auto simp: same_token_def intro: map_updated)
  have "rt_session_id ` set (updated p f ts) = rt_session_id ` set ts" for ts
    using eqs[of rt_session_id ts] by (metis insertCI list.set_map)
  then show ?thesis using assms by (simp add: evolves_def tables_ok_def kept_updated eqs hash)
qed

lemma evolves_sessions: "evolves db (db\<lparr>db_sessions := updated p (\<lambda>r. r\<lparr>sr_revoked_at := Some now\<rparr>) (db_sessions db)\<rparr>)"
  by (simp add: evolves_def tables_ok_def kept_refl over_updated)

lemma evolves_mark_used: "evolves db (db\<lparr>db_tokens := snd (mark_used i now (db_tokens db))\<rparr>)"
  by (simp add: mark_used_def evolves_tokens same_token_def)

lemma evolves_mint:
  assumes "mint svc dr session email role provider fam now db = Some (issued, db')" "sr_id session \<in> sr_id ` set (db_sessions db)"
  shows "evolves db db'"
proof -
  obtain row where row: "db_tokens db' = db_tokens db @ [row]" "rt_id row \<notin> rt_id ` set (db_tokens db)"
    "rt_token_hash row \<notin> rt_token_hash ` set (db_tokens db)" "rt_session_id row = sr_id session"
    using mint_facts(5)[OF assms(1)] by blast
  have "rt_session_id ` set (db_tokens db') = insert (sr_id session) (rt_session_id ` set (db_tokens db))"
    using row by simp
  then have "tables_ok db \<Longrightarrow> tables_ok db'"
    using row(1-3) mint_facts(3)[OF assms(1)] assms(2) unfolding tables_ok_def by simp
  then show ?thesis using mint_facts(3)[OF assms(1)] row(1) kept_append[OF kept_refl] by (simp add: evolves_def)
qed

lemma evolves_durable: "evolves db (durable_revoke_family commits fam sid now db)"
proof -
  have "evolves db (db\<lparr>db_tokens := revoke_family fam now (db_tokens db)\<rparr>)"
    unfolding revoke_family_def by (rule evolves_tokens) (simp add: same_token_def)
  moreover have "evolves (db\<lparr>db_tokens := revoke_family fam now (db_tokens db)\<rparr>)
      (db\<lparr>db_tokens := revoke_family fam now (db_tokens db), db_sessions := revoke_unscoped sid now (db_sessions db)\<rparr>)"
    using evolves_sessions[of "db\<lparr>db_tokens := revoke_family fam now (db_tokens db)\<rparr>"] by (simp add: revoke_unscoped_def)
  ultimately show ?thesis using evolves_trans by (fastforce simp: durable_revoke_family_def)
qed

lemma evolves_start:
  assumes "start svc dr u email role provider ua ip now db = Some (issued, db')"
  shows "evolves db db'"
proof -
  let ?ss = "if sp_max_per_user (ss_policy svc) > 0
         then revoke_beyond u (sp_max_per_user (ss_policy svc) - 1) now (db_sessions db) else db_sessions db"
  obtain srow trow where rows: "db_sessions db' = ?ss @ [srow]" "sr_id srow = it_session_id issued" "db_tokens db' = db_tokens db @ [trow]"
      "rt_session_id trow = it_session_id issued" "rt_id trow \<notin> rt_id ` set (db_tokens db)"
      "rt_token_hash trow \<notin> rt_token_hash ` set (db_tokens db)"
    using start_facts(4,5)[OF assms] by blast
  have ids: "map sr_id ?ss = map sr_id (db_sessions db)" "sr_id ` set ?ss = sr_id ` set (db_sessions db)" by simp_all
  have new: "it_session_id issued \<notin> sr_id ` set (db_sessions db)" by (rule start_facts(1)[OF assms])
  have gone: "over sid (db_sessions db')" if "over sid (db_sessions db)" for sid
  proof -
    have "over sid ?ss" using that by (simp add: over_beyond)
    moreover have "sid \<noteq> sr_id srow" using that new rows(2) unfolding over_def by (metis (no_types, lifting))
    ultimately show ?thesis by (auto simp: over_def rows(1))
  qed
  have "tables_ok db'" if "tables_ok db"
    using that new ids rows by (auto simp: tables_ok_def)
  moreover have "sr_id ` set (db_sessions db) \<subseteq> sr_id ` set (db_sessions db')" using ids rows(1) by auto
  ultimately show ?thesis using gone kept_append[OF kept_refl] by (simp add: evolves_def rows(3))
qed

lemma evolves_refresh:
  assumes "refresh_with svc dr durable clock now found (db, idx) = (outcome, db', idx')"
  shows "evolves db db'"
  using assms
proof (cases rule: refresh_cases)
  case (renewed row session user issued)
  have "sr_id session \<in> sr_id ` set (db_sessions db)" using find_active_not_over[OF renewed(6)] by blast
  then show ?thesis using evolves_trans[OF evolves_mark_used evolves_mint[OF renewed(8)]] by simp
qed (simp_all add: evolves_durable evolves_mark_used)

lemma evolves_revoke: "evolves (fst st) (fst (snd (revoke svc sid u now st)))"
proof -
  obtain db idx where st: "st = (db, idx)" by (cases st)
  let ?db = "db\<lparr>db_sessions := snd (session_revoke sid u now (db_sessions db))\<rparr>"
  have "evolves db ?db" by (simp add: session_revoke_def evolves_sessions)
  moreover have "evolves ?db (?db\<lparr>db_tokens := revoke_for_session sid now (db_tokens ?db)\<rparr>)"
    unfolding revoke_for_session_def by (rule evolves_tokens) (simp add: same_token_def)
  ultimately have "evolves db (?db\<lparr>db_tokens := revoke_for_session sid now (db_tokens ?db)\<rparr>)"
    by (rule evolves_trans)
  then show ?thesis by (simp add: revoke_def Let_def st case_prod_beta)
qed

text \<open>Signing out the other devices is a sequence of sign-outs: what each keeps, the sequence keeps.\<close>

lemma revoke_others_keeps:
  assumes "P st" "\<And>st sid. P st \<Longrightarrow> P (snd (revoke svc sid u now st))"
  shows "P (snd (revoke_others svc u keep now st))"
proof -
  have one: "P (snd (revoke_one svc u keep now row (n, st)))" if "P st" for row n st
    using that assms(2)[OF that, of "sr_id row"] by (simp add: revoke_one_def case_prod_beta)
  have "P (snd (fold (revoke_one svc u keep now) rows acc))" if "P (snd acc)" for rows acc
    using that
  proof (induction rows arbitrary: acc)
    case (Cons row rows)
    then show ?case using one[of "snd acc" row "fst acc"] by simp
  qed simp
  then show ?thesis using assms(1) by (simp add: revoke_others_def)
qed

section \<open>What every request keeps\<close>

fun pending_ok :: "RefreshTokenRow list \<Rightarrow> datetime \<Rightarrow> nat \<times> datetime \<times> string \<times> RefreshTokenRow option \<Rightarrow> bool" where
  "pending_ok ts clock (k, now, h, found) \<longleftrightarrow> now \<le> clock
     \<and> (\<forall>row. found = Some row \<longrightarrow> (\<exists>r \<in> set ts.
           rt_id r = rt_id row \<and> rt_token_hash r = h \<and> rt_session_id r = rt_session_id row))"

definition tokens_inv :: "World \<Rightarrow> bool" where
  "tokens_inv w \<longleftrightarrow> tables_ok (w_db w) \<and> distinct (w_exchanged w)
     \<and> (\<forall>h \<in> set (w_exchanged w). \<exists>r \<in> set (db_tokens (w_db w)). rt_token_hash r = h \<and> rt_used_at r \<noteq> None)
     \<and> (\<forall>p \<in> set (w_pending w). pending_ok (db_tokens (w_db w)) (w_clock w) p)"

definition issue_inv :: "SessionService \<Rightarrow> World \<Rightarrow> bool" where
  "issue_inv svc w \<longleftrightarrow> (\<forall>(sid, token, cs) \<in> set (w_issued w). token = jwt_encode (ss_jose svc) cs
     \<and> map_of cs ''sid'' = Some (ClaimText (uuid_text sid))
     \<and> (\<exists>e. map_of cs ''exp'' = Some (ClaimNumber e) \<and> e \<le> timestamp (w_clock w) + ti_access_ttl (ss_issuer svc)))"

lemma tokens_inv_evolves:
  assumes "tokens_inv w" "evolves (w_db w) (w_db w')" "w_exchanged w' = w_exchanged w"
    "set (w_pending w') \<subseteq> set (w_pending w)" "w_clock w \<le> w_clock w'"
  shows "tokens_inv w'"
proof -
  have kept: "\<exists>r' \<in> set (db_tokens (w_db w')). same_token r r'" if "r \<in> set (db_tokens (w_db w))" for r
    using assms(2) that by (auto simp: evolves_def kept_def)
  have "\<exists>r \<in> set (db_tokens (w_db w')). rt_token_hash r = h \<and> rt_used_at r \<noteq> None" if h: "h \<in> set (w_exchanged w')" for h
  proof -
    obtain r where "r \<in> set (db_tokens (w_db w))" "rt_token_hash r = h" "rt_used_at r \<noteq> None"
      using assms(1,3) h unfolding tokens_inv_def by auto
    then show ?thesis using kept[of r] unfolding same_token_def by metis
  qed
  moreover have "pending_ok (db_tokens (w_db w')) (w_clock w') p" if "p \<in> set (w_pending w')" for p
  proof -
    obtain k now h found where p: "p = (k, now, h, found)" by (cases p)
    have old: "pending_ok (db_tokens (w_db w)) (w_clock w) p" using assms(1,4) that by (auto simp: tokens_inv_def)
    have "\<exists>r \<in> set (db_tokens (w_db w')). rt_id r = rt_id row \<and> rt_token_hash r = h \<and> rt_session_id r = rt_session_id row"
      if "found = Some row" for row
    proof -
      obtain r where "r \<in> set (db_tokens (w_db w))" "rt_id r = rt_id row" "rt_token_hash r = h"
        "rt_session_id r = rt_session_id row" using old \<open>found = Some row\<close> p by auto
      then show ?thesis using kept[of r] unfolding same_token_def by metis
    qed
    then show ?thesis using old assms(5) p by simp
  qed
  moreover have "tables_ok (w_db w')" using assms(1,2) by (simp add: tokens_inv_def evolves_def)
  ultimately show ?thesis using assms(1,3) by (simp add: tokens_inv_def)
qed

lemma distinct_map_same: "distinct (map f xs) \<Longrightarrow> x \<in> set xs \<Longrightarrow> y \<in> set xs \<Longrightarrow> f x = f y \<Longrightarrow> x = y"
  by (auto simp: distinct_map dest: inj_onD)

lemma map_of_pending: "map_of (w_pending w) k = Some (now, h, found) \<Longrightarrow> (k, now, h, found) \<in> set (w_pending w)"
  by (rule map_of_SomeD)

lemma set_update_subset: "set (AList.update k v al) \<subseteq> insert (k, v) (set al)"
  by (induction al) auto

lemma set_delete: "set (AList.delete k al) \<subseteq> set al"
  by (auto simp: AList.delete_eq)

text \<open>A renewal that wins consumes a token nobody has exchanged.\<close>

lemma renewal_is_new:
  assumes inv: "tokens_inv w" and pending: "map_of (w_pending w) k = Some (now, h, Some row)"
    and won: "fst (mark_used (rt_id row) now (db_tokens (w_db w)))"
  shows "h \<notin> set (w_exchanged w)"
    "\<exists>r \<in> set (snd (mark_used (rt_id row) now (db_tokens (w_db w)))). rt_token_hash r = h \<and> rt_used_at r \<noteq> None"
proof -
  let ?ts = "db_tokens (w_db w)"
  obtain r where r: "r \<in> set ?ts" "rt_id r = rt_id row" "rt_used_at r = None"
    using won by (auto simp: mark_used_def affected_pos unused_def)
  have "pending_ok ?ts (w_clock w) (k, now, h, Some row)"
    using inv map_of_pending[OF pending] unfolding tokens_inv_def by blast
  then obtain r2 where r2: "r2 \<in> set ?ts" "rt_id r2 = rt_id row" "rt_token_hash r2 = h" by auto
  have ok: "distinct (map rt_id ?ts)" "distinct (map rt_token_hash ?ts)" using inv by (auto simp: tokens_inv_def tables_ok_def)
  have same: "r2 = r" using distinct_map_same[OF ok(1) r2(1) r(1)] r(2) r2(2) by simp
  show "h \<notin> set (w_exchanged w)"
  proof
    assume "h \<in> set (w_exchanged w)"
    then obtain r3 where "r3 \<in> set ?ts" "rt_token_hash r3 = h" "rt_used_at r3 \<noteq> None"
      using inv unfolding tokens_inv_def by blast
    then show False using distinct_map_same[OF ok(2), of r3 r] r same r2(3) by simp
  qed
  have "r\<lparr>rt_used_at := Some now\<rparr> \<in> set (snd (mark_used (rt_id row) now ?ts))"
    using r by (auto simp: mark_used_def updated_def unused_def image_iff)
  moreover have "rt_token_hash (r\<lparr>rt_used_at := Some now\<rparr>) = h" "rt_used_at (r\<lparr>rt_used_at := Some now\<rparr>) \<noteq> None"
    using same r2(3) by simp_all
  ultimately show "\<exists>r \<in> set (snd (mark_used (rt_id row) now ?ts)). rt_token_hash r = h \<and> rt_used_at r \<noteq> None"
    by blast
qed

text \<open>The second half of a renewal: it ends refused, or it adds one token for a session that is not over.\<close>

lemma finish_cases:
  obtains (none) "serve svc (FinishRefresh k dr durable) w = w" "map_of (w_pending w) k = None"
  | (refused) now h found outcome db idx where "map_of (w_pending w) k = Some (now, h, found)"
      "refresh_with svc dr durable (w_clock w) now found (w_db w, w_index w) = (outcome, db, idx)"
      "\<And>i s. outcome \<noteq> Renewed i s"
      "serve svc (FinishRefresh k dr durable) w = w\<lparr>w_pending := AList.delete k (w_pending w), w_db := db, w_index := idx\<rparr>"
  | (renewed) now h row issued session user db where "map_of (w_pending w) k = Some (now, h, Some row)"
      "fst (mark_used (rt_id row) now (db_tokens (w_db w)))"
      "find_active (rt_session_id row) now (db_sessions (w_db w)) = Some session"
      "user_get (sr_user_id session) (db_users (w_db w)) = Some user"
      "mint svc dr session (ur_email user) (ur_role user) (sr_provider session) (rt_family_id row) now
         ((w_db w)\<lparr>db_tokens := snd (mark_used (rt_id row) now (db_tokens (w_db w)))\<rparr>) = Some (issued, db)"
      "refresh_with svc dr durable (w_clock w) now (Some row) (w_db w, w_index w) = (Renewed issued session, db, w_index w)"
      "serve svc (FinishRefresh k dr durable) w = w\<lparr>w_pending := AList.delete k (w_pending w), w_db := db,
         w_issued := (sr_id session, it_access_token issued, claims_for svc dr (sr_id session) user (sr_provider session) now)
           # w_issued w, w_exchanged := h # w_exchanged w\<rparr>"
proof (cases "map_of (w_pending w) k")
  case None
  then show ?thesis by (intro none) simp_all
next
  case (Some p)
  obtain now h found where p: "p = (now, h, found)" by (cases p)
  obtain outcome db idx where r: "refresh_with svc dr durable (w_clock w) now found (w_db w, w_index w) = (outcome, db, idx)"
    by (cases "refresh_with svc dr durable (w_clock w) now found (w_db w, w_index w)")
  show ?thesis
  proof (cases outcome)
    case (Renewed issued session)
    from r show ?thesis
    proof (cases rule: refresh_cases)
      case (renewed row session' user issued')
      have "db_users db = db_users (w_db w)" using mint_facts(4)[OF renewed(8)] by simp
      then show ?thesis
        using that(3)[of now h row session' user issued' db] Some p r renewed by simp
    qed (use Renewed in auto)
  qed (use Some p r in \<open>auto intro!: refused[of now h found outcome db idx]\<close>)
qed

declare serve.simps(4) [simp del]

lemma user_get_Some: "user_get u rows = Some r \<Longrightarrow> ur_id r = u"
  unfolding user_get_def by (drule one_or_none_Some) simp

lemma claims_for_facts:
  "map_of (claims_for svc dr sid user provider now) ''sid'' = Some (ClaimText (uuid_text sid))"
  "map_of (claims_for svc dr sid user provider now) ''exp''
     = Some (ClaimNumber (timestamp now + ti_access_ttl (ss_issuer svc)))"
  by (simp_all add: claims_for_def access_claims_def)

lemma finish_evolves: "evolves (w_db w) (w_db (serve svc (FinishRefresh k dr durable) w))"
proof (cases rule: finish_cases[of svc k dr durable w])
  case (refused now h found outcome db idx)
  show ?thesis unfolding refused(4) using evolves_refresh[OF refused(2)] by simp
next
  case (renewed now h row issued session user db)
  show ?thesis unfolding renewed(7) using evolves_refresh[OF renewed(6)] by simp
qed simp

lemma serve_evolves: "evolves (w_db w) (w_db (serve svc r w))"
proof (cases r)
  case (SignIn u provider ua ip dr)
  then show ?thesis using evolves_start by (auto split: option.splits)
next
  case (FinishRefresh k dr durable)
  then show ?thesis using finish_evolves by simp
next
  case (SignOut sid u)
  then show ?thesis using evolves_revoke[of "(w_db w, w_index w)" svc sid u "w_clock w"] by (auto split: prod.splits)
next
  case (SignOutOthers u keep)
  have "evolves (w_db w) (fst (snd (revoke_others svc u keep (w_clock w) (w_db w, w_index w))))"
    by (rule revoke_others_keeps) (auto intro: evolves_trans evolves_revoke)
  then show ?thesis using SignOutOthers by (auto split: prod.splits)
qed simp_all

lemma clock_mono: "w_clock w \<le> w_clock (serve svc r w)"
proof (cases r)
  case (FinishRefresh k dr durable)
  have "w_clock (serve svc (FinishRefresh k dr durable) w) = w_clock w"
  proof (cases rule: finish_cases[of svc k dr durable w])
    case (refused now h found outcome db idx)
    show ?thesis unfolding refused(4) by simp
  next
    case (renewed now h row issued session user db)
    show ?thesis unfolding renewed(7) by simp
  qed simp
  then show ?thesis using FinishRefresh by simp
qed (auto split: option.splits prod.splits)

lemma finish_tokens_inv:
  assumes "tokens_inv w"
  shows "tokens_inv (serve svc (FinishRefresh k dr durable) w)"
proof (cases rule: finish_cases[of svc k dr durable w])
  case none
  then show ?thesis using assms by simp
next
  case (refused now h found outcome db idx)
  have "evolves (w_db w) db" using finish_evolves[of w svc k dr durable] unfolding refused(4) by simp
  then show ?thesis
    unfolding refused(4) by (intro tokens_inv_evolves[OF assms]) (simp_all add: set_delete)
next
  case (renewed now h row issued session user db)
  let ?w = "w\<lparr>w_pending := AList.delete k (w_pending w), w_db := db\<rparr>"
  have "evolves (w_db w) db" using finish_evolves[of w svc k dr durable] unfolding renewed(7) by simp
  then have w: "tokens_inv ?w" by (intro tokens_inv_evolves[OF assms]) (simp_all add: set_delete)
  note new = renewal_is_new[OF assms renewed(1,2)]
  obtain t where "db_tokens db = snd (mark_used (rt_id row) now (db_tokens (w_db w))) @ [t]"
    using mint_facts(5)[OF renewed(5)] by auto
  then have "\<exists>r \<in> set (db_tokens db). rt_token_hash r = h \<and> rt_used_at r \<noteq> None" using new(2) by auto
  then show ?thesis unfolding renewed(7) using w new(1) by (simp add: tokens_inv_def)
qed

lemma tokens_inv_step:
  assumes "tokens_inv w"
  shows "tokens_inv (serve svc r w)"
proof (cases r)
  case (BeginRefresh k token)
  let ?p = "(w_clock w, ss_hash svc token, token_find (ss_hash svc token) (db_tokens (w_db w)))"
  have "set (AList.update k ?p (w_pending w)) \<subseteq> insert (k, ?p) (set (w_pending w))"
    by (rule set_update_subset)
  moreover have "\<exists>r \<in> set (db_tokens (w_db w)). rt_id r = rt_id row \<and> rt_token_hash r = ss_hash svc token
      \<and> rt_session_id r = rt_session_id row" if "token_find (ss_hash svc token) (db_tokens (w_db w)) = Some row" for row
    using that unfolding token_find_def by (auto dest!: one_or_none_Some)
  then have "pending_ok (db_tokens (w_db w)) (w_clock w) (k, ?p)" by simp
  ultimately have "\<forall>p \<in> set (AList.update k ?p (w_pending w)). pending_ok (db_tokens (w_db w)) (w_clock w) p"
    using assms unfolding tokens_inv_def by blast
  then show ?thesis using assms BeginRefresh by (simp add: tokens_inv_def)
next
  case (FinishRefresh k dr durable)
  then show ?thesis using finish_tokens_inv[OF assms] by simp
next
  case (SignIn u provider ua ip dr)
  show ?thesis
    unfolding SignIn
    by (rule tokens_inv_evolves[OF assms serve_evolves]) (auto split: option.splits)
next
  case (SignOut sid u)
  show ?thesis
    unfolding SignOut by (rule tokens_inv_evolves[OF assms serve_evolves]) (auto split: prod.splits)
next
  case (SignOutOthers u keep)
  show ?thesis
    unfolding SignOutOthers by (rule tokens_inv_evolves[OF assms serve_evolves]) (auto split: prod.splits)
qed (use assms in \<open>auto intro: tokens_inv_evolves[OF assms]\<close>)

lemma serve_all_induct:
  assumes "P w" "\<And>r w. P w \<Longrightarrow> r \<in> set rs \<Longrightarrow> P (serve svc r w)"
  shows "P (serve_all svc rs w)"
  using assms
proof (induction rs arbitrary: w)
  case (Cons r rs)
  then show ?case by (simp add: serve_all_def)
qed (simp add: serve_all_def)

lemma first_tokens_inv: "tokens_inv (first_world users idx clock)"
  by (simp add: tokens_inv_def first_world_def tables_ok_def)

lemma reached_tokens_inv: "tokens_inv (serve_all svc rs (first_world users idx clock))"
  by (rule serve_all_induct) (simp_all add: first_tokens_inv tokens_inv_step)

text \<open>C23. A refresh token is exchanged at most once.  Whatever requests a deployment is sent, however many renewals
  present the same token, and however their halves interleave (the lookup of one before or after the conditional update
  of another), no hash is exchanged twice.
\<close>

theorem refresh_token_is_exchanged_once: "distinct (w_exchanged (serve_all svc rs (first_world users idx clock)))"
  using reached_tokens_inv unfolding tokens_inv_def by blast

section \<open>Access tokens handed out\<close>

text \<open>A request hands out at most one access token: for a session that is not over, with the lifetime the issuer gives.\<close>

lemma serve_issues:
  assumes "tokens_inv w"
  obtains (silent) "w_issued (serve svc r w) = w_issued w"
  | (issues) sid token dr user provider now where
      "w_issued (serve svc r w) = (sid, token, claims_for svc dr sid user provider now) # w_issued w"
      "token = jwt_encode (ss_jose svc) (claims_for svc dr sid user provider now)" "now \<le> w_clock w"
      "\<not> over sid (db_sessions (w_db w))"
proof (cases r)
  case (SignIn u provider ua ip dr)
  show ?thesis
  proof (cases "w_issued (serve svc r w) = w_issued w")
    case False
    then obtain user issued db where u: "user_get u (db_users (w_db w)) = Some user"
      and s: "start svc dr (ur_id user) (ur_email user) (ur_role user) provider ua ip (w_clock w) (w_db w) = Some (issued, db)"
      using SignIn by (auto split: option.splits)
    then show ?thesis
      using issues[of "it_session_id issued" "it_access_token issued" dr user provider "w_clock w"] SignIn
        start_facts(1,2)[OF s] by (auto simp: claims_for_def over_def)
  qed (rule silent)
next
  case (FinishRefresh k dr durable)
  show ?thesis
  proof (cases rule: finish_cases[of svc k dr durable w])
    case none
    then show ?thesis using silent FinishRefresh by simp
  next
    case (refused now h found outcome db idx)
    then show ?thesis using silent unfolding FinishRefresh refused(4) by simp
  next
    case (renewed now h row issued session user db)
    have "pending_ok (db_tokens (w_db w)) (w_clock w) (k, now, h, Some row)"
      using assms map_of_pending[OF renewed(1)] unfolding tokens_inv_def by blast
    moreover have "\<not> over (sr_id session) (db_sessions (w_db w))" using find_active_not_over[OF renewed(3)] by simp
    moreover have "sr_user_id session = ur_id user" using user_get_Some[OF renewed(4)] by simp
    ultimately show ?thesis
      using issues[of "sr_id session" "it_access_token issued" dr user "sr_provider session" now] FinishRefresh
        mint_facts(2)[OF renewed(5)] unfolding FinishRefresh renewed(7) by (simp add: claims_for_def)
  qed
next
  case (SignOut sid u)
  then show ?thesis using silent by (auto split: prod.splits)
next
  case (SignOutOthers u keep)
  then show ?thesis using silent by (auto split: prod.splits)
qed (use silent in auto)

lemma issue_inv_step:
  assumes "tokens_inv w" "issue_inv svc w"
  shows "issue_inv svc (serve svc r w)"
proof -
  have old: "token = jwt_encode (ss_jose svc) cs \<and> map_of cs ''sid'' = Some (ClaimText (uuid_text sid))
     \<and> (\<exists>e. map_of cs ''exp'' = Some (ClaimNumber e) \<and> e \<le> timestamp (w_clock (serve svc r w)) + ti_access_ttl (ss_issuer svc))"
    if "(sid, token, cs) \<in> set (w_issued w)" for sid token cs
    using assms(2) that timestamp_mono[OF clock_mono[of w svc r]] unfolding issue_inv_def by fastforce
  from assms(1) show ?thesis
  proof (cases rule: serve_issues[of w svc r])
    case silent
    then show ?thesis using old by (auto simp: issue_inv_def)
  next
    case (issues sid token dr user provider now)
    have "timestamp now \<le> timestamp (w_clock (serve svc r w))"
      using issues(3) clock_mono[of w svc r] by (intro timestamp_mono) simp
    then show ?thesis using old issues(1,2) by (auto simp: issue_inv_def claims_for_facts)
  qed
qed

lemma reached_issue_inv: "issue_inv svc (serve_all svc rs (first_world users idx clock))"
proof -
  let ?P = "\<lambda>w. tokens_inv w \<and> issue_inv svc w"
  have "?P (serve_all svc rs (first_world users idx clock))"
    by (rule serve_all_induct) (simp_all add: first_tokens_inv tokens_inv_step issue_inv_step, simp add: issue_inv_def first_world_def)
  then show ?thesis by simp
qed

text \<open>Nothing more is handed out for a session that is over, and it stays over.\<close>

lemma over_run:
  assumes "tokens_inv w" "over sid (db_sessions (w_db w))"
  shows "tokens_inv (serve_all svc rs w) \<and> over sid (db_sessions (w_db (serve_all svc rs w)))
    \<and> filter (\<lambda>x. fst x = sid) (w_issued (serve_all svc rs w)) = filter (\<lambda>x. fst x = sid) (w_issued w)
    \<and> w_clock w \<le> w_clock (serve_all svc rs w)"
proof (rule serve_all_induct)
  fix r v
  assume v: "tokens_inv v \<and> over sid (db_sessions (w_db v)) \<and> filter (\<lambda>x. fst x = sid) (w_issued v)
      = filter (\<lambda>x. fst x = sid) (w_issued w) \<and> w_clock w \<le> w_clock v"
  have "over sid (db_sessions (w_db (serve svc r v)))" using serve_evolves[of v svc r] v by (auto simp: evolves_def)
  moreover have "filter (\<lambda>x. fst x = sid) (w_issued (serve svc r v)) = filter (\<lambda>x. fst x = sid) (w_issued v)"
    using v by (auto elim: serve_issues[of v svc r])
  ultimately show "tokens_inv (serve svc r v) \<and> over sid (db_sessions (w_db (serve svc r v)))
      \<and> filter (\<lambda>x. fst x = sid) (w_issued (serve svc r v)) = filter (\<lambda>x. fst x = sid) (w_issued w)
      \<and> w_clock w \<le> w_clock (serve svc r v)"
    using v tokens_inv_step clock_mono[of v svc r] by auto
qed (use assms in simp)

section \<open>The index over time\<close>

definition covered :: "uuid \<Rightarrow> datetime \<Rightarrow> datetime \<Rightarrow> revocation_index \<Rightarrow> bool" where
  "covered sid until clock idx \<longleftrightarrow> (\<forall>t. clock \<le> t \<and> t < until \<longrightarrow> fst (index_is_revoked t sid idx))"

lemma covered_later: "covered sid until clock idx \<Longrightarrow> clock \<le> now \<Longrightarrow> covered sid until now idx"
  by (auto simp: covered_def)

lemma index_covered_revoke:
  assumes "covered sid until clock idx" "clock \<le> now" "until \<le> now + seconds ttl" "1 \<le> ttl"
  shows "covered sid until now (index_revoke now sid' ttl idx)"
  using either_index.covered_revoke[OF assms(1)[unfolded covered_def] assms(2-)] by (simp add: covered_def)

lemma index_covered_asked:
  assumes "covered sid until clock idx"
  shows "covered sid until clock (snd (index_is_revoked clock sid' idx))"
  using either_index.covered_asked[OF assms(1)[unfolded covered_def] order_refl] by (simp add: covered_def)

lemma covered_verify:
  assumes "covered sid until clock idx"
  shows "covered sid until clock (snd (verify svc clock token idx))"
  using assms index_covered_asked by (auto simp: verify_def case_prod_beta split: sum.splits)

lemma covered_signed_out: "1 \<le> ttl \<Longrightarrow> covered sid (now + seconds ttl) now (index_revoke now sid ttl idx)"
  using either_index.remembers by (simp add: covered_def)

lemma seconds_mono: "a \<le> b \<Longrightarrow> seconds a \<le> seconds b" by (simp add: seconds_def)

lemma covered_step:
  assumes "covered sid until (w_clock w) (w_index w)" "r \<noteq> EmptyIndex" "0 \<le> ss_access_ttl svc"
    "until \<le> w_clock w + seconds (revocation_ttl_seconds (ss_access_ttl svc))"
  shows "covered sid until (w_clock (serve svc r w)) (w_index (serve svc r w))"
proof -
  have ttl: "1 \<le> revocation_ttl_seconds (ss_access_ttl svc)" using assms(3) by (simp add: revocation_ttl_seconds_def)
  note keep = index_covered_revoke[OF assms(1) order_refl assms(4) ttl]
  have revoked: "covered sid until (w_clock w) (snd (snd (revoke svc s u (w_clock w) st)))"
    if "covered sid until (w_clock w) (snd st)" for s u st
    using index_covered_revoke[OF that order_refl assms(4) ttl] that by (auto simp: revoke_def Let_def case_prod_beta)
  show ?thesis
  proof (cases r)
    case (Wait d)
    then show ?thesis using covered_later[OF assms(1)] by simp
  next
    case (SignIn u provider ua ip dr)
    then show ?thesis using assms(1) by (auto split: option.splits)
  next
    case (FinishRefresh k dr durable)
    have "covered sid until (w_clock w) (w_index (serve svc (FinishRefresh k dr durable) w))
        \<and> w_clock (serve svc (FinishRefresh k dr durable) w) = w_clock w"
    proof (cases rule: finish_cases[of svc k dr durable w])
      case none
      then show ?thesis using assms(1) by simp
    next
      case (refused now h found outcome db idx)
      from refused(2) have "covered sid until (w_clock w) idx"
        by (cases rule: refresh_cases) (simp_all add: assms(1) keep)
      then show ?thesis unfolding refused(4) by simp
    next
      case (renewed now h row issued session user db)
      show ?thesis unfolding renewed(7) using assms(1) by simp
    qed
    then show ?thesis using FinishRefresh by simp
  next
    case (SignOut s u)
    then show ?thesis using revoked[of "(w_db w, w_index w)" s u] assms(1) by (auto split: prod.splits)
  next
    case (SignOutOthers u keep)
    have "covered sid until (w_clock w) (snd (snd (revoke_others svc u keep (w_clock w) (w_db w, w_index w))))"
      by (rule revoke_others_keeps) (use assms(1) revoked in auto)
    then show ?thesis using SignOutOthers by (auto split: prod.splits)
  qed (use assms covered_verify in auto)
qed

lemma covered_run:
  assumes "covered sid until (w_clock w) (w_index w)" "EmptyIndex \<notin> set rs" "0 \<le> ss_access_ttl svc"
    "until \<le> w_clock w + seconds (revocation_ttl_seconds (ss_access_ttl svc))"
  shows "covered sid until (w_clock (serve_all svc rs w)) (w_index (serve_all svc rs w))"
proof -
  let ?P = "\<lambda>v. w_clock w \<le> w_clock v \<and> covered sid until (w_clock v) (w_index v)"
  have "?P (serve_all svc rs w)"
  proof (rule serve_all_induct)
    fix r and v :: World assume "?P v" "r \<in> set rs"
    then show "?P (serve svc r v)"
      using covered_step[of sid until v r svc] assms(2-) clock_mono[of v svc r] by force
  qed (use assms(1) in simp)
  then show ?thesis by simp
qed

section \<open>Signed out for good\<close>

text \<open>
  What is relied on of \<open>joserfc\<close>: claims whose \<open>exp\<close> lies further back than the leeway are refused, and a token of
  this issuer decodes to the claims it was signed with.
\<close>

definition checks_expiry :: "joserfc \<Rightarrow> bool" where
  "checks_expiry j \<longleftrightarrow> (\<forall>clock leeway iss aud cs e. registry_valid j clock leeway iss aud cs
     \<longrightarrow> map_of cs ''exp'' = Some (ClaimNumber e) \<longrightarrow> clock - leeway \<le> e)"

definition decodes_issued :: "joserfc \<Rightarrow> World \<Rightarrow> bool" where
  "decodes_issued j w \<longleftrightarrow> (\<forall>(sid, token, cs) \<in> set (w_issued w). jwt_decode j token = Some cs)"

lemma verified_claims:
  assumes "jwt_decode j token = Some cs" "map_of cs ''sid'' = Some (ClaimText (uuid_text sid))" "sid < 2 ^ 128"
    "map_of cs ''exp'' = Some (ClaimNumber e)"
  shows "verify_access_token j ti clock token = Inl Unauthenticated \<or>
    (\<exists>c. verify_access_token j ti clock token = Inr c \<and> ac_session_id c = sid
       \<and> registry_valid j (timestamp clock) CLOCK_SKEW_SECONDS (ti_issuer ti) (ti_audience ti) cs)"
  using assms by (auto simp: verify_access_token_def uuid_round_trip split: option.splits)

text \<open>Once a token is past its expiry and the leeway, the clock has passed what the index must cover.\<close>

lemma expiry_before_cover:
  assumes "timestamp now - CLOCK_SKEW_SECONDS \<le> e" "e \<le> timestamp clock + ttl"
  shows "now < clock + seconds (ttl + 11)"
proof -
  have "timestamp now \<le> timestamp (clock + seconds (ttl + 10))" using assms by (simp add: CLOCK_SKEW_SECONDS_def)
  then have "now < clock + seconds (ttl + 10) + 1000000" unfolding timestamp_def by linarith
  then show ?thesis by (simp add: seconds_def algebra_simps)
qed

lemma over_is_refused:
  assumes inv: "tokens_inv w" "issue_inv svc w" "over sid (db_sessions (w_db w))"
    and cover: "covered sid (w_clock w + seconds (revocation_ttl_seconds (ss_access_ttl svc))) (w_clock w) (w_index w)"
    and svc: "ti_access_ttl (ss_issuer svc) = ss_access_ttl svc" "0 \<le> ss_access_ttl svc" "checks_expiry (ss_jose svc)"
    and sid: "sid < 2 ^ 128" and decodes: "decodes_issued (ss_jose svc) (serve_all svc rs w)"
    and issued: "(sid, token, cs) \<in> set (w_issued (serve_all svc rs w))"
    and late: "EmptyIndex \<notin> set rs \<or> w_clock w + seconds (ss_access_ttl svc + 11) \<le> w_clock (serve_all svc rs w)"
  shows "(sid, token, cs) \<in> set (w_issued w)"
    "fst (verify svc (w_clock (serve_all svc rs w)) token (w_index (serve_all svc rs w))) = Inl Unauthenticated"
proof -
  let ?w = "serve_all svc rs w"
  note run = over_run[OF inv(1,3), of svc rs]
  have "(sid, token, cs) \<in> set (filter (\<lambda>x. fst x = sid) (w_issued ?w))" using issued by simp
  then show old: "(sid, token, cs) \<in> set (w_issued w)" using run by simp
  obtain e where cs: "map_of cs ''sid'' = Some (ClaimText (uuid_text sid))" "map_of cs ''exp'' = Some (ClaimNumber e)"
    "e \<le> timestamp (w_clock w) + ss_access_ttl svc" using inv(2) old svc(1) unfolding issue_inv_def by fastforce
  have decode: "jwt_decode (ss_jose svc) token = Some cs" using decodes issued unfolding decodes_issued_def by fast
  let ?v = "verify_access_token (ss_jose svc) (ss_issuer svc) (w_clock ?w) token"
  from verified_claims[OF decode cs(1) sid cs(2), of "ss_issuer svc" "w_clock ?w"]
  show "fst (verify svc (w_clock ?w) token (w_index ?w)) = Inl Unauthenticated"
  proof (elim disjE exE conjE)
    fix c assume c: "?v = Inr c" "ac_session_id c = sid"
      and valid: "registry_valid (ss_jose svc) (timestamp (w_clock ?w)) CLOCK_SKEW_SECONDS (ti_issuer (ss_issuer svc))
        (ti_audience (ss_issuer svc)) cs"
    have "timestamp (w_clock ?w) - CLOCK_SKEW_SECONDS \<le> e" using svc(3) valid cs(2) unfolding checks_expiry_def by blast
    then have early: "w_clock ?w < w_clock w + seconds (ss_access_ttl svc + 11)" using cs(3) by (rule expiry_before_cover)
    then have "EmptyIndex \<notin> set rs" using late by simp
    then have "covered sid (w_clock w + seconds (revocation_ttl_seconds (ss_access_ttl svc))) (w_clock ?w) (w_index ?w)"
      using covered_run[OF cover] svc(2) by simp
    moreover have "w_clock w + seconds (ss_access_ttl svc + 11) \<le> w_clock w + seconds (revocation_ttl_seconds (ss_access_ttl svc))"
      by (simp add: revocation_ttl_seconds_def seconds_def)
    ultimately have "fst (index_is_revoked (w_clock ?w) sid (w_index ?w))" using early by (simp add: covered_def)
    then show ?thesis using c by (simp add: verify_def case_prod_beta)
  qed (simp add: verify_def)
qed

lemma signed_out:
  assumes "tokens_inv w" "fst (revoke svc sid u (w_clock w) (w_db w, w_index w))" "0 \<le> ss_access_ttl svc"
  shows "over sid (db_sessions (w_db (serve svc (SignOut sid u) w)))"
    "covered sid (w_clock w + seconds (revocation_ttl_seconds (ss_access_ttl svc))) (w_clock w)
       (w_index (serve svc (SignOut sid u) w))"
    "w_clock (serve svc (SignOut sid u) w) = w_clock w" "w_issued (serve svc (SignOut sid u) w) = w_issued w"
proof -
  let ?ss = "db_sessions (w_db w)"
  let ?ss' = "updated (owned_unrevoked sid u) (\<lambda>r. r\<lparr>sr_revoked_at := Some (w_clock w)\<rparr>) ?ss"
  have live: "0 < affected (owned_unrevoked sid u) ?ss" using assms(2) by (simp add: revoke_def session_revoke_def split: if_splits)
  then obtain r where r: "r \<in> set ?ss" "owned_unrevoked sid u r" by (auto simp: affected_pos)
  have "distinct (map sr_id ?ss)" using assms(1) by (simp add: tokens_inv_def tables_ok_def)
  then have only: "x = r" if "x \<in> set ?ss" "sr_id x = sid" for x
    using distinct_map_same[of sr_id ?ss x r] that r by (simp add: owned_unrevoked_def)
  have "over sid ?ss'"
    unfolding over_def
  proof
    show "sid \<in> sr_id ` set ?ss'" using r by (auto simp: owned_unrevoked_def)
    show "\<forall>x \<in> set ?ss'. sr_id x = sid \<longrightarrow> sr_revoked_at x \<noteq> None"
    proof (intro ballI impI)
      fix x assume "x \<in> set ?ss'" "sr_id x = sid"
      then obtain y where y: "y \<in> set ?ss" "x = (if owned_unrevoked sid u y then y\<lparr>sr_revoked_at := Some (w_clock w)\<rparr> else y)"
        by (auto simp: set_updated)
      then have "y = r" using only \<open>sr_id x = sid\<close> by (simp split: if_splits)
      then show "sr_revoked_at x \<noteq> None" using y(2) r(2) by simp
    qed
  qed
  then show "over sid (db_sessions (w_db (serve svc (SignOut sid u) w)))"
    using live by (simp add: revoke_def session_revoke_def)
  have "1 \<le> revocation_ttl_seconds (ss_access_ttl svc)" using assms(3) by (simp add: revocation_ttl_seconds_def)
  then show "covered sid (w_clock w + seconds (revocation_ttl_seconds (ss_access_ttl svc))) (w_clock w)
       (w_index (serve svc (SignOut sid u) w))"
    using live covered_signed_out by (simp add: revoke_def session_revoke_def)
qed (simp_all split: prod.splits)

lemma caught_reuse:
  assumes "tokens_inv w" "map_of (w_pending w) k = Some (now, h, Some row)" "rt_used_at row \<noteq> None" "0 \<le> ss_access_ttl svc"
  shows "over (rt_session_id row) (db_sessions (w_db (serve svc (FinishRefresh k dr True) w)))"
    "covered (rt_session_id row) (w_clock w + seconds (revocation_ttl_seconds (ss_access_ttl svc))) (w_clock w)
       (w_index (serve svc (FinishRefresh k dr True) w))"
    "w_clock (serve svc (FinishRefresh k dr True) w) = w_clock w"
    "w_issued (serve svc (FinishRefresh k dr True) w) = w_issued w"
    "\<forall>r \<in> set (db_tokens (w_db (serve svc (FinishRefresh k dr True) w))).
       rt_family_id r = rt_family_id row \<longrightarrow> rt_revoked_at r \<noteq> None"
proof -
  let ?sid = "rt_session_id row"
  have served: "serve svc (FinishRefresh k dr True) w = w\<lparr>w_pending := AList.delete k (w_pending w),
      w_db := durable_revoke_family True (rt_family_id row) ?sid now (w_db w),
      w_index := index_revoke (w_clock w) ?sid (revocation_ttl_seconds (ss_access_ttl svc)) (w_index w)\<rparr>"
    using assms(2,3) by (simp add: serve.simps(4) refresh_with_def)
  have "pending_ok (db_tokens (w_db w)) (w_clock w) (k, now, h, Some row)"
    using assms(1) map_of_pending[OF assms(2)] unfolding tokens_inv_def by blast
  then have "?sid \<in> rt_session_id ` set (db_tokens (w_db w))" by (auto intro: rev_image_eqI)
  then have "?sid \<in> sr_id ` set (db_sessions (w_db w))" using assms(1) by (auto simp: tokens_inv_def tables_ok_def)
  then have "?sid \<in> sr_id ` set (revoke_unscoped ?sid now (db_sessions (w_db w)))"
    by (simp add: revoke_unscoped_def)
  then show "over ?sid (db_sessions (w_db (serve svc (FinishRefresh k dr True) w)))"
    unfolding served by (auto simp: over_def durable_revoke_family_def revoke_unscoped_def set_updated)
  have "1 \<le> revocation_ttl_seconds (ss_access_ttl svc)" using assms(4) by (simp add: revocation_ttl_seconds_def)
  then show "covered ?sid (w_clock w + seconds (revocation_ttl_seconds (ss_access_ttl svc))) (w_clock w)
       (w_index (serve svc (FinishRefresh k dr True) w))"
    unfolding served using covered_signed_out by simp
  show "w_clock (serve svc (FinishRefresh k dr True) w) = w_clock w"
    "w_issued (serve svc (FinishRefresh k dr True) w) = w_issued w" unfolding served by simp_all
  show "\<forall>r \<in> set (db_tokens (w_db (serve svc (FinishRefresh k dr True) w))).
       rt_family_id r = rt_family_id row \<longrightarrow> rt_revoked_at r \<noteq> None"
    unfolding served by (auto simp: durable_revoke_family_def revoke_family_def set_updated)
qed

lemma service_fields [simp]:
  "ss_access_ttl (get_session_service j sha ttl m access url) = access"
  "ti_access_ttl (ss_issuer (get_session_service j sha ttl m access url)) = access"
  "ss_jose (get_session_service j sha ttl m access url) = j"
  "sp_max_per_user (ss_policy (get_session_service j sha ttl m access url)) = m"
  by (simp_all add: get_session_service_def)

lemma refused_is_nobody:
  "fst (verify svc clock token idx) = Inl Unauthenticated \<Longrightarrow> token \<noteq> [] \<Longrightarrow>
     fst (authenticate s svc users token [] clock idx) = Inr None"
  by (cases "verify svc clock token idx") (simp add: authenticate_def)

subsection \<open>A sample deployment\<close>

definition sample_user :: UserRow where
  "sample_user = \<lparr>ur_id = 1, ur_email = ''ada@example.com'', ur_password_hash = None, ur_name = ''Ada'', ur_role = ''user'',
     ur_last_login_at = None\<rparr>"

definition sample_draws :: "nat \<Rightarrow> string \<Rightarrow> Draws" where
  "sample_draws n s = \<lparr>dr_session_id = 10 + n, dr_family_id = 20 + n, dr_token_row_id = 30 + n, dr_refresh_token = s,
     dr_jti = s\<rparr>"

definition sample_claims :: "uuid \<Rightarrow> string \<Rightarrow> datetime \<Rightarrow> claims" where
  "sample_claims sid jti now =
     access_claims \<lparr>ti_issuer = ''app'', ti_audience = ''app'', ti_access_ttl = 900\<rparr> 1 sid jti ''ada@example.com'' ''user''
       ''local'' now"

text \<open>A token is the \<open>jti\<close> of its claims, and decodes to the claims that were signed.\<close>

definition sample_jose :: joserfc where
  "sample_jose =
     \<lparr>jwt_encode = (\<lambda>cs. claim_or ''jti'' [] cs),
      jwt_decode = map_of [(''a'', sample_claims 10 ''a'' 0), (''b'', sample_claims 10 ''b'' 0)],
      registry_valid = (\<lambda>clock leeway iss aud cs.
        case map_of cs ''exp'' of Some (ClaimNumber e) \<Rightarrow> clock - leeway \<le> e | _ \<Rightarrow> False)\<rparr>"

definition sample_service :: "nat \<Rightarrow> SessionService" where
  "sample_service limit = get_session_service sample_jose (\<lambda>s. CHR ''#'' # s) 3600 limit 900 ''app''"

definition sample_sign_in :: auth_request where
  "sample_sign_in = SignIn 1 ''local'' ''browser'' None (sample_draws 0 ''a'')"

lemma sample_checks_expiry: "checks_expiry sample_jose"
  by (auto simp: checks_expiry_def sample_jose_def)

lemma sample_encode: "jwt_encode sample_jose (access_claims ti u s jti e r p n) = jti"
  by (simp add: sample_jose_def claim_or_def access_claims_def)

lemma sample_decode:
  "jwt_decode sample_jose ''a'' = Some (sample_claims 10 ''a'' 0)" "jwt_decode sample_jose ''b'' = Some (sample_claims 10 ''b'' 0)"
  by (simp_all add: sample_jose_def)

lemmas run_simps = serve_all_def first_world_def user_get_def one_or_none_def start_def revoke_beyond_def newest_def
  Let_def session_create_def updated_def mint_def token_create_def issue_access_token_def claims_for_def token_find_def
  refresh_with_def mark_used_def affected_def unused_def find_active_def session_live_def durable_revoke_family_def
  revoke_family_def revoke_unscoped_def revoke_def session_revoke_def owned_unrevoked_def revoke_for_session_def
  seconds_def serve.simps(4)

lemmas sample_simps = sample_sign_in_def sample_user_def sample_draws_def sample_service_def
  sample_claims_def sample_encode

text \<open>Ada's session after she signed in.\<close>

definition sample_session :: SessionRow where
  "sample_session = \<lparr>sr_id = 10, sr_user_id = 1, sr_provider = ''local'', sr_user_agent = ''browser'', sr_ip = None,
     sr_created_at = 0, sr_expires_at = seconds 3600, sr_revoked_at = None\<rparr>"

definition sample_row :: RefreshTokenRow where
  "sample_row = \<lparr>rt_id = 30, rt_session_id = 10, rt_token_hash = ''#a'', rt_family_id = 20, rt_expires_at = seconds 3600,
     rt_used_at = None, rt_revoked_at = None\<rparr>"

definition sample_signed_in :: World where
  "sample_signed_in =
     \<lparr>w_db = \<lparr>db_users = [sample_user], db_sessions = [sample_session], db_tokens = [sample_row]\<rparr>,
      w_index = InMemoryIndex [], w_clock = 0, w_pending = [], w_issued = [(10, ''a'', sample_claims 10 ''a'' 0)],
      w_exchanged = []\<rparr>"

lemma sample_signed_run: "sample_signed_in = serve_all (sample_service 10) [sample_sign_in] (first_world [sample_user] (InMemoryIndex []) 0)"
  by (simp add: sample_signed_in_def sample_session_def sample_row_def sample_simps run_simps get_session_service_def)

text \<open>C24. A session that was signed out is refused from then on.  After a sign-out that found the session live, whatever
  requests follow, no further access token is handed out for it, and none it ever had identifies anybody: not on the
  next request, not when the index has forgotten the session, and if the index is emptied in between, not once the
  tokens' lifetime and the leeway are over.  \<open>joserfc\<close> is relied on to refuse expired claims and to decode what this
  issuer signed.
\<close>

theorem signed_out_session_is_refused:
  assumes "svc = get_session_service j sha256 session_ttl max_sessions access_ttl url" "0 \<le> access_ttl" "checks_expiry j"
    and "w = serve_all svc past (first_world users idx t0)" "sid < 2 ^ 128"
    and "fst (revoke svc sid u (w_clock w) (w_db w, w_index w))"
    and "w' = serve_all svc rest (serve svc (SignOut sid u) w)" "decodes_issued j w'"
    and "(sid, token, cs) \<in> set (w_issued w')"
    and "EmptyIndex \<notin> set rest \<or> w_clock w + seconds (access_ttl + 11) \<le> w_clock w'"
  shows "(sid, token, cs) \<in> set (w_issued w) \<and> fst (verify svc (w_clock w') token (w_index w')) = Inl Unauthenticated
    \<and> (token \<noteq> [] \<longrightarrow> fst (authenticate s svc users' token [] (w_clock w') (w_index w')) = Inr None)"
proof -
  let ?v = "serve svc (SignOut sid u) w"
  have inv: "tokens_inv w" "issue_inv svc w" using assms(4) reached_tokens_inv reached_issue_inv by simp_all
  note out = signed_out[OF inv(1) assms(6)]
  have v: "tokens_inv ?v" "issue_inv svc ?v" by (simp_all only: inv tokens_inv_step issue_inv_step)
  have "(sid, token, cs) \<in> set (w_issued ?v)"
    "fst (verify svc (w_clock w') token (w_index w')) = Inl Unauthenticated"
    using over_is_refused[OF v out(1), of rest token cs] out(2,3) assms(1-3,5,7-10) by simp_all
  then show ?thesis using out(4) assms(1,2) refused_is_nobody by simp
qed

definition sample_left :: World where
  "sample_left = serve_all (sample_service 10) [Wait 5] (serve (sample_service 10) (SignOut 10 1) sample_signed_in)"

lemma sample_sign_out:
  "fst (revoke (sample_service 10) 10 1 (w_clock sample_signed_in) (w_db sample_signed_in, w_index sample_signed_in))"
  "w_issued sample_left = [(10, ''a'', sample_claims 10 ''a'' 0)]"
  by (simp_all add: sample_left_def sample_signed_in_def sample_session_def run_simps split: prod.splits)

theorem signed_out_session_is_refused_witness:
  "fst (verify (sample_service 10) (w_clock sample_left) ''a'' (w_index sample_left)) = Inl Unauthenticated"
proof -
  have "decodes_issued sample_jose sample_left" by (simp add: decodes_issued_def sample_sign_out(2) sample_decode)
  then show ?thesis
    using signed_out_session_is_refused[OF sample_service_def[of 10] _ sample_checks_expiry sample_signed_run _ sample_sign_out(1)
        sample_left_def, of "''a''" "sample_claims 10 ''a'' 0"]
    by (simp add: sample_sign_out(2))
qed

text \<open>C25. Presenting a refresh token twice signs its session out for good.  When a renewal finds its token used already,
  and the revocation's own transaction commits, every token of the family is revoked, no further access token is handed
  out for the session whatever follows, and the ones it had are refused as after a sign-out.
\<close>

theorem reuse_signs_the_session_out:
  assumes "svc = get_session_service j sha256 session_ttl max_sessions access_ttl url" "0 \<le> access_ttl" "checks_expiry j"
    and "w = serve_all svc past (first_world users idx t0)" "rt_session_id row < 2 ^ 128"
    and "map_of (w_pending w) k = Some (now, h, Some row)" "rt_used_at row \<noteq> None"
    and "v = serve svc (FinishRefresh k dr True) w" "w' = serve_all svc rest v" "decodes_issued j w'"
    and "(rt_session_id row, token, cs) \<in> set (w_issued w')"
    and "EmptyIndex \<notin> set rest \<or> w_clock w + seconds (access_ttl + 11) \<le> w_clock w'"
  shows "(\<forall>r \<in> set (db_tokens (w_db v)). rt_family_id r = rt_family_id row \<longrightarrow> rt_revoked_at r \<noteq> None)
    \<and> (rt_session_id row, token, cs) \<in> set (w_issued w)
    \<and> fst (verify svc (w_clock w') token (w_index w')) = Inl Unauthenticated"
proof -
  have inv: "tokens_inv w" "issue_inv svc w" using assms(4) reached_tokens_inv reached_issue_inv by simp_all
  have ttl: "0 \<le> ss_access_ttl svc" using assms(1,2) by simp
  note caught = caught_reuse[OF inv(1) assms(6,7) ttl, where dr = dr, folded assms(8)]
  have v: "tokens_inv v" "issue_inv svc v" by (simp_all only: assms(8) inv tokens_inv_step issue_inv_step)
  have "(rt_session_id row, token, cs) \<in> set (w_issued v)"
    "fst (verify svc (w_clock w') token (w_index w')) = Inl Unauthenticated"
    using over_is_refused[OF v caught(1), of rest token cs] caught(2,3) assms(1-3,5,9-12) by simp_all
  then show ?thesis using caught(4,5) by simp
qed

text \<open>Ada signs in and renews; then somebody presents the first refresh token again.\<close>

definition sample_used :: RefreshTokenRow where "sample_used = sample_row\<lparr>rt_used_at := Some 0\<rparr>"

definition sample_replay :: World where
  "sample_replay =
     \<lparr>w_db = \<lparr>db_users = [sample_user], db_sessions = [sample_session],
              db_tokens = [sample_used, sample_row\<lparr>rt_id := 31, rt_token_hash := ''#b''\<rparr>]\<rparr>,
      w_index = InMemoryIndex [], w_clock = 0, w_pending = [(1, 0, ''#a'', Some sample_used)],
      w_issued = [(10, ''b'', sample_claims 10 ''b'' 0), (10, ''a'', sample_claims 10 ''a'' 0)], w_exchanged = [''#a'']\<rparr>"

lemma sample_replay_run:
  "sample_replay = serve_all (sample_service 10)
     [sample_sign_in, BeginRefresh 0 ''a'', FinishRefresh 0 (sample_draws 1 ''b'') True, BeginRefresh 1 ''a'']
     (first_world [sample_user] (InMemoryIndex []) 0)"
proof -
  have "serve (sample_service 10) (BeginRefresh 1 ''a'') (serve (sample_service 10) (FinishRefresh 0 (sample_draws 1 ''b'') True)
      (serve (sample_service 10) (BeginRefresh 0 ''a'') sample_signed_in)) = sample_replay"
    by (simp add: sample_replay_def sample_signed_in_def sample_session_def sample_row_def sample_used_def sample_simps
        run_simps get_session_service_def)
  then show ?thesis using sample_signed_run by (simp add: serve_all_def)
qed

definition sample_caught :: World where
  "sample_caught = serve (sample_service 10) (FinishRefresh 1 (sample_draws 2 ''c'') True) sample_replay"

definition sample_after :: World where "sample_after = serve_all (sample_service 10) [Wait 5] sample_caught"

lemma sample_replayed:
  "map_of (w_pending sample_replay) 1 = Some (0, ''#a'', Some sample_used)"
  "w_issued sample_after = [(10, ''b'', sample_claims 10 ''b'' 0), (10, ''a'', sample_claims 10 ''a'' 0)]"
  "rt_session_id sample_used = 10" "rt_used_at sample_used \<noteq> None"
  by (simp_all add: sample_after_def sample_caught_def sample_replay_def sample_session_def sample_row_def sample_used_def
      run_simps)

theorem reuse_signs_the_session_out_witness:
  "fst (verify (sample_service 10) (w_clock sample_after) ''b'' (w_index sample_after)) = Inl Unauthenticated"
proof -
  have "decodes_issued sample_jose sample_after" by (simp add: decodes_issued_def sample_replayed(2) sample_decode)
  then show ?thesis
    using reuse_signs_the_session_out[OF sample_service_def[of 10] _ sample_checks_expiry sample_replay_run _
        sample_replayed(1,4) sample_caught_def sample_after_def, of "''b''" "sample_claims 10 ''b'' 0"]
    by (simp add: sample_replayed(2,3))
qed

section \<open>The ceiling\<close>

lemma count_updated: "count_active u t (updated p (\<lambda>r. r\<lparr>sr_revoked_at := Some now\<rparr>) rows) \<le> count_active u t rows"
proof (induction rows)
  case (Cons r rows)
  then show ?case by (auto simp: count_active_def affected_def updated_def session_live_def)
qed (simp add: updated_def)

lemma count_later: "t \<le> t' \<Longrightarrow> count_active u t' rows \<le> count_active u t rows"
  by (induction rows) (auto simp: count_active_def affected_def session_live_def)

lemma count_beyond:
  assumes "distinct (map sr_id rows)"
  shows "count_active u now (revoke_beyond u k now rows) \<le> k"
proof -
  define keepers where "keepers = map sr_id (take k (newest u now rows))"
  let ?live = "\<lambda>r. sr_user_id r = u \<and> session_live now r"
  let ?cut = "\<lambda>r. sr_user_id r = u \<and> sr_revoked_at r = None \<and> sr_id r \<notin> set keepers"
  define rows' where "rows' = updated ?cut (\<lambda>r. r\<lparr>sr_revoked_at := Some now\<rparr>) rows"
  have beyond: "revoke_beyond u k now rows = rows'" by (simp add: revoke_beyond_def Let_def rows'_def keepers_def)
  have "sr_id r \<in> set keepers" if r: "r \<in> set rows'" "?live r" for r
  proof -
    obtain y where "y \<in> set rows" "r = (if ?cut y then y\<lparr>sr_revoked_at := Some now\<rparr> else y)"
      using r(1) unfolding rows'_def set_updated by blast
    then show ?thesis using r(2) by (cases "?cut y") (simp_all add: session_live_def)
  qed
  then have "set (map sr_id (filter ?live rows')) \<subseteq> set keepers" by auto
  moreover have "distinct (map sr_id (filter ?live rows'))"
    using assms by (intro distinct_map_filter) (simp add: rows'_def)
  ultimately have "length (map sr_id (filter ?live rows')) \<le> card (set keepers)"
    using card_mono[of "set keepers"] distinct_card by (metis (no_types, lifting) finite_set)
  also have "\<dots> \<le> k" using card_length[of keepers] by (simp add: keepers_def)
  finally show ?thesis by (simp add: count_active_def affected_def beyond)
qed

lemma count_refresh:
  assumes "refresh_with svc dr durable clock now found (db, idx) = (outcome, db', idx')"
  shows "count_active u t (db_sessions db') \<le> count_active u t (db_sessions db)"
  using assms
proof (cases rule: refresh_cases)
  case (renewed row session user issued)
  then show ?thesis using mint_facts(3)[OF renewed(8)] by simp
qed (simp_all add: durable_revoke_family_def revoke_unscoped_def count_updated)

lemma count_revoke: "count_active u t (db_sessions (fst (snd (revoke svc sid v now st)))) \<le> count_active u t (db_sessions (fst st))"
  using count_updated by (simp add: revoke_def session_revoke_def Let_def case_prod_beta)

lemma count_start:
  assumes "start svc dr v email role provider ua ip now db = Some (issued, db')" "0 < sp_max_per_user (ss_policy svc)"
    "distinct (map sr_id (db_sessions db))"
  shows "count_active u now (db_sessions db') \<le> max (count_active u now (db_sessions db)) (sp_max_per_user (ss_policy svc))"
proof -
  let ?ss = "revoke_beyond v (sp_max_per_user (ss_policy svc) - 1) now (db_sessions db)"
  obtain row where row: "db_sessions db' = ?ss @ [row]" "sr_user_id row = v" using start_facts(5)[OF assms(1)] assms(2) by auto
  have new: "count_active u now (?ss @ [row]) \<le> count_active u now ?ss + (if u = v then 1 else 0)"
    using row(2) by (simp add: count_active_def affected_def)
  have "count_active u now ?ss \<le> count_active u now (db_sessions db)"
    by (simp add: revoke_beyond_def Let_def count_updated)
  moreover have "count_active v now ?ss \<le> sp_max_per_user (ss_policy svc) - 1" by (rule count_beyond[OF assms(3)])
  ultimately show ?thesis using new row(1) assms(2) by (cases "u = v") auto
qed

lemma ceiling_step:
  assumes "tokens_inv w" "0 < sp_max_per_user (ss_policy svc)"
    "\<forall>u. count_active u (w_clock w) (db_sessions (w_db w)) \<le> sp_max_per_user (ss_policy svc)"
  shows "count_active u (w_clock (serve svc r w)) (db_sessions (w_db (serve svc r w))) \<le> sp_max_per_user (ss_policy svc)"
proof (cases r)
  case (Wait d)
  then show ?thesis using assms(3) count_later[of "w_clock w" "w_clock w + int d" u] by (auto intro: order_trans)
next
  case (SignIn v provider ua ip dr)
  have "distinct (map sr_id (db_sessions (w_db w)))" using assms(1) by (simp add: tokens_inv_def tables_ok_def)
  then show ?thesis using SignIn assms(2,3) count_start[of svc dr v _ _ provider ua ip "w_clock w" "w_db w"]
    by (auto split: option.splits dest!: user_get_Some intro: order_trans)
next
  case (FinishRefresh k dr durable)
  show ?thesis
  proof (cases rule: finish_cases[of svc k dr durable w])
    case none
    then show ?thesis using FinishRefresh assms(3) by simp
  next
    case (refused now h found outcome db idx)
    then show ?thesis unfolding FinishRefresh refused(4) using order_trans[OF count_refresh[OF refused(2)]] assms(3) by simp
  next
    case (renewed now h row issued session user db)
    then show ?thesis unfolding FinishRefresh renewed(7) using order_trans[OF count_refresh[OF renewed(6)]] assms(3) by simp
  qed
next
  case (SignOut sid v)
  then show ?thesis
    using count_revoke[of u "w_clock w" svc sid v "w_clock w" "(w_db w, w_index w)"] assms(3)
    by (auto intro: order_trans split: prod.splits)
next
  case (SignOutOthers v keep)
  have "count_active u (w_clock w) (db_sessions (fst (snd (revoke_others svc v keep (w_clock w) (w_db w, w_index w)))))
      \<le> count_active u (w_clock w) (db_sessions (w_db w))"
    by (rule revoke_others_keeps) (auto intro: order_trans[OF count_revoke])
  then show ?thesis using SignOutOthers assms(3) by (auto intro: order_trans split: prod.splits)
qed (use assms(3) in auto)

text \<open>C26. Nobody ever holds more live sessions than the ceiling: in every state that any sequence of requests leads to, the
  sessions of a user that are neither revoked nor expired are at most \<open>max_sessions_per_user\<close>.
\<close>

theorem live_sessions_are_bounded:
  assumes "0 < max_sessions"
    and "w = serve_all (get_session_service j sha256 session_ttl max_sessions access_ttl url) rs (first_world users idx t0)"
  shows "count_active u (w_clock w) (db_sessions (w_db w)) \<le> max_sessions"
proof -
  let ?svc = "get_session_service j sha256 session_ttl max_sessions access_ttl url"
  let ?P = "\<lambda>w. tokens_inv w \<and> (\<forall>u. count_active u (w_clock w) (db_sessions (w_db w)) \<le> max_sessions)"
  have "?P (serve_all ?svc rs (first_world users idx t0))"
  proof (rule serve_all_induct)
    show "?P (first_world users idx t0)"
      using first_tokens_inv by (simp add: first_world_def count_active_def affected_def)
    show "?P (serve ?svc r v)" if "?P v" for r v
      using that tokens_inv_step ceiling_step[of v ?svc] assms(1) by simp
  qed
  then show ?thesis using assms(2) by blast
qed

text \<open>
  The session that makes room is revoked in its row only.  The index does not hear of it: the access token it has still
  identifies its bearer, and signing the session out finds nothing to sign out.
\<close>

definition sample_crowd :: World where
  "sample_crowd = serve_all (sample_service 1)
     [sample_sign_in, SignIn 1 ''local'' ''phone'' None (sample_draws 1 ''b'')] (first_world [sample_user] (InMemoryIndex []) 0)"

lemma sample_crowded:
  "w_clock sample_crowd = 0" "w_index sample_crowd = InMemoryIndex []" "db_sessions (w_db sample_crowd) =
     [sample_session\<lparr>sr_revoked_at := Some 0\<rparr>, sample_session\<lparr>sr_id := 11, sr_user_agent := ''phone''\<rparr>]"
  by (simp_all add: sample_crowd_def sample_session_def sample_simps run_simps get_session_service_def)

theorem live_sessions_are_bounded_witness: "count_active 1 0 (db_sessions (w_db sample_crowd)) \<le> 1"
  using live_sessions_are_bounded[OF _ sample_crowd_def[unfolded sample_service_def], of 1] by (simp add: sample_crowded)

lemma evicted_session_still_answers:
  "over 10 (db_sessions (w_db sample_crowd))"
  "map_sum id ac_session_id (fst (verify (sample_service 1) (w_clock sample_crowd) ''a'' (w_index sample_crowd))) = Inr 10"
  "\<not> fst (revoke (sample_service 1) 10 1 (w_clock sample_crowd) (w_db sample_crowd, w_index sample_crowd))"
proof -
  have valid: "registry_valid sample_jose 0 l i a (sample_claims 10 ''a'' 0)" if "0 \<le> l" for l i a
    using that by (simp add: sample_jose_def sample_claims_def access_claims_def timestamp_def seconds_def)
  show "map_sum id ac_session_id (fst (verify (sample_service 1) (w_clock sample_crowd) ''a'' (w_index sample_crowd))) = Inr 10"
    by (simp add: sample_crowded verify_def verify_access_token_def sample_service_def sample_decode valid timestamp_def
        CLOCK_SKEW_SECONDS_def MAX_TOKEN_LENGTH_def, simp add: sample_claims_def access_claims_def uuid_round_trip
        memory_is_revoked_def)
  show "over 10 (db_sessions (w_db sample_crowd))"
    "\<not> fst (revoke (sample_service 1) 10 1 (w_clock sample_crowd) (w_db sample_crowd, w_index sample_crowd))"
    by (simp_all add: sample_crowded sample_session_def over_def run_simps)
qed

section \<open>Who a fresh token identifies\<close>

text \<open>
  What is relied on of \<open>joserfc\<close> the other way round: claims that name the issuer and the audience asked for, and are
  within their times give or take the leeway, are valid.
\<close>

definition accepts_current :: "joserfc \<Rightarrow> bool" where
  "accepts_current j \<longleftrightarrow> (\<forall>clock leeway iss aud cs s i b e.
     map_of cs ''iss'' = Some (ClaimText iss) \<and> map_of cs ''aud'' = Some (ClaimText aud) \<and> map_of cs ''sub'' = Some (ClaimText s)
     \<and> map_of cs ''iat'' = Some (ClaimNumber i) \<and> map_of cs ''nbf'' = Some (ClaimNumber b) \<and> map_of cs ''exp'' = Some (ClaimNumber e)
     \<and> i \<le> clock + leeway \<and> b \<le> clock + leeway \<and> clock - leeway \<le> e
     \<longrightarrow> registry_valid j clock leeway iss aud cs)"

text \<open>C27. The access token of a sign-in identifies its user until it expires, unless the session is revoked: the caller
  resolved from it is the user who signed in, with the e-mail address and the role the database has at that moment, not
  the ones signed into the token, and the session is the one the sign-in began.
\<close>

theorem sign_in_identifies_the_caller:
  assumes "start svc dr u email role provider ua ip now db = Some (issued, db')"
    and "accepts_current (ss_jose svc)"
    and "jwt_decode (ss_jose svc) (it_access_token issued)
      = Some (access_claims (ss_issuer svc) u (it_session_id issued) (dr_jti dr) email role provider now)"
    and "it_access_token issued \<noteq> []" "length (it_access_token issued) \<le> 8192" "u < 2 ^ 128" "it_session_id issued < 2 ^ 128"
    and "now \<le> clock" "clock \<le> now + seconds (ti_access_ttl (ss_issuer svc))"
    and "\<not> fst (index_is_revoked clock (it_session_id issued) idx)"
    and "user_get u users = Some row"
  shows "fst (authenticate s svc users (it_access_token issued) [] clock idx)
    = Inr (Some (\<lparr>pr_id = u, pr_email = ur_email row, pr_role = ur_role row\<rparr>, Some (it_session_id issued)))"
proof -
  let ?cs = "access_claims (ss_issuer svc) u (it_session_id issued) (dr_jti dr) email role provider now"
  have times: "timestamp now \<le> timestamp clock" "timestamp clock \<le> timestamp now + ti_access_ttl (ss_issuer svc)"
    using assms(8,9) timestamp_mono[of now clock] timestamp_mono[OF assms(9)] by simp_all
  have valid: "registry_valid (ss_jose svc) (timestamp clock) CLOCK_SKEW_SECONDS (ti_issuer (ss_issuer svc))
      (ti_audience (ss_issuer svc)) ?cs"
    using times by (intro assms(2)[unfolded accepts_current_def, rule_format]) (auto simp: access_claims_def CLOCK_SKEW_SECONDS_def)
  obtain c where c: "verify_access_token (ss_jose svc) (ss_issuer svc) clock (it_access_token issued) = Inr c"
    "ac_user_id c = u" "ac_session_id c = it_session_id issued"
    using assms(3-7) valid by (simp add: verify_access_token_def MAX_TOKEN_LENGTH_def, simp add: access_claims_def uuid_round_trip)
  have "fst (verify svc clock (it_access_token issued) idx) = Inr c"
    using c assms(10) by (simp add: verify_def case_prod_beta)
  then obtain idx' where "verify svc clock (it_access_token issued) idx = (Inr c, idx')" by (metis prod.collapse)
  then show ?thesis using assms(4,11) c(2,3) user_get_Some[OF assms(11)] by (simp add: authenticate_def)
qed

lemma sample_accepts_current: "accepts_current sample_jose"
  by (auto simp: accepts_current_def sample_jose_def)

definition sample_start :: "(IssuedTokens \<times> AuthDb) option" where
  "sample_start = start (sample_service 10) (sample_draws 0 ''a'') 1 ''ada@example.com'' ''user'' ''local'' ''browser'' None 0
     \<lparr>db_users = [sample_user], db_sessions = [], db_tokens = []\<rparr>"

lemma sample_started:
  "sample_start = Some (\<lparr>it_access_token = ''a'', it_access_expires_at = seconds 900, it_refresh_token = ''a'',
     it_refresh_expires_at = seconds 3600, it_session_id = 10\<rparr>, w_db sample_signed_in)"
  by (simp add: sample_start_def sample_signed_in_def sample_session_def sample_row_def sample_simps run_simps get_session_service_def)

text \<open>Ada has become an administrator since.\<close>

theorem sign_in_identifies_the_caller_witness:
  "fst (authenticate \<lparr>ps_app_env = ''production'', ps_dev_identity_enabled = False\<rparr> (sample_service 10)
     [sample_user\<lparr>ur_role := ''admin''\<rparr>] ''a'' [] 5 (InMemoryIndex []))
   = Inr (Some (\<lparr>pr_id = 1, pr_email = ''ada@example.com'', pr_role = ''admin''\<rparr>, Some 10))"
proof -
  have svc: "ss_jose (sample_service 10) = sample_jose"
    "ss_issuer (sample_service 10) = \<lparr>ti_issuer = ''app'', ti_audience = ''app'', ti_access_ttl = 900\<rparr>"
    by (simp_all add: sample_service_def get_session_service_def)
  show ?thesis
    using sign_in_identifies_the_caller[OF sample_started[unfolded sample_start_def], of 5 "InMemoryIndex []"
        "[sample_user\<lparr>ur_role := ''admin''\<rparr>]" "sample_user\<lparr>ur_role := ''admin''\<rparr>"]
    by (simp add: svc sample_accepts_current sample_decode sample_claims_def sample_draws_def seconds_def memory_is_revoked_def
        user_get_def one_or_none_def sample_user_def)
qed

end
