(* ===== verification/AuthAccounts.thy ===== *)
theory AuthAccounts
  imports AuthSessions
begin

text \<open>
  Accounts: \<open>app.auth.passwords\<close>, \<open>app.auth.service\<close>, \<open>app.auth.federation\<close> and the single sign-on endpoints of
  \<open>app.api.v1.sso\<close>.  Argon2, Supabase's Auth API and the identity providers are records of functions.  An
  endpoint that raises leaves the database as it was; one that returns a refusal keeps what it wrote.
\<close>

section \<open>Passwords\<close>

definition MAX_PASSWORD_LENGTH :: nat where "MAX_PASSWORD_LENGTH = 1024"

definition FORBIDDEN_PASSWORDS :: "string list" where
  "FORBIDDEN_PASSWORDS =
     [''password'', ''passw0rd'', ''aetherresearch'', ''changeme'', ''letmein'', ''qwertyuiop'', ''123456789012'',
      ''administrator'']"

record HashParameters =
  hp_time_cost :: int
  hp_memory_kib :: int
  hp_parallelism :: int

record VerifyResult =
  vr_ok :: bool
  vr_needs_rehash :: bool

text \<open>\<open>hash\<close> with the salt it draws, \<open>verify\<close> (false where the library raises), \<open>check_needs_rehash\<close>.\<close>

record Argon2 =
  a2_hash :: "HashParameters \<Rightarrow> nat \<Rightarrow> string \<Rightarrow> string"
  a2_verify :: "string \<Rightarrow> string \<Rightarrow> bool"
  a2_needs_rehash :: "HashParameters \<Rightarrow> string \<Rightarrow> bool"

definition normalise_password :: "string \<Rightarrow> string" where "normalise_password raw = take MAX_PASSWORD_LENGTH raw"

definition alphanumeric :: "char \<Rightarrow> bool" where "alphanumeric c \<longleftrightarrow> is_lower c \<or> is_digit c"

definition password_problems :: "string \<Rightarrow> string \<Rightarrow> nat \<Rightarrow> string list" where
  "password_problems password email minimum_length =
     (let reduced = filter alphanumeric (str_casefold password);
          local_part = str_casefold (takeWhile (\<lambda>c. c \<noteq> CHR ''@'') email)
      in (if length password < minimum_length then [''Use at least '' @ show_nat minimum_length @ '' characters.''] else [])
       @ (if length password > MAX_PASSWORD_LENGTH then [''Use at most 1024 characters.''] else [])
       @ (if reduced \<in> set FORBIDDEN_PASSWORDS then [''That password is too common.''] else [])
       @ (if local_part \<noteq> [] \<and> reduced \<noteq> [] \<and> (reduced = local_part \<or> reduced = str_casefold email)
          then [''Do not use your email address as your password.''] else []))"

datatype account_error =
  InvalidCredentials
| RegistrationClosed
| ValidationFailed string "string list"
| AccountConflict
| LastIdentity
| NotFound string
| UpstreamError string
| IntegrityFailure

definition check_password_policy :: "string \<Rightarrow> string \<Rightarrow> nat \<Rightarrow> account_error option" where
  "check_password_policy password email minimum_length =
     (case password_problems password email minimum_length of
        [] \<Rightarrow> None
      | problems \<Rightarrow> Some (ValidationFailed ''validation_failed'' problems))"

definition hash_password :: "Argon2 \<Rightarrow> HashParameters \<Rightarrow> nat \<Rightarrow> string \<Rightarrow> string" where
  "hash_password a params salt password = a2_hash a params salt (normalise_password password)"

definition verify_password :: "Argon2 \<Rightarrow> HashParameters \<Rightarrow> string \<Rightarrow> string \<Rightarrow> VerifyResult" where
  "verify_password a params stored_hash password =
     (if \<not> a2_verify a stored_hash (normalise_password password) then \<lparr>vr_ok = False, vr_needs_rehash = False\<rparr>
      else \<lparr>vr_ok = True, vr_needs_rehash = a2_needs_rehash a params stored_hash\<rparr>)"

section \<open>From a provider's claims to an account\<close>

record ProviderClaims =
  pc_subject :: string
  pc_connection :: "string option"
  pc_email :: "string option"
  pc_email_verified :: bool
  pc_name :: "string option"

definition usable_email :: "ProviderClaims \<Rightarrow> string option" where
  "usable_email c = (case pc_email c of
      None \<Rightarrow> None | Some e \<Rightarrow> if e \<noteq> [] \<and> pc_email_verified c then Some e else None)"

text \<open>The tables a sign-in touches, and the ids a request may draw for a new account and a new link.\<close>

type_synonym accounts = "AuthDb \<times> IdentityRow list"

record AccountDraws =
  ad_user_id :: uuid
  ad_identity_id :: uuid

record FederationService =
  fs_registration_enabled :: bool
  fs_link_by_verified_email :: bool

definition MAX_NAME_LENGTH :: nat where "MAX_NAME_LENGTH = 200"

definition federation_create ::
  "FederationService \<Rightarrow> AccountDraws \<Rightarrow> string \<Rightarrow> ProviderClaims \<Rightarrow> string option \<Rightarrow> datetime \<Rightarrow> accounts
     \<Rightarrow> (account_error + UserRow \<times> bool) \<times> accounts" where
  "federation_create fs ad provider claims email now st =
     (let (db, ids) = st in
      if \<not> fs_registration_enabled fs then (Inl RegistrationClosed, st)
      else case email of
        None \<Rightarrow> (Inl AccountConflict, st)
      | Some e \<Rightarrow>
          let name = (case pc_name claims of
                        Some n \<Rightarrow> if n \<noteq> [] then n else takeWhile (\<lambda>c. c \<noteq> CHR ''@'') e
                      | None \<Rightarrow> takeWhile (\<lambda>c. c \<noteq> CHR ''@'') e)
          in case user_create (ad_user_id ad) e None (take MAX_NAME_LENGTH name) (db_users db) of
               None \<Rightarrow> (Inl AccountConflict, st)
             | Some (user, users) \<Rightarrow>
                 (case identity_link (ad_identity_id ad) (ur_id user) provider (pc_subject claims) (pc_connection claims)
                         (Some e) now ids of
                    None \<Rightarrow> (Inl AccountConflict, db\<lparr>db_users := users\<rparr>, ids)
                  | Some ids' \<Rightarrow> (Inr (user, True), db\<lparr>db_users := users\<rparr>, ids')))"

definition resolve_account ::
  "FederationService \<Rightarrow> AccountDraws \<Rightarrow> string \<Rightarrow> ProviderClaims \<Rightarrow> datetime \<Rightarrow> accounts
     \<Rightarrow> (account_error + UserRow \<times> bool) \<times> accounts" where
  "resolve_account fs ad provider claims now st =
     (let (db, ids) = st in
      case identity_find provider (pc_subject claims) ids of
        Some existing \<Rightarrow>
          (case user_get (ir_user_id existing) (db_users db) of
             None \<Rightarrow> (Inl AccountConflict, st)
           | Some user \<Rightarrow> (Inr (user, False), db, identity_touch (ir_id existing) now ids))
      | None \<Rightarrow>
          (case usable_email claims of
             None \<Rightarrow> federation_create fs ad provider claims None now st
           | Some email \<Rightarrow>
               (case user_get_by_email email (db_users db) of
                  Some matched \<Rightarrow>
                    if fs_link_by_verified_email fs
                    then (case identity_link (ad_identity_id ad) (ur_id matched) provider (pc_subject claims)
                                 (pc_connection claims) (Some email) now ids of
                            None \<Rightarrow> (Inl AccountConflict, st)
                          | Some ids' \<Rightarrow> (Inr (matched, False), db, ids'))
                    else (Inl AccountConflict, st)
                | None \<Rightarrow> federation_create fs ad provider claims (Some email) now st)))"

section \<open>Registration and sign-in\<close>

text \<open>Supabase's answer to a sign-up: an identity, or a confirmation that is still to come.\<close>

datatype signup_answer = Confirmed ProviderClaims | ConfirmationPending string

record SupabaseAuth =
  sb_sign_up :: "string \<Rightarrow> string \<Rightarrow> string \<Rightarrow> account_error + signup_answer"
  sb_sign_in :: "string \<Rightarrow> string \<Rightarrow> account_error + ProviderClaims"

record AuthService =
  as_registration_enabled :: bool
  as_password_login_enabled :: bool
  as_min_password_length :: nat
  as_hash_parameters :: HashParameters
  as_argon2 :: Argon2
  as_sessions :: SessionService
  as_supabase :: "SupabaseAuth option"
  as_federation :: FederationService

definition normalise_email :: "string \<Rightarrow> string" where
  "normalise_email email = str_casefold (str_strip email)"

text \<open>What one request draws: a salt, an account, a session.\<close>

record SignInDraws =
  sd_salt :: nat
  sd_account :: AccountDraws
  sd_session :: Draws

datatype sign_in_outcome = SignedIn UserRow IssuedTokens | ConfirmationSent string

definition begin_session ::
  "AuthService \<Rightarrow> SignInDraws \<Rightarrow> UserRow \<Rightarrow> string \<Rightarrow> string \<Rightarrow> string option \<Rightarrow> datetime \<Rightarrow> accounts
     \<Rightarrow> (account_error + sign_in_outcome) \<times> accounts" where
  "begin_session svc dr user provider user_agent ip now st =
     (let (db, ids) = st;
          db' = db\<lparr>db_users := record_login (ur_id user) now (db_users db)\<rparr>
      in case start (as_sessions svc) (sd_session dr) (ur_id user) (ur_email user) (ur_role user) provider user_agent ip now db' of
           None \<Rightarrow> (Inl IntegrityFailure, st)
         | Some (tokens, db'') \<Rightarrow> (Inr (SignedIn user tokens), db'', ids))"

definition adopt ::
  "AuthService \<Rightarrow> SignInDraws \<Rightarrow> ProviderClaims \<Rightarrow> string \<Rightarrow> string option \<Rightarrow> datetime \<Rightarrow> accounts
     \<Rightarrow> (account_error + sign_in_outcome) \<times> accounts" where
  "adopt svc dr claims user_agent ip now st =
     (case resolve_account (as_federation svc) (sd_account dr) ''supabase'' claims now st of
        (Inl e, st') \<Rightarrow> (Inl e, st')
      | (Inr (user, created), st') \<Rightarrow> begin_session svc dr user ''supabase'' user_agent ip now st')"

definition register ::
  "AuthService \<Rightarrow> SignInDraws \<Rightarrow> string \<Rightarrow> string \<Rightarrow> string \<Rightarrow> string \<Rightarrow> string option \<Rightarrow> datetime \<Rightarrow> accounts
     \<Rightarrow> (account_error + sign_in_outcome) \<times> accounts" where
  "register svc dr email password name user_agent ip now st =
     (if \<not> as_registration_enabled svc \<or> \<not> as_password_login_enabled svc then (Inl RegistrationClosed, st)
      else
        let normalised = normalise_email email;
            stripped = str_strip name;
            display_name = take MAX_NAME_LENGTH
              (if stripped \<noteq> [] then stripped else takeWhile (\<lambda>c. c \<noteq> CHR ''@'') normalised)
        in case check_password_policy password normalised (as_min_password_length svc) of
             Some e \<Rightarrow> (Inl e, st)
           | None \<Rightarrow>
               (case as_supabase svc of
                  Some sb \<Rightarrow>
                    (case sb_sign_up sb normalised password display_name of
                       Inl e \<Rightarrow> (Inl e, st)
                     | Inr (ConfirmationPending to) \<Rightarrow> (Inr (ConfirmationSent to), st)
                     | Inr (Confirmed claims) \<Rightarrow> adopt svc dr claims user_agent ip now st)
                | None \<Rightarrow>
                    (case user_create (ad_user_id (sd_account dr)) normalised
                            (Some (hash_password (as_argon2 svc) (as_hash_parameters svc) (sd_salt dr) password))
                            display_name (db_users (fst st)) of
                       None \<Rightarrow> (Inl (ValidationFailed ''registration_refused'' [''This address cannot be registered.'']), st)
                     | Some (user, users) \<Rightarrow>
                         begin_session svc dr user ''local'' user_agent ip now ((fst st)\<lparr>db_users := users\<rparr>, snd st))))"

definition sign_in ::
  "AuthService \<Rightarrow> SignInDraws \<Rightarrow> string \<Rightarrow> string \<Rightarrow> string \<Rightarrow> string option \<Rightarrow> datetime \<Rightarrow> accounts
     \<Rightarrow> (account_error + sign_in_outcome) \<times> accounts" where
  "sign_in svc dr email password user_agent ip now st =
     (if \<not> as_password_login_enabled svc then (Inl InvalidCredentials, st)
      else case as_supabase svc of
        Some sb \<Rightarrow>
          (case sb_sign_in sb (normalise_email email) password of
             Inl e \<Rightarrow> (Inl e, st)
           | Inr claims \<Rightarrow> adopt svc dr claims user_agent ip now st)
      | None \<Rightarrow>
          (case user_get_by_email (normalise_email email) (db_users (fst st)) of
             None \<Rightarrow> (Inl InvalidCredentials, st)
           | Some user \<Rightarrow>
               (case ur_password_hash user of
                  None \<Rightarrow> (Inl InvalidCredentials, st)
                | Some stored \<Rightarrow>
                    if stored = [] then (Inl InvalidCredentials, st)
                    else
                      let result = verify_password (as_argon2 svc) (as_hash_parameters svc) stored password
                      in if \<not> vr_ok result then (Inl InvalidCredentials, st)
                         else
                           let (db, ids) = st;
                               users = (if vr_needs_rehash result
                                 then set_password_hash (ur_id user)
                                        (hash_password (as_argon2 svc) (as_hash_parameters svc) (sd_salt dr) password) (db_users db)
                                 else db_users db)
                           in begin_session svc dr user ''local'' user_agent ip now (db\<lparr>db_users := users\<rparr>, ids))))"

text \<open>The endpoint: a refusal is raised, so nothing is kept.\<close>

definition raised_back :: "('e + 'a) \<times> 's \<Rightarrow> 's \<Rightarrow> ('e + 'a) \<times> 's" where
  "raised_back outcome st = (case outcome of (Inl e, _) \<Rightarrow> (Inl e, st) | (Inr x, st') \<Rightarrow> (Inr x, st'))"

definition login ::
  "AuthService \<Rightarrow> SignInDraws \<Rightarrow> string \<Rightarrow> string \<Rightarrow> string \<Rightarrow> string option \<Rightarrow> datetime \<Rightarrow> accounts
     \<Rightarrow> (account_error + sign_in_outcome) \<times> accounts" where
  "login svc dr email password user_agent ip now st = raised_back (sign_in svc dr email password user_agent ip now st) st"

definition register_account ::
  "AuthService \<Rightarrow> SignInDraws \<Rightarrow> string \<Rightarrow> string \<Rightarrow> string \<Rightarrow> string \<Rightarrow> string option \<Rightarrow> datetime \<Rightarrow> accounts
     \<Rightarrow> (account_error + sign_in_outcome) \<times> accounts" where
  "register_account svc dr email password name user_agent ip now st =
     raised_back (register svc dr email password name user_agent ip now st) st"

end
