(* ===== verification/SignOn.thy ===== *)
theory SignOn
  imports AuthAccounts
begin

text \<open>
  Single sign-on, \<open>app.api.v1.sso\<close>: the redirect out, the callback, and the identities linked to an account.  A
  provider is what its upstream offers and how it answers an authorization code; what \<open>authorize\<close> draws (the address
  to send the browser to, the state, the nonce, the PKCE verifier) and the handle are drawn by the request.
\<close>

section \<open>Providers and settings\<close>

datatype exchange = Exchanged ProviderClaims | ExchangeRefused | ExchangeFailed

record Provider =
  pv_available :: "string list"
  pv_exchange :: "string \<Rightarrow> string \<Rightarrow> string \<Rightarrow> string \<Rightarrow> exchange"

record SsoSettings =
  so_redirect_base_url :: "string option"
  so_app_base_url :: string
  so_transaction_ttl :: int
  so_providers :: "(string \<times> Provider) list"
  so_federation :: FederationService
  so_sessions :: SessionService

record Authorization =
  az_handle :: string
  az_url :: string
  az_state :: string
  az_nonce :: string
  az_code_verifier :: string

text \<open>\<open>s.rstrip("/")\<close> and \<open>quote(s, safe="")\<close> of characters of one or two UTF-8 bytes.\<close>

definition rstrip_slash :: "string \<Rightarrow> string" where
  "rstrip_slash s = rev (dropWhile (\<lambda>c. c = CHR ''/'') (rev s))"

definition hex_upper :: "nat \<Rightarrow> char" where
  "hex_upper d = char_of (if d < 10 then 48 + d else 55 + d)"

definition percent :: "nat \<Rightarrow> string" where
  "percent b = [CHR ''%'', hex_upper (b div 16), hex_upper (b mod 16)]"

definition url_quote :: "string \<Rightarrow> string" where
  "url_quote s = concat (map (\<lambda>c.
     let n = (of_char c :: nat)
     in if is_lower c \<or> is_upper c \<or> is_digit c \<or> c \<in> set ''_.-~'' then [c]
        else if n < 128 then percent n
        else percent (192 + n div 64) @ percent (128 + n mod 64)) s)"

definition callback_uri :: "SsoSettings \<Rightarrow> string \<Rightarrow> string" where
  "callback_uri s provider =
     (let base = (case so_redirect_base_url s of
                    Some b \<Rightarrow> if b \<noteq> [] then b else ''http://localhost:8000/api/v1''
                  | None \<Rightarrow> ''http://localhost:8000/api/v1'')
      in rstrip_slash base @ ''/auth/sso/'' @ url_quote provider @ ''/callback'')"

definition app_url :: "SsoSettings \<Rightarrow> string \<Rightarrow> string" where
  "app_url s destination = rstrip_slash (so_app_base_url s) @ destination"

definition FAILURES :: "string list" where
  "FAILURES = [''access_denied'', ''invalid_state'', ''exchange_failed'', ''email_unverified'', ''account_conflict'',
     ''provider_unavailable'', ''registration_closed'', ''unknown'']"

definition failed_url :: "SsoSettings \<Rightarrow> string \<Rightarrow> string" where
  "failed_url s failure =
     rstrip_slash (so_app_base_url s) @ ''/login?error='' @ (if failure \<in> set FAILURES then failure else ''unknown'')"

section \<open>Out and back\<close>

definition sso_start ::
  "SsoSettings \<Rightarrow> Authorization \<Rightarrow> string \<Rightarrow> string \<Rightarrow> string option \<Rightarrow> datetime \<Rightarrow> transactions
     \<Rightarrow> (account_error + string \<times> string) \<times> transactions" where
  "sso_start s az provider connection requested now txns =
     (case map_of (so_providers s) provider of
        None \<Rightarrow> (Inl (NotFound ''sso_not_available''), txns)
      | Some chosen \<Rightarrow>
          if connection \<notin> set (pv_available chosen) then (Inl (NotFound ''sso_not_available''), txns)
          else (Inr (az_url az, az_handle az),
                txn_put now (az_handle az)
                  \<lparr>pa_provider = provider, pa_connection = connection, pa_state = az_state az, pa_nonce = az_nonce az,
                   pa_code_verifier = az_code_verifier az, pa_redirect_uri = callback_uri s provider,
                   pa_destination = safe_destination requested DEFAULT_DESTINATION\<rparr>
                  (so_transaction_ttl s) txns))"

text \<open>\<open>secrets.compare_digest\<close> of two strings: a \<open>TypeError\<close>, here \<open>None\<close>, unless both are ASCII.\<close>

definition compare_digest :: "string \<Rightarrow> string \<Rightarrow> bool option" where
  "compare_digest a b = (if list_all (\<lambda>c. (of_char c :: nat) < 128) (a @ b) then Some (a = b) else None)"

text \<open>A callback ends in a redirect, to the sign-in page or signed in, or in an exception nobody catches.\<close>

datatype callback_result = FailedTo string | SignedInTo string IssuedTokens UserRow bool | CallbackRaised

definition given :: "string option \<Rightarrow> bool" where
  "given v = (case v of None \<Rightarrow> False | Some s \<Rightarrow> s \<noteq> [])"

definition complete ::
  "SsoSettings \<Rightarrow> AccountDraws \<Rightarrow> Draws \<Rightarrow> string \<Rightarrow> PendingAuthorization \<Rightarrow> string \<Rightarrow> Provider \<Rightarrow> string \<Rightarrow> string option
     \<Rightarrow> datetime \<Rightarrow> accounts \<Rightarrow> callback_result \<times> accounts" where
  "complete s ad dr provider pending code chosen user_agent ip now st =
     (case pv_exchange chosen code (pa_code_verifier pending) (pa_nonce pending) (pa_redirect_uri pending) of
        ExchangeRefused \<Rightarrow> (FailedTo (failed_url s ''access_denied''), st)
      | ExchangeFailed \<Rightarrow> (FailedTo (failed_url s ''exchange_failed''), st)
      | Exchanged claims \<Rightarrow>
          if usable_email claims = None \<and> given (pc_email claims) then (FailedTo (failed_url s ''email_unverified''), st)
          else (case resolve_account (so_federation s) ad provider claims now st of
                  (Inl RegistrationClosed, st') \<Rightarrow> (FailedTo (failed_url s ''registration_closed''), st')
                | (Inl _, st') \<Rightarrow> (FailedTo (failed_url s ''account_conflict''), st')
                | (Inr (user, created), (db, ids)) \<Rightarrow>
                    (case start (so_sessions s) dr (ur_id user) (ur_email user) (ur_role user) provider user_agent ip now db of
                       None \<Rightarrow> (CallbackRaised, st)
                     | Some (issued, db') \<Rightarrow>
                         (SignedInTo (app_url s (pa_destination pending)) issued user created, (db', ids)))))"

definition sso_callback ::
  "SsoSettings \<Rightarrow> AccountDraws \<Rightarrow> Draws \<Rightarrow> string \<Rightarrow> string option \<Rightarrow> string option \<Rightarrow> string option \<Rightarrow> string option
     \<Rightarrow> string \<Rightarrow> string option \<Rightarrow> datetime \<Rightarrow> accounts \<times> transactions \<Rightarrow> callback_result \<times> accounts \<times> transactions" where
  "sso_callback s ad dr provider cookie code state error user_agent ip now st =
     (let (accounts, txns) = st;
          (pending, txns') = (if given cookie then txn_take now (the cookie) txns else (None, txns))
      in if given error then (FailedTo (failed_url s ''access_denied''), accounts, txns')
         else case pending of
           None \<Rightarrow> (FailedTo (failed_url s ''invalid_state''), accounts, txns')
         | Some p \<Rightarrow>
             if \<not> given code \<or> \<not> given state then (FailedTo (failed_url s ''invalid_state''), accounts, txns')
             else (case compare_digest (pa_state p) (the state) of
                     None \<Rightarrow> (CallbackRaised, accounts, txns')
                   | Some same \<Rightarrow>
                       if \<not> same \<or> pa_provider p \<noteq> provider
                       then (FailedTo (failed_url s ''invalid_state''), accounts, txns')
                       else (case map_of (so_providers s) provider of
                               None \<Rightarrow> (FailedTo (failed_url s ''provider_unavailable''), accounts, txns')
                             | Some chosen \<Rightarrow>
                                 (case complete s ad dr provider p (the code) chosen user_agent ip now accounts of
                                    (result, accounts') \<Rightarrow> (result, accounts', txns')))))"

section \<open>Linked identities\<close>

definition unlink_identity :: "uuid \<Rightarrow> uuid \<Rightarrow> accounts \<Rightarrow> (account_error + unit) \<times> accounts" where
  "unlink_identity identity_id user_id st =
     (let (db, ids) = st;
          has_password = (case user_get user_id (db_users db) of None \<Rightarrow> False | Some row \<Rightarrow> given (ur_password_hash row))
      in if count_for_user user_id ids \<le> 1 \<and> \<not> has_password then (Inl LastIdentity, st)
         else (case identity_unlink identity_id user_id ids of
                 (False, _) \<Rightarrow> (Inl (NotFound ''identity_not_found''), st)
               | (True, ids') \<Rightarrow> (Inr (), (db, ids'))))"

section \<open>Browsers over time\<close>

text \<open>Sign-ins begun, with what is held for them, and callbacks that signed somebody in, with what they presented.\<close>

record SsoWorld =
  sw_accounts :: accounts
  sw_txns :: transactions
  sw_clock :: datetime
  sw_begun :: "(string \<times> PendingAuthorization) list"
  sw_done :: "((string \<times> PendingAuthorization) \<times> string \<times> string \<times> string) list"

datatype browser =
  Pause nat
| Leave Authorization string string "string option"
| Return AccountDraws Draws string "string option" "string option" "string option" "string option"

fun browse :: "SsoSettings \<Rightarrow> browser \<Rightarrow> SsoWorld \<Rightarrow> SsoWorld" where
  "browse s (Pause d) w = w\<lparr>sw_clock := sw_clock w + int d\<rparr>"
| "browse s (Leave az provider connection requested) w =
     (case sso_start s az provider connection requested (sw_clock w) (sw_txns w) of
        (Inl e, txns) \<Rightarrow> w
      | (Inr (url, handle), txns) \<Rightarrow>
          w\<lparr>sw_txns := txns, sw_begun := (handle, fst (the (map_of txns handle))) # sw_begun w\<rparr>)"
| "browse s (Return ad dr provider cookie code state error) w =
     (case sso_callback s ad dr provider cookie code state error [] None (sw_clock w) (sw_accounts w, sw_txns w) of
        (SignedInTo url issued user created, accounts, txns) \<Rightarrow>
          w\<lparr>sw_accounts := accounts, sw_txns := txns,
            sw_done := ((the cookie, fst (the (map_of (sw_txns w) (the cookie)))), provider, the state, url) # sw_done w\<rparr>
      | (_, accounts, txns) \<Rightarrow> w\<lparr>sw_accounts := accounts, sw_txns := txns\<rparr>)"

definition browse_all :: "SsoSettings \<Rightarrow> browser list \<Rightarrow> SsoWorld \<Rightarrow> SsoWorld" where
  "browse_all s bs w = fold (browse s) bs w"

definition quiet_world :: "accounts \<Rightarrow> datetime \<Rightarrow> SsoWorld" where
  "quiet_world st now = \<lparr>sw_accounts = st, sw_txns = [], sw_clock = now, sw_begun = [], sw_done = []\<rparr>"

end
