(* ===== verification/AccountProperties.thy ===== *)
theory AccountProperties
  imports SignOn SessionProperties "HOL-Library.Multiset"
begin

text \<open>
  What a sign-in may turn into: which account a provider's claims resolve to, when a password opens an account, that
  every completed single sign-on answers one that was begun in that browser, and that unlinking leaves a way in.
\<close>

section \<open>Looking up and adding rows\<close>

lemma find_append: "List.find p (xs @ ys) = (case List.find p xs of None \<Rightarrow> List.find p ys | Some x \<Rightarrow> Some x)"
  by (induction xs) auto

lemma find_updated:
  assumes "\<And>r. p (f r) = p r"
  shows "List.find p (updated q f rows) = map_option (\<lambda>r. if q r then f r else r) (List.find p rows)"
  using assms by (induction rows) (auto simp: updated_def)

lemma found: "one_or_none p rows = Some r \<Longrightarrow> p r \<and> r \<in> set rows"
  by (auto simp: one_or_none_def find_Some_iff)

lemma not_found: "one_or_none p rows = None \<longleftrightarrow> (\<forall>r \<in> set rows. \<not> p r)"
  by (auto simp: one_or_none_def find_None_iff)

lemma user_create_Some:
  assumes "user_create i e ph name rows = Some (row, rows')"
  shows "rows' = rows @ [row]" "ur_id row = i" "ur_email row = e" "ur_password_hash row = ph" "ur_role row = ''user''"
    "user_get_by_email e rows = None"
  using assms by (auto simp: user_create_def list_ex_iff Let_def user_get_by_email_def not_found split: if_splits)

lemma identity_link_Some:
  assumes "identity_link i u provider subject c e now rows = Some rows'"
  shows "\<exists>row. rows' = rows @ [row] \<and> ir_user_id row = u \<and> ir_provider row = provider \<and> ir_subject row = subject"
    "identity_find provider subject rows = None"
  using assms by (auto simp: identity_link_def list_ex_iff identity_find_def not_found split: if_splits)

lemma identity_find_linked:
  assumes "identity_link i u provider subject c e now rows = Some rows'"
  shows "\<exists>row. identity_find provider subject rows' = Some row \<and> ir_user_id row = u"
proof -
  obtain row where row: "rows' = rows @ [row]" "ir_user_id row = u" "ir_provider row = provider" "ir_subject row = subject"
    using identity_link_Some(1)[OF assms] by blast
  then have "identity_find provider subject rows' = Some row"
    using identity_link_Some(2)[OF assms] by (simp add: identity_find_def one_or_none_def find_append)
  then show ?thesis using row(2) by blast
qed

lemma identity_find_touched:
  assumes "identity_find provider subject rows = Some row"
  shows "\<exists>row'. identity_find provider subject (identity_touch i now rows) = Some row' \<and> ir_user_id row' = ir_user_id row"
  using assms unfolding identity_find_def one_or_none_def identity_touch_def
  by (subst find_updated) auto

lemma user_get_member: "u \<in> set rows \<Longrightarrow> \<exists>r. user_get (ur_id u) rows = Some r \<and> ur_id r = ur_id u"
  by (cases "user_get (ur_id u) rows") (auto simp: user_get_def not_found dest!: found)

section \<open>Which account a provider's claims are\<close>

lemma resolved_cases:
  assumes "resolve_account fs ad provider claims now (db, ids) = (Inr (user, created), st')"
  obtains (linked) i where "identity_find provider (pc_subject claims) ids = Some i"
      "user_get (ir_user_id i) (db_users db) = Some user" "\<not> created" "st' = (db, identity_touch (ir_id i) now ids)"
  | (attached) e ids' where "identity_find provider (pc_subject claims) ids = None" "usable_email claims = Some e"
      "fs_link_by_verified_email fs" "user_get_by_email e (db_users db) = Some user" "\<not> created"
      "identity_link (ad_identity_id ad) (ur_id user) provider (pc_subject claims) (pc_connection claims) (Some e) now ids = Some ids'"
      "st' = (db, ids')"
  | (new) e name ids' where "identity_find provider (pc_subject claims) ids = None" "usable_email claims = Some e"
      "fs_registration_enabled fs" "created" "user_create (ad_user_id ad) e None name (db_users db) = Some (user, db_users db @ [user])"
      "identity_link (ad_identity_id ad) (ur_id user) provider (pc_subject claims) (pc_connection claims) (Some e) now ids = Some ids'"
      "st' = (db\<lparr>db_users := db_users db @ [user]\<rparr>, ids')"
proof (cases "identity_find provider (pc_subject claims) ids")
  case (Some i)
  then show ?thesis using assms linked by (auto simp: resolve_account_def split: option.splits)
next
  case None
  show ?thesis
  proof (cases "usable_email claims")
    case no: None
    then show ?thesis using assms None by (auto simp: resolve_account_def federation_create_def split: if_splits)
  next
    case e: (Some e)
    show ?thesis
    proof (cases "user_get_by_email e (db_users db)")
      case (Some m)
      then show ?thesis using assms None e attached by (auto simp: resolve_account_def split: if_splits option.splits)
    next
      case nobody: None
      define name where "name = (case pc_name claims of
          Some n \<Rightarrow> if n \<noteq> [] then n else takeWhile (\<lambda>c. c \<noteq> CHR ''@'') e | None \<Rightarrow> takeWhile (\<lambda>c. c \<noteq> CHR ''@'') e)"
      have "fs_registration_enabled fs" using assms None e nobody
        by (auto simp: resolve_account_def federation_create_def split: if_splits)
      moreover obtain users ids' where "created" "user_create (ad_user_id ad) e None (take MAX_NAME_LENGTH name) (db_users db) = Some (user, users)"
        "identity_link (ad_identity_id ad) (ur_id user) provider (pc_subject claims) (pc_connection claims) (Some e) now ids = Some ids'"
        "st' = (db\<lparr>db_users := users\<rparr>, ids')"
        using assms None e nobody calculation
        by (auto simp: resolve_account_def federation_create_def name_def[symmetric] Let_def split: option.splits)
      ultimately show ?thesis using new[of e "take MAX_NAME_LENGTH name" ids'] None e user_create_Some(1) by auto
    qed
  qed
qed

section \<open>What happens to the tables afterwards\<close>

text \<open>
  Anything the accounts go through while the identity (\<open>provider\<close>, \<open>subject\<close>) is not unlinked: claims of any
  provider resolved, with success or without, under any settings; accounts registered; passwords set; logins
  recorded; other identities unlinked; sessions and tokens changed at will.  No operation deletes an account.
\<close>

inductive accounts_change :: "string \<Rightarrow> string \<Rightarrow> accounts \<Rightarrow> accounts \<Rightarrow> bool" for provider subject where
  unchanged: "accounts_change provider subject st st"
| resolved: "accounts_change provider subject st st' \<Longrightarrow>
    accounts_change provider subject st (snd (resolve_account fs ad other claims now st'))"
| registered: "accounts_change provider subject st (db, ids) \<Longrightarrow>
    user_create i e password_hash name (db_users db) = Some (row, users) \<Longrightarrow>
    accounts_change provider subject st (db\<lparr>db_users := users\<rparr>, ids)"
| logged_in: "accounts_change provider subject st (db, ids) \<Longrightarrow>
    accounts_change provider subject st (db\<lparr>db_users := record_login u now (db_users db)\<rparr>, ids)"
| rehashed: "accounts_change provider subject st (db, ids) \<Longrightarrow>
    accounts_change provider subject st (db\<lparr>db_users := set_password_hash u h (db_users db)\<rparr>, ids)"
| unlinked: "accounts_change provider subject st (db, ids) \<Longrightarrow>
    (\<forall>row. identity_find provider subject ids = Some row \<longrightarrow> ir_id row \<noteq> i) \<Longrightarrow>
    accounts_change provider subject st (db, snd (identity_unlink i u ids))"
| sessions: "accounts_change provider subject st (db, ids) \<Longrightarrow> db_users db' = db_users db \<Longrightarrow>
    accounts_change provider subject st (db', ids)"

definition linked_to :: "string \<Rightarrow> string \<Rightarrow> uuid \<Rightarrow> accounts \<Rightarrow> bool" where
  "linked_to provider subject u st \<longleftrightarrow>
     (\<exists>row. identity_find provider subject (snd st) = Some row \<and> ir_user_id row = u)
     \<and> (\<exists>r. user_get u (db_users (fst st)) = Some r \<and> ur_id r = u)"

lemma find_filter_keep: "List.find p xs = Some x \<Longrightarrow> q x \<Longrightarrow> List.find p (filter q xs) = Some x"
  by (induction xs) (auto split: if_splits)

lemma linked_users_append:
  "linked_to provider subject u (db, ids) \<Longrightarrow> linked_to provider subject u (db\<lparr>db_users := db_users db @ rows\<rparr>, ids)"
  by (auto simp: linked_to_def user_get_def one_or_none_def find_append)

lemma linked_link:
  "linked_to provider subject u (db, ids) \<Longrightarrow> identity_link i v other sub c e now ids = Some ids' \<Longrightarrow>
     linked_to provider subject u (db, ids')"
  by (auto simp: linked_to_def identity_find_def one_or_none_def find_append dest!: identity_link_Some(1))

lemma linked_touch:
  "linked_to provider subject u (db, ids) \<Longrightarrow> linked_to provider subject u (db, identity_touch i now ids)"
  using identity_find_touched by (fastforce simp: linked_to_def)

lemma linked_unlink:
  assumes "linked_to provider subject u (db, ids)"
    and "\<forall>row. identity_find provider subject ids = Some row \<longrightarrow> ir_id row \<noteq> i"
  shows "linked_to provider subject u (db, snd (identity_unlink i v ids))"
  using assms unfolding linked_to_def identity_unlink_def identity_find_def one_or_none_def
  by (auto simp: find_filter_keep split: option.split)

lemma linked_update:
  assumes "linked_to provider subject u (db, ids)" "\<And>r. ur_id (f r) = ur_id r"
  shows "linked_to provider subject u (db\<lparr>db_users := updated q f (db_users db)\<rparr>, ids)"
proof -
  have "user_get u (updated q f rows) = map_option (\<lambda>r. if q r then f r else r) (user_get u rows)" for rows
    unfolding user_get_def one_or_none_def by (rule find_updated) (simp add: assms(2))
  moreover obtain r where "user_get u (db_users db) = Some r" "ur_id r = u"
    using assms(1) by (auto simp: linked_to_def)
  ultimately have "user_get u (updated q f (db_users db)) = Some (if q r then f r else r)"
    "ur_id (if q r then f r else r) = u" by (simp_all add: assms(2))
  with assms(1) show ?thesis by (simp add: linked_to_def)
qed

lemma linked_create:
  assumes "linked_to provider subject u st"
  shows "linked_to provider subject u (snd (federation_create fs ad other claims email now st))"
proof -
  obtain db ids where st: "st = (db, ids)" by fastforce
  show ?thesis using assms linked_users_append linked_link unfolding st
    by (fastforce simp: federation_create_def Let_def split: option.splits dest: user_create_Some(1))
qed

lemma linked_resolve:
  assumes "linked_to provider subject u st"
  shows "linked_to provider subject u (snd (resolve_account fs ad other claims now st))"
proof -
  obtain db ids where st: "st = (db, ids)" by fastforce
  show ?thesis using assms linked_create[OF assms] linked_link linked_touch unfolding st
    by (auto simp: resolve_account_def split: option.splits)
qed

lemma still_linked:
  assumes "accounts_change provider subject st st'" "linked_to provider subject u st"
  shows "linked_to provider subject u st'"
  using assms
proof induction
  case (registered st db ids i e password_hash name row users)
  then show ?case using linked_users_append user_create_Some(1) by blast
next
  case (logged_in st db ids v now)
  then show ?case unfolding record_login_def by (intro linked_update) auto
next
  case (rehashed st db ids v h)
  then show ?case unfolding set_password_hash_def by (intro linked_update) auto
next
  case (sessions st db ids db')
  then show ?case by (simp add: linked_to_def)
qed (auto intro: linked_resolve linked_unlink)

lemma linked_resolves:
  assumes "linked_to provider subject u st" "pc_subject claims = subject"
  shows "\<exists>user. fst (resolve_account fs ad provider claims now st) = Inr (user, False) \<and> ur_id user = u"
  using assms by (auto simp: linked_to_def resolve_account_def split: prod.splits option.splits)

section \<open>Which account\<close>

text \<open>C28. A provider's claims sign in as nobody but the account they are linked to, or one they may be linked to now.
  The account is the one linked to the provider's subject, whatever the address; or, for a subject not linked to
  anything, the owner of an address the provider verified, and then only if the deployment links by address; or, if it
  accepts registrations, a new account without a password for a verified address nobody has.  Whatever the
  accounts go through from then on, as long as that identity is not unlinked, the subject resolves to that account, under
  every address and every setting; and an address that is not verified is as good as none.\<close>

theorem claims_resolve_to_their_account:
  assumes "resolve_account fs ad provider claims now (db, ids) = (Inr (user, created), (db', ids'))"
  shows "(case identity_find provider (pc_subject claims) ids of
            Some i \<Rightarrow> ir_user_id i = ur_id user \<and> \<not> created \<and> db' = db
          | None \<Rightarrow> \<exists>e. pc_email claims = Some e \<and> pc_email_verified claims
              \<and> (case user_get_by_email e (db_users db) of
                   Some owner \<Rightarrow> fs_link_by_verified_email fs \<and> user = owner \<and> \<not> created \<and> db' = db
                 | None \<Rightarrow> fs_registration_enabled fs \<and> created \<and> ur_email user = e \<and> ur_password_hash user = None
                     \<and> ur_role user = ''user'' \<and> db' = db\<lparr>db_users := db_users db @ [user]\<rparr>))
    \<and> (\<forall>st' fs' ad' later claims'. accounts_change provider (pc_subject claims) (db', ids') st' \<and> pc_subject claims' = pc_subject claims \<longrightarrow>
         (\<exists>user'. fst (resolve_account fs' ad' provider claims' later st') = Inr (user', False) \<and> ur_id user' = ur_id user))
    \<and> (\<not> pc_email_verified claims \<longrightarrow>
         resolve_account fs ad provider (claims\<lparr>pc_email := None\<rparr>) now (db, ids) = (Inr (user, created), (db', ids')))"
proof -
  have usable: "usable_email claims = Some e \<Longrightarrow> pc_email claims = Some e \<and> pc_email_verified claims" for e
    by (auto simp: usable_email_def split: option.splits if_splits)
  have linked': "\<exists>i. identity_find provider (pc_subject claims) ids' = Some i \<and> ir_user_id i = ur_id user"
    and there: "\<exists>r. user_get (ur_id user) (db_users db') = Some r \<and> ur_id r = ur_id user"
    using assms
  proof (atomize (full), cases rule: resolved_cases)
    case (linked i)
    have "ur_id user = ir_user_id i" using linked(2) unfolding user_get_def by (auto dest!: found)
    with linked show "(\<exists>i. identity_find provider (pc_subject claims) ids' = Some i \<and> ir_user_id i = ur_id user)
        \<and> (\<exists>r. user_get (ur_id user) (db_users db') = Some r \<and> ur_id r = ur_id user)"
      using identity_find_touched[OF linked(1)] by auto
  next
    case (attached e ids'')
    have "user \<in> set (db_users db)" using attached(4) unfolding user_get_by_email_def by (auto dest!: found)
    then show "(\<exists>i. identity_find provider (pc_subject claims) ids' = Some i \<and> ir_user_id i = ur_id user)
        \<and> (\<exists>r. user_get (ur_id user) (db_users db') = Some r \<and> ur_id r = ur_id user)"
      using identity_find_linked[OF attached(6)] user_get_member attached(7) by auto
  next
    case (new e name ids'')
    then show "(\<exists>i. identity_find provider (pc_subject claims) ids' = Some i \<and> ir_user_id i = ur_id user)
        \<and> (\<exists>r. user_get (ur_id user) (db_users db') = Some r \<and> ur_id r = ur_id user)"
      using identity_find_linked[OF new(6)] user_get_member[of user "db_users db @ [user]"] by auto
  qed
  have unverified: "usable_email claims = None \<and> usable_email (claims\<lparr>pc_email := None\<rparr>) = None" if "\<not> pc_email_verified claims"
    using that by (auto simp: usable_email_def split: option.splits)
  have "linked_to provider (pc_subject claims) (ur_id user) (db', ids')"
    using linked' there by (auto simp: linked_to_def)
  then have stable: "\<exists>user'. fst (resolve_account fs' ad' provider claims' later st') = Inr (user', False) \<and> ur_id user' = ur_id user"
    if "accounts_change provider (pc_subject claims) (db', ids') st'" "pc_subject claims' = pc_subject claims"
    for st' fs' ad' later claims'
    using linked_resolves[OF still_linked[OF that(1)] that(2)] by blast
  have "resolve_account fs ad provider (claims\<lparr>pc_email := None\<rparr>) now (db, ids) = (Inr (user, created), (db', ids'))"
    if "\<not> pc_email_verified claims"
  proof -
    have "resolve_account fs ad provider (claims\<lparr>pc_email := None\<rparr>) now (db, ids) = resolve_account fs ad provider claims now (db, ids)"
      using unverified[OF that] by (simp add: resolve_account_def federation_create_def split: option.splits)
    then show ?thesis using assms by simp
  qed
  moreover have "case identity_find provider (pc_subject claims) ids of
            Some i \<Rightarrow> ir_user_id i = ur_id user \<and> \<not> created \<and> db' = db
          | None \<Rightarrow> \<exists>e. pc_email claims = Some e \<and> pc_email_verified claims
              \<and> (case user_get_by_email e (db_users db) of
                   Some owner \<Rightarrow> fs_link_by_verified_email fs \<and> user = owner \<and> \<not> created \<and> db' = db
                 | None \<Rightarrow> fs_registration_enabled fs \<and> created \<and> ur_email user = e \<and> ur_password_hash user = None
                     \<and> ur_role user = ''user'' \<and> db' = db\<lparr>db_users := db_users db @ [user]\<rparr>)"
    using assms
  proof (cases rule: resolved_cases)
    case (linked i)
    then show ?thesis by (auto simp: user_get_def dest!: found)
  next
    case (attached e ids'')
    then show ?thesis using usable by simp
  next
    case (new e name ids'')
    then show ?thesis using usable[OF new(2)] user_create_Some[OF new(5)] by simp
  qed
  ultimately show ?thesis using stable by blast
qed

text \<open>Ada's account is linked to a Google subject; the provider now reports another address, which it did not verify.\<close>

definition sample_link :: IdentityRow where
  "sample_link = \<lparr>ir_id = 40, ir_user_id = 1, ir_provider = ''auth0'', ir_subject = ''s1'', ir_connection = Some ''google'',
     ir_email = Some ''ada@example.com'', ir_last_used_at = None\<rparr>"

definition sample_provider_claims :: ProviderClaims where
  "sample_provider_claims = \<lparr>pc_subject = ''s1'', pc_connection = Some ''google'', pc_email = Some ''eve@example.com'',
     pc_email_verified = False, pc_name = None\<rparr>"

definition sample_federation :: FederationService where
  "sample_federation = \<lparr>fs_registration_enabled = True, fs_link_by_verified_email = False\<rparr>"

definition sample_tables :: AuthDb where
  "sample_tables = \<lparr>db_users = [sample_user], db_sessions = [], db_tokens = []\<rparr>"

definition sample_new :: AccountDraws where "sample_new = \<lparr>ad_user_id = 2, ad_identity_id = 41\<rparr>"

lemma sample_resolved:
  "resolve_account sample_federation sample_new ''auth0'' sample_provider_claims 7 (sample_tables, [sample_link])
     = (Inr (sample_user, False), (sample_tables, [sample_link\<lparr>ir_last_used_at := Some 7\<rparr>]))"
  by (simp add: resolve_account_def sample_provider_claims_def sample_link_def sample_tables_def sample_user_def
      identity_find_def one_or_none_def user_get_def identity_touch_def updated_def)

theorem claims_resolve_to_their_account_witness:
  "ir_user_id sample_link = ur_id sample_user
   \<and> (\<exists>user. fst (resolve_account sample_federation sample_new ''auth0'' (sample_provider_claims\<lparr>pc_email := None\<rparr>) 8
        (sample_tables\<lparr>db_users := record_login 1 8 [sample_user]\<rparr>, [sample_link\<lparr>ir_last_used_at := Some 7\<rparr>]))
          = Inr (user, False) \<and> ur_id user = 1)"
proof -
  have "identity_find ''auth0'' (pc_subject sample_provider_claims) [sample_link] = Some sample_link"
    by (simp add: identity_find_def one_or_none_def sample_link_def sample_provider_claims_def)
  moreover have "ur_id sample_user = 1" "db_users sample_tables = [sample_user]"
    by (simp_all add: sample_user_def sample_tables_def)
  moreover have "accounts_change ''auth0'' (pc_subject sample_provider_claims)
      (sample_tables, [sample_link\<lparr>ir_last_used_at := Some 7\<rparr>])
      (sample_tables\<lparr>db_users := record_login 1 8 (db_users sample_tables)\<rparr>, [sample_link\<lparr>ir_last_used_at := Some 7\<rparr>])"
    by (intro accounts_change.logged_in accounts_change.unchanged)
  ultimately show ?thesis using claims_resolve_to_their_account[OF sample_resolved] by simp
qed

section \<open>What a password opens\<close>

definition opens :: "AuthService \<Rightarrow> string \<Rightarrow> string \<Rightarrow> UserRow list \<Rightarrow> UserRow \<Rightarrow> bool" where
  "opens svc email password users user \<longleftrightarrow> as_password_login_enabled svc
     \<and> user_get_by_email (normalise_email email) users = Some user
     \<and> (case ur_password_hash user of None \<Rightarrow> False
        | Some h \<Rightarrow> h \<noteq> [] \<and> a2_verify (as_argon2 svc) h (take 1024 password))"

lemma begin_session_cases:
  assumes "begin_session svc dr user provider ua ip now st = (outcome, st')"
  obtains (crashed) "outcome = Inl IntegrityFailure" "st' = st"
  | (begun) tokens where "outcome = Inr (SignedIn user tokens)"
      "\<exists>row \<in> set (db_sessions (fst st')). sr_id row = it_session_id tokens \<and> sr_user_id row = ur_id user"
proof -
  show ?thesis
  proof (cases "start (as_sessions svc) (sd_session dr) (ur_id user) (ur_email user) (ur_role user) provider ua ip now
      ((fst st)\<lparr>db_users := record_login (ur_id user) now (db_users (fst st))\<rparr>)")
    case None
    then show ?thesis using assms crashed by (simp add: begin_session_def case_prod_beta)
  next
    case (Some p)
    obtain tokens db where p: "p = (tokens, db)" by (cases p)
    then show ?thesis using assms Some begun[of tokens] start_facts(5)[OF Some[unfolded p]]
      by (auto simp: begin_session_def case_prod_beta)
  qed
qed

lemma sign_in_cases:
  assumes "as_supabase svc = None"
  shows "(\<exists>user st2. opens svc email password (db_users (fst st)) user
            \<and> sign_in svc dr email password ua ip now st = begin_session svc dr user ''local'' ua ip now st2)
    \<or> ((\<nexists>user. opens svc email password (db_users (fst st)) user)
         \<and> sign_in svc dr email password ua ip now st = (Inl InvalidCredentials, st))"
  using assms
  by (auto simp: sign_in_def opens_def verify_password_def normalise_password_def MAX_PASSWORD_LENGTH_def Let_def
      case_prod_beta split: option.splits) (metis prod.collapse)

text \<open>C29. A password opens the account of its address and nothing else, and every refusal is the same.  Where this
  deployment holds the passwords, a sign-in succeeds only for the user whose address it is, without regard to case, and
  whose stored hash verifies the password, and then the new session is that user's.  Any other attempt (password
  sign-in switched off, an unknown address, an account without a password, a wrong one) is answered with the one error
  and leaves the database as it was.\<close>

theorem password_opens_its_account:
  assumes "as_supabase svc = None"
  shows "case login svc dr email password ua ip now st of
      (Inr (SignedIn user tokens), st') \<Rightarrow> opens svc email password (db_users (fst st)) user
        \<and> (\<exists>row \<in> set (db_sessions (fst st')). sr_id row = it_session_id tokens \<and> sr_user_id row = ur_id user)
    | (Inr (ConfirmationSent _), st') \<Rightarrow> False
    | (Inl e, st') \<Rightarrow> st' = st \<and> e = (if \<exists>user. opens svc email password (db_users (fst st)) user
        then IntegrityFailure else InvalidCredentials)"
  using sign_in_cases[OF assms, of email password st dr ua ip now]
proof (elim disjE exE conjE)
  fix user st2
  assume opens: "opens svc email password (db_users (fst st)) user"
    and s: "sign_in svc dr email password ua ip now st = begin_session svc dr user ''local'' ua ip now st2"
  obtain outcome st' where b: "begin_session svc dr user ''local'' ua ip now st2 = (outcome, st')"
    by (cases "begin_session svc dr user ''local'' ua ip now st2")
  from b show ?thesis
    by (cases rule: begin_session_cases) (use opens s b in \<open>auto simp: login_def raised_back_def\<close>)
qed (simp add: login_def raised_back_def)

definition sample_argon2 :: Argon2 where
  "sample_argon2 = \<lparr>a2_hash = (\<lambda>_ _ p. CHR ''$'' # p), a2_verify = (\<lambda>h p. h = CHR ''$'' # p), a2_needs_rehash = (\<lambda>_ _. False)\<rparr>"

definition sample_auth :: AuthService where
  "sample_auth = \<lparr>as_registration_enabled = True, as_password_login_enabled = True, as_min_password_length = 12,
     as_hash_parameters = \<lparr>hp_time_cost = 3, hp_memory_kib = 65536, hp_parallelism = 4\<rparr>, as_argon2 = sample_argon2,
     as_sessions = sample_service 10, as_supabase = None, as_federation = sample_federation\<rparr>"

definition sample_sign_in_draws :: SignInDraws where
  "sample_sign_in_draws = \<lparr>sd_salt = 0, sd_account = sample_new, sd_session = sample_draws 0 ''a''\<rparr>"

text \<open>Ada has no password: whatever is tried, the answer is the same.\<close>

theorem password_opens_its_account_witness:
  "login sample_auth sample_sign_in_draws ''ADA@example.com '' ''anything at all'' ''browser'' None 0 (sample_tables, [])
     = (Inl InvalidCredentials, (sample_tables, []))"
proof -
  have none: "\<nexists>user. opens sample_auth ''ADA@example.com '' ''anything at all'' (db_users sample_tables) user"
    by (auto simp: opens_def sample_tables_def user_get_by_email_def one_or_none_def sample_user_def split: if_splits)
  have "as_supabase sample_auth = None" by (simp add: sample_auth_def)
  from password_opens_its_account[OF this, where email = "''ADA@example.com ''" and password = "''anything at all''"
      and dr = sample_sign_in_draws and ua = "''browser''" and ip = None and now = 0 and st = "(sample_tables, [])"]
  show ?thesis using none by (auto split: prod.splits sum.splits sign_in_outcome.splits)
qed

end
