(* ===== verification/SignOnProperties.thy ===== *)
theory SignOnProperties
  imports AccountProperties
begin

text \<open>Single sign-on over time: a completed callback answers a sign-in that was begun, once, and leads into the application.\<close>

section \<open>Where a sign-in leads\<close>

definition local_path :: "string \<Rightarrow> bool" where
  "local_path d \<longleftrightarrow> take 1 d = ''/'' \<and> take 2 d \<noteq> ''//'' \<and> char_of (92 :: nat) \<notin> set d \<and> \<not> list_ex control_char d"

lemma default_is_local: "local_path DEFAULT_DESTINATION"
  by (simp add: local_path_def DEFAULT_DESTINATION_def control_char_def char_of_eq_iff)

lemma destination_is_local: "local_path (safe_destination requested DEFAULT_DESTINATION)"
  using default_is_local by (auto simp: safe_destination_def local_path_def starts_with_def numeral_2_eq_2 split: option.splits)

section \<open>Transactions\<close>

definition held_for :: "transactions \<Rightarrow> (string \<times> PendingAuthorization) multiset" where
  "held_for txns = mset (map (\<lambda>(k, p, until). (k, p)) txns)"

lemma held_filter: "held_for (filter P txns) \<subseteq># held_for txns"
  by (simp add: held_for_def image_mset_subseteq_mono)

lemma held_update: "held_for (AList.update k (p, until) txns) \<subseteq># add_mset (k, p) (held_for txns)"
proof (induction txns)
  case (Cons x txns)
  then show ?case by (cases x) (auto simp: held_for_def add_mset_commute intro: subset_mset.order_trans)
qed (simp add: held_for_def)

lemma held_delete: "map_of txns k = Some (p, until) \<Longrightarrow> add_mset (k, p) (held_for (AList.delete k txns)) \<subseteq># held_for txns"
proof (induction txns)
  case (Cons x txns)
  show ?case
  proof (cases "fst x = k")
    case True
    have "held_for (AList.delete k txns) \<subseteq># held_for txns" using held_filter by (simp add: AList.delete_eq)
    then show ?thesis using True Cons.prems by (cases x) (simp add: held_for_def)
  next
    case False
    then show ?thesis using Cons by (cases x) (simp add: held_for_def add_mset_commute)
  qed
qed simp

lemma take_held:
  "held_for (snd (txn_take now k txns)) \<subseteq># held_for txns"
  "fst (txn_take now k txns) = Some p \<Longrightarrow> add_mset (k, p) (held_for (snd (txn_take now k txns))) \<subseteq># held_for txns
     \<and> fst (the (map_of txns k)) = p"
proof -
  show "held_for (snd (txn_take now k txns)) \<subseteq># held_for txns"
    using held_filter by (auto simp: txn_take_def AList.delete_eq split: option.splits)
  show "add_mset (k, p) (held_for (snd (txn_take now k txns))) \<subseteq># held_for txns \<and> fst (the (map_of txns k)) = p"
    if "fst (txn_take now k txns) = Some p"
    using that held_delete[of txns k p] by (auto simp: txn_take_def split: option.splits if_splits prod.splits)
qed

section \<open>One callback\<close>

lemma complete_url:
  assumes "fst (complete s ad dr provider p code chosen ua ip now st) = SignedInTo url issued user created"
  shows "url = app_url s (pa_destination p)"
proof (cases "pv_exchange chosen code (pa_code_verifier p) (pa_nonce p) (pa_redirect_uri p)")
  case (Exchanged claims)
  obtain r db ids where r: "resolve_account (so_federation s) ad provider claims now st = (r, (db, ids))"
    by (metis prod.collapse)
  show ?thesis
  proof (cases r)
    case (Inl e)
    then show ?thesis using assms Exchanged r by (cases e) (simp_all add: complete_def split: if_splits)
  next
    case (Inr uc)
    then show ?thesis using assms Exchanged r by (cases uc) (auto simp: complete_def split: if_splits option.splits)
  qed
qed (use assms in \<open>simp_all add: complete_def\<close>)

text \<open>A callback that signs somebody in took the transaction its cookie names, and presented that transaction's state.\<close>

lemma callback_signed_in:
  assumes "sso_callback s ad dr provider cookie code state error ua ip now (accounts, txns)
    = (SignedInTo url issued user created, accounts', txns')"
  obtains p where "cookie \<noteq> None" "fst (txn_take now (the cookie) txns) = Some p" "txns' = snd (txn_take now (the cookie) txns)"
    "the state = pa_state p" "provider = pa_provider p" "url = app_url s (pa_destination p)"
proof -
  obtain p where p: "given cookie" "fst (txn_take now (the cookie) txns) = Some p" "txns' = snd (txn_take now (the cookie) txns)"
    "compare_digest (pa_state p) (the state) = Some True" "pa_provider p = provider"
    and r: "\<exists>chosen. fst (complete s ad dr provider p (the code) chosen ua ip now accounts) = SignedInTo url issued user created"
    using assms by (auto simp: sso_callback_def Let_def case_prod_beta split: if_splits option.splits)
  have "url = app_url s (pa_destination p)" using r complete_url by blast
  then show ?thesis using p that[of p] by (auto simp: given_def compare_digest_def split: option.splits if_splits)
qed

lemma callback_held:
  assumes "sso_callback s ad dr provider cookie code state error ua ip now (accounts, txns) = (result, accounts', txns')"
  shows "held_for txns' \<subseteq># held_for txns"
proof -
  have "txns' = snd (if given cookie then txn_take now (the cookie) txns else (None, txns))"
    using assms by (auto simp: sso_callback_def Let_def case_prod_beta split: if_splits option.splits)
  then show ?thesis using take_held(1) by simp
qed

section \<open>Browsers over time\<close>

definition answers :: "SsoSettings \<Rightarrow> (string \<times> PendingAuthorization) \<times> string \<times> string \<times> string \<Rightarrow> bool" where
  "answers s d = (case d of ((handle, p), provider, state, url) \<Rightarrow>
     state = pa_state p \<and> provider = pa_provider p \<and> url = app_url s (pa_destination p) \<and> local_path (pa_destination p))"

definition sso_inv :: "SsoSettings \<Rightarrow> SsoWorld \<Rightarrow> bool" where
  "sso_inv s w \<longleftrightarrow> mset (map fst (sw_done w)) + held_for (sw_txns w) \<subseteq># mset (sw_begun w)
     \<and> list_all (\<lambda>(k, p). local_path (pa_destination p)) (sw_begun w) \<and> list_all (answers s) (sw_done w)"

lemma sso_inv_step:
  assumes "sso_inv s w"
  shows "sso_inv s (browse s b w)"
proof (cases b)
  case (Pause d)
  then show ?thesis using assms by (simp add: sso_inv_def)
next
  case (Leave az provider connection requested)
  show ?thesis
  proof (cases "sso_start s az provider connection requested (sw_clock w) (sw_txns w)")
    case (Pair r txns)
    show ?thesis
    proof (cases r)
      case (Inl e)
      then show ?thesis using Leave Pair assms by simp
    next
      case (Inr uh)
      define p where "p = \<lparr>pa_provider = provider, pa_connection = connection, pa_state = az_state az, pa_nonce = az_nonce az,
        pa_code_verifier = az_code_verifier az, pa_redirect_uri = callback_uri s provider,
        pa_destination = safe_destination requested DEFAULT_DESTINATION\<rparr>"
      define until where "until = sw_clock w + seconds (so_transaction_ttl s)"
      have p: "uh = (az_url az, az_handle az)" "local_path (pa_destination p)"
        "txns = AList.update (az_handle az) (p, until) (filter (\<lambda>(k, v). snd v > sw_clock w) (sw_txns w))"
        using Pair Inr destination_is_local
        by (auto simp: sso_start_def txn_put_def p_def until_def split: option.splits if_splits)
      have "held_for txns \<subseteq># add_mset (az_handle az, p) (held_for (sw_txns w))"
        using p(3) subset_mset.order_trans[OF held_update] held_filter by simp
      moreover have "fst (the (map_of txns (az_handle az))) = p" using p(3) by (simp add: update_conv)
      ultimately show ?thesis
        using assms Leave Pair Inr p(1,2) unfolding sso_inv_def
        by (auto intro: subset_mset.order_trans[OF subset_mset.add_left_mono])
    qed
  qed
next
  case (Return ad dr provider cookie code state error)
  obtain result accounts txns where r: "sso_callback s ad dr provider cookie code state error [] None (sw_clock w)
      (sw_accounts w, sw_txns w) = (result, accounts, txns)"
    by (cases "sso_callback s ad dr provider cookie code state error [] None (sw_clock w) (sw_accounts w, sw_txns w)")
  show ?thesis
  proof (cases "\<exists>url issued user created. result = SignedInTo url issued user created")
    case True
    then obtain url issued user created where result: "result = SignedInTo url issued user created" by blast
    obtain p where p: "fst (txn_take (sw_clock w) (the cookie) (sw_txns w)) = Some p" "txns = snd (txn_take (sw_clock w) (the cookie) (sw_txns w))"
      "the state = pa_state p" "provider = pa_provider p" "url = app_url s (pa_destination p)"
      using callback_signed_in[OF r[unfolded result]] by metis
    note t = take_held(2)[OF p(1), folded p(2)]
    have all: "mset (map fst (sw_done w)) + add_mset (the cookie, p) (held_for txns) \<subseteq># mset (sw_begun w)"
      using assms t unfolding sso_inv_def by (meson subset_mset.add_left_mono subset_mset.order_trans)
    then have "(the cookie, p) \<in># mset (sw_begun w)" by (meson mset_subset_eqD union_iff union_single_eq_member)
    then have "local_path (pa_destination p)" using assms unfolding sso_inv_def by (auto simp: list_all_iff)
    then show ?thesis
      using assms all Return r result t p(3,4,5) unfolding sso_inv_def by (simp add: answers_def)
  next
    case False
    then have "browse s (Return ad dr provider cookie code state error) w = w\<lparr>sw_accounts := accounts, sw_txns := txns\<rparr>"
      using r by (cases result) auto
    then show ?thesis
      using assms callback_held[OF r] Return unfolding sso_inv_def
      by (auto intro: subset_mset.order_trans[OF subset_mset.add_left_mono])
  qed
qed

lemma browse_all_inv: "sso_inv s w \<Longrightarrow> sso_inv s (browse_all s bs w)"
  unfolding browse_all_def by (induction bs arbitrary: w) (simp_all add: sso_inv_step)

text \<open>C30. A single sign-on completes only what was begun, and once.  Whatever browsers do, in whatever order and after
  whatever delays, the completed callbacks are each matched by a sign-in of their own that this deployment began: the
  cookie of the callback is the handle of that sign-in, its state is the state drawn for it, its provider the one it went
  to.  So a callback that is replayed, pasted into another browser, or sent to the wrong provider signs nobody in; and
  the browser is sent to a path of the application itself.\<close>

theorem sign_on_completes_what_was_begun:
  "mset (map fst (sw_done (browse_all s bs (quiet_world st t0)))) \<subseteq># mset (sw_begun (browse_all s bs (quiet_world st t0)))
   \<and> list_all (answers s) (sw_done (browse_all s bs (quiet_world st t0)))"
proof -
  have "sso_inv s (quiet_world st t0)" by (simp add: sso_inv_def quiet_world_def held_for_def)
  from browse_all_inv[OF this, of bs] show ?thesis
    unfolding sso_inv_def by (meson mset_subset_eq_add_left subset_mset.order_trans)
qed

text \<open>A run in which Ada, whose subject is linked, goes out to the provider and comes back.\<close>

definition sample_sso :: SsoSettings where
  "sample_sso = \<lparr>so_redirect_base_url = None, so_app_base_url = ''https://app.test/'', so_transaction_ttl = 600,
     so_providers = [(''auth0'', \<lparr>pv_available = [''google''],
       pv_exchange = (\<lambda>code verifier nonce uri. Exchanged (sample_provider_claims\<lparr>pc_email_verified := True\<rparr>))\<rparr>)],
     so_federation = sample_federation, so_sessions = sample_service 10\<rparr>"

definition sample_authorization :: Authorization where
  "sample_authorization = \<lparr>az_handle = ''h'', az_url = ''https://idp.test/'', az_state = ''st'', az_nonce = ''n'', az_code_verifier = ''v''\<rparr>"

lemma begun_sign_on_completes:
  "map (\<lambda>d. (fst (fst d), snd d)) (sw_done (browse_all sample_sso
     [Leave sample_authorization ''auth0'' ''google'' (Some ''//evil.test''), Pause 5,
      Return sample_new (sample_draws 0 ''a'') ''auth0'' (Some ''h'') (Some ''code'') (Some ''st'') None,
      Return sample_new (sample_draws 1 ''b'') ''auth0'' (Some ''h'') (Some ''code'') (Some ''st'') None]
     (quiet_world (sample_tables, [sample_link]) 0)))
   = [(''h'', ''auth0'', ''st'', ''https://app.test/dashboard'')]"
  by (simp add: browse_all_def sample_sso_def sample_authorization_def quiet_world_def sso_start_def txn_put_def
      safe_destination_def starts_with_def DEFAULT_DESTINATION_def sso_callback_def given_def txn_take_def compare_digest_def
      complete_def usable_email_def resolve_account_def sample_provider_claims_def sample_link_def sample_tables_def
      sample_user_def identity_find_def identity_touch_def app_url_def rstrip_slash_def MAX_DESTINATION_LENGTH_def
      sample_service_def sample_draws_def sample_new_def run_simps get_session_service_def)

section \<open>Unlinking\<close>

text \<open>Unlinking leaves a password or another identity: an account is never left without a way in.\<close>

lemma unlink_keeps_a_way_in:
  assumes "unlink_identity identity_id user_id (db, ids) = (Inr (), (db', ids'))" "distinct (map ir_id ids)"
  shows "db' = db \<and> (0 < count_for_user user_id ids' \<or>
    (\<exists>row h. user_get user_id (db_users db) = Some row \<and> ur_password_hash row = Some h \<and> h \<noteq> []))"
proof -
  let ?mine = "\<lambda>r. ir_user_id r = user_id"
  obtain row where row: "row \<in> set ids" "ir_id row = identity_id" "ids' = filter (\<lambda>r. ir_id r \<noteq> identity_id) ids" "db' = db"
    using assms(1) by (auto simp: unlink_identity_def identity_unlink_def Let_def split: if_splits option.splits dest!: found)
  have only: "r = row" if "r \<in> set ids" "ir_id r = identity_id" for r
    using distinct_map_same[OF assms(2) that(1) row(1)] that(2) row(2) by simp
  have "length (filter ?mine ids) \<le> length (filter ?mine ids') + 1"
  proof -
    have split: "length (filter ?mine ids) = length (filter ?mine ids') + length (filter ?mine (filter (\<lambda>r. ir_id r = identity_id) ids))"
      unfolding row(3) by (induction ids) auto
    have "distinct ids" using assms(2) by (simp add: distinct_map)
    then have "length (filter (\<lambda>r. ir_id r = identity_id) ids) = card (set (filter (\<lambda>r. ir_id r = identity_id) ids))"
      by (metis distinct_card distinct_filter)
    also have "\<dots> \<le> card {row}" by (rule card_mono) (use only in auto)
    finally have "length (filter ?mine (filter (\<lambda>r. ir_id r = identity_id) ids)) \<le> 1"
      using length_filter_le[of ?mine "filter (\<lambda>r. ir_id r = identity_id) ids"] by simp
    then show ?thesis using split by simp
  qed
  moreover have "1 < count_for_user user_id ids \<or>
      (\<exists>row h. user_get user_id (db_users db) = Some row \<and> ur_password_hash row = Some h \<and> h \<noteq> [])"
    using assms(1) by (auto simp: unlink_identity_def given_def Let_def split: if_splits option.splits)
  ultimately show ?thesis using row(4) by (auto simp: count_for_user_def affected_def)
qed

section \<open>Where a callback does not end in a redirect, or not in the one promised\<close>

text \<open>
  Every failure of a callback is to end in a redirect to the sign-in page; a state with a character outside ASCII makes
  the comparison raise instead.
\<close>

lemma strange_state_raises:
  assumes "given cookie" "fst (txn_take now (the cookie) txns) = Some p" "given code" "state = Some [char_of (233 :: nat)]"
  shows "fst (sso_callback s ad dr provider cookie code state None ua ip now (accounts, txns)) = CallbackRaised"
  using assms by (simp add: sso_callback_def Let_def case_prod_beta given_def compare_digest_def)

text \<open>
  A linked subject is to need no further judgement; but an address that the provider reports and has not verified is
  refused before the link is looked up.
\<close>

lemma linked_subject_is_refused:
  assumes "pv_exchange chosen code (pa_code_verifier p) (pa_nonce p) (pa_redirect_uri p) = Exchanged claims"
    "pc_email claims = Some e" "e \<noteq> []" "\<not> pc_email_verified claims"
  shows "complete s ad dr provider p code chosen ua ip now (db, ids) = (FailedTo (failed_url s ''email_unverified''), (db, ids))"
  using assms by (simp add: complete_def usable_email_def given_def)

end
