(* ===== verification/UntrustedProperties.thy ===== *)
theory UntrustedProperties
  imports Untrusted
begin

text \<open>Retrieved text cannot leave its data block, and what sanitising guarantees of its result.\<close>

section \<open>Occurrences\<close>

fun occurrences :: "codes \<Rightarrow> codes \<Rightarrow> nat" where
  "occurrences p [] = 0"
| "occurrences p (c # s) = (if prefix p (c # s) then 1 else 0) + occurrences p s"

lemma occurrences_none: "\<not> sublist p s \<Longrightarrow> occurrences p s = 0"
  by (induction s) (auto simp: sublist_Cons_right)

lemma occurrences_foreign: "c \<in> set p \<Longrightarrow> c \<notin> set s \<Longrightarrow> occurrences p s = 0"
  by (intro occurrences_none) (auto simp: sublist_def)

lemma prefix_before: "c \<notin> set p \<Longrightarrow> prefix p (x @ c # y) \<longleftrightarrow> prefix p x"
  by (induction p x rule: list_induct2') auto

text \<open>A pattern without a newline does not cross one.\<close>

lemma occurrences_newline: "10 \<notin> set p \<Longrightarrow> p \<noteq> [] \<Longrightarrow> occurrences p (x @ 10 # y) = occurrences p x + occurrences p y"
proof (induction x)
  case Nil
  then show ?case by (cases p) auto
next
  case (Cons c x)
  then show ?case using prefix_before[of 10 p "c # x" y] by simp
qed

section \<open>Replacing\<close>

lemma replace_prefix: "hd r \<notin> set q \<Longrightarrow> r \<noteq> [] \<Longrightarrow> prefix q (replace_all p r s) \<Longrightarrow> prefix q s"
proof (induction p r s arbitrary: q rule: replace_all.induct)
  case (2 p r c s)
  show ?case
  proof (cases "p \<noteq> [] \<and> take (length p) (c # s) = p")
    case True
    then have "prefix q (r @ replace_all p r (drop (length p - 1) s))" using "2.prems"(3) by simp
    then have "q = []" using "2.prems"(1,2) by (cases q; cases r) auto
    then show ?thesis by simp
  next
    case False
    then have rest: "prefix q (c # replace_all p r s)" using "2.prems"(3) by auto
    show ?thesis
    proof (cases q)
      case (Cons d q')
      then have "d = c" "prefix q' (replace_all p r s)" using rest by simp_all
      then show ?thesis using "2.IH"(2)[OF False, of q'] "2.prems"(1,2) Cons by simp
    qed simp
  qed
qed simp

lemma sublist_of_append:
  assumes "sublist q (r @ t)" "hd r \<notin> set q" "last r \<notin> set q" "r \<noteq> []" "q \<noteq> []"
  shows "sublist q r \<or> sublist q t"
proof -
  consider "sublist q r" | "sublist q t" | q1 q2 where "q = q1 @ q2" "suffix q1 r" "prefix q2 t" "q1 \<noteq> []"
    using assms(1) unfolding sublist_append by (metis append_Nil prefix_imp_sublist)
  then show ?thesis
  proof cases
    case 3
    then have "last q1 = last r" by (metis last_append suffix_def)
    then have "last r \<in> set q" using 3(1,4) by (metis UnI1 last_in_set set_append)
    then show ?thesis using assms(3) by simp
  qed auto
qed

text \<open>Replacing brings about no text that was not there, if the replacement begins and ends with characters foreign to it.\<close>

lemma replace_sublist:
  assumes "hd r \<notin> set q" "last r \<notin> set q" "r \<noteq> []" "\<not> sublist q r" "q \<noteq> []"
  shows "sublist q (replace_all p r s) \<Longrightarrow> sublist q s"
  using assms
proof (induction p r s rule: replace_all.induct)
  case (2 p r c s)
  show ?case
  proof (cases "p \<noteq> [] \<and> take (length p) (c # s) = p")
    case True
    then have "sublist q (r @ replace_all p r (drop (length p - 1) s))" using "2.prems"(1) by simp
    then have "sublist q (replace_all p r (drop (length p - 1) s))"
      using sublist_of_append[of q r] "2.prems" by blast
    then have "sublist q (drop (length p - 1) s)" using "2.IH"(1)[OF True] "2.prems" by simp
    then show ?thesis by (meson sublist_drop sublist_Cons_right sublist_order.order_trans)
  next
    case False
    then have "sublist q (c # replace_all p r s)" using "2.prems"(1) by auto
    then consider "prefix q (c # replace_all p r s)" | "sublist q (replace_all p r s)" by (auto simp: sublist_Cons_right)
    then show ?thesis
    proof cases
      case 1
      obtain d q' where q: "q = d # q'" using "2.prems"(6) by (cases q) auto
      have "prefix q' s" using 1 q "2.prems"(2,4) replace_prefix[of r q' p s] by simp
      then show ?thesis using 1 q by (simp add: sublist_Cons_right)
    next
      case 2
      then show ?thesis using "2.IH"(2)[OF False] "2.prems" by (simp add: sublist_Cons_right)
    qed
  qed
qed simp

text \<open>And none of what was replaced is left.\<close>

lemma replaced_gone:
  assumes "hd r \<notin> set p" "last r \<notin> set p" "r \<noteq> []" "\<not> sublist p r" "p \<noteq> []"
  shows "\<not> sublist p (replace_all p r s)"
  using assms
proof (induction p r s rule: replace_all.induct)
  case (2 p r c s)
  show ?case
  proof (cases "p \<noteq> [] \<and> take (length p) (c # s) = p")
    case True
    then have "\<not> sublist p (replace_all p r (drop (length p - 1) s))" using "2.IH"(1)[OF True] "2.prems" by simp
    then show ?thesis using sublist_of_append[of p r] "2.prems" True by auto
  next
    case False
    have "\<not> prefix p (c # replace_all p r s)"
    proof
      assume p: "prefix p (c # replace_all p r s)"
      then obtain p' where p': "p = c # p'" "prefix p' (replace_all p r s)" using "2.prems"(5) by (cases p) auto
      then have "prefix p' s" using "2.prems"(1,3) by (intro replace_prefix[of r p' p s]) auto
      then have "prefix p (c # s)" using p'(1) by simp
      then show False using False "2.prems"(5) by (auto simp: prefix_def)
    qed
    then show ?thesis using False "2.IH"(2)[OF False] "2.prems" by (auto simp: sublist_Cons_right)
  qed
qed simp

section \<open>The data block\<close>

lemmas marker_defs = BEGIN_MARKER_def END_MARKER_def REMOVED_def codes_def

lemma marker_facts:
  "hd REMOVED \<notin> set BEGIN_MARKER" "last REMOVED \<notin> set BEGIN_MARKER" "hd REMOVED \<notin> set END_MARKER"
  "last REMOVED \<notin> set END_MARKER" "REMOVED \<noteq> []" "BEGIN_MARKER \<noteq> []" "END_MARKER \<noteq> []"
  "10 \<notin> set BEGIN_MARKER" "10 \<notin> set END_MARKER" "60 \<in> set BEGIN_MARKER" "60 \<in> set END_MARKER" "60 \<notin> set REMOVED"
  by (simp_all add: marker_defs)

lemma no_marker_in_removed: "\<not> sublist BEGIN_MARKER REMOVED" "\<not> sublist END_MARKER REMOVED"
  using marker_facts(10-12) set_mono_sublist by blast+

lemma marker_counts:
  "occurrences BEGIN_MARKER BEGIN_MARKER = 1" "occurrences END_MARKER END_MARKER = 1"
  "occurrences BEGIN_MARKER END_MARKER = 0" "occurrences END_MARKER BEGIN_MARKER = 0"
  by (simp_all add: marker_defs)

text \<open>A value holds neither marker: the second replacement cannot bring back the first.\<close>

lemma value_has_no_marker:
  "\<not> sublist BEGIN_MARKER (ut_value (untrusted_text u raw url))" "\<not> sublist END_MARKER (ut_value (untrusted_text u raw url))"
proof -
  let ?t = "replace_all END_MARKER REMOVED (sanitize_text u raw)"
  show "\<not> sublist BEGIN_MARKER (ut_value (untrusted_text u raw url))"
    using replaced_gone[OF marker_facts(1,2,5) no_marker_in_removed(1) marker_facts(6), of ?t] by (simp add: untrusted_text_def)
  have "\<not> sublist END_MARKER ?t" by (rule replaced_gone[OF marker_facts(3,4,5) no_marker_in_removed(2) marker_facts(7)])
  then show "\<not> sublist END_MARKER (ut_value (untrusted_text u raw url))"
    using replace_sublist[OF marker_facts(3,4,5) no_marker_in_removed(2) marker_facts(7), of BEGIN_MARKER ?t]
    by (auto simp: untrusted_text_def)
qed

lemma strip_codes_subset: "set (strip_codes s) \<subseteq> set s"
  by (auto simp: strip_codes_def dest!: set_dropWhileD)

lemma label_characters: "c \<in> set (safe_label u label) \<Longrightarrow> LABEL_SAFE c"
proof -
  assume c: "c \<in> set (safe_label u label)"
  have "LABEL_SAFE d" if "d \<in> set (strip_codes (map (\<lambda>c. if LABEL_SAFE c then c else 32) s))" for d s
    using strip_codes_subset[of "map (\<lambda>c. if LABEL_SAFE c then c else 32) s"] that by (auto simp: LABEL_SAFE_def codes_def split: if_splits)
  then show ?thesis using c unfolding safe_label_def by (auto dest!: in_set_takeD simp: codes_def LABEL_SAFE_def)
qed

lemma no_marker_in_label: "occurrences BEGIN_MARKER (safe_label u label) = 0" "occurrences END_MARKER (safe_label u label) = 0"
proof -
  have "60 \<notin> set (safe_label u label)" using label_characters[of 60] by (auto simp: LABEL_SAFE_def codes_def)
  then show "occurrences BEGIN_MARKER (safe_label u label) = 0" "occurrences END_MARKER (safe_label u label) = 0"
    using marker_facts(10,11) occurrences_foreign by blast+
qed

lemma no_marker_in_notice: "occurrences BEGIN_MARKER DATA_NOTICE = 0" "occurrences END_MARKER DATA_NOTICE = 0"
proof -
  have "60 \<notin> set DATA_NOTICE" by (simp add: DATA_NOTICE_def codes_def)
  then show "occurrences BEGIN_MARKER DATA_NOTICE = 0" "occurrences END_MARKER DATA_NOTICE = 0"
    using marker_facts(10,11) occurrences_foreign by blast+
qed

text \<open>A passage as the agents make one: a label of theirs, and the text of a source.\<close>

definition passage :: "unicode \<Rightarrow> codes \<times> codes \<times> codes \<Rightarrow> UntrustedPassage" where
  "passage u x = (case x of (label, raw, url) \<Rightarrow> \<lparr>up_label = label, up_text = untrusted_text u raw url\<rparr>)"

lemma passage_eq: "passage u (label, raw, url) = \<lparr>up_label = label, up_text = untrusted_text u raw url\<rparr>"
  by (simp add: passage_def)

lemma no_marker_in_body:
  assumes "m \<in> {BEGIN_MARKER, END_MARKER}"
  shows "occurrences m (join_codes [10, 10] (map (\<lambda>p. safe_label u (up_label p) @ [10] @ ut_value (up_text p)) (map (passage u) xs))) = 0"
proof -
  have m: "10 \<notin> set m" "m \<noteq> []" using assms marker_facts by auto
  have one: "occurrences m (safe_label u l @ 10 # ut_value (untrusted_text u raw url)) = 0" for l raw url
    using assms occurrences_newline[OF m] no_marker_in_label value_has_no_marker occurrences_none by auto
  show ?thesis
  proof (induction xs rule: induct_list012)
    case (2 x)
    then show ?case using one by (simp add: passage_def case_prod_beta)
  next
    case (3 x y xs)
    define rest where "rest = join_codes [10, 10] (map (\<lambda>p. safe_label u (up_label p) @ [10] @ ut_value (up_text p)) (map (passage u) (y # xs)))"
    obtain l raw url where x: "x = (l, raw, url)" by (cases x)
    define a where "a = safe_label u l @ 10 # ut_value (untrusted_text u raw url)"
    have "occurrences m (a @ 10 # 10 # rest) = occurrences m a + occurrences m rest"
      using occurrences_newline[OF m, of a "10 # rest"] occurrences_newline[OF m, of "[]" rest] by simp
    also have "\<dots> = 0" using one 3(2) unfolding a_def rest_def by simp
    finally show ?case by (simp add: a_def rest_def passage_eq x)
  qed simp
qed

text \<open>C31. Retrieved text cannot leave its data block.  Whatever the sources contain and whatever the labels say, a block of
  passages has its opening marker exactly once, right after the notice, and its closing marker exactly once, at the very
  end; so nothing of a source can stand outside the markers, or look as if it did.\<close>

theorem untrusted_text_stays_in_its_block:
  "occurrences BEGIN_MARKER (untrusted_block u (map (passage u) xs)) = (if xs = [] then 0 else 1)
   \<and> occurrences END_MARKER (untrusted_block u (map (passage u) xs)) = (if xs = [] then 0 else 1)
   \<and> (xs = [] \<or> prefix (DATA_NOTICE @ [10] @ BEGIN_MARKER @ [10]) (untrusted_block u (map (passage u) xs))
        \<and> suffix ([10] @ END_MARKER) (untrusted_block u (map (passage u) xs)))"
proof (cases "xs = []")
  case False
  define body where "body = join_codes [10, 10] (map (\<lambda>p. safe_label u (up_label p) @ [10] @ ut_value (up_text p)) (map (passage u) xs))"
  have block: "untrusted_block u (map (passage u) xs) = DATA_NOTICE @ 10 # BEGIN_MARKER @ 10 # body @ 10 # END_MARKER"
    using False by (simp add: untrusted_block_def body_def)
  have count: "occurrences m (untrusted_block u (map (passage u) xs))
      = occurrences m DATA_NOTICE + (occurrences m BEGIN_MARKER + (occurrences m body + occurrences m END_MARKER))"
    if "m \<in> {BEGIN_MARKER, END_MARKER}" for m
  proof -
    have m: "10 \<notin> set m" "m \<noteq> []" using that marker_facts by auto
    show ?thesis unfolding block by (simp only: occurrences_newline[OF m])
  qed
  have "occurrences m body = 0" if "m \<in> {BEGIN_MARKER, END_MARKER}" for m
    using no_marker_in_body[OF that] by (simp add: body_def)
  then show ?thesis
    using count[of BEGIN_MARKER] count[of END_MARKER] marker_counts no_marker_in_notice False
    by (simp add: block suffix_def)
qed (simp add: untrusted_block_def)

section \<open>What sanitising leaves\<close>

lemma set_remove_uris: "set (remove_uris w b s) \<subseteq> set s \<union> set (codes ''[removed-uri]'')"
proof (induction w b s rule: remove_uris.induct)
  case (2 word inside c s)
  show ?case
  proof (cases "if inside then None else scheme_length (c # s)")
    case None
    then show ?thesis using "2.IH"(1)[OF None] by auto
  next
    case (Some n)
    then show ?thesis using "2.IH"(2)[OF Some refl] by (auto simp: Let_def dest!: in_set_dropD)
  qed
qed simp

lemma set_trim_lines: "set (trim_lines s) \<subseteq> set s"
  by (induction s) auto

lemma set_limit_newlines: "set (limit_newlines k s) \<subseteq> set s"
  by (induction k s rule: limit_newlines.induct) auto

lemma trim_head: "take 1 (trim_lines s) = [10] \<Longrightarrow> take 1 (dropWhile blank_code s) = [10]"
  by (induction s) (auto simp: blank_code_def split: if_splits)

lemma trimmed: "blank_code b \<Longrightarrow> \<not> sublist [b, 10] (trim_lines s)"
proof (induction s)
  case (Cons c s)
  show ?case
  proof (cases "blank_code c \<and> take 1 (dropWhile blank_code s) = [10]")
    case False
    have "\<not> prefix [b, 10] (c # trim_lines s)"
    proof
      assume "prefix [b, 10] (c # trim_lines s)"
      then have "c = b" "take 1 (trim_lines s) = [10]" by (auto simp: prefix_def)
      then show False using trim_head[of s] False Cons.prems by simp
    qed
    moreover have "trim_lines (c # s) = c # trim_lines s" using False by auto
    ultimately show ?thesis using Cons by (simp only: sublist_Cons_right) blast
  qed (use Cons in simp)
qed simp

lemma limit_head: "take 1 (limit_newlines 0 s) = take 1 s"
  by (cases s) auto

lemma limit_keeps_lines: "b \<noteq> 10 \<Longrightarrow> sublist [b, 10] (limit_newlines k s) \<Longrightarrow> sublist [b, 10] s"
proof (induction k s rule: limit_newlines.induct)
  case (2 k c s)
  show ?case
  proof (cases "c = 10")
    case True
    then show ?thesis using 2 by (auto simp: sublist_Cons_right split: if_splits)
  next
    case False
    then consider "prefix [b, 10] (c # limit_newlines 0 s)" | "sublist [b, 10] (limit_newlines 0 s)"
      using "2.prems"(2) by (auto simp: sublist_Cons_right)
    then show ?thesis
    proof cases
      case 1
      then have "c = b" "take 1 s = [10]" using limit_head[of s] by (auto simp: prefix_def)
      then show ?thesis by (cases s) (auto simp: sublist_Cons_right)
    qed (use 2 False in \<open>simp add: sublist_Cons_right\<close>)
  qed
qed simp

lemma limited: "k \<le> 2 \<Longrightarrow> \<not> prefix (replicate (3 - k) 10) (limit_newlines k s) \<and> \<not> sublist [10, 10, 10] (limit_newlines k s)"
proof (induction k s rule: limit_newlines.induct)
  case (2 k c s)
  consider "c = 10" "k < 2" | "c = 10" "k = 2" | "c \<noteq> 10" using "2.prems" by linarith
  then show ?case
  proof cases
    case 1
    then have "\<not> prefix (replicate (3 - Suc k) 10) (limit_newlines (k + 1) s)" "\<not> sublist [10, 10, 10] (limit_newlines (k + 1) s)"
      using "2.IH"(1) by simp_all
    moreover have "replicate (3 - k) (10::nat) = 10 # replicate (3 - Suc k) 10" using 1 by (cases "3 - k") auto
    moreover have "\<not> prefix [10, 10] (limit_newlines (k + 1) s)"
      using calculation(1) 1(2) by (cases k) (auto simp: numeral_3_eq_3 prefix_def)
    ultimately show ?thesis using 1 by (auto simp: sublist_Cons_right)
  next
    case 2
    then show ?thesis using "2.IH"(2) by simp
  next
    case 3
    then show ?thesis using "2.IH"(3) "2.prems" by (cases "3 - k") (auto simp: sublist_Cons_right)
  qed
qed simp

lemma sublist_strip: "sublist (strip_codes s) s"
proof -
  have "suffix (dropWhile space_code s) s" by (rule suffix_dropWhile)
  moreover have "prefix (rev (dropWhile space_code (rev t))) t" for t
    using suffix_dropWhile[of space_code "rev t"] by (simp add: suffix_to_prefix)
  ultimately show ?thesis unfolding strip_codes_def
    by (meson prefix_imp_sublist suffix_imp_sublist sublist_order.order_trans)
qed

text \<open>
  Sanitised text holds no invisible, direction or tag character and no control character but tab and newline, no blank
  before a newline and no two empty lines in a row.
\<close>

lemma sanitized_text_is_clean:
  "list_all (\<lambda>c. \<not> invisible c \<and> \<not> tag_char c \<and> printable u c) (sanitize_text u s)
   \<and> \<not> sublist [32, 10] (sanitize_text u s) \<and> \<not> sublist [9, 10] (sanitize_text u s)
   \<and> \<not> sublist [10, 10, 10] (sanitize_text u s)"
proof (cases "s = []")
  case False
  define untagged where "untagged = filter (\<lambda>c. \<not> tag_char c) (filter (\<lambda>c. \<not> invisible c) (un_nfkc u s))"
  define plain where "plain = filter (printable u) (remove_uris (un_word u) False untagged)"
  define lines where "lines = limit_newlines 0 (trim_lines plain)"
  have out: "sanitize_text u s = strip_codes lines"
    using False by (simp add: sanitize_text_def Let_def lines_def plain_def untagged_def)
  have "\<not> invisible c \<and> \<not> tag_char c" if "c \<in> set (codes ''[removed-uri]'')" for c
    using that by (auto simp: codes_def invisible_def tag_char_def ZERO_WIDTH_def BIDI_def)
  then have "\<forall>c \<in> set plain. \<not> invisible c \<and> \<not> tag_char c \<and> printable u c"
    using set_remove_uris[of "un_word u" False untagged] by (auto simp: plain_def untagged_def)
  moreover have "set (strip_codes lines) \<subseteq> set plain"
    using strip_codes_subset[of lines] set_limit_newlines[of 0 "trim_lines plain"] set_trim_lines[of plain] unfolding lines_def by blast
  moreover have "\<not> sublist [b, 10] lines" if "blank_code b" for b
    using trimmed[OF that, of plain] limit_keeps_lines[of b 0 "trim_lines plain"] that by (auto simp: lines_def blank_code_def)
  moreover have "\<not> sublist [10, 10, 10] lines" using limited[of 0 "trim_lines plain"] by (simp add: lines_def)
  moreover have "sublist q (strip_codes lines) \<Longrightarrow> sublist q lines" for q
    using sublist_strip[of lines] by (rule sublist_order.order_trans[rotated])
  moreover have "blank_code 32" "blank_code 9" by (simp_all add: blank_code_def)
  ultimately show ?thesis unfolding out list_all_iff by blast
qed (simp add: sanitize_text_def)

section \<open>What is put together again, and what is not sanitised\<close>

definition plain_unicode :: unicode where
  "plain_unicode = \<lparr>un_nfkc = (\<lambda>s. s), un_major = (\<lambda>c. if c < 32 then CHR ''C'' else CHR ''L''),
     un_word = (\<lambda>c. (48 \<le> c \<and> c \<le> 57) \<or> (65 \<le> c \<and> c \<le> 90) \<or> (97 \<le> c \<and> c \<le> 122) \<or> c = 95)\<rparr>"

text \<open>A control character inside the name of a scheme hides it from the removal of links, and is removed afterwards.\<close>

lemma scheme_is_put_together:
  "sanitize_text plain_unicode (codes ''java'' @ [1] @ codes ''script:x'') = codes ''javascript:x''"
  by (simp add: sanitize_text_def plain_unicode_def codes_def invisible_def tag_char_def ZERO_WIDTH_def BIDI_def
      scheme_length_def SCHEMES_def fold_code_def uri_char_def space_code_def printable_def strip_codes_def blank_code_def Let_def)

text \<open>The address of a source stands in front of the opening marker as it is.\<close>

lemma address_can_hold_a_marker: "occurrences BEGIN_MARKER (for_prompt (untrusted_text u [] BEGIN_MARKER)) = 2"
proof -
  have "for_prompt (untrusted_text u [] BEGIN_MARKER)
      = DATA_NOTICE @ 10 # (codes ''Source: '' @ BEGIN_MARKER) @ 10 # BEGIN_MARKER @ 10 # [] @ 10 # END_MARKER"
    by (simp add: for_prompt_def untrusted_text_def sanitize_text_def)
  moreover have "occurrences BEGIN_MARKER (codes ''Source: '' @ BEGIN_MARKER) = 1" by (simp add: marker_defs)
  ultimately show ?thesis
    by (simp only: occurrences_newline[OF marker_facts(8,6)] no_marker_in_notice marker_counts occurrences.simps(1))
qed

end
