(* ===== verification/Spec2Isabelle.thy ===== *)
theory Spec2Isabelle
  imports GraphProperties GraphRounds GovernorProperties GatewayProperties
    WorkerProperties ReportProperties SecurityProperties CacheProperties Pagination
    EvidenceProperties RetrievalProperties FetchProperties UrlProperties SessionProperties SignOnProperties
    UntrustedProperties
begin

text \<open>
  A model of the core of Aether Research, the API and worker under \<open>src/apps/api/app\<close>, and the theorems
  that make it correct.

  \<^bold>\<open>The program.\<close>  A user asks a question; the API writes a row in the runs table and puts its id on a
  queue.  A worker process (\<open>workers/loop.py\<close>) reserves the id, claims the row with a conditional update
  (\<open>db/repositories/worker.py\<close>) and runs the research graph (\<open>agents/graph.py\<close>): a planner splits the
  question into subtasks, researchers work on them in parallel, extraction, deduplication, verification
  and contradiction detection turn sources into claims, a critic decides on another round, and an
  answerer, a synthesizer and a citation check end the run.  Every budget of a run is decided in
  \<open>agents/budget.py\<close>.  At each node boundary the worker renews its lease and writes the progress.  Every
  model call goes through the gateway (\<open>models/\<close>), which routes it, limits the calls in flight, retries,
  fails over and prices it, and through the response cache (\<open>cache/\<close>).  The citation check
  (\<open>agents/citations.py\<close>) judges the report, which \<open>reports/assembly.py\<close> turns into stored sections and
  citations.  In front of the API stand the rate limiter and the reading of the client's address
  (\<open>security/\<close>).

  \<^bold>\<open>Theories and code.\<close>  \<open>Prelude\<close> holds what the components share: decimal and binary rounding, insertion
  ordered dictionaries, text, error results.  \<open>OrderedDicts\<close> holds the bounded dictionaries of the two
  in-process stores.

  \<^item> \<open>Enums\<close> is \<open>core/enums.py\<close>; \<open>ResearchSchemas\<close> is \<open>research/schemas.py\<close>; \<open>GraphSchemas\<close> is
    \<open>agents/schemas.py\<close>, the Pydantic constraints as predicates.
  \<^item> \<open>GraphState\<close> is \<open>agents/state.py\<close>, the state and its reducers; \<open>Governor\<close> is \<open>agents/budget.py\<close>;
    \<open>ResearchGraph\<close> is \<open>agents/graph.py\<close>: one function per node, one per routing function, and the compiled
    graph as the step relation \<open>superstep\<close>.  \<open>GraphInvariants\<close> has the invariants the steps preserve,
    \<open>GraphRuns\<close> the bounds of whole runs, \<open>GraphDriver\<close> an executable run, from which the witnesses take
    their states.  \<open>GraphProperties\<close>, \<open>GraphRounds\<close> and \<open>GovernorProperties\<close> state their
    properties.
  \<^item> \<open>ModelRegistry\<close>, \<open>ModelRouting\<close>, \<open>ModelBudget\<close>, \<open>ModelGateway\<close> and \<open>ModelStreams\<close> are \<open>models/\<close>: the
    declared models, the chain of candidates, the ledger of a run, one operation over the chain, streamed
    text, embeddings and the limiter.  \<open>GatewayProperties\<close> states their properties.
  \<^item> \<open>WorkerLifecycle\<close> is the runs table as \<open>db/repositories/worker.py\<close> updates it; \<open>WorkerLeases\<close> is the
    lease of a run as an abstract machine (free, taken, ended) and the refinement of it; \<open>WorkerProgress\<close>
    is \<open>workers/progress.py\<close>; \<open>WorkerExecutor\<close> is \<open>workers/worker.py\<close>, \<open>workers/queue.py\<close> and the worker
    settings; \<open>WorkerLoop\<close> is \<open>workers/loop.py\<close>, a transition system over the worker, the queue and the
    table, with its slots accounted for (\<open>reachable_inv\<close>); \<open>RunHistory\<close> is a run's row as the requests on it
    leave it (\<open>research/service.py\<close>): a cancellation reads the row and writes it later, with the table's other
    operations in between.  \<open>WorkerProperties\<close> states theirs.
  \<^item> \<open>Catalogs\<close> is \<open>agents/catalog.py\<close>; \<open>Citations\<close> is \<open>agents/citations.py\<close>; \<open>ReportAssembly\<close> is
    \<open>reports/assembly.py\<close> and what \<open>agents/synthesis.py\<close> reads of a written section; \<open>ReportRecords\<close>
    relates an assembled report to its draft (the text without its markers, the citation each marker
    stands for).  \<open>ReportProperties\<close> states their properties.
  \<^item> \<open>RateLimit\<close> is \<open>security/ratelimit.py\<close> and \<open>security/forwarded.py\<close>, with the token bucket both stores
    refine; each request to Redis has the caller's clock and the server's, and may be answered, not sent, or run
    with its answer lost; \<open>SecurityProperties\<close> states theirs.
  \<^item> \<open>AuthTokens\<close>, \<open>AuthStore\<close> and \<open>AuthSessions\<close> are \<open>auth/\<close> and the tables of \<open>db/models/user.py\<close>: access tokens
    and the index of revoked sessions (the locale \<open>revocation_store\<close>, interpreted by both stores of the code), the
    statements of the repositories, the session service and the caller of a request.  A deployment is a \<open>World\<close> that
    \<open>serve\<close> takes from request to request; a renewal is two of them, for its lookup and its update may be apart.
    \<open>SessionProperties\<close> states what every sequence of requests keeps.
  \<^item> \<open>AuthAccounts\<close> is \<open>auth/passwords.py\<close>, \<open>auth/service.py\<close> and \<open>auth/federation.py\<close>; \<open>SignOn\<close> is
    \<open>api/v1/sso.py\<close>, with browsers that leave for a provider and return as the steps of \<open>browse\<close>.
    \<open>AccountProperties\<close> and \<open>SignOnProperties\<close> state theirs.
  \<^item> \<open>ResponseCache\<close> is \<open>cache/\<close>: keys, backends, entries, and callers who share one load as a transition
    system over a codec that may change with the key.  Its backend is the locale \<open>cache_backend\<close>, interpreted by both backends of the code.
    \<open>CacheProperties\<close> states what callers of the cache get.
  \<^item> \<open>Texts\<close> holds word splitting and grouping shared by reports and evidence.  \<open>Deduplication\<close> is
    \<open>evidence/dedup.py\<close>: the union-find with its path halving, and the links it must join;
    \<open>EvidenceProperties\<close> shows that it joins exactly those.
  \<^item> \<open>Chunking\<close> is \<open>retrieval/chunking.py\<close> with the page spans of \<open>retrieval/parsed.py\<close>; \<open>Ranking\<close> is
    \<open>retrieval/fusion.py\<close>, \<open>rerank.py\<close>, \<open>query.py\<close>, \<open>results.py\<close> and \<open>retriever.py\<close>, and
    \<open>RankingReference\<close> the textbook form of the reranker.  \<open>RetrievalProperties\<close> states their properties.
  \<^item> \<open>IpAddresses\<close>, \<open>Urls\<close> and \<open>SafeFetch\<close> are \<open>sources/urls.py\<close> and \<open>sources/http.py\<close>: the tables and parsers of
    \<open>ipaddress\<close>, \<open>urlsplit\<close> and the policy on a URL, the one HTTP client with its manual redirects.
    \<open>AddressProperties\<close> reads the tables as intervals, \<open>AddressSpellings\<close> specifies what \<open>inet_aton\<close> accepts,
    \<open>UrlProperties\<close> and \<open>FetchProperties\<close> state the properties of the guard.
  \<^item> \<open>Untrusted\<close> is \<open>sources/sanitize.py\<close> and \<open>sources/untrusted.py\<close>, over code points; \<open>UntrustedProperties\<close> shows
    that retrieved text stays in its data block.
  \<^item> \<open>Pagination\<close> is \<open>core/pagination.py\<close> with UTF-8 and Base64, and its property.

  \<^bold>\<open>How state corresponds.\<close>  A frozen dataclass or Pydantic model is a record with the source's fields, an
  enumeration a datatype, \<open>None\<close> an option.  Python's integers are \<open>int\<close>, or \<open>nat\<close> where a constraint of
  the source keeps them from below; floats are reals, with \<open>round\<close> written out as rounding half to even,
  so that the rounding error of the hardware is not modelled.  Dictionaries whose order shows are association
  lists with distinct keys, the others maps.  Text is a list of characters of the first 256 code points;
  cursors, which carry any text, are over code points.  An exception is a value of a sum type or a
  constructor of the component's result.  A coroutine that interleaves with others is an inductive step
  relation whose transitions run from one await to the next.  Awaited services that may fail take a
  parameter that says whether they do.

  \<^bold>\<open>What the lemmas show.\<close>  Of the graph: every reachable state is well formed and within its budget, a
  finished run has a checked report, a cancelled or stopped run does no more work, and a run ends
  within the recursion limit the code hands to the graph library.  Of the gateway: the chain of a role is what its tiers
  declare in order,
  an operation is bounded, each further attempt is justified by the failure before it, the spend that is enforced is
  the ledger's, and embeddings come back in place.  Of the workers: the lease is refined by the conditional
  updates, a worker that lost its run cannot write to it, no run is lost, a failing run ends, and the
  progress bar falls only where it is said to.  Of reports: the check is exact, and what is stored cites
  what the run has and changes nothing else of the draft.  Of the edges: the rate holds under every interleaving
  of the keys, the two stores agree, a refusal is honest about
  when to come back, the client does not choose its address, the cache repeats loaders, and cursors come back.
  Of sessions: a refresh token is exchanged once whatever races, a session that was signed out or whose token was
  replayed stays out, nobody exceeds the ceiling of sessions, and a fresh token identifies who signed in.
  Of accounts: a password or a provider's claims open the account they belong to and no other, every refused password
  looks alike, and a single sign-on completes once what was begun in the same browser.
  Of evidence and retrieval: corroboration is counted in connected components, chunks cover the document
  and name the pages they touch, fusion and reranking compute their formulas, and a hybrid retrieval says where each chunk came from.
  Of the fetcher: only approved URLs at unblocked addresses are requested, at every hop, what is returned is
  the whole body of an unbroken answer, and a blocked address is refused however it is spelled.  Of untrusted
  text: no source and no label can close or reopen the data block.
  Some lemmas record behaviour that differs from what a comment or document promises; each is
  named for what happens: \<open>failed_attempt_adds_no_spend\<close>, \<open>streamed_cut\<close>,
  \<open>crashing_run_is_claimed_forever\<close>, \<open>lost_run_is_still_announced\<close>, \<open>bar_goes_backwards_on_a_repair\<close>,
  \<open>headers_follow_redirects\<close>, \<open>evicted_session_still_answers\<close>, \<open>strange_state_raises\<close>,
  \<open>linked_subject_is_refused\<close>, \<open>unreadable_url_raises\<close>, \<open>scheme_is_put_together\<close>, \<open>address_can_hold_a_marker\<close>, \<open>cancellation_overwrites_a_finished_run\<close>, \<open>first_of_adjacent_markers_is_not_read\<close>,
  \<open>replicas_taking_turns\<close> and \<open>long_header_is_believed\<close>.

  \<^bold>\<open>Bounds and fuel.\<close>  The step relations need no fuel.  \<open>GraphDriver\<close> runs the graph with fuel; the recursion
  limit of the code is enough for any run.  The search for the root of a source may not end on a cyclic
  forest and is a partial function; clustering is shown never to build one.  All other
  recursion is structural or has a measure.

  \<^bold>\<open>Parameters.\<close>  The agents (any function of the state within the schemas), model providers (the outcome of
  each attempt), the clock, the cancellation probe, signing and checking a JWT, Argon2, identity providers, SHA-256, UUID5, the tables of Unicode, JSON and the stored codecs, the parser of
  IP addresses in forwarded headers, what resolvers and servers answer at each hop, the formatting of dates and two characters past the first 256.  The database is the list
  of rows of a table, an update one atomic step, as a single conditional \<open>UPDATE\<close> is.

  \<^bold>\<open>Not modelled.\<close>  FastAPI routes and dependencies, SQL and migrations, the Redis and HTTP clients, prompts and
  their rendering, LangGraph's checkpointing, event streams, metrics, logging and settings other than the
  workers': I/O or declarations.  Parsing, storing and embedding documents are I/O around libraries.
  An error record whose message is empty, which its schema refuses, is not told apart from the others
  (\<open>node_error\<close>).  Of a model call, exceptions other than the gateway's own errors and timeouts, and the
  cancellation of the task, are left out (\<open>invocation\<close>, \<open>perform\<close>): they leave the retry loop at once.  A
  sign-in is one step, although the code revokes the oldest sessions and inserts the new one in two
  statements of a transaction; the index of revoked sessions is always reachable.  Of the cache, an expired
  entry's read and deletion are one step, and so are a store and the end of the flight that made it.
  Redis loses rate limit buckets by expiry only.
  Evaluation metrics and the statistics of the load test hold logic of their own and are the next parts to model.
\<close>

end
